(* ===== verification/Prelude.thy ===== *)
theory Prelude
  imports Main "HOL-Library.Word"
begin

text \<open>
  Shared vocabulary of the development: the outcomes a modelled C function can have, the
  fact collections the component theories extend, and generic lemmas on lists.

  A C function that reads or writes memory it does not own has no defined behaviour. The
  model makes this a value: the left injection of \<open>'a cres\<close>. Every other outcome, the
  error returns of the code included, is a right injection.
\<close>

section \<open>Outcomes of a C function\<close>

datatype cerr =
    OutOfBounds     \<comment> \<open>access outside an array\<close>
  | NullDeref       \<comment> \<open>a NULL pointer handed to a string function or dereferenced\<close>
  | UseAfterFree    \<comment> \<open>a pointer to memory that was freed or never allocated\<close>
  | NoVarArg        \<comment> \<open>\<open>va_arg\<close> past the arguments that were passed\<close>

type_synonym 'a cres = "cerr + 'a"

primrec bind_res :: "'a cres \<Rightarrow> ('a \<Rightarrow> 'b cres) \<Rightarrow> 'b cres" where
  "bind_res (Inl e) f = Inl e"
| "bind_res (Inr x) f = f x"

definition ok_res :: "'a cres \<Rightarrow> bool" where
  "ok_res r \<longleftrightarrow> (case r of Inl _ \<Rightarrow> False | Inr _ \<Rightarrow> True)"

lemma ok_res_simps [simp]: "ok_res (Inr x)" "\<not> ok_res (Inl e)"
  by (simp_all add: ok_res_def)

text \<open>Sequencing of calls that may also not return (\<open>None\<close>).\<close>

definition and_then :: "'a cres option \<Rightarrow> ('a \<Rightarrow> 'b cres option) \<Rightarrow> 'b cres option" where
  "and_then m f = (case m of
     None \<Rightarrow> None
   | Some (Inl e) \<Rightarrow> Some (Inl e)
   | Some (Inr x) \<Rightarrow> f x)"

lemma and_then_simps [simp]:
  "and_then None f = None" "and_then (Some (Inl e)) f = Some (Inl e)" "and_then (Some (Inr x)) f = f x"
  by (simp_all add: and_then_def)

lemma and_then_Inr:
  "and_then m f = Some (Inr y) \<longleftrightarrow> (\<exists>x. m = Some (Inr x) \<and> f x = Some (Inr y))"
  by (auto simp: and_then_def split: option.splits sum.splits)

lemma bind_res_eq_Inr:
  "bind_res m f = Inr y \<longleftrightarrow> (\<exists>x. m = Inr x \<and> f x = Inr y)"
  by (cases m) auto

named_theorems clib "equations of the C library functions"
named_theorems step_simps "equations that run one step of a component"

section \<open>Arrays\<close>

text \<open>\<open>xs[i] = f(xs[i])\<close> on an array of \<open>length xs\<close> elements.\<close>

definition array_upd :: "'a list \<Rightarrow> nat \<Rightarrow> ('a \<Rightarrow> 'a) \<Rightarrow> 'a list cres" where
  "array_upd xs i f = (if i < length xs then Inr (xs[i := f (xs ! i)]) else Inl OutOfBounds)"

definition array_get :: "'a list \<Rightarrow> nat \<Rightarrow> 'a cres" where
  "array_get xs i = (if i < length xs then Inr (xs ! i) else Inl OutOfBounds)"

lemma array_upd_in [simp]: "i < length xs \<Longrightarrow> array_upd xs i f = Inr (xs[i := f (xs ! i)])"
  by (simp add: array_upd_def)

lemma array_upd_out [simp]: "length xs \<le> i \<Longrightarrow> array_upd xs i f = Inl OutOfBounds"
  by (simp add: array_upd_def)

lemma array_upd_length: "array_upd xs i f = Inr ys \<Longrightarrow> length ys = length xs"
  by (auto simp: array_upd_def split: if_splits)

lemma array_get_in [simp]: "i < length xs \<Longrightarrow> array_get xs i = Inr (xs ! i)"
  by (simp add: array_get_def)

lemma array_get_out [simp]: "length xs \<le> i \<Longrightarrow> array_get xs i = Inl OutOfBounds"
  by (simp add: array_get_def)

section \<open>Lists\<close>

lemma takeWhile_dropWhile_tl_shorter:
  "dropWhile P xs \<noteq> [] \<Longrightarrow> length (tl (dropWhile Q (dropWhile P xs))) < length xs"
proof -
  assume ne: "dropWhile P xs \<noteq> []"
  then have "0 < length (dropWhile P xs)" by simp
  moreover have "length (dropWhile Q (dropWhile P xs)) \<le> length (dropWhile P xs)"
    by (rule length_dropWhile_le)
  moreover have "length (dropWhile P xs) \<le> length xs"
    by (rule length_dropWhile_le)
  ultimately show ?thesis
    unfolding length_tl by linarith
qed

lemma takeWhile_stop:
  "\<forall>x\<in>set xs. P x \<Longrightarrow> \<not> P y \<Longrightarrow> takeWhile P (xs @ y # ys) = xs"
  by (induction xs) auto

lemma dropWhile_stop:
  "\<forall>x\<in>set xs. P x \<Longrightarrow> \<not> P y \<Longrightarrow> dropWhile P (xs @ y # ys) = y # ys"
  by (induction xs) auto

lemma takeWhile_all: "\<forall>x\<in>set xs. P x \<Longrightarrow> takeWhile P xs = xs"
  by (induction xs) auto

lemma dropWhile_all: "\<forall>x\<in>set xs. P x \<Longrightarrow> dropWhile P xs = []"
  by (induction xs) auto

definition upd_last :: "('a \<Rightarrow> 'a) \<Rightarrow> 'a list \<Rightarrow> 'a list" where
  "upd_last f xs = (if xs = [] then [] else butlast xs @ [f (last xs)])"

lemma upd_last_simps [simp]: "upd_last f [] = []" "upd_last f (xs @ [x]) = xs @ [f x]"
  by (simp_all add: upd_last_def)

end
