(* ===== verification/CLib.thy ===== *)
theory CLib
  imports Prelude
begin

text \<open>
  The functions of the C library that the sources use on strings. A C string is a
  \<open>string\<close> without its terminating NUL; a \<open>char *\<close> that may be NULL is a
  \<open>string option\<close>. The character classes are those of the C locale.
\<close>

section \<open>Comparison\<close>

text \<open>\<open>strcmp\<close>: only the sign of the result is fixed by the C standard; the model
  returns -1, 0 or 1, and compares characters as unsigned bytes.\<close>

fun strcmp :: "string \<Rightarrow> string \<Rightarrow> int" where
  "strcmp [] [] = 0"
| "strcmp [] (y # ys) = - 1"
| "strcmp (x # xs) [] = 1"
| "strcmp (x # xs) (y # ys) =
     (if x = y then strcmp xs ys
      else if (of_char x :: nat) < of_char y then - 1 else 1)"

definition strncmp :: "string \<Rightarrow> string \<Rightarrow> nat \<Rightarrow> int" where
  "strncmp s t n = strcmp (take n s) (take n t)"

lemma strcmp_eq_0 [simp, clib]: "strcmp s t = 0 \<longleftrightarrow> s = t"
  by (induction s t rule: strcmp.induct) auto

lemma strncmp_eq_0 [clib]: "strncmp s t n = 0 \<longleftrightarrow> take n s = take n t"
  by (simp add: strncmp_def)

section \<open>Character classes\<close>

definition isspace :: "char \<Rightarrow> bool" where
  "isspace c \<longleftrightarrow> c \<in> {CHR '' '', CHR 0x09, CHR 0x0A, CHR 0x0B, CHR 0x0C, CHR 0x0D}"

definition isdigit :: "char \<Rightarrow> bool" where
  "isdigit c \<longleftrightarrow> (48::nat) \<le> of_char c \<and> of_char c \<le> (57::nat)"

definition toupper :: "char \<Rightarrow> char" where
  "toupper c = (if (97::nat) \<le> of_char c \<and> of_char c \<le> (122::nat)
                then char_of (of_char c - 32 :: nat) else c)"

definition tolower :: "char \<Rightarrow> char" where
  "tolower c = (if (65::nat) \<le> of_char c \<and> of_char c \<le> (90::nat)
                then char_of (of_char c + 32 :: nat) else c)"

lemma toupper_idem [simp]: "toupper (toupper c) = toupper c"
  by (auto simp: toupper_def)

lemma tolower_idem [simp]: "tolower (tolower c) = tolower c"
  by (auto simp: tolower_def)

section \<open>Copying and appending\<close>

text \<open>\<open>strncat(dst, src, n)\<close> on the strings: at most \<open>n\<close> characters of \<open>src\<close>.\<close>

definition strncat :: "string \<Rightarrow> string \<Rightarrow> nat \<Rightarrow> string" where
  "strncat dst src n = dst @ take n src"

text \<open>The string a NUL-terminated prefix of an array holds.\<close>

definition cstr :: "char list \<Rightarrow> string" where
  "cstr b = takeWhile (\<lambda>c. c \<noteq> CHR 0x00) b"

lemma cstr_stop [simp]: "CHR 0x00 \<notin> set s \<Longrightarrow> cstr (s @ CHR 0x00 # t) = s"
  by (auto simp: cstr_def intro: takeWhile_stop)

lemma length_strncat_le: "length (strncat dst src n) \<le> length dst + n"
  by (simp add: strncat_def)

section \<open>Tokens\<close>

text \<open>
  One call of \<open>strtok\<close>: the next token and the text that the following call with NULL
  starts from; \<open>None\<close> when only delimiters are left.
\<close>

definition strtok :: "string \<Rightarrow> string \<Rightarrow> (string \<times> string) option" where
  "strtok delim s =
     (let s' = dropWhile (\<lambda>c. c \<in> set delim) s in
      if s' = [] then None
      else Some (takeWhile (\<lambda>c. c \<notin> set delim) s', tl (dropWhile (\<lambda>c. c \<notin> set delim) s')))"

lemma strtok_shorter: "strtok delim s = Some (t, r) \<Longrightarrow> length r < length s"
  using takeWhile_dropWhile_tl_shorter [of "\<lambda>c. c \<in> set delim" s "\<lambda>c. c \<notin> set delim"]
  by (fastforce simp: strtok_def Let_def split: if_splits)

lemma strtok_Nil [simp]: "strtok delim [] = None"
  by (simp add: strtok_def)

lemma strtok_first [clib]:
  assumes "t \<noteq> []" and "\<forall>c\<in>set t. c \<notin> set delim" and "d \<in> set delim"
  shows "strtok delim (t @ d # r) = Some (t, r)"
proof -
  from assms obtain x xs where t: "t = x # xs" and x: "x \<notin> set delim"
    by (cases t) auto
  have "takeWhile (\<lambda>c. c \<notin> set delim) (t @ d # r) = t"
    using assms by (intro takeWhile_stop) auto
  moreover have "dropWhile (\<lambda>c. c \<notin> set delim) (t @ d # r) = d # r"
    using assms by (intro dropWhile_stop) auto
  ultimately show ?thesis
    using t x by (simp add: strtok_def Let_def)
qed

lemma strtok_last [clib]:
  assumes "t \<noteq> []" and "\<forall>c\<in>set t. c \<notin> set delim"
  shows "strtok delim t = Some (t, [])"
proof -
  from assms obtain x xs where t: "t = x # xs" and x: "x \<notin> set delim"
    by (cases t) auto
  have "takeWhile (\<lambda>c. c \<notin> set delim) t = t" "dropWhile (\<lambda>c. c \<notin> set delim) t = []"
    using assms by (auto intro: takeWhile_all dropWhile_all)
  then show ?thesis
    using t x by (simp add: strtok_def Let_def del: dropWhile_eq_Nil_conv)
qed

section \<open>Searching\<close>

text \<open>\<open>strstr(s, p)\<close>: the text before the first occurrence of \<open>p\<close> and the text after it.\<close>

fun strstr :: "string \<Rightarrow> string \<Rightarrow> (string \<times> string) option" where
  "strstr s p =
     (if take (length p) s = p then Some ([], drop (length p) s)
      else case s of [] \<Rightarrow> None
           | c # cs \<Rightarrow> map_option (\<lambda>(a, b). (c # a, b)) (strstr cs p))"

declare strstr.simps [simp del]

lemma strstr_split: "strstr s p = Some (a, b) \<Longrightarrow> s = a @ p @ b"
proof (induction s p arbitrary: a b rule: strstr.induct)
  case (1 s p)
  show ?case
  proof (cases "take (length p) s = p")
    case True
    then have "a = []" and "b = drop (length p) s"
      using "1.prems" by (simp_all add: strstr.simps [of s p])
    with True show ?thesis by (metis append_Nil append_take_drop_id)
  next
    case False
    with "1.prems" obtain c cs a' where "s = c # cs" "strstr cs p = Some (a', b)" "a = c # a'"
      by (auto simp: strstr.simps [of s p] split: list.splits)
    with "1.IH" False show ?thesis by simp
  qed
qed

lemma strstr_None_iff: "strstr s p = None \<longleftrightarrow> (\<nexists>a b. s = a @ p @ b)"
proof (induction s p rule: strstr.induct)
  case (1 s p)
  show ?case
  proof (cases "take (length p) s = p")
    case True
    then have "s = [] @ p @ drop (length p) s" by (metis append_Nil append_take_drop_id)
    moreover have "strstr s p \<noteq> None" using True by (simp add: strstr.simps [of s p])
    ultimately show ?thesis by blast
  next
    case F: False
    show ?thesis
    proof (cases s)
      case Nil
      with F show ?thesis by (auto simp: strstr.simps [of "[]" p])
    next
      case (Cons c cs)
      have "(\<exists>a b. s = a @ p @ b) \<longleftrightarrow> (\<exists>a b. cs = a @ p @ b)"
        using F Cons by (metis append_Cons append_Nil append_eq_conv_conj hd_append2 list.sel(3) tl_append2)
      moreover have "strstr s p = None \<longleftrightarrow> strstr cs p = None"
        using F Cons by (simp add: strstr.simps [of "c # cs" p])
      ultimately show ?thesis using "1.IH" [OF F Cons] by simp
    qed
  qed
qed

section \<open>Numbers\<close>

text \<open>
  \<open>atoi\<close> is \<open>(int) strtol(s, NULL, 10)\<close>: leading blanks, an optional sign, then
  the longest run of digits, saturated to 64 bits and cut to 32.
\<close>

definition digit_val :: "char \<Rightarrow> int" where
  "digit_val c = int (of_char c) - 48"

definition decimal :: "string \<Rightarrow> int" where
  "decimal ds = foldl (\<lambda>a c. 10 * a + digit_val c) 0 ds"

definition strtol :: "string \<Rightarrow> int" where
  "strtol s =
     (let s1 = dropWhile isspace s;
          neg = (s1 \<noteq> [] \<and> hd s1 = CHR ''-'');
          s2 = (if s1 \<noteq> [] \<and> hd s1 \<in> {CHR ''-'', CHR ''+''} then tl s1 else s1);
          v = decimal (takeWhile isdigit s2)
      in max (- (2 ^ 63)) (min (2 ^ 63 - 1) (if neg then - v else v)))"

definition atoi :: "string \<Rightarrow> int" where
  "atoi s = signed_take_bit 31 (strtol s)"

text \<open>\<open>%d\<close> of \<open>printf\<close>.\<close>

fun show_nat :: "nat \<Rightarrow> string" where
  "show_nat n = (if n < 10 then [] else show_nat (n div 10)) @ [char_of (48 + n mod 10)]"

declare show_nat.simps [simp del]

definition show_int :: "int \<Rightarrow> string" where
  "show_int i = (if i < 0 then CHR ''-'' # show_nat (nat (- i)) else show_nat (nat i))"

lemma digit_char:
  assumes "d < 10"
  shows "isdigit (char_of (48 + d))" and "digit_val (char_of (48 + d)) = int d"
proof -
  have "d \<in> {0, 1, 2, 3, 4, 5, 6, 7, 8, 9}" using assms by (simp, arith)
  then show "isdigit (char_of (48 + d))" and "digit_val (char_of (48 + d)) = int d"
    by (auto simp: isdigit_def digit_val_def)
qed

lemma show_nat_digits: "c \<in> set (show_nat n) \<Longrightarrow> isdigit c"
proof (induction n rule: show_nat.induct)
  case (1 n)
  then show ?case
    using digit_char(1) [of "n mod 10"]
    by (auto simp: show_nat.simps [of n] split: if_splits)
qed

lemma show_nat_nonempty [simp]: "show_nat n \<noteq> []"
  by (simp add: show_nat.simps [of n])

lemma decimal_snoc: "decimal (ds @ [c]) = 10 * decimal ds + digit_val c"
  by (simp add: decimal_def)

lemma decimal_show_nat: "decimal (show_nat n) = int n"
proof (induction n rule: show_nat.induct)
  case (1 n)
  have d: "digit_val (char_of (48 + n mod 10)) = int (n mod 10)"
    by (rule digit_char(2)) simp
  show ?case
  proof (cases "n < 10")
    case True
    with d show ?thesis by (simp add: show_nat.simps [of n] decimal_def)
  next
    case False
    with "1.IH" have "decimal (show_nat (n div 10)) = int (n div 10)" by simp
    with False d have "decimal (show_nat n) = 10 * int (n div 10) + int (n mod 10)"
      by (simp only: show_nat.simps [of n] decimal_snoc if_False)
    also have "\<dots> = int n" by presburger
    finally show ?thesis .
  qed
qed

lemma isdigit_not_space: "isdigit c \<Longrightarrow> \<not> isspace c \<and> c \<noteq> CHR ''-'' \<and> c \<noteq> CHR ''+''"
  by (auto simp: isdigit_def isspace_def)

lemma strtol_digits:
  assumes "ds \<noteq> []" and "\<forall>c\<in>set ds. isdigit c"
  shows "strtol ds = max (- (2 ^ 63)) (min (2 ^ 63 - 1) (decimal ds))"
proof -
  obtain x xs where ds: "ds = x # xs" using assms(1) by (cases ds) auto
  with assms(2) have x: "\<not> isspace x" "x \<noteq> CHR ''-''" "x \<noteq> CHR ''+''"
    by (auto dest: isdigit_not_space)
  have "takeWhile isdigit ds = ds" using assms(2) by (rule takeWhile_all)
  with ds x show ?thesis by (simp add: strtol_def Let_def)
qed

text \<open>Printing a non-negative \<open>int\<close> and reading it back is the identity.\<close>

lemma atoi_show_nat: "n < 2 ^ 31 \<Longrightarrow> atoi (show_nat n) = int n"
proof -
  assume n: "n < 2 ^ 31"
  have "strtol (show_nat n) = max (- (2 ^ 63)) (min (2 ^ 63 - 1) (int n))"
    using strtol_digits [of "show_nat n"] show_nat_digits decimal_show_nat by simp
  also have "\<dots> = int n" using n by simp
  finally have "strtol (show_nat n) = int n" .
  moreover have "signed_take_bit 31 (int n) = int n"
    using n by (intro signed_take_bit_int_eq_self) simp_all
  ultimately show ?thesis by (simp add: atoi_def)
qed

lemma atoi_show_int: "0 \<le> i \<Longrightarrow> i < 2 ^ 31 \<Longrightarrow> atoi (show_int i) = i"
  using atoi_show_nat [of "nat i"] by (simp add: show_int_def)

end
