(* ===== verification/Regex.thy ===== *)
theory Regex
  imports Prelude
begin

text \<open>
  The POSIX extended regular expressions the sources hand to \<open>regcomp\<close>, as terms, and
  \<open>regexec\<close> as an executable search. Matching is by derivatives; \<open>rx_match_lang\<close>
  shows that it decides the language of the expression. \<open>regexec\<close> follows
  \<open>REG_EXTENDED | REG_NEWLINE\<close>: the anchors also match at a newline.
\<close>

datatype rx =
    Zero
  | Eps
  | Cls "char list"
  | Alt rx rx
  | Cat rx rx
  | Star rx
  | Rep rx nat nat        \<comment> \<open>\<open>r{m,n}\<close>\<close>

section \<open>Language\<close>

definition conc :: "string set \<Rightarrow> string set \<Rightarrow> string set" where
  "conc A B = {u @ v | u v. u \<in> A \<and> v \<in> B}"

primrec lpow :: "string set \<Rightarrow> nat \<Rightarrow> string set" where
  "lpow A 0 = {[]}"
| "lpow A (Suc n) = conc A (lpow A n)"

primrec lang :: "rx \<Rightarrow> string set" where
  "lang Zero = {}"
| "lang Eps = {[]}"
| "lang (Cls cs) = (\<lambda>c. [c]) ` set cs"
| "lang (Alt r s) = lang r \<union> lang s"
| "lang (Cat r s) = conc (lang r) (lang s)"
| "lang (Star r) = (\<Union>k. lpow (lang r) k)"
| "lang (Rep r m n) = (\<Union>k \<in> {m..n}. lpow (lang r) k)"

section \<open>Derivatives\<close>

primrec nullable :: "rx \<Rightarrow> bool" where
  "nullable Zero = False"
| "nullable Eps = True"
| "nullable (Cls cs) = False"
| "nullable (Alt r s) = (nullable r \<or> nullable s)"
| "nullable (Cat r s) = (nullable r \<and> nullable s)"
| "nullable (Star r) = True"
| "nullable (Rep r m n) = (m \<le> n \<and> (m = 0 \<or> nullable r))"

primrec deriv :: "char \<Rightarrow> rx \<Rightarrow> rx" where
  "deriv c Zero = Zero"
| "deriv c Eps = Zero"
| "deriv c (Cls cs) = (if c \<in> set cs then Eps else Zero)"
| "deriv c (Alt r s) = Alt (deriv c r) (deriv c s)"
| "deriv c (Cat r s) =
     (if nullable r then Alt (Cat (deriv c r) s) (deriv c s) else Cat (deriv c r) s)"
| "deriv c (Star r) = Cat (deriv c r) (Star r)"
| "deriv c (Rep r m n) =
     (if n = 0 \<or> n < m then Zero else Cat (deriv c r) (Rep r (m - 1) (n - 1)))"

fun rx_match :: "rx \<Rightarrow> string \<Rightarrow> bool" where
  "rx_match r [] = nullable r"
| "rx_match r (c # cs) = rx_match (deriv c r) cs"

section \<open>Correctness\<close>

lemma Nil_in_conc: "[] \<in> conc A B \<longleftrightarrow> [] \<in> A \<and> [] \<in> B"
  by (auto simp: conc_def)

lemma Cons_in_conc:
  "c # w \<in> conc A B \<longleftrightarrow> w \<in> conc {v. c # v \<in> A} B \<or> ([] \<in> A \<and> c # w \<in> B)"
  by (auto simp: conc_def Cons_eq_append_conv)

lemma Nil_in_lpow: "[] \<in> lpow A k \<longleftrightarrow> k = 0 \<or> [] \<in> A"
  by (induction k) (auto simp: Nil_in_conc)

lemma nullable_lang: "nullable r \<longleftrightarrow> [] \<in> lang r"
  by (induction r) (auto simp: Nil_in_conc Nil_in_lpow intro: exI [of _ 0])

lemma conc_mono: "A \<subseteq> A' \<Longrightarrow> B \<subseteq> B' \<Longrightarrow> conc A B \<subseteq> conc A' B'"
  by (auto simp: conc_def)

lemma lpow_grow: "[] \<in> A \<Longrightarrow> lpow A k \<subseteq> lpow A (Suc k)"
  by (auto simp: conc_def intro: exI [of _ "[]"])

lemma lpow_mono: "[] \<in> A \<Longrightarrow> j \<le> k \<Longrightarrow> lpow A j \<subseteq> lpow A k"
  using lpow_grow [of A] by (induction k) (auto simp: le_Suc_eq simp del: lpow.simps)

text \<open>The tail of a word of \<open>A ^ (k+1)\<close> that starts with \<open>c\<close>: one factor gives the
  \<open>c\<close>, at most \<open>k\<close> follow it, and exactly \<open>k\<close> will do.\<close>

lemma Cons_in_lpow_Suc:
  "c # w \<in> lpow A (Suc k) \<longleftrightarrow> w \<in> conc {v. c # v \<in> A} (lpow A k)"
proof (induction k)
  case 0
  show ?case by (simp only: lpow.simps Cons_in_conc) simp
next
  case (Suc k)
  have "w \<in> conc {v. c # v \<in> A} (lpow A (Suc k))" if "[] \<in> A" "c # w \<in> lpow A (Suc k)"
    using that Suc conc_mono [OF order_refl lpow_grow] by blast
  then show ?case
    unfolding lpow.simps(2) [of A "Suc k"] Cons_in_conc [of c w A] by blast
qed

lemma conc_UN: "conc A (\<Union>k\<in>K. B k) = (\<Union>k\<in>K. conc A (B k))"
  by (auto simp: conc_def)

lemma ex_Suc_interval:
  "(\<exists>k. m \<le> Suc k \<and> Suc k \<le> n \<and> P k) \<longleftrightarrow>
     0 < n \<and> m \<le> n \<and> (\<exists>k\<in>{m - Suc 0..n - Suc 0}. P k)"
proof -
  have iv: "m \<le> Suc k \<and> Suc k \<le> n \<longleftrightarrow> 0 < n \<and> m \<le> n \<and> k \<in> {m - Suc 0..n - Suc 0}" for k
    by (simp, arith)
  show ?thesis
    by (simp only: conj_assoc [symmetric] iv) auto
qed

lemma Cons_in_lpow:
  "c # w \<in> lpow A k \<longleftrightarrow> (\<exists>j. k = Suc j \<and> w \<in> conc {v. c # v \<in> A} (lpow A j))"
  by (cases k) (simp_all only: Cons_in_lpow_Suc, simp_all)

lemma lang_deriv: "lang (deriv c r) = {w. c # w \<in> lang r}"
proof (induction r)
  case (Cat r s)
  then show ?case by (auto simp: Cons_in_conc nullable_lang)
next
  case (Star r)
  then show ?case by (auto simp: Cons_in_lpow conc_UN)
next
  case (Rep r m n)
  have "c # w \<in> lang (Rep r m n) \<longleftrightarrow>
      (\<exists>k. m \<le> Suc k \<and> Suc k \<le> n \<and> w \<in> conc (lang (deriv c r)) (lpow (lang r) k))" for w
    unfolding Rep lang.simps(7) UN_iff Cons_in_lpow by auto
  then have "c # w \<in> lang (Rep r m n) \<longleftrightarrow> 0 < n \<and> m \<le> n \<and>
      (\<exists>k\<in>{m - Suc 0..n - Suc 0}. w \<in> conc (lang (deriv c r)) (lpow (lang r) k))" for w
    by (simp only: ex_Suc_interval)
  moreover have "w \<in> lang (deriv c (Rep r m n)) \<longleftrightarrow> 0 < n \<and> m \<le> n \<and>
      (\<exists>k\<in>{m - Suc 0..n - Suc 0}. w \<in> conc (lang (deriv c r)) (lpow (lang r) k))" for w
    by (cases "n = 0 \<or> n < m") (simp_all add: conc_UN not_less, auto)
  ultimately show ?case by blast
qed (auto simp: image_iff)

theorem rx_match_lang: "rx_match r s \<longleftrightarrow> s \<in> lang r"
  by (induction s arbitrary: r) (simp_all add: nullable_lang lang_deriv)

section \<open>Searching\<close>

record ere =
  ere_bol :: bool     \<comment> \<open>leading \<open>^\<close>\<close>
  ere_body :: rx
  ere_eol :: bool     \<comment> \<open>trailing \<open>$\<close>\<close>

definition newline :: char where
  "newline = CHR 0x0A"

definition at_bol :: "string \<Rightarrow> nat \<Rightarrow> bool" where
  "at_bol s i \<longleftrightarrow> i = 0 \<or> s ! (i - 1) = newline"

definition at_eol :: "string \<Rightarrow> nat \<Rightarrow> bool" where
  "at_eol s j \<longleftrightarrow> j = length s \<or> s ! j = newline"

definition regexec :: "ere \<Rightarrow> string \<Rightarrow> bool" where
  "regexec e s =
     list_ex (\<lambda>i. (ere_bol e \<longrightarrow> at_bol s i) \<and>
       list_ex (\<lambda>j. (ere_eol e \<longrightarrow> at_eol s j) \<and> rx_match (ere_body e) (take (j - i) (drop i s)))
         [i..<Suc (length s)])
       [0..<Suc (length s)]"

lemma regexec_iff:
  "regexec e s \<longleftrightarrow>
     (\<exists>i j. i \<le> j \<and> j \<le> length s \<and> (ere_bol e \<longrightarrow> at_bol s i) \<and> (ere_eol e \<longrightarrow> at_eol s j) \<and>
        take (j - i) (drop i s) \<in> lang (ere_body e))"
  unfolding regexec_def list_ex_iff rx_match_lang set_upt Bex_def atLeastLessThan_iff less_Suc_eq_le
  by (meson le0 le_trans)

text \<open>On a one-line subject an expression anchored at both ends matches the whole subject.\<close>

lemma regexec_line:
  assumes "newline \<notin> set s" and "ere_bol e" and "ere_eol e"
  shows "regexec e s \<longleftrightarrow> s \<in> lang (ere_body e)"
proof -
  have bol: "at_bol s i \<Longrightarrow> i \<le> length s \<Longrightarrow> i = 0" for i
    using assms(1) nth_mem [of "i - 1" s] by (cases i) (auto simp: at_bol_def)
  have eol: "at_eol s j \<Longrightarrow> j \<le> length s \<Longrightarrow> j = length s" for j
    using assms(1) nth_mem [of j s] by (cases "j = length s") (auto simp: at_eol_def)
  show ?thesis
  proof
    assume "regexec e s"
    then obtain i j where ij: "i \<le> j" "j \<le> length s" "at_bol s i" "at_eol s j"
      "take (j - i) (drop i s) \<in> lang (ere_body e)"
      using assms(2,3) by (auto simp: regexec_iff)
    then have "i = 0" "j = length s" using bol [of i] eol [of j] by simp_all
    with ij(5) show "s \<in> lang (ere_body e)" by simp
  next
    assume "s \<in> lang (ere_body e)"
    then show "regexec e s"
      unfolding regexec_iff by (intro exI [of _ 0] exI [of _ "length s"]) (simp add: at_bol_def at_eol_def)
  qed
qed

text \<open>Repetition of a character class.\<close>

lemma conc_singletons:
  "s \<in> conc ((\<lambda>c. [c]) ` A) B \<longleftrightarrow> (\<exists>c w. s = c # w \<and> c \<in> A \<and> w \<in> B)"
  by (auto simp: conc_def image_iff) (metis append_Cons append_Nil)

lemma lpow_Cls: "lpow (lang (Cls cs)) k = {s. length s = k \<and> set s \<subseteq> set cs}"
proof (induction k)
  case (Suc k)
  then show ?case
    by (simp only: lpow.simps lang.simps set_eq_iff conc_singletons mem_Collect_eq) (auto simp: length_Suc_conv)
qed auto

lemma lang_Rep_Cls:
  "s \<in> lang (Rep (Cls cs) m n) \<longleftrightarrow> m \<le> length s \<and> length s \<le> n \<and> set s \<subseteq> set cs"
  by (simp only: lang.simps(7) lpow_Cls) auto

section \<open>Character ranges\<close>

definition char_range :: "char \<Rightarrow> char \<Rightarrow> char list" where
  "char_range a b = map char_of [of_char a ..< Suc (of_char b)]"

definition lit :: "string \<Rightarrow> rx" where
  "lit s = foldr (\<lambda>c. Cat (Cls [c])) s Eps"

lemma lang_lit [simp]: "lang (lit s) = {s}"
  by (induction s) (auto simp: lit_def conc_def)

end
