(* ===== verification/Yaml.thy ===== *)
theory Yaml
  imports Prelude
begin

text \<open>
  What the sources see of libyaml, which is not part of the repository: a parser hands
  out a sequence of tokens (\<open>yaml_parser_scan\<close>) or of events (\<open>yaml_parser_parse\<close>). A
  file is modelled by that sequence. Only scalars carry data the sources use; the kinds
  they ignore are one constructor. An event sequence that ends without
  \<open>STREAM_END_EVENT\<close> ends in a parser error (\<open>yaml_parser_parse\<close> returns 0).
\<close>

datatype ytoken =
    KEY_TOKEN
  | VALUE_TOKEN
  | SCALAR_TOKEN "string option"
  | OTHER_TOKEN
  | STREAM_END_TOKEN

datatype yevent =
    SCALAR_EVENT string
  | OTHER_EVENT
  | STREAM_END_EVENT

text \<open>The scalars of a complete event stream, and a file that holds just these.\<close>

fun yscalars :: "yevent list \<Rightarrow> string list" where
  "yscalars [] = []"
| "yscalars (SCALAR_EVENT s # es) = s # yscalars es"
| "yscalars (OTHER_EVENT # es) = yscalars es"
| "yscalars (STREAM_END_EVENT # es) = []"

fun ycomplete :: "yevent list \<Rightarrow> bool" where
  "ycomplete [] = False"
| "ycomplete (STREAM_END_EVENT # es) = True"
| "ycomplete (e # es) = ycomplete es"

definition ystream :: "string list \<Rightarrow> yevent list" where
  "ystream ss = map SCALAR_EVENT ss @ [STREAM_END_EVENT]"

lemma yscalars_ystream [simp]: "yscalars (ystream ss) = ss"
  by (induction ss) (simp_all add: ystream_def)

lemma ycomplete_ystream [simp]: "ycomplete (ystream ss)"
  by (induction ss) (simp_all add: ystream_def)

end
