(* ===== verification/Supportability_Utils.thy ===== *)
theory Supportability_Utils
  imports CLib Regex Yaml
begin

text \<open>
  \<open>src/src/supportability_utils.c\<close>: NULL-tolerant string comparison, the severity
  table, the journal field splitter, case conversion, the YAML scalar reader, argument
  validation, and the connection to a daemon. The loops over string tables that four
  source files share are \<open>scan_table\<close>; the locale \<open>table_lookup\<close> states what a
  function built on such a loop promises.
\<close>

section \<open>Comparison with NULL\<close>

fun strcmp_with_nullcheck :: "string option \<Rightarrow> string option \<Rightarrow> int" where
  "strcmp_with_nullcheck (Some str1) (Some str2) = strcmp str1 str2"
| "strcmp_with_nullcheck _ _ = - 1"

fun strncmp_with_nullcheck :: "string option \<Rightarrow> string option \<Rightarrow> nat \<Rightarrow> int" where
  "strncmp_with_nullcheck (Some str1) (Some str2) num = strncmp str1 str2 num"
| "strncmp_with_nullcheck _ _ num = - 1"

text \<open>The copy that \<open>strdup\<close> returns holds the same string.\<close>

definition strdup_with_nullcheck :: "string option \<Rightarrow> string option" where
  "strdup_with_nullcheck str1 = (case str1 of None \<Rightarrow> None | Some s \<Rightarrow> Some s)"

lemma strcmp_with_nullcheck_0 [simp]:
  "strcmp_with_nullcheck a b = 0 \<longleftrightarrow> (\<exists>s. a = Some s \<and> b = Some s)"
  by (cases "(a, b)" rule: strcmp_with_nullcheck.cases) auto

lemma strncmp_with_nullcheck_0:
  "strncmp_with_nullcheck a b n = 0 \<longleftrightarrow> (\<exists>s t. a = Some s \<and> b = Some t \<and> take n s = take n t)"
  by (cases "(a, b, n)" rule: strncmp_with_nullcheck.cases) (auto simp: strncmp_eq_0)

lemma strdup_with_nullcheck_id [simp]: "strdup_with_nullcheck s = s"
  by (simp add: strdup_with_nullcheck_def split: option.split)

section \<open>Table lookup\<close>

text \<open>\<open>for (i = lo; i < hi; i++) if (!strcmp_with_nullcheck(tbl[i], x)) return i;\<close>\<close>

fun scan_table :: "string list \<Rightarrow> string option \<Rightarrow> int \<Rightarrow> int option" where
  "scan_table [] x i = None"
| "scan_table (t # ts) x i =
     (if strcmp_with_nullcheck (Some t) x = 0 then Some i else scan_table ts x (i + 1))"

lemma scan_table_None: "scan_table ts x i = None \<longleftrightarrow> x \<notin> Some ` set ts"
  by (induction ts x i rule: scan_table.induct) auto

lemma scan_table_nth:
  "distinct ts \<Longrightarrow> k < length ts \<Longrightarrow> scan_table ts (Some (ts ! k)) i = Some (i + int k)"
proof (induction ts arbitrary: k i)
  case (Cons t ts)
  then show ?case by (cases k) (auto simp: nth_Cons')
qed simp

locale table_lookup =
  fixes tbl :: "string list" and base :: int and miss :: int
    and look :: "string option \<Rightarrow> int"
  assumes tbl_distinct: "distinct tbl"
    and look_hit: "k < length tbl \<Longrightarrow> look (Some (tbl ! k)) = base + int k"
    and look_miss: "x \<notin> Some ` set tbl \<Longrightarrow> look x = miss"
    and miss_outside: "miss < base \<or> base + int (length tbl) \<le> miss"
begin

lemma look_in_range:
  "look x = miss \<or> (base \<le> look x \<and> look x < base + int (length tbl))"
proof (cases "x \<in> Some ` set tbl")
  case True
  then obtain k where "k < length tbl" "x = Some (tbl ! k)" by (auto simp: in_set_conv_nth)
  then show ?thesis by (simp add: look_hit)
qed (simp add: look_miss)

lemma look_eq_iff:
  "k < length tbl \<Longrightarrow> look x = base + int k \<longleftrightarrow> x = Some (tbl ! k)"
proof
  assume k: "k < length tbl" and eq: "look x = base + int k"
  then have "x \<in> Some ` set tbl" using look_miss [of x] miss_outside by force
  then obtain j where "j < length tbl" "x = Some (tbl ! j)" by (auto simp: in_set_conv_nth)
  with eq show "x = Some (tbl ! k)" by (simp add: look_hit)
qed (simp add: look_hit)

lemma look_miss_iff: "look x = miss \<longleftrightarrow> x \<notin> Some ` set tbl"
proof -
  have "look (Some (tbl ! k)) \<noteq> miss" if "k < length tbl" for k
    using look_hit [OF that] that miss_outside by linarith
  then show ?thesis using look_miss by (fastforce simp: in_set_conv_nth)
qed

end

lemma scan_table_lookup:
  assumes "distinct ts" and "m < b \<or> b + int (length ts) \<le> m"
  shows "table_lookup ts b m (\<lambda>x. case scan_table ts x b of Some i \<Rightarrow> i | None \<Rightarrow> m)"
proof
  show "(case scan_table ts x b of Some i \<Rightarrow> i | None \<Rightarrow> m) = m" if "x \<notin> Some ` set ts" for x
  proof -
    from that have "scan_table ts x b = None" by (simp add: scan_table_None)
    then show ?thesis by simp
  qed
qed (use assms in \<open>auto simp: scan_table_nth\<close>)

section \<open>Severities of the CLI\<close>

definition sev :: "string list" where
  "sev = [''emer'', ''alert'', ''crit'', ''err'', ''warn'', ''notice'', ''info'', ''debug'']"

definition sev_level :: "string option \<Rightarrow> int" where
  "sev_level arg = (case scan_table sev arg 0 of Some i \<Rightarrow> i | None \<Rightarrow> - 1)"

interpretation cli_sev: table_lookup sev 0 "- 1" sev_level
  unfolding sev_level_def [abs_def] by (rule scan_table_lookup) (simp_all add: sev_def)

section \<open>White space\<close>

text \<open>\<open>while (endptr > beginptr && isspace(*endptr)) endptr--\<close>, with \<open>endptr\<close> an index.\<close>

fun trim_end :: "string \<Rightarrow> nat \<Rightarrow> nat" where
  "trim_end s 0 = 0"
| "trim_end s (Suc e) = (if isspace (s ! Suc e) then trim_end s e else Suc e)"

definition trim_white_space :: "string option \<Rightarrow> string option" where
  "trim_white_space str = (case str of
     None \<Rightarrow> None
   | Some s \<Rightarrow>
       (let beginptr = dropWhile isspace s in
        if beginptr = [] then Some []
        else Some (take (trim_end beginptr (length beginptr - 1) + 1) beginptr)))"

lemma trim_end_le: "trim_end s e \<le> e"
  by (induction e) auto

lemma trim_end_stop: "trim_end s e \<noteq> 0 \<Longrightarrow> \<not> isspace (s ! trim_end s e)"
  by (induction e) auto

lemma trim_end_skipped: "trim_end s e < i \<Longrightarrow> i \<le> e \<Longrightarrow> isspace (s ! i)"
  by (induction e) (auto simp: le_Suc_eq split: if_splits)

section \<open>Journal fields\<close>

text \<open>\<open>while (*str != 0) { if (*str == '=') ...; str++ }\<close>\<close>

fun get_value_from :: "string \<Rightarrow> string option" where
  "get_value_from [] = None"
| "get_value_from (c # cs) =
     (if c = CHR ''='' then (if cs \<noteq> [] then Some cs else None) else get_value_from cs)"

definition get_value :: "string option \<Rightarrow> string option" where
  "get_value str = (case str of None \<Rightarrow> None | Some s \<Rightarrow> get_value_from s)"

lemma get_value_field:
  "CHR ''='' \<notin> set k \<Longrightarrow> get_value_from (k @ CHR ''='' # v) = (if v = [] then None else Some v)"
  by (induction k) auto

section \<open>Case conversion\<close>

text \<open>The loop of \<open>strnupr\<close> and \<open>strnlwr\<close>: it stops when \<open>count == size\<close>, tested after
  each character, so a \<open>size\<close> of zero or less converts the whole string.\<close>

fun strn_conv :: "(char \<Rightarrow> char) \<Rightarrow> string \<Rightarrow> int \<Rightarrow> int \<Rightarrow> string" where
  "strn_conv f [] count sz = []"
| "strn_conv f (c # cs) count sz =
     f c # (if count + 1 = sz then cs else strn_conv f cs (count + 1) sz)"

definition strnupr :: "string option \<Rightarrow> int \<Rightarrow> string option" where
  "strnupr str sz = (case str of None \<Rightarrow> None | Some s \<Rightarrow> Some (strn_conv toupper s 0 sz))"

definition strnlwr :: "string option \<Rightarrow> int \<Rightarrow> string option" where
  "strnlwr str sz = (case str of None \<Rightarrow> None | Some s \<Rightarrow> Some (strn_conv tolower s 0 sz))"

lemma strn_conv_prefix:
  "count < n \<Longrightarrow> strn_conv f s count n = map f (take (nat (n - count)) s) @ drop (nat (n - count)) s"
proof (induction f s count n rule: strn_conv.induct)
  case (2 f c cs count n)
  then have "nat (n - count) = Suc (nat (n - (count + 1)))" by simp
  with 2 show ?case by (auto simp: take_Cons' drop_Cons')
qed simp

lemma strn_conv_all: "n \<le> count \<Longrightarrow> strn_conv f s count n = map f s"
  by (induction f s count n rule: strn_conv.induct) auto

section \<open>YAML scalars\<close>

fun next_scalar :: "yevent list \<Rightarrow> (string \<times> yevent list) option" where
  "next_scalar [] = None"
| "next_scalar (STREAM_END_EVENT # es) = None"
| "next_scalar (SCALAR_EVENT key # es) = Some (key, es)"
| "next_scalar (OTHER_EVENT # es) = next_scalar es"

text \<open>\<open>get_yaml_tokens\<close> returns the next scalar; \<open>fh\<close> says whether the file handle is
  there, and the rest of the events is what the next call reads.\<close>

definition get_yaml_tokens :: "yevent list \<Rightarrow> bool \<Rightarrow> (string \<times> yevent list) option" where
  "get_yaml_tokens parser fh = (if \<not> fh then None else next_scalar parser)"

lemma next_scalar_shorter: "next_scalar es = Some (k, r) \<Longrightarrow> length r < length es"
  by (induction es rule: next_scalar.induct) auto

lemma next_scalar_yscalars:
  "next_scalar es = Some (k, r) \<Longrightarrow> yscalars es = k # yscalars r"
  by (induction es rule: next_scalar.induct) auto

lemma next_scalar_None: "next_scalar es = None \<Longrightarrow> yscalars es = []"
  by (induction es rule: next_scalar.induct) auto

section \<open>Argument validation\<close>

text \<open>\<open>regexec\<close> returns 0 for a match and \<open>REG_NOMATCH\<close>, which is 1, otherwise. The
  expressions of the sources are terms of the model, so \<open>regcomp\<close> succeeds on them.\<close>

definition validate_cli_args :: "string option \<Rightarrow> ere option \<Rightarrow> int" where
  "validate_cli_args arg regex = (case (arg, regex) of
     (Some a, Some r) \<Rightarrow> (if regexec r a then 0 else 1)
   | _ \<Rightarrow> 1)"

lemma validate_cli_args_0 [simp]:
  "validate_cli_args arg (Some r) = 0 \<longleftrightarrow> (\<exists>a. arg = Some a \<and> regexec r a)"
  by (auto simp: validate_cli_args_def split: option.split)

section \<open>Connecting to a daemon\<close>

text \<open>
  What the functions below read from the system: the run directory, which socket paths
  are writable, the text of readable files, and the error code that
  \<open>unixctl_client_create\<close> returns for a socket name. A client is named by its socket.
\<close>

record daemon_env =
  ovs_rundir :: "string option"
  access_w :: "string \<Rightarrow> bool"
  file_text :: "string \<Rightarrow> string option"
  client_create :: "string \<Rightarrow> int"

definition MAX_PID :: int where "MAX_PID = 65536"
definition MIN_PID :: int where "MIN_PID = 1"
definition MAX_PID_LEN :: int where "MAX_PID_LEN = 5"
definition MIN_PID_LEN :: int where "MIN_PID_LEN = 1"

text \<open>\<open>fscanf(fp, "%d", &pid)\<close> with \<open>pid\<close> 0 before the call: the number of items
  converted (or EOF, -1) and \<open>pid\<close> after it.\<close>

definition fscanf_d :: "string \<Rightarrow> int \<times> int" where
  "fscanf_d text =
     (let s1 = dropWhile isspace text;
          s2 = (if s1 \<noteq> [] \<and> hd s1 \<in> {CHR ''-'', CHR ''+''} then tl s1 else s1)
      in if s1 = [] then (- 1, 0)
         else if takeWhile isdigit s2 = [] then (0, 0)
         else (1, atoi text))"

definition read_pid_file :: "daemon_env \<Rightarrow> string option \<Rightarrow> int" where
  "read_pid_file env pidfile = (case pidfile of
     None \<Rightarrow> - 1
   | Some name \<Rightarrow>
       (case file_text env name of
          None \<Rightarrow> - 1
        | Some text \<Rightarrow>
            (let (rc, pid) = fscanf_d text in
             if (MIN_PID_LEN \<le> rc \<and> rc \<le> MAX_PID_LEN) \<and> (MIN_PID \<le> pid \<and> pid \<le> MAX_PID)
             then pid else - 1)))"

definition connect_to_daemon :: "daemon_env \<Rightarrow> string option \<Rightarrow> string option" where
  "connect_to_daemon env target = (case target of
     None \<Rightarrow> None
   | Some t \<Rightarrow>
       (case ovs_rundir env of
          None \<Rightarrow> None
        | Some rundir \<Rightarrow>
            (let socket_name = rundir @ ''/'' @ t @ ''.ctl'';
                 connect = (\<lambda>sock. if client_create env sock \<noteq> 0 then None else Some sock)
             in if \<not> access_w env socket_name then
                  (let pid = read_pid_file env (Some (rundir @ ''/'' @ t @ ''.pid''))
                   in if pid < 0 then None
                      else connect (rundir @ ''/'' @ t @ ''.'' @ show_int pid @ ''.ctl''))
                else connect socket_name)))"

lemma read_pid_file_range:
  "read_pid_file env f = - 1 \<or> (1 \<le> read_pid_file env f \<and> read_pid_file env f \<le> 65536)"
  by (auto simp: read_pid_file_def MIN_PID_def MAX_PID_def Let_def split: option.splits prod.splits)

lemma fscanf_d_show_nat:
  assumes "n < 2 ^ 31"
  shows "fscanf_d (show_nat n @ [CHR 0x0A]) = (1, int n)"
proof -
  have dig: "\<forall>c\<in>set (show_nat n). isdigit c" by (simp add: show_nat_digits)
  obtain x xs where x: "show_nat n = x # xs" using show_nat_nonempty [of n] by (cases "show_nat n") auto
  then have fx: "\<not> isspace x" "x \<noteq> CHR ''-''" "x \<noteq> CHR ''+''" "isdigit x"
    using dig by (auto dest: isdigit_not_space)
  have xs: "takeWhile isdigit xs = xs" "takeWhile isdigit (xs @ [CHR 0x0A]) = xs"
    using dig x by (auto intro!: takeWhile_all takeWhile_stop simp: isdigit_def)
  have "strtol (show_nat n @ [CHR 0x0A]) = strtol (show_nat n)"
    using x fx by (simp add: strtol_def Let_def xs)
  then have "atoi (show_nat n @ [CHR 0x0A]) = int n"
    using atoi_show_nat [OF assms] by (simp add: atoi_def)
  then show ?thesis using x fx by (simp add: fscanf_d_def Let_def)
qed

section \<open>Properties\<close>

lemma trim_white_space_spec:
  assumes "trim_white_space (Some s) = Some t"
  shows "\<exists>pre suf. s = pre @ t @ suf \<and> list_all isspace pre \<and> list_all isspace suf"
    and "t \<noteq> [] \<Longrightarrow> \<not> isspace (hd t) \<and> \<not> isspace (last t)"
proof -
  define b where "b = dropWhile isspace s"
  define e where "e = trim_end b (length b - 1)"
  have pre: "s = takeWhile isspace s @ b" by (simp add: b_def)
  have le: "e \<le> length b - 1" unfolding e_def by (rule trim_end_le)
  show "\<exists>pre suf. s = pre @ t @ suf \<and> list_all isspace pre \<and> list_all isspace suf"
  proof (cases "b = []")
    case True
    then have "t = []" "list_all isspace s"
      using assms by (auto simp: trim_white_space_def Let_def b_def list_all_iff)
    then show ?thesis by force
  next
    case False
    then have t: "t = take (e + 1) b"
      using assms by (simp add: trim_white_space_def Let_def b_def [symmetric] e_def)
    have "list_all isspace (drop (e + 1) b)"
      using trim_end_skipped [of b "length b - 1"] False
      by (auto simp: list_all_iff in_set_conv_nth e_def)
    moreover have "s = takeWhile isspace s @ t @ drop (e + 1) b"
      using t pre by (metis append_take_drop_id)
    moreover have "list_all isspace (takeWhile isspace s)"
      by (auto simp: list_all_iff dest: set_takeWhileD)
    ultimately show ?thesis by blast
  qed
  show "\<not> isspace (hd t) \<and> \<not> isspace (last t)" if ne: "t \<noteq> []"
  proof -
    have b: "b \<noteq> []" and t: "t = take (e + 1) b"
      using assms ne by (auto simp: trim_white_space_def Let_def b_def [symmetric] e_def split: if_splits)
    have hd: "\<not> isspace (hd b)" using b by (simp add: b_def hd_dropWhile)
    have "length t = e + 1" using b t le by (cases b) auto
    then have "last t = b ! e" using ne t by (simp add: last_conv_nth)
    moreover have "\<not> isspace (b ! e)"
      using hd b trim_end_stop [of b "length b - 1"] by (cases "e = 0") (simp_all add: e_def hd_conv_nth)
    ultimately show ?thesis using hd t b by simp
  qed
qed

text \<open>Trimming removes exactly the surrounding white space: the argument of
  \<open>trim_white_space\<close> is the result with white space before and after it, and a non-empty
  result neither starts nor ends with white space. NULL is returned for NULL only.\<close>

theorem trim_white_space_correct:
  "trim_white_space (Some s) \<noteq> None \<and>
   (\<exists>pre suf t. trim_white_space (Some s) = Some t \<and> s = pre @ t @ suf \<and>
      list_all isspace pre \<and> list_all isspace suf \<and>
      (t = [] \<or> (isspace (hd t) = False \<and> isspace (last t) = False)))"
proof -
  have "\<exists>t. trim_white_space (Some s) = Some t"
    by (simp add: trim_white_space_def Let_def)
  then obtain t where t: "trim_white_space (Some s) = Some t" by blast
  with trim_white_space_spec [OF t] show ?thesis by auto
qed

text \<open>A daemon whose control socket is not writable under its plain name is reached
  through its pid file: when the file holds the decimal pid (1 to 65536) and a newline,
  the client is connected to \<open>rundir/target.pid.ctl\<close>.\<close>

theorem connect_to_daemon_by_pid:
  assumes "ovs_rundir env = Some rd"
    and "\<not> access_w env (rd @ ''/'' @ t @ ''.ctl'')"
    and "file_text env (rd @ ''/'' @ t @ ''.pid'') = Some (show_nat n @ [CHR 0x0A])"
    and "1 \<le> n" and "n \<le> 65536"
    and "client_create env (rd @ ''/'' @ t @ ''.'' @ show_nat n @ ''.ctl'') = 0"
  shows "connect_to_daemon env (Some t) = Some (rd @ ''/'' @ t @ ''.'' @ show_nat n @ ''.ctl'')"
proof -
  have "read_pid_file env (Some (rd @ ''/'' @ t @ ''.pid'')) = int n"
    using assms(3-5) by (simp add: read_pid_file_def fscanf_d_show_nat MIN_PID_def MAX_PID_def
        MIN_PID_LEN_def MAX_PID_LEN_def)
  with assms show ?thesis by (simp add: connect_to_daemon_def Let_def show_int_def)
qed

theorem connect_to_daemon_by_pid_witness:
  "connect_to_daemon \<lparr>ovs_rundir = Some ''/run'', access_w = (\<lambda>_. False),
     file_text = (\<lambda>_. Some (show_nat 42 @ [CHR 0x0A])), client_create = (\<lambda>_. 0)\<rparr> (Some ''ops-lacpd'')
   = Some (''/run'' @ ''/'' @ ''ops-lacpd'' @ ''.'' @ show_nat 42 @ ''.ctl'')"
  by (rule connect_to_daemon_by_pid) simp_all

text \<open>\<open>connect_to_daemon\<close> hands out a client only for a socket that
  \<open>unixctl_client_create\<close> accepted, and that socket is either the writable
  \<open>target.ctl\<close> or one named with a pid between 1 and 65536.\<close>

theorem connect_to_daemon_safe:
  "connect_to_daemon env (Some t) = Some sock \<Longrightarrow>
     client_create env sock = 0 \<and>
     (\<exists>rd. ovs_rundir env = Some rd \<and>
        ((access_w env (rd @ ''/'' @ t @ ''.ctl'') \<and> sock = rd @ ''/'' @ t @ ''.ctl'') \<or>
         (\<exists>pid. 1 \<le> pid \<and> pid \<le> 65536 \<and> sock = rd @ ''/'' @ t @ ''.'' @ show_int pid @ ''.ctl'')))"
  using read_pid_file_range [of env]
  by (force simp: connect_to_daemon_def Let_def split: option.splits if_splits)

theorem connect_to_daemon_safe_witness:
  "client_create \<lparr>ovs_rundir = Some ''/run'', access_w = (\<lambda>_. True),
     file_text = (\<lambda>_. None), client_create = (\<lambda>_. 0)\<rparr> ''/run/x.ctl'' = 0"
  using connect_to_daemon_safe [of "\<lparr>ovs_rundir = Some ''/run'', access_w = (\<lambda>_. True),
     file_text = (\<lambda>_. None), client_create = (\<lambda>_. 0)\<rparr>" "''x''" "''/run/x.ctl''"]
  by (simp add: connect_to_daemon_def)

end
