(* ===== verification/Event_Table.thy ===== *)
theory Event_Table
  imports Supportability_Utils
begin

text \<open>
  \<open>src/src/eventlog/eventlog.c\<close>, first half: the daemon's event table and category
  table, and their initialisation from the events YAML file. The file-level statics are
  the record \<open>evlog\<close>; what the system provides (the YAML token sequence, the memory
  \<open>malloc\<close> returns, the success of \<open>asprintf\<close>) is the record \<open>evlog_env\<close>.

  The table is \<open>malloc\<close>ed and not cleared, so its contents before the first event are
  those of the block the environment supplies.
\<close>

section \<open>Data\<close>

abbreviation MAX_CATEGORIES_PER_DAEMON :: nat where "MAX_CATEGORIES_PER_DAEMON \<equiv> 99"
abbreviation MAX_LOG_STR :: nat where "MAX_LOG_STR \<equiv> 480"
abbreviation MAX_EVENT_NAME_SIZE :: nat where "MAX_EVENT_NAME_SIZE \<equiv> 64"
abbreviation MAX_SEV_NAME_SIZE :: nat where "MAX_SEV_NAME_SIZE \<equiv> 10"
abbreviation MAX_EVENT_TABLE_SIZE :: nat where "MAX_EVENT_TABLE_SIZE \<equiv> 500"
abbreviation EVENT_NAME_DELIMITER_STR :: string where "EVENT_NAME_DELIMITER_STR \<equiv> ''EV_TBD_TBD''"

text \<open>Each \<open>char\<close> array field is the string it holds: every write below copies a string
  that fits together with its NUL.\<close>

record event =
  category :: "string option"
  event_id :: int
  event_name :: string
  severity :: string
  num_of_keys :: int
  event_description :: string

record evlog =
  ev_table :: "event list option"
  category_table :: "string option list"
  category_index :: int

record evlog_env =
  yaml_file :: "ytoken list option"   \<comment> \<open>None: \<open>fopen\<close> fails\<close>
  yaml_init :: bool
  stack_token :: ytoken               \<comment> \<open>the uninitialised local the loop test reads first\<close>
  asprintf_ok :: bool                 \<comment> \<open>the \<open>asprintf\<close> of the parser\<close>
  asprintf_cat_ok :: bool             \<comment> \<open>the \<open>asprintf\<close> into the category table\<close>
  malloc_block :: "event list option"

section \<open>Keys of an event\<close>

function count_tokens :: "string \<Rightarrow> int" where
  "count_tokens s = (case strtok '','' s of None \<Rightarrow> 0 | Some (_, r) \<Rightarrow> 1 + count_tokens r)"
  by pat_completeness auto
termination
  by (relation "measure length") (auto dest: strtok_shorter)

declare count_tokens.simps [simp del]

text \<open>\<open>strtok\<close> overwrites the delimiter after the first token, so this much of the argument
  is left of it.\<close>

definition strtok_cut :: "string \<Rightarrow> string" where
  "strtok_cut s =
     (let lead = takeWhile (\<lambda>c. c = CHR '','') s
      in lead @ takeWhile (\<lambda>c. c \<noteq> CHR '','') (drop (length lead) s))"

definition count_keys :: "string option \<Rightarrow> int" where
  "count_keys keys = (case keys of None \<Rightarrow> - 1 | Some s \<Rightarrow> count_tokens s)"

section \<open>Parsing\<close>

text \<open>\<open>assign_parsed_values\<close>: \<open>val\<close>, \<open>fnd\<close> and \<open>index\<close> are its in-out parameters, returned
  with the table.\<close>

definition assign_parsed_values ::
    "string \<Rightarrow> nat \<Rightarrow> bool \<Rightarrow> nat \<Rightarrow> event list \<Rightarrow> (nat \<times> bool \<times> nat \<times> event list) cres" where
  "assign_parsed_values key val fnd index tbl =
     (if val = 1 then Inr (0, fnd, index, tbl)
      else if val = 2 then
        bind_res (array_upd tbl index (\<lambda>e. e\<lparr>event_id := atoi key\<rparr>))
          (\<lambda>t. Inr (0, fnd, index, t))
      else if val = 3 then
        bind_res
          (if 0 < length key \<and> length key < MAX_SEV_NAME_SIZE
           then array_upd tbl index (\<lambda>e. e\<lparr>severity := key\<rparr>) else Inr tbl)
          (\<lambda>t. Inr (0, fnd, index, t))
      else if val = 4 then
        bind_res (array_upd tbl index (\<lambda>e. e\<lparr>num_of_keys := count_keys (Some key)\<rparr>))
          (\<lambda>t. Inr (0, fnd, index, t))
      else if val = 5 then
        bind_res
          (if 0 < length key \<and> length key < MAX_LOG_STR
           then array_upd tbl index (\<lambda>e. e\<lparr>event_description := key\<rparr>) else Inr tbl)
          (\<lambda>t. bind_res (array_upd t (index + 1) (\<lambda>e. e\<lparr>event_name := EVENT_NAME_DELIMITER_STR\<rparr>))
            (\<lambda>t'. Inr (0, False, index + 1, t')))
      else Inr (val, fnd, index, tbl))"

text \<open>\<open>find_last_index\<close> walks the first \<open>MAX_EVENT_TABLE_SIZE\<close> entries.\<close>

fun find_delimiter :: "event list \<Rightarrow> nat \<Rightarrow> int" where
  "find_delimiter [] i = - 1"
| "find_delimiter (e # es) i =
     (if strcmp_with_nullcheck (Some (event_name e)) (Some EVENT_NAME_DELIMITER_STR) = 0
      then int i else find_delimiter es (i + 1))"

definition find_last_index :: "event list \<Rightarrow> int" where
  "find_last_index tbl = find_delimiter (take MAX_EVENT_TABLE_SIZE tbl) 0"

text \<open>The local variables of \<open>parse_yaml_for_category\<close> that live across tokens.\<close>

record pstate =
  ps_table :: "event list"
  ps_buf :: string
  ps_index :: nat
  ps_def_flag :: bool
  ps_evt_flag :: bool
  ps_val_flag :: nat
  ps_found :: bool
  ps_category_found :: bool

datatype 's outcome = Continue 's | Return int 's | Fault cerr

text \<open>The block under \<open>if (val_flag == 1)\<close>: remember an event name.\<close>

definition scan_name :: "string \<Rightarrow> pstate \<Rightarrow> pstate" where
  "scan_name key ps =
     (if ps_val_flag ps = 1 then
        ps\<lparr>ps_buf := (if 0 < length key \<and> length key < MAX_EVENT_NAME_SIZE then key else ps_buf ps),
           ps_val_flag := 0\<rparr>
      else ps)"

text \<open>The block under \<open>if (evt_flag && !strcmp(key, category))\<close>.\<close>

definition scan_category :: "bool \<Rightarrow> string \<Rightarrow> string \<Rightarrow> pstate \<Rightarrow> pstate outcome" where
  "scan_category aok cat key ps =
     (if ps_evt_flag ps \<and> strcmp_with_nullcheck (Some key) (Some cat) = 0 then
        (case (if 0 < length (ps_buf ps) \<and> length (ps_buf ps) < MAX_EVENT_NAME_SIZE
               then array_upd (ps_table ps) (ps_index ps) (\<lambda>e. e\<lparr>event_name := ps_buf ps\<rparr>)
               else Inr (ps_table ps)) of
           Inl e \<Rightarrow> Fault e
         | Inr t \<Rightarrow>
             (case array_upd t (ps_index ps) (\<lambda>e. e\<lparr>category := if aok then Some cat else None\<rparr>) of
                Inl e \<Rightarrow> Fault e
              | Inr t' \<Rightarrow>
                  (let ps' = ps\<lparr>ps_found := True, ps_category_found := True, ps_table := t'\<rparr>
                   in if aok then Continue ps' else Return (- 1) ps')))
      else Continue ps)"

definition scan_assign :: "string \<Rightarrow> pstate \<Rightarrow> pstate outcome" where
  "scan_assign key ps =
     (if ps_found ps then
        (case assign_parsed_values key (ps_val_flag ps) (ps_found ps) (ps_index ps) (ps_table ps) of
           Inl e \<Rightarrow> Fault e
         | Inr (val, fnd, index, t) \<Rightarrow>
             Continue (ps\<lparr>ps_val_flag := val, ps_found := fnd, ps_index := index, ps_table := t\<rparr>))
      else Continue ps)"

text \<open>The \<open>if\<close>/\<open>else if\<close> chain on the keywords of the file.\<close>

definition scan_keyword :: "string \<Rightarrow> pstate \<Rightarrow> pstate" where
  "scan_keyword key ps =
     (if strcmp_with_nullcheck (Some key) (Some ''event_definitions'') = 0 then ps\<lparr>ps_def_flag := True\<rparr>
      else if strcmp_with_nullcheck (Some key) (Some ''event_name'') = 0 \<and> ps_def_flag ps
        then ps\<lparr>ps_val_flag := 1\<rparr>
      else if strcmp_with_nullcheck (Some key) (Some ''event_category'') = 0 \<and> ps_def_flag ps
        then ps\<lparr>ps_evt_flag := True\<rparr>
      else if strcmp_with_nullcheck (Some key) (Some ''event_ID'') = 0 \<and> ps_def_flag ps
        then ps\<lparr>ps_val_flag := 2\<rparr>
      else if strcmp_with_nullcheck (Some key) (Some ''severity'') = 0 \<and> ps_evt_flag ps
        then ps\<lparr>ps_val_flag := 3\<rparr>
      else if strcmp_with_nullcheck (Some key) (Some ''keys'') = 0 \<and> ps_evt_flag ps
        then ps\<lparr>ps_val_flag := 4\<rparr>
      else if strcmp_with_nullcheck (Some key) (Some ''event_description_template'') = 0 \<and> ps_evt_flag ps
        then ps\<lparr>ps_val_flag := 5\<rparr>
      else ps)"

text \<open>One scalar token. The keyword chain reads \<open>key\<close> after \<open>count_keys\<close> has cut it.\<close>

definition parse_scalar :: "bool \<Rightarrow> string \<Rightarrow> string \<Rightarrow> pstate \<Rightarrow> pstate outcome" where
  "parse_scalar aok cat key ps =
     (case scan_category aok cat key (scan_name key ps) of
        Continue ps1 \<Rightarrow>
          (case scan_assign key ps1 of
             Continue ps2 \<Rightarrow>
               Continue (scan_keyword (if ps_found ps1 \<and> ps_val_flag ps1 = 4 then strtok_cut key else key) ps2)
           | r \<Rightarrow> r)
      | r \<Rightarrow> r)"

text \<open>
  The token loop. It ends at \<open>STREAM_END_TOKEN\<close> and nowhere else: after a scanner error
  \<open>yaml_parser_scan\<close> yields no further token of that kind, so a sequence without one is
  a call that does not return (\<open>None\<close>).
\<close>

fun parse_tokens :: "bool \<Rightarrow> string \<Rightarrow> ytoken list \<Rightarrow> pstate \<Rightarrow> pstate outcome option" where
  "parse_tokens aok cat [] ps = None"
| "parse_tokens aok cat (STREAM_END_TOKEN # ts) ps =
     Some (Return (if ps_category_found ps then 1 else 0) ps)"
| "parse_tokens aok cat (SCALAR_TOKEN (Some key) # ts) ps =
     (case parse_scalar aok cat key ps of
        Continue ps' \<Rightarrow> parse_tokens aok cat ts ps'
      | r \<Rightarrow> Some r)"
| "parse_tokens aok cat (t # ts) ps = parse_tokens aok cat ts ps"

definition parse_yaml_for_category ::
    "evlog_env \<Rightarrow> string option \<Rightarrow> event list \<Rightarrow> (int \<times> event list) cres option" where
  "parse_yaml_for_category env cat tbl = (case cat of
     None \<Rightarrow> Some (Inr (- 1, tbl))
   | Some c \<Rightarrow>
       (case yaml_file env of
          None \<Rightarrow> Some (Inr (- 1, tbl))
        | Some tokens \<Rightarrow>
            (let index = find_last_index tbl in
             if index < 0 \<or> int MAX_EVENT_TABLE_SIZE < index then Some (Inr (- 1, tbl))
             else if \<not> yaml_init env then Some (Inr (- 1, tbl))
             else if stack_token env = STREAM_END_TOKEN then Some (Inr (0, tbl))
             else
               (case parse_tokens (asprintf_ok env) c tokens
                  \<lparr>ps_table = tbl, ps_buf = [], ps_index = nat index, ps_def_flag = False,
                   ps_evt_flag = False, ps_val_flag = 0, ps_found = False, ps_category_found = False\<rparr> of
                  None \<Rightarrow> None
                | Some (Fault e) \<Rightarrow> Some (Inl e)
                | Some (Return r ps) \<Rightarrow> Some (Inr (r, ps_table ps))
                | Some (Continue ps) \<Rightarrow> None))))"

section \<open>Initialisation\<close>

definition create_event_table :: "evlog_env \<Rightarrow> evlog \<Rightarrow> (int \<times> evlog) cres" where
  "create_event_table env s = (case malloc_block env of
     None \<Rightarrow> Inr (- 1, s)
   | Some block \<Rightarrow>
       bind_res (array_upd block 0 (\<lambda>e. e\<lparr>event_name := EVENT_NAME_DELIMITER_STR\<rparr>))
         (\<lambda>t. Inr (0, s\<lparr>ev_table := Some t\<rparr>)))"

definition add_to_event_table ::
    "evlog_env \<Rightarrow> string option \<Rightarrow> event list \<Rightarrow> (int \<times> event list) cres option" where
  "add_to_event_table env event_category tbl = parse_yaml_for_category env event_category tbl"

fun category_search_loop :: "string option list \<Rightarrow> string \<Rightarrow> nat \<Rightarrow> nat \<Rightarrow> bool cres" where
  "category_search_loop tbl cat i 0 = Inr False"
| "category_search_loop tbl cat i (Suc k) =
     bind_res (array_get tbl i)
       (\<lambda>x. if strcmp_with_nullcheck x (Some cat) = 0 then Inr True
            else category_search_loop tbl cat (i + 1) k)"

definition event_category_search :: "string option \<Rightarrow> evlog \<Rightarrow> bool cres" where
  "event_category_search cat s = (case cat of
     None \<Rightarrow> Inr False
   | Some c \<Rightarrow> category_search_loop (category_table s) c 0 (nat (category_index s)))"

text \<open>The part of \<open>event_log_init\<close> after the duplicate check, and the whole function.\<close>

definition event_log_add :: "evlog_env \<Rightarrow> string \<Rightarrow> evlog \<Rightarrow> (int \<times> evlog) cres option" where
  "event_log_add env name s =
     (case (case ev_table s of None \<Rightarrow> create_event_table env s | Some _ \<Rightarrow> Inr (0, s)) of
        Inl e \<Rightarrow> Some (Inl e)
      | Inr (ret, s1) \<Rightarrow>
          if ret < 0 then Some (Inr (- 1, s1))
          else (case ev_table s1 of
             None \<Rightarrow> Some (Inl NullDeref)
           | Some tbl \<Rightarrow>
               (case add_to_event_table env (Some name) tbl of
                  None \<Rightarrow> None
                | Some (Inl e) \<Rightarrow> Some (Inl e)
                | Some (Inr (ret2, tbl')) \<Rightarrow>
                    (let s2 = s1\<lparr>ev_table := Some tbl'\<rparr> in
                     if 0 < ret2 then
                       Some (bind_res
                         (array_upd (category_table s2) (nat (category_index s2))
                            (\<lambda>_. if asprintf_cat_ok env then Some name else None))
                         (\<lambda>ct. Inr (ret2, s2\<lparr>category_table := ct, category_index := category_index s2 + 1\<rparr>)))
                     else Some (Inr (ret2, s2))))))"

definition event_log_init :: "evlog_env \<Rightarrow> string option \<Rightarrow> evlog \<Rightarrow> (int \<times> evlog) cres option" where
  "event_log_init env category_name s = (case category_name of
     None \<Rightarrow> Some (Inr (- 1, s))
   | Some name \<Rightarrow>
       if int MAX_CATEGORIES_PER_DAEMON < category_index s then Some (Inr (- 1, s))
       else
         (case (if category_index s \<noteq> 0 then event_category_search (Some name) s else Inr False) of
            Inl e \<Rightarrow> Some (Inl e)
          | Inr True \<Rightarrow> Some (Inr (- 1, s))
          | Inr False \<Rightarrow> event_log_add env name s))"

text \<open>The statics before the first call.\<close>

definition evlog0 :: evlog where
  "evlog0 = \<lparr>ev_table = None, category_table = replicate MAX_CATEGORIES_PER_DAEMON None, category_index = 0\<rparr>"


section \<open>The token loop over scalars\<close>

text \<open>The scalars before the end of the stream; \<open>None\<close> when the stream does not end.\<close>

fun token_scalars :: "ytoken list \<Rightarrow> string list option" where
  "token_scalars [] = None"
| "token_scalars (STREAM_END_TOKEN # ts) = Some []"
| "token_scalars (SCALAR_TOKEN (Some k) # ts) = map_option ((#) k) (token_scalars ts)"
| "token_scalars (t # ts) = token_scalars ts"

fun run_scalars :: "bool \<Rightarrow> string \<Rightarrow> string list \<Rightarrow> pstate \<Rightarrow> pstate outcome" where
  "run_scalars aok cat [] ps = Continue ps"
| "run_scalars aok cat (k # ks) ps =
     (case parse_scalar aok cat k ps of Continue ps' \<Rightarrow> run_scalars aok cat ks ps' | r \<Rightarrow> r)"

lemma parse_tokens_scalars:
  "token_scalars ts = Some ss \<Longrightarrow>
   parse_tokens aok cat ts ps =
     Some (case run_scalars aok cat ss ps of
             Continue ps' \<Rightarrow> Return (if ps_category_found ps' then 1 else 0) ps'
           | r \<Rightarrow> r)"
  by (induction aok cat ts ps arbitrary: ss rule: parse_tokens.induct)
     (auto split: outcome.splits)

lemma run_scalars_append:
  "run_scalars aok cat (xs @ ys) ps =
     (case run_scalars aok cat xs ps of Continue ps' \<Rightarrow> run_scalars aok cat ys ps' | r \<Rightarrow> r)"
  by (induction aok cat xs ps rule: run_scalars.induct) (auto split: outcome.splits)

section \<open>What a well-formed file yields\<close>

record event_def =
  ed_name :: string
  ed_category :: string
  ed_id :: string
  ed_severity :: string
  ed_keys :: string
  ed_text :: string
  ed_template :: string

definition evt_keywords :: "string set" where
  "evt_keywords = {''event_definitions'', ''event_name'', ''event_category'', ''event_ID'',
     ''severity'', ''keys'', ''event_description_template''}"

text \<open>The scalars of one entry of \<open>event_definitions\<close>, in the order of the shipped file.\<close>

definition render_def :: "event_def \<Rightarrow> string list" where
  "render_def d =
     [''event_name'', ed_name d, ''event_category'', ed_category d, ''event_ID'', ed_id d,
      ''severity'', ed_severity d, ''keys'', ed_keys d, ''description'', ed_text d,
      ''event_description_template'', ed_template d]"

definition wf_def :: "string \<Rightarrow> event_def \<Rightarrow> bool" where
  "wf_def c d \<longleftrightarrow>
     (\<forall>v\<in>{ed_name d, ed_category d, ed_id d, ed_severity d, ed_keys d, ed_text d, ed_template d,
          strtok_cut (ed_keys d)}.
        v \<notin> evt_keywords) \<and>
     c \<notin> {ed_name d, ed_id d, ed_severity d, ed_keys d, ed_text d, ed_template d, ''description''} \<and>
     ed_name d \<noteq> [] \<and> length (ed_name d) < MAX_EVENT_NAME_SIZE \<and> ed_name d \<noteq> EVENT_NAME_DELIMITER_STR \<and>
     ed_severity d \<noteq> [] \<and> length (ed_severity d) < MAX_SEV_NAME_SIZE \<and>
     ed_template d \<noteq> [] \<and> length (ed_template d) < MAX_LOG_STR"

text \<open>The table entry of a definition.\<close>

definition event_of :: "event_def \<Rightarrow> event" where
  "event_of d = \<lparr>category = Some (ed_category d), event_id = atoi (ed_id d), event_name = ed_name d,
     severity = ed_severity d, num_of_keys = count_tokens (ed_keys d), event_description = ed_template d\<rparr>"

definition between :: "pstate \<Rightarrow> bool" where
  "between ps \<longleftrightarrow> ps_def_flag ps \<and> \<not> ps_found ps \<and> ps_val_flag ps \<noteq> 1"

lemmas parse_defs [step_simps] =
  parse_scalar_def scan_name_def scan_category_def scan_assign_def scan_keyword_def
  assign_parsed_values_def

lemma run_before_definitions:
  assumes "''event_definitions'' \<notin> set pre"
    and "\<not> ps_def_flag ps" "\<not> ps_evt_flag ps" "\<not> ps_found ps" "ps_val_flag ps = 0"
  shows "run_scalars aok cat pre ps = Continue ps"
  using assms by (induction pre) (auto simp: step_simps)

lemma run_definitions_keyword:
  assumes "\<not> ps_def_flag ps" "\<not> ps_evt_flag ps" "\<not> ps_found ps" "ps_val_flag ps = 0"
  shows "run_scalars aok cat [''event_definitions''] ps = Continue (ps\<lparr>ps_def_flag := True\<rparr>)"
  using assms by (simp add: step_simps)

text \<open>The parser state inside \<open>event_definitions\<close>, and one equation per kind of scalar.\<close>

definition St :: "event list \<Rightarrow> string \<Rightarrow> nat \<Rightarrow> bool \<Rightarrow> nat \<Rightarrow> bool \<Rightarrow> bool \<Rightarrow> pstate" where
  "St t b i e v f cf = \<lparr>ps_table = t, ps_buf = b, ps_index = i, ps_def_flag = True, ps_evt_flag = e,
     ps_val_flag = v, ps_found = f, ps_category_found = cf\<rparr>"

lemma St_sel [simp]:
  "ps_table (St t b i e v f cf) = t" "ps_buf (St t b i e v f cf) = b" "ps_index (St t b i e v f cf) = i"
  "ps_def_flag (St t b i e v f cf)" "ps_evt_flag (St t b i e v f cf) = e"
  "ps_val_flag (St t b i e v f cf) = v" "ps_found (St t b i e v f cf) = f"
  "ps_category_found (St t b i e v f cf) = cf"
  by (simp_all add: St_def)

lemma between_St: "between ps \<Longrightarrow>
  ps = St (ps_table ps) (ps_buf ps) (ps_index ps) (ps_evt_flag ps) (ps_val_flag ps) False (ps_category_found ps)"
  by (cases ps) (simp add: between_def St_def)

lemma scan_name_St [simp]: "v \<noteq> 1 \<Longrightarrow> scan_name k (St t b i e v f cf) = St t b i e v f cf"
  by (simp add: scan_name_def)

lemma scan_category_St [simp]: "k \<noteq> c \<Longrightarrow> scan_category aok c k (St t b i e v f cf) = Continue (St t b i e v f cf)"
  by (simp add: scan_category_def)

lemma scan_assign_St [simp]:
  "scan_assign k (St t b i e v False cf) = Continue (St t b i e v False cf)"
  "scan_assign k (St t b i e 0 f cf) = Continue (St t b i e 0 f cf)"
  by (simp_all add: scan_assign_def assign_parsed_values_def St_def)

lemma keyword_scalar:
  assumes "k \<in> evt_keywords" "c \<notin> evt_keywords" "v \<noteq> 1" "\<not> f \<or> v = 0"
  shows "parse_scalar aok c k (St t b i e v f cf) = Continue (scan_keyword k (St t b i e v f cf))"
proof -
  have "k \<noteq> c" using assms by auto
  with assms show ?thesis by (auto simp: parse_scalar_def)
qed

lemma scan_keyword_St [simp]:
  "scan_keyword ''event_name'' (St t b i e v f cf) = St t b i e 1 f cf"
  "scan_keyword ''event_category'' (St t b i e v f cf) = St t b i True v f cf"
  "scan_keyword ''event_ID'' (St t b i e v f cf) = St t b i e 2 f cf"
  "scan_keyword ''severity'' (St t b i True v f cf) = St t b i True 3 f cf"
  "scan_keyword ''keys'' (St t b i True v f cf) = St t b i True 4 f cf"
  "scan_keyword ''event_description_template'' (St t b i True v f cf) = St t b i True 5 f cf"
  "k \<notin> evt_keywords \<Longrightarrow> scan_keyword k (St t b i e v f cf) = St t b i e v f cf"
  by (simp_all add: scan_keyword_def St_def evt_keywords_def)

lemma kw_in [simp]:
  "''event_name'' \<in> evt_keywords" "''event_category'' \<in> evt_keywords" "''event_ID'' \<in> evt_keywords"
  "''severity'' \<in> evt_keywords" "''keys'' \<in> evt_keywords" "''event_description_template'' \<in> evt_keywords"
  "''description'' \<notin> evt_keywords"
  by (simp_all add: evt_keywords_def)

lemma name_scalar:
  assumes "k \<notin> evt_keywords" "k \<noteq> c" "k \<noteq> []" "length k < MAX_EVENT_NAME_SIZE"
  shows "parse_scalar aok c k (St t b i e 1 False cf) = Continue (St t k i e 0 False cf)"
proof -
  have "scan_name k (St t b i e 1 False cf) = St t k i e 0 False cf"
    using assms by (simp add: scan_name_def St_def)
  with assms show ?thesis by (simp add: parse_scalar_def)
qed

lemma idle_scalar:
  assumes "k \<notin> evt_keywords" "k \<noteq> c" "v \<noteq> 1" "\<not> f \<or> v = 0"
  shows "parse_scalar aok c k (St t b i e v f cf) = Continue (St t b i e v f cf)"
  using assms by (auto simp: parse_scalar_def)

lemma category_scalar:
  assumes "c \<notin> evt_keywords" "b \<noteq> []" "length b < MAX_EVENT_NAME_SIZE" "i < length t"
  shows "parse_scalar True c c (St t b i True 0 False cf) =
    Continue (St (t[i := (t ! i)\<lparr>event_name := b, category := Some c\<rparr>]) b i True 0 True True)"
proof -
  have "scan_category True c c (St t b i True 0 False cf) =
    Continue (St (t[i := (t ! i)\<lparr>event_name := b, category := Some c\<rparr>]) b i True 0 True True)"
    using assms(2-4) by (simp add: scan_category_def St_def)
  with assms(1) show ?thesis by (simp add: parse_scalar_def)
qed

lemma value_scalar:
  assumes "k \<notin> evt_keywords" "k \<noteq> c" "i < length t"
  shows "parse_scalar aok c k (St t b i e 2 True cf) =
      Continue (St (t[i := (t ! i)\<lparr>event_id := atoi k\<rparr>]) b i e 0 True cf)"
    and "k \<noteq> [] \<Longrightarrow> length k < MAX_SEV_NAME_SIZE \<Longrightarrow> parse_scalar aok c k (St t b i e 3 True cf) =
      Continue (St (t[i := (t ! i)\<lparr>severity := k\<rparr>]) b i e 0 True cf)"
    and "strtok_cut k \<notin> evt_keywords \<Longrightarrow> parse_scalar aok c k (St t b i e 4 True cf) =
      Continue (St (t[i := (t ! i)\<lparr>num_of_keys := count_tokens k\<rparr>]) b i e 0 True cf)"
    and "k \<noteq> [] \<Longrightarrow> length k < MAX_LOG_STR \<Longrightarrow> Suc i < length t \<Longrightarrow>
      parse_scalar aok c k (St t b i e 5 True cf) =
      Continue (St (t[i := (t ! i)\<lparr>event_description := k\<rparr>,
                     Suc i := (t ! Suc i)\<lparr>event_name := EVENT_NAME_DELIMITER_STR\<rparr>]) b (Suc i) e 0 False cf)"
proof -
  have p: "parse_scalar aok c k (St t b i e v True cf) =
      (case scan_assign k (St t b i e v True cf) of
         Continue ps2 \<Rightarrow> Continue (scan_keyword (if v = 4 then strtok_cut k else k) ps2) | r \<Rightarrow> r)"
    if "v \<noteq> 1" for v
    using assms that by (simp add: parse_scalar_def)
  show "parse_scalar aok c k (St t b i e 2 True cf) =
      Continue (St (t[i := (t ! i)\<lparr>event_id := atoi k\<rparr>]) b i e 0 True cf)"
    using assms p [of 2] scan_keyword_St(7) [OF assms(1)]
    by (simp add: scan_assign_def assign_parsed_values_def St_def)
  show "parse_scalar aok c k (St t b i e 3 True cf) =
      Continue (St (t[i := (t ! i)\<lparr>severity := k\<rparr>]) b i e 0 True cf)"
    if "k \<noteq> []" "length k < MAX_SEV_NAME_SIZE"
    using assms that p [of 3] scan_keyword_St(7) [OF assms(1)]
    by (simp add: scan_assign_def assign_parsed_values_def St_def)
  show "parse_scalar aok c k (St t b i e 4 True cf) =
      Continue (St (t[i := (t ! i)\<lparr>num_of_keys := count_tokens k\<rparr>]) b i e 0 True cf)"
    if "strtok_cut k \<notin> evt_keywords"
    using assms p [of 4] scan_keyword_St(7) [OF that]
    by (simp add: scan_assign_def assign_parsed_values_def St_def count_keys_def)
  show "parse_scalar aok c k (St t b i e 5 True cf) =
      Continue (St (t[i := (t ! i)\<lparr>event_description := k\<rparr>,
                     Suc i := (t ! Suc i)\<lparr>event_name := EVENT_NAME_DELIMITER_STR\<rparr>]) b (Suc i) e 0 False cf)"
    if "k \<noteq> []" "length k < MAX_LOG_STR" "Suc i < length t"
    using assms that p [of 5] scan_keyword_St(7) [OF assms(1)]
    by (simp add: scan_assign_def assign_parsed_values_def St_def)
qed

lemma render_def_keys:
  assumes "wf_def c d"
  shows "ed_name d \<notin> evt_keywords" "ed_category d \<notin> evt_keywords" "ed_id d \<notin> evt_keywords"
    "ed_severity d \<notin> evt_keywords" "ed_keys d \<notin> evt_keywords" "ed_text d \<notin> evt_keywords"
    "ed_template d \<notin> evt_keywords" "ed_name d \<noteq> c" "ed_id d \<noteq> c" "ed_severity d \<noteq> c"
    "ed_keys d \<noteq> c" "ed_text d \<noteq> c" "ed_template d \<noteq> c" "''description'' \<noteq> c"
  using assms by (auto simp: wf_def_def)

lemma run_other_event:
  assumes "between ps" and "wf_def c d" and "ed_category d \<noteq> c" and "c \<notin> evt_keywords"
  shows "\<exists>ps'. run_scalars aok c (render_def d) ps = Continue ps' \<and> between ps' \<and>
     ps_table ps' = ps_table ps \<and> ps_index ps' = ps_index ps \<and>
     ps_category_found ps' = ps_category_found ps"
proof -
  obtain t b i e v cf where ps: "ps = St t b i e v False cf" and v: "v \<noteq> 1"
    using between_St [OF assms(1)] assms(1) by (metis between_def)
  have "run_scalars aok c (render_def d) ps = Continue (St t (ed_name d) i True 5 False cf)"
    using assms(2-4) v render_def_keys [OF assms(2)]
    by (simp add: ps render_def_def keyword_scalar name_scalar idle_scalar wf_def_def
        del: One_nat_def)
  then show ?thesis by (simp add: ps between_def)
qed

lemma event_overwrite:
  "e\<lparr>event_name := n, category := c, event_id := i, severity := s, num_of_keys := k,
     event_description := d\<rparr> =
   \<lparr>category = c, event_id = i, event_name = n, severity = s, num_of_keys = k, event_description = d\<rparr>"
  for e :: event
  by (cases e) simp

lemma run_wanted_event:
  assumes "between ps" and "wf_def c d" and "ed_category d = c" and "c \<notin> evt_keywords"
    and i: "Suc (ps_index ps) < length (ps_table ps)"
  shows "\<exists>ps'. run_scalars True c (render_def d) ps = Continue ps' \<and> between ps' \<and>
     ps_table ps' = (ps_table ps)[ps_index ps := event_of d,
       Suc (ps_index ps) := (ps_table ps ! Suc (ps_index ps))\<lparr>event_name := EVENT_NAME_DELIMITER_STR\<rparr>] \<and>
     ps_index ps' = Suc (ps_index ps) \<and> ps_category_found ps'"
proof -
  obtain t b i e v cf where ps: "ps = St t b i e v False cf" and v: "v \<noteq> 1"
    using between_St [OF assms(1)] assms(1) by (metis between_def)
  have it: "i < length t" "Suc i < length t" using assms(5) ps by simp_all
  have "run_scalars True c (render_def d) ps = Continue (St (t[i := event_of d,
       Suc i := (t ! Suc i)\<lparr>event_name := EVENT_NAME_DELIMITER_STR\<rparr>]) (ed_name d) (Suc i) True 0 False True)"
    using assms(2-4) v it render_def_keys [OF assms(2)]
    by (simp add: ps render_def_def keyword_scalar name_scalar idle_scalar category_scalar value_scalar
        wf_def_def event_of_def event_overwrite del: One_nat_def)
  then show ?thesis by (simp add: ps between_def)
qed

section \<open>The table as a list of events\<close>

text \<open>The events of a table are its entries before the delimiter.\<close>

definition events_of :: "event list \<Rightarrow> event list" where
  "events_of t = takeWhile (\<lambda>e. event_name e \<noteq> EVENT_NAME_DELIMITER_STR) t"

definition delim_at :: "event list \<Rightarrow> nat \<Rightarrow> bool" where
  "delim_at t i \<longleftrightarrow> i < length t \<and> event_name (t ! i) = EVENT_NAME_DELIMITER_STR \<and>
     (\<forall>j<i. event_name (t ! j) \<noteq> EVENT_NAME_DELIMITER_STR)"

lemma delim_at_events_of: "delim_at t i \<Longrightarrow> events_of t = take i t"
  unfolding events_of_def delim_at_def by (intro takeWhile_eq_take_P_nth) auto

lemma events_of_delim_at:
  "length (events_of t) < length t \<Longrightarrow> delim_at t (length (events_of t))"
  unfolding delim_at_def events_of_def
  using nth_length_takeWhile [of "\<lambda>e. event_name e \<noteq> EVENT_NAME_DELIMITER_STR" t]
  by (auto dest: set_takeWhileD nth_mem simp flip: takeWhile_nth)

lemma find_delimiter_at:
  "length (events_of t) < length t \<Longrightarrow> find_delimiter t k = int k + int (length (events_of t))"
  by (induction t k rule: find_delimiter.induct) (auto simp: events_of_def)

lemma find_last_index_events:
  assumes "length t = MAX_EVENT_TABLE_SIZE" and "length (events_of t) < MAX_EVENT_TABLE_SIZE"
  shows "find_last_index t = int (length (events_of t))"
  using assms find_delimiter_at [of t 0] by (simp add: find_last_index_def)

abbreviation wanted :: "string \<Rightarrow> event_def list \<Rightarrow> event_def list" where
  "wanted c ds \<equiv> filter (\<lambda>d. ed_category d = c) ds"

lemma delim_at_extend:
  assumes "delim_at t i" and "Suc i < length t" and "event_name e \<noteq> EVENT_NAME_DELIMITER_STR"
    and "event_name e' = EVENT_NAME_DELIMITER_STR"
  shows "delim_at (t[i := e, Suc i := e']) (Suc i)" and "take (Suc i) (t[i := e, Suc i := e']) = take i t @ [e]"
  using assms by (auto simp: delim_at_def nth_list_update less_Suc_eq take_Suc_conv_app_nth)

lemma run_definitions:
  assumes "between ps" and "\<forall>d\<in>set ds. wf_def c d" and "c \<notin> evt_keywords"
    and "delim_at (ps_table ps) (ps_index ps)"
    and "ps_index ps + length (wanted c ds) < length (ps_table ps)"
  shows "\<exists>ps'. run_scalars True c (concat (map render_def ds)) ps = Continue ps' \<and>
     delim_at (ps_table ps') (ps_index ps') \<and>
     ps_index ps' = ps_index ps + length (wanted c ds) \<and>
     length (ps_table ps') = length (ps_table ps) \<and>
     take (ps_index ps') (ps_table ps') = take (ps_index ps) (ps_table ps) @ map event_of (wanted c ds) \<and>
     ps_category_found ps' = (ps_category_found ps \<or> wanted c ds \<noteq> [])"
  using assms
proof (induction ds arbitrary: ps)
  case Nil
  then show ?case by simp
next
  case (Cons d ds)
  then have wf: "wf_def c d" by simp
  show ?case
  proof (cases "ed_category d = c")
    case False
    from run_other_event [OF Cons.prems(1) wf False Cons.prems(3), of True]
    obtain p1 where p1: "run_scalars True c (render_def d) ps = Continue p1" "between p1"
      "ps_table p1 = ps_table ps" "ps_index p1 = ps_index ps" "ps_category_found p1 = ps_category_found ps"
      by blast
    have "\<exists>ps'. run_scalars True c (concat (map render_def ds)) p1 = Continue ps' \<and>
       delim_at (ps_table ps') (ps_index ps') \<and>
       ps_index ps' = ps_index p1 + length (wanted c ds) \<and>
       length (ps_table ps') = length (ps_table p1) \<and>
       take (ps_index ps') (ps_table ps') = take (ps_index p1) (ps_table p1) @ map event_of (wanted c ds) \<and>
       ps_category_found ps' = (ps_category_found p1 \<or> wanted c ds \<noteq> [])"
      using Cons.prems False p1 by (intro Cons.IH) simp_all
    with p1 False show ?thesis by (simp add: run_scalars_append)
  next
    case True
    have i: "Suc (ps_index ps) < length (ps_table ps)" using Cons.prems(5) True by simp
    from run_wanted_event [OF Cons.prems(1) wf True Cons.prems(3) i]
    obtain p1 e' where p1: "run_scalars True c (render_def d) ps = Continue p1" "between p1"
      "ps_table p1 = (ps_table ps)[ps_index ps := event_of d, Suc (ps_index ps) := e']"
      "event_name e' = EVENT_NAME_DELIMITER_STR"
      "ps_index p1 = Suc (ps_index ps)" "ps_category_found p1"
      by force
    have "event_name (event_of d) \<noteq> EVENT_NAME_DELIMITER_STR"
      using wf by (simp add: wf_def_def event_of_def)
    note ext = delim_at_extend [OF Cons.prems(4) i this p1(4)]
    have "\<exists>ps'. run_scalars True c (concat (map render_def ds)) p1 = Continue ps' \<and>
       delim_at (ps_table ps') (ps_index ps') \<and>
       ps_index ps' = ps_index p1 + length (wanted c ds) \<and>
       length (ps_table ps') = length (ps_table p1) \<and>
       take (ps_index ps') (ps_table ps') = take (ps_index p1) (ps_table p1) @ map event_of (wanted c ds) \<and>
       ps_category_found ps' = (ps_category_found p1 \<or> wanted c ds \<noteq> [])"
      using Cons.prems True p1 ext by (intro Cons.IH) simp_all
    with p1 True ext show ?thesis by (simp add: run_scalars_append)
  qed
qed

text \<open>A complete events file: anything before \<open>event_definitions\<close>, then the definitions.\<close>

definition events_file :: "string list \<Rightarrow> event_def list \<Rightarrow> ytoken list \<Rightarrow> bool" where
  "events_file pre ds ts \<longleftrightarrow> ''event_definitions'' \<notin> set pre \<and>
     token_scalars ts = Some (pre @ ''event_definitions'' # concat (map render_def ds))"

lemma parse_events_file:
  assumes yf: "yaml_file env = Some ts" "events_file pre ds ts"
    and env: "yaml_init env" "asprintf_ok env" "stack_token env \<noteq> STREAM_END_TOKEN"
    and wf: "\<forall>d\<in>set ds. wf_def c d" "c \<notin> evt_keywords"
    and tbl: "length t = MAX_EVENT_TABLE_SIZE"
    and room: "length (events_of t) + length (wanted c ds) < MAX_EVENT_TABLE_SIZE"
  shows "\<exists>t'. parse_yaml_for_category env (Some c) t =
      Some (Inr (if wanted c ds = [] then 0 else 1, t')) \<and>
    length t' = MAX_EVENT_TABLE_SIZE \<and>
    events_of t' = events_of t @ map event_of (wanted c ds)"
proof -
  let ?n = "length (events_of t)"
  let ?p0 = "\<lparr>ps_table = t, ps_buf = [], ps_index = ?n, ps_def_flag = False,
    ps_evt_flag = False, ps_val_flag = 0, ps_found = False, ps_category_found = False\<rparr>"
  let ?p1 = "?p0\<lparr>ps_def_flag := True\<rparr>"
  have d: "delim_at t ?n" using events_of_delim_at tbl room by simp
  have pre: "run_scalars True c (pre @ [''event_definitions'']) ?p0 = Continue ?p1"
    using yf(2) by (simp add: run_scalars_append run_before_definitions run_definitions_keyword
        events_file_def del: run_scalars.simps)
  obtain ps where ps: "run_scalars True c (concat (map render_def ds)) ?p1 = Continue ps"
    "delim_at (ps_table ps) (ps_index ps)" "length (ps_table ps) = length t"
    "take (ps_index ps) (ps_table ps) = take ?n t @ map event_of (wanted c ds)"
    "ps_category_found ps = (wanted c ds \<noteq> [])"
    using run_definitions [of ?p1 ds c] wf d room tbl by (auto simp: between_def)
  have run: "run_scalars True c (pre @ ''event_definitions'' # concat (map render_def ds)) ?p0 = Continue ps"
    using run_scalars_append [of True c "pre @ [''event_definitions'']" "concat (map render_def ds)" ?p0] pre ps(1)
    by simp
  have "parse_tokens True c ts ?p0 = Some (Return (if ps_category_found ps then 1 else 0) ps)"
    using parse_tokens_scalars [of ts _ True c ?p0] yf(2) run by (simp add: events_file_def)
  moreover have "events_of (ps_table ps) = events_of t @ map event_of (wanted c ds)"
    using delim_at_events_of [OF ps(2)] delim_at_events_of [OF d] ps(4) by simp
  ultimately show ?thesis
    using yf env tbl room ps(3,5)
    by (simp add: parse_yaml_for_category_def find_last_index_events Let_def)
qed

lemma run_wanted_overflow:
  assumes "between ps" and "wf_def c d" and "ed_category d = c" and "c \<notin> evt_keywords"
    and "Suc (ps_index ps) = length (ps_table ps)"
  shows "run_scalars True c (render_def d) ps = Fault OutOfBounds"
proof -
  obtain t b i e v cf where ps: "ps = St t b i e v False cf" and v: "v \<noteq> 1"
    using between_St [OF assms(1)] assms(1) by (metis between_def)
  have it: "i < length t" "\<not> Suc i < length t" using assms(5) ps by simp_all
  have "scan_assign k (St u b i e 5 True cf) = Fault OutOfBounds" if "length u = length t" for k b e cf u
    using it that by (simp add: scan_assign_def assign_parsed_values_def array_upd_def)
  then have "parse_scalar True c (ed_template d) (St u b i e 5 True cf) = Fault OutOfBounds"
    if "length u = length t" for b e cf u
    using that render_def_keys [OF assms(2)] by (simp add: parse_scalar_def)
  then show ?thesis
    using assms(2-4) v it render_def_keys [OF assms(2)]
    by (simp add: ps render_def_def keyword_scalar name_scalar idle_scalar category_scalar value_scalar
        wf_def_def del: One_nat_def)
qed

lemma run_definitions_overflow:
  assumes "between ps" and "\<forall>d\<in>set ds. wf_def c d" and "c \<notin> evt_keywords"
    and "ps_index ps < length (ps_table ps)"
    and "length (ps_table ps) \<le> ps_index ps + length (wanted c ds)"
  shows "run_scalars True c (concat (map render_def ds)) ps = Fault OutOfBounds"
  using assms
proof (induction ds arbitrary: ps)
  case (Cons d ds)
  then have wf: "wf_def c d" by simp
  consider (other) "ed_category d \<noteq> c"
    | (more) "ed_category d = c" "Suc (ps_index ps) < length (ps_table ps)"
    | (full) "ed_category d = c" "Suc (ps_index ps) = length (ps_table ps)"
    using Cons.prems(4) by linarith
  then show ?case
  proof cases
    case other
    from run_other_event [OF Cons.prems(1) wf other Cons.prems(3), of True]
    obtain p1 where "run_scalars True c (render_def d) ps = Continue p1" "between p1"
      "ps_table p1 = ps_table ps" "ps_index p1 = ps_index ps" by blast
    with other Cons show ?thesis by (simp add: run_scalars_append)
  next
    case more
    from run_wanted_event [OF Cons.prems(1) wf more(1) Cons.prems(3) more(2)]
    obtain p1 where "run_scalars True c (render_def d) ps = Continue p1" "between p1"
      "length (ps_table p1) = length (ps_table ps)" "ps_index p1 = Suc (ps_index ps)"
      by (metis length_list_update)
    with more Cons show ?thesis by (simp add: run_scalars_append)
  next
    case full
    from run_wanted_overflow [OF Cons.prems(1) wf full(1) Cons.prems(3) full(2)]
    show ?thesis by (simp add: run_scalars_append)
  qed
qed simp

section \<open>Invariant of the library state\<close>

definition evlog_inv :: "evlog \<Rightarrow> bool" where
  "evlog_inv s \<longleftrightarrow> length (category_table s) = MAX_CATEGORIES_PER_DAEMON \<and>
     0 \<le> category_index s \<and> category_index s \<le> int MAX_CATEGORIES_PER_DAEMON \<and>
     (\<forall>t. ev_table s = Some t \<longrightarrow> length t = MAX_EVENT_TABLE_SIZE)"

definition log_events :: "evlog \<Rightarrow> event list" where
  "log_events s = (case ev_table s of None \<Rightarrow> [] | Some t \<Rightarrow> events_of t)"

definition log_categories :: "evlog \<Rightarrow> string option list" where
  "log_categories s = take (nat (category_index s)) (category_table s)"

definition env_wf :: "evlog_env \<Rightarrow> bool" where
  "env_wf env \<longleftrightarrow> (\<forall>b. malloc_block env = Some b \<longrightarrow> length b = MAX_EVENT_TABLE_SIZE)"

lemma assign_parsed_values_length:
  "assign_parsed_values key v f i t = Inr (v', f', i', t') \<Longrightarrow> length t' = length t"
  by (auto simp: assign_parsed_values_def bind_res_eq_Inr split: if_splits dest!: array_upd_length)

lemma scan_category_length:
  "scan_category aok c k ps = Continue ps' \<or> scan_category aok c k ps = Return r ps' \<Longrightarrow>
   length (ps_table ps') = length (ps_table ps)"
  by (auto simp: scan_category_def Let_def split: if_splits sum.splits dest!: array_upd_length)

lemma scan_assign_length:
  "scan_assign k ps = Continue ps' \<or> scan_assign k ps = Return r ps' \<Longrightarrow>
   length (ps_table ps') = length (ps_table ps)"
  by (auto simp: scan_assign_def split: if_splits sum.splits dest!: assign_parsed_values_length)

lemma scan_name_table [simp]: "ps_table (scan_name k ps) = ps_table ps"
  by (simp add: scan_name_def)

lemma scan_keyword_table [simp]: "ps_table (scan_keyword k ps) = ps_table ps"
  by (simp add: scan_keyword_def)

lemma parse_scalar_length:
  "parse_scalar aok c k ps = Continue ps' \<or> parse_scalar aok c k ps = Return r ps' \<Longrightarrow>
   length (ps_table ps') = length (ps_table ps)"
  by (auto simp: parse_scalar_def split: outcome.splits
      dest!: scan_category_length [of aok c k "scan_name k ps", OF disjI1]
        scan_category_length [of aok c k "scan_name k ps", OF disjI2]
        scan_assign_length [OF disjI1] scan_assign_length [OF disjI2])

lemma parse_tokens_length:
  "parse_tokens aok c ts ps = Some (Return r ps') \<Longrightarrow> length (ps_table ps') = length (ps_table ps)"
  by (induction aok c ts ps rule: parse_tokens.induct)
     (auto split: outcome.splits dest: parse_scalar_length [OF disjI1] parse_scalar_length [OF disjI2])

lemma parse_yaml_length:
  "parse_yaml_for_category env c t = Some (Inr (r, t')) \<Longrightarrow> length t' = length t"
  by (auto simp: parse_yaml_for_category_def Let_def
      split: option.splits if_splits outcome.splits dest!: parse_tokens_length)

lemma create_event_table_inv:
  "evlog_inv s \<Longrightarrow> env_wf env \<Longrightarrow> create_event_table env s = Inr (r, s') \<Longrightarrow> evlog_inv s'"
  by (auto simp: create_event_table_def evlog_inv_def env_wf_def bind_res_eq_Inr
      split: option.splits dest!: array_upd_length)

lemma event_log_add_inv:
  assumes "evlog_inv s" "env_wf env" "event_log_add env c s = Some (Inr (r, s'))"
  shows "evlog_inv s'"
proof -
  obtain r1 s1 where s1: "(case ev_table s of None \<Rightarrow> create_event_table env s | Some _ \<Rightarrow> Inr (0, s)) = Inr (r1, s1)"
    using assms(3) by (auto simp: event_log_add_def split: sum.splits)
  then have inv1: "evlog_inv s1"
    using assms(1,2) create_event_table_inv by (auto split: option.splits)
  show ?thesis
    using assms(3) s1 inv1
    by (auto simp: event_log_add_def add_to_event_table_def Let_def bind_res_eq_Inr evlog_inv_def
        array_upd_def split: if_splits option.splits sum.splits dest!: parse_yaml_length)
qed

lemma category_search_loop_spec:
  "i + k \<le> length ct \<Longrightarrow>
   category_search_loop ct c i k = Inr (Some c \<in> set (take k (drop i ct)))"
proof (induction ct c i k rule: category_search_loop.induct)
  case (2 ct c i k)
  then have "take (Suc k) (drop i ct) = ct ! i # take k (drop (Suc i) ct)"
    by (metis Cons_nth_drop_Suc Suc_le_lessD add_Suc_right le_trans le_add1 take_Suc_Cons not_less_eq_eq)
  with 2 show ?case by auto
qed simp

lemma event_category_search_spec:
  "evlog_inv s \<Longrightarrow> event_category_search (Some c) s = Inr (Some c \<in> set (log_categories s))"
  by (simp add: event_category_search_def category_search_loop_spec evlog_inv_def log_categories_def nat_le_iff)

lemma event_log_init_new:
  assumes "evlog_inv s" "Some c \<notin> set (log_categories s)"
  shows "event_log_init env (Some c) s = event_log_add env c s"
  using assms event_category_search_spec [of s c] by (auto simp: event_log_init_def evlog_inv_def)

text \<open>The environment in which nothing of the system fails.\<close>

definition env_ok :: "evlog_env \<Rightarrow> bool" where
  "env_ok env \<longleftrightarrow> yaml_init env \<and> asprintf_ok env \<and> asprintf_cat_ok env \<and>
     stack_token env \<noteq> STREAM_END_TOKEN \<and>
     (\<exists>b. malloc_block env = Some b \<and> length b = MAX_EVENT_TABLE_SIZE)"

lemma events_of_fresh:
  "b \<noteq> [] \<Longrightarrow> events_of (b[0 := e\<lparr>event_name := EVENT_NAME_DELIMITER_STR\<rparr>]) = []"
  by (cases b) (simp_all add: events_of_def)

text \<open>Both branches on \<open>ev_table\<close> reach the parser with a table of the library's events.\<close>

lemma table_ready:
  assumes "evlog_inv s" "env_ok env"
  obtains t where
    "(case ev_table s of None \<Rightarrow> create_event_table env s | Some _ \<Rightarrow> Inr (0, s)) = Inr (0, s\<lparr>ev_table := Some t\<rparr>)"
    "length t = MAX_EVENT_TABLE_SIZE" "events_of t = log_events s"
proof (cases "ev_table s")
  case None
  obtain b where b: "malloc_block env = Some b" "length b = MAX_EVENT_TABLE_SIZE"
    using assms(2) by (auto simp: env_ok_def)
  then have "b \<noteq> []" by auto
  with None b show ?thesis
    by (intro that [of "b[0 := (b ! 0)\<lparr>event_name := EVENT_NAME_DELIMITER_STR\<rparr>]"])
       (simp_all add: create_event_table_def events_of_fresh log_events_def)
next
  case (Some t)
  with assms(1) show ?thesis
    by (intro that [of t]) (simp_all add: evlog_inv_def log_events_def)
qed

lemma event_log_init_parsed:
  assumes "evlog_inv s" "env_ok env" "Some c \<notin> set (log_categories s)"
    and "yaml_file env = Some ts" "events_file pre ds ts"
    and "\<forall>d\<in>set ds. wf_def c d" "c \<notin> evt_keywords"
    and "length (log_events s) + length (wanted c ds) < MAX_EVENT_TABLE_SIZE"
  shows "\<exists>t'. event_log_init env (Some c) s =
      (if wanted c ds = [] then Some (Inr (0, s\<lparr>ev_table := Some t'\<rparr>))
       else Some (bind_res
         (array_upd (category_table s) (nat (category_index s)) (\<lambda>_. Some c))
         (\<lambda>ct. Inr (1, s\<lparr>ev_table := Some t', category_table := ct, category_index := category_index s + 1\<rparr>)))) \<and>
    length t' = MAX_EVENT_TABLE_SIZE \<and>
    events_of t' = log_events s @ map event_of (wanted c ds)"
proof -
  obtain t where t: "(case ev_table s of None \<Rightarrow> create_event_table env s | Some _ \<Rightarrow> Inr (0, s)) = Inr (0, s\<lparr>ev_table := Some t\<rparr>)"
    "length t = MAX_EVENT_TABLE_SIZE" "events_of t = log_events s"
    using table_ready [OF assms(1,2)] by blast
  obtain t' where "parse_yaml_for_category env (Some c) t = Some (Inr (if wanted c ds = [] then 0 else 1, t'))"
    "length t' = MAX_EVENT_TABLE_SIZE" "events_of t' = events_of t @ map event_of (wanted c ds)"
    using parse_events_file [OF assms(4,5) _ _ _ assms(6,7) t(2)] t(3) assms(2,8)
    by (auto simp: env_ok_def)
  with t assms(2) show ?thesis
    by (intro exI [of _ t'])
       (simp add: event_log_init_new [OF assms(1,3)] event_log_add_def add_to_event_table_def env_ok_def)
qed

section \<open>A concrete file\<close>

definition file_tokens :: "string list \<Rightarrow> event_def list \<Rightarrow> ytoken list" where
  "file_tokens pre ds =
     map (\<lambda>k. SCALAR_TOKEN (Some k)) (pre @ ''event_definitions'' # concat (map render_def ds)) @ [STREAM_END_TOKEN]"

lemma token_scalars_map:
  "token_scalars (map (\<lambda>k. SCALAR_TOKEN (Some k)) ks @ [STREAM_END_TOKEN]) = Some ks"
  by (induction ks) auto

lemma events_file_tokens:
  "''event_definitions'' \<notin> set pre \<Longrightarrow> events_file pre ds (file_tokens pre ds)"
  unfolding events_file_def file_tokens_def by (simp only: token_scalars_map simp_thms)

definition lldp_def :: event_def where
  "lldp_def = \<lparr>ed_name = ''LLDP_ENABLED'', ed_category = ''LLDP'', ed_id = ''1001'',
     ed_severity = ''LOG_INFO'', ed_keys = ''none'', ed_text = ''LLDP enabled'',
     ed_template = ''LLDP Enabled''\<rparr>"

definition lacp_def :: event_def where
  "lacp_def = \<lparr>ed_name = ''LAG_CREATE'', ed_category = ''LAG'', ed_id = ''2001'',
     ed_severity = ''LOG_INFO'', ed_keys = ''lag_id'', ed_text = ''LAG created'',
     ed_template = ''Dynamic LAG {lag_id} created''\<rparr>"

definition blank_event :: event where
  "blank_event = \<lparr>category = None, event_id = 0, event_name = [], severity = [], num_of_keys = 0,
     event_description = []\<rparr>"

definition file_env :: "event_def list \<Rightarrow> evlog_env" where
  "file_env ds = \<lparr>yaml_file = Some (file_tokens [''LLDP''] ds), yaml_init = True,
     stack_token = OTHER_TOKEN, asprintf_ok = True, asprintf_cat_ok = True,
     malloc_block = Some (replicate MAX_EVENT_TABLE_SIZE blank_event)\<rparr>"

lemma lldp_wf: "wf_def ''LLDP'' lldp_def" "wf_def ''LLDP'' lacp_def" "''LLDP'' \<notin> evt_keywords"
  by (simp_all add: wf_def_def lldp_def_def lacp_def_def evt_keywords_def strtok_cut_def)

lemma file_env_ok [simp]: "env_ok (file_env ds)" "env_wf (file_env ds)"
  by (simp_all add: env_ok_def env_wf_def file_env_def)

lemma file_env_file: "yaml_file (file_env ds) = Some (file_tokens [''LLDP''] ds)"
  by (simp add: file_env_def)

lemma lldp_file: "events_file [''LLDP''] ds (file_tokens [''LLDP''] ds)"
  by (simp add: events_file_tokens)

lemma lldp_categories [simp]: "ed_category lldp_def = ''LLDP''" "ed_category lacp_def = ''LAG''"
  by (simp_all add: lldp_def_def lacp_def_def)

lemma evlog0_start [simp]: "evlog_inv evlog0" "log_categories evlog0 = []" "log_events evlog0 = []"
  "category_index evlog0 = 0"
  by (simp_all add: evlog_inv_def evlog0_def log_categories_def log_events_def)

definition evlog_full :: evlog where
  "evlog_full = \<lparr>ev_table = None, category_table = replicate MAX_CATEGORIES_PER_DAEMON (Some ''VLAN''),
     category_index = 99\<rparr>"

lemma evlog_full_start [simp]: "evlog_inv evlog_full" "log_categories evlog_full = replicate 99 (Some ''VLAN'')"
  "log_events evlog_full = []" "category_index evlog_full = 99"
  by (simp_all add: evlog_inv_def evlog_full_def log_categories_def log_events_def)

section \<open>Properties\<close>

lemma init_loads:
  assumes "evlog_inv s" "category_index s < int MAX_CATEGORIES_PER_DAEMON" "env_ok env"
    and "Some c \<notin> set (log_categories s)"
    and "yaml_file env = Some ts" "events_file pre ds ts"
    and "\<forall>d\<in>set ds. wf_def c d" "c \<notin> evt_keywords"
    and "length (log_events s) + length (wanted c ds) < MAX_EVENT_TABLE_SIZE" "wanted c ds \<noteq> []"
  shows "\<exists>s'. event_log_init env (Some c) s = Some (Inr (1, s')) \<and> evlog_inv s' \<and>
    log_events s' = log_events s @ map event_of (wanted c ds) \<and>
    log_categories s' = log_categories s @ [Some c]"
proof -
  obtain t' where init: "event_log_init env (Some c) s = Some (bind_res
         (array_upd (category_table s) (nat (category_index s)) (\<lambda>_. Some c))
         (\<lambda>ct. Inr (1, s\<lparr>ev_table := Some t', category_table := ct, category_index := category_index s + 1\<rparr>)))"
    and t': "length t' = MAX_EVENT_TABLE_SIZE" "events_of t' = log_events s @ map event_of (wanted c ds)"
    using event_log_init_parsed [OF assms(1,3,4,5,6,7,8,9)] assms(10) by auto
  have i: "nat (category_index s) < length (category_table s)" "0 \<le> category_index s"
    using assms(1,2) by (auto simp: evlog_inv_def)
  then have "nat (category_index s + 1) = Suc (nat (category_index s))" by simp
  with i init t' assms(1,2) show ?thesis
    by (auto simp: evlog_inv_def log_events_def log_categories_def take_Suc_conv_app_nth)
qed

text \<open>C1: initialising a category that is not loaded yet, from a well-formed events file with
  room in the table, appends exactly the file's events of that category, in order, to the
  library's events, records the category, keeps the invariant and returns 1.\<close>

theorem event_log_init_loads:
  assumes "evlog_inv s" "category_index s < int MAX_CATEGORIES_PER_DAEMON" "env_ok env"
    and "Some c \<notin> set (log_categories s)"
    and "yaml_file env = Some ts" "events_file pre ds ts"
    and "\<forall>d\<in>set ds. wf_def c d" "c \<notin> evt_keywords"
    and "length (log_events s) + length (wanted c ds) < MAX_EVENT_TABLE_SIZE" "wanted c ds \<noteq> []"
  shows "\<exists>s'. event_log_init env (Some c) s = Some (Inr (1, s')) \<and> evlog_inv s' \<and>
    log_events s' = log_events s @ map event_of (wanted c ds) \<and>
    log_categories s' = log_categories s @ [Some c]"
  using assms by (rule init_loads)

lemma event_log_init_loads_witness:
  "\<exists>s'. event_log_init (file_env [lldp_def, lacp_def]) (Some ''LLDP'') evlog0 = Some (Inr (1, s')) \<and>
    evlog_inv s' \<and> log_events s' = [event_of lldp_def] \<and> log_categories s' = [Some ''LLDP'']"
  using event_log_init_loads [OF _ _ _ _ file_env_file lldp_file, of evlog0 "[lldp_def, lacp_def]" "''LLDP''"]
  by (simp add: lldp_wf)

text \<open>A category that was already loaded is refused with -1 and nothing changes.\<close>

theorem event_log_init_duplicate:
  assumes "evlog_inv s" "Some c \<in> set (log_categories s)"
  shows "event_log_init env (Some c) s = Some (Inr (- 1, s))"
proof -
  have "category_index s \<noteq> 0" using assms(2) by (auto simp: log_categories_def)
  with assms event_category_search_spec [of s c] show ?thesis
    by (auto simp: event_log_init_def evlog_inv_def)
qed

lemma event_log_init_duplicate_witness:
  "event_log_init (file_env []) (Some ''VLAN'') evlog_full = Some (Inr (- 1, evlog_full))"
  using event_log_init_duplicate [of evlog_full "''VLAN''" "file_env []"] by simp



text \<open>With all 99 category slots taken the guard (\<open>category_index > 99\<close>) still lets a new
  category through, and recording it writes \<open>category_table[99]\<close>, past the array.\<close>

theorem event_log_init_category_overflow:
  assumes "evlog_inv s" "category_index s = int MAX_CATEGORIES_PER_DAEMON" "env_ok env"
    and "Some c \<notin> set (log_categories s)"
    and "yaml_file env = Some ts" "events_file pre ds ts"
    and "\<forall>d\<in>set ds. wf_def c d" "c \<notin> evt_keywords"
    and "length (log_events s) + length (wanted c ds) < MAX_EVENT_TABLE_SIZE" "wanted c ds \<noteq> []"
  shows "event_log_init env (Some c) s = Some (Inl OutOfBounds)"
proof -
  have "length (category_table s) \<le> nat (category_index s)"
    using assms(1,2) by (simp add: evlog_inv_def)
  with event_log_init_parsed [OF assms(1,3,4,5,6,7,8,9)] assms(10) show ?thesis
    by auto
qed

lemma event_log_init_category_overflow_witness:
  "event_log_init (file_env [lldp_def]) (Some ''LLDP'') evlog_full = Some (Inl OutOfBounds)"
  using event_log_init_category_overflow [OF _ _ _ _ file_env_file lldp_file, of evlog_full "[lldp_def]" "''LLDP''"]
  by (simp add: lldp_wf)

text \<open>A file that holds more events of the category than the table has free entries runs
  past the table: the parser has no bounds check on its index.\<close>

theorem event_log_init_table_overflow:
  assumes "evlog_inv s" "env_ok env" "Some c \<notin> set (log_categories s)"
    and "yaml_file env = Some ts" "events_file pre ds ts"
    and "\<forall>d\<in>set ds. wf_def c d" "c \<notin> evt_keywords"
    and "length (log_events s) < MAX_EVENT_TABLE_SIZE"
    and "MAX_EVENT_TABLE_SIZE \<le> length (log_events s) + length (wanted c ds)"
  shows "event_log_init env (Some c) s = Some (Inl OutOfBounds)"
proof -
  obtain t where t: "(case ev_table s of None \<Rightarrow> create_event_table env s | Some _ \<Rightarrow> Inr (0, s)) = Inr (0, s\<lparr>ev_table := Some t\<rparr>)"
    "length t = MAX_EVENT_TABLE_SIZE" "events_of t = log_events s"
    using table_ready [OF assms(1,2)] by blast
  let ?p0 = "\<lparr>ps_table = t, ps_buf = [], ps_index = length (events_of t), ps_def_flag = False,
    ps_evt_flag = False, ps_val_flag = 0, ps_found = False, ps_category_found = False\<rparr>"
  have pre: "run_scalars True c (pre @ [''event_definitions'']) ?p0 = Continue (?p0\<lparr>ps_def_flag := True\<rparr>)"
    using assms(5) by (simp add: run_scalars_append run_before_definitions run_definitions_keyword
        events_file_def del: run_scalars.simps)
  have "run_scalars True c (concat (map render_def ds)) (?p0\<lparr>ps_def_flag := True\<rparr>) = Fault OutOfBounds"
    using assms t by (intro run_definitions_overflow) (simp_all add: between_def)
  then have "run_scalars True c (pre @ ''event_definitions'' # concat (map render_def ds)) ?p0 = Fault OutOfBounds"
    using run_scalars_append [of True c "pre @ [''event_definitions'']" "concat (map render_def ds)" ?p0] pre
    by simp
  then have "parse_tokens True c ts ?p0 = Some (Fault OutOfBounds)"
    using parse_tokens_scalars [of ts _ True c ?p0] assms(5) by (simp add: events_file_def)
  then have "parse_yaml_for_category env (Some c) t = Some (Inl OutOfBounds)"
    using assms t by (simp add: parse_yaml_for_category_def find_last_index_events Let_def env_ok_def)
  with t show ?thesis
    by (simp add: event_log_init_new [OF assms(1,3)] event_log_add_def add_to_event_table_def)
qed

lemma event_log_init_table_overflow_witness:
  "event_log_init (file_env (replicate 500 lldp_def)) (Some ''LLDP'') evlog0 = Some (Inl OutOfBounds)"
  using event_log_init_table_overflow [OF _ _ _ file_env_file lldp_file, where s = evlog0 and c = "''LLDP''" and ds = "replicate 500 lldp_def"]
  by (simp add: lldp_wf)

text \<open>When the YAML scanner stops on an error, no stream end ever arrives and the parser
  loop does not return with a result.\<close>

theorem parse_needs_stream_end:
  assumes "yaml_file env = Some ts" "token_scalars ts = None" "asprintf_ok env"
    and "length (events_of t) < MAX_EVENT_TABLE_SIZE" "length t = MAX_EVENT_TABLE_SIZE"
    and "yaml_init env" "stack_token env \<noteq> STREAM_END_TOKEN"
  shows "\<nexists>r. parse_yaml_for_category env (Some c) t = Some (Inr r)"
proof -
  have cat: "scan_category True c k ps \<noteq> Return r q" for k ps r q
    by (auto simp: scan_category_def Let_def split: sum.splits)
  have asg: "scan_assign k ps \<noteq> Return r q" for k ps r q
    by (auto simp: scan_assign_def split: sum.splits)
  have sc: "parse_scalar True c k ps \<noteq> Return r q" for k ps r q
    using cat asg by (auto simp: parse_scalar_def split: outcome.splits)
  have "parse_tokens aok c ts ps \<noteq> Some (Return r q)" if "token_scalars ts = None" "aok" for r q ps aok
    using that sc by (induction aok c ts ps rule: parse_tokens.induct) (auto split: outcome.splits)
  with assms find_last_index_events [OF assms(5,4)] show ?thesis
    by (simp add: parse_yaml_for_category_def Let_def split: option.splits outcome.splits)
qed

lemma parse_needs_stream_end_witness:
  "\<nexists>r. parse_yaml_for_category (file_env []\<lparr>yaml_file := Some [OTHER_TOKEN]\<rparr>) (Some ''LLDP'')
     (replicate MAX_EVENT_TABLE_SIZE (blank_event\<lparr>event_name := EVENT_NAME_DELIMITER_STR\<rparr>)) = Some (Inr r)"
proof -
  have "events_of (replicate MAX_EVENT_TABLE_SIZE (blank_event\<lparr>event_name := EVENT_NAME_DELIMITER_STR\<rparr>)) = []"
    by (simp add: events_of_def takeWhile_replicate)
  then show ?thesis
    using parse_needs_stream_end [of "file_env []\<lparr>yaml_file := Some [OTHER_TOKEN]\<rparr>" "[OTHER_TOKEN]"
      "replicate MAX_EVENT_TABLE_SIZE (blank_event\<lparr>event_name := EVENT_NAME_DELIMITER_STR\<rparr>)" "''LLDP''"]
    by (simp add: file_env_def)
qed

end
