(* ===== verification/Event_Log.thy ===== *)
theory Event_Log
  imports Event_Table
begin

text \<open>
  \<open>src/src/eventlog/eventlog.c\<close>, second half: key/value pairs, the substitution of the
  values into an event's description template, and \<open>log_event\<close>, which sends the result to
  the journal. The \<open>static\<close> buffer of \<open>replace_str\<close> is threaded through the calls as a
  string; the loop of \<open>replace_str\<close> may not end, so it is a partial function whose
  value \<open>None\<close> means that the call does not return.
\<close>

section \<open>Key/value pairs\<close>

abbreviation KEY_VALUE_SIZE :: int where "KEY_VALUE_SIZE \<equiv> 128"

text \<open>
  \<open>key_value_string(s1, fmt, ...)\<close>. \<open>out\<close> is the text that \<open>fmt\<close> and the arguments
  after it print to (\<open>None\<close> when \<open>fmt\<close> is NULL); \<open>vsnprintf\<close> cuts it to 127 characters.
  \<open>size_str2\<close> is unsigned, so the last comparison is one of 32-bit words.
\<close>

definition key_value_string :: "bool \<Rightarrow> string option \<Rightarrow> string option \<Rightarrow> string option" where
  "key_value_string malloc_ok s1 out = (case s1 of
     None \<Rightarrow> None
   | Some str \<Rightarrow>
       if \<not> malloc_ok then None
       else
         (let size = int (length str) in
          if 0 < size \<and> size < KEY_VALUE_SIZE then
            (if 0 < KEY_VALUE_SIZE - (size + 1) then
               (let tmp = strncat str ''='' 1 in
                case out of
                  None \<Rightarrow> None
                | Some o1 \<Rightarrow>
                    (let str2 = take 127 o1; size_str2 = (of_nat (length str2) :: 32 word) in
                     if 0 < size_str2 \<and> size_str2 < of_int (KEY_VALUE_SIZE - (size + 2))
                     then Some (strncat tmp str2 (unat size_str2))
                     else None))
             else None)
          else None))"

section \<open>Substitution of a key\<close>

text \<open>\<open>for (i = len; i >= 0; i--) key[i + 1] = key[i];\<close>\<close>

fun shift_right :: "char list \<Rightarrow> nat \<Rightarrow> char list cres" where
  "shift_right key 0 = bind_res (array_get key 0) (\<lambda>c. array_upd key 1 (\<lambda>_. c))"
| "shift_right key (Suc i) =
     bind_res (array_get key (Suc i)) (\<lambda>c.
     bind_res (array_upd key (Suc (Suc i)) (\<lambda>_. c)) (\<lambda>key'. shift_right key' i))"

text \<open>\<open>strncat(key, "}", n)\<close> on the array.\<close>

definition append_brace :: "char list \<Rightarrow> nat \<Rightarrow> char list cres" where
  "append_brace key n =
     (let e = length (cstr key) in
      if n = 0 then array_upd key e (\<lambda>_. CHR 0x00)
      else bind_res (array_upd key e (\<lambda>_. CHR ''}'')) (\<lambda>k. array_upd k (e + 1) (\<lambda>_. CHR 0x00)))"

definition make_key_format :: "char list option \<Rightarrow> (int \<times> char list option) cres" where
  "make_key_format key = (case key of
     None \<Rightarrow> Inr (- 1, None)
   | Some k \<Rightarrow>
       (let len = length (cstr k) in
        if int len > KEY_VALUE_SIZE - 2 then Inr (- 1, Some k)
        else
          bind_res (shift_right k len) (\<lambda>k1.
          bind_res (array_upd k1 0 (\<lambda>_. CHR ''{'')) (\<lambda>k2.
          bind_res (append_brace k2 len) (\<lambda>k3. Inr (0, Some k3))))))"

text \<open>
  The \<open>while\<close> loop of \<open>replace_str\<close> on \<open>str\<close> and the static \<open>buffer\<close>, both arrays of
  \<open>MAX_LOG_STR\<close> bytes: \<open>sprintf\<close> writes the new text and its NUL.
\<close>

partial_function (option) replace_loop ::
    "string \<Rightarrow> string \<Rightarrow> string \<Rightarrow> string \<Rightarrow> (string \<times> string) cres option" where
  "replace_loop key_name rep str buffer = (case strstr str key_name of
     None \<Rightarrow> Some (Inr (str, buffer))
   | Some (pre, post) \<Rightarrow>
       (let new = pre @ rep @ post in
        if length new < MAX_LOG_STR then replace_loop key_name rep new new
        else Some (Inl OutOfBounds)))"

text \<open>
  \<open>replace_str\<close>: returned pointer (\<open>None\<close> for NULL), \<open>str\<close> and \<open>buffer\<close> after the call.
  \<open>key_name\<close> is an array of \<open>strlen(orig) + 2\<close> bytes; \<open>pad n\<close> is how many bytes the
  compiler leaves unused behind an array of \<open>n\<close> bytes on the stack.
\<close>

definition replace_str ::
    "(nat \<Rightarrow> nat) \<Rightarrow> string \<Rightarrow> string option \<Rightarrow> string \<Rightarrow> string \<Rightarrow>
     (string option \<times> string \<times> string) cres option" where
  "replace_str pad str orig rep buffer = (case orig of
     None \<Rightarrow> Some (Inl NullDeref)
   | Some o1 \<Rightarrow>
       (let n = length o1 + 2;
            key_name = o1 @ replicate (n + pad n - length o1) (CHR 0x00) in
        case make_key_format (Some key_name) of
          Inl e \<Rightarrow> Some (Inl e)
        | Inr (ret, key) \<Rightarrow>
            if ret < 0 then Some (Inr (None, str, buffer))
            else (case key of
                None \<Rightarrow> Some (Inl NullDeref)
              | Some k \<Rightarrow>
                  (case replace_loop (cstr k) rep str buffer of
                     None \<Rightarrow> None
                   | Some (Inl e) \<Rightarrow> Some (Inl e)
                   | Some (Inr (s, b)) \<Rightarrow> Some (Inr (Some b, s, b))))))"

text \<open>The loop of \<open>populate_str\<close>: \<open>rest\<close> is where the next \<open>strtok(NULL, "=")\<close> starts.\<close>

function populate_loop ::
    "(nat \<Rightarrow> nat) \<Rightarrow> string \<Rightarrow> string option \<Rightarrow> string \<Rightarrow> string \<Rightarrow> string \<Rightarrow>
     (int \<times> string option \<times> string \<times> string) cres option" where
  "populate_loop pad prev final rest s1 buffer =
     (case strtok ''='' rest of
        None \<Rightarrow> Some (Inr (if final = None then - 1 else 0, final, s1, buffer))
      | Some (token, rest') \<Rightarrow>
          (case replace_str pad s1 (Some prev) token buffer of
             None \<Rightarrow> None
           | Some (Inl e) \<Rightarrow> Some (Inl e)
           | Some (Inr (final', s1', buffer')) \<Rightarrow>
               if final' = None then Some (Inr (- 1, None, s1', buffer'))
               else populate_loop pad prev final' rest' s1' buffer'))"
  by pat_completeness auto
termination
  by (relation "measure (\<lambda>(pad, prev, final, rest, s1, buffer). length rest)")
     (auto dest: strtok_shorter)

declare populate_loop.simps [simp del]

definition populate_str ::
    "(nat \<Rightarrow> nat) \<Rightarrow> bool \<Rightarrow> string option \<Rightarrow> string option \<Rightarrow> string \<Rightarrow>
     (int \<times> string option \<times> string) cres option" where
  "populate_str pad aok s1 s2 buffer = (case (s1, s2) of
     (Some m, Some kv) \<Rightarrow>
       if 0 < length kv \<and> int (length kv) < KEY_VALUE_SIZE then
         if \<not> aok then Some (Inr (- 1, s1, buffer))
         else
           (case strtok ''='' kv of
              None \<Rightarrow> Some (Inl NullDeref)
            | Some (prev, rest) \<Rightarrow>
                (case populate_loop pad prev None rest m buffer of
                   None \<Rightarrow> None
                 | Some (Inl e) \<Rightarrow> Some (Inl e)
                 | Some (Inr (ret, final, m', buffer')) \<Rightarrow>
                     if ret < 0 then Some (Inr (- 1, Some m', buffer'))
                     else (case final of
                         None \<Rightarrow> Some (Inl NullDeref)
                       | Some f \<Rightarrow>
                           if 0 < length f \<and> length f < MAX_LOG_STR
                           then Some (Inr (0, Some f, buffer'))
                           else Some (Inr (- 1, Some m', buffer')))))
       else Some (Inr (- 1, s1, buffer))
   | _ \<Rightarrow> Some (Inr (- 1, s1, buffer)))"

section \<open>Event and severity lookup\<close>

fun event_search_loop :: "event list \<Rightarrow> string \<Rightarrow> nat \<Rightarrow> nat" where
  "event_search_loop [] fmt i = i"
| "event_search_loop (e # es) fmt i =
     (if strcmp_with_nullcheck (Some fmt) (Some (event_name e)) = 0 then i
      else if strcmp_with_nullcheck (Some EVENT_NAME_DELIMITER_STR) (Some (event_description e)) = 0 then i
      else event_search_loop es fmt (i + 1))"

definition event_search :: "string option \<Rightarrow> evlog \<Rightarrow> int" where
  "event_search fmt s = (case (fmt, ev_table s) of
     (Some f, Some tbl) \<Rightarrow> int (event_search_loop (take MAX_EVENT_TABLE_SIZE tbl) f 0)
   | _ \<Rightarrow> - 1)"

definition log_sev :: "string list" where
  "log_sev = [''LOG_EMERG'', ''LOG_ALERT'', ''LOG_CRIT'', ''LOG_ERR'',
              ''LOG_WARN'', ''LOG_NOTICE'', ''LOG_INFO'', ''LOG_DEBUG'']"

definition severity_level :: "string option \<Rightarrow> int" where
  "severity_level arg = (case scan_table log_sev arg 0 of Some i \<Rightarrow> i | None \<Rightarrow> - 1)"

interpretation log_severity: table_lookup log_sev 0 "- 1" severity_level
  unfolding severity_level_def [abs_def] by (rule scan_table_lookup) (simp_all add: log_sev_def)

section \<open>Logging\<close>

abbreviation MESSAGE_OPS_EVT :: string where
  "MESSAGE_OPS_EVT \<equiv> ''50c0fa81c2a545ec982a54293f1b1945''"

text \<open>The arguments of a call of \<open>sd_journal_send\<close>, before its final NULL.\<close>

datatype jarg = JStr "string option" | JInt int

record log_env =
  le_pad :: "nat \<Rightarrow> nat"
  le_asprintf :: bool             \<comment> \<open>the \<open>asprintf\<close> of \<open>populate_str\<close>\<close>
  le_asprintf_msg :: bool         \<comment> \<open>the \<open>asprintf\<close> of the message\<close>
  le_journal :: "jarg list \<Rightarrow> int" \<comment> \<open>what \<open>sd_journal_send\<close> returns\<close>

text \<open>The variables of \<open>log_event\<close> that live across keys.\<close>

record lstate =
  ls_msg :: string         \<comment> \<open>\<open>evt_msg\<close>\<close>
  ls_pair :: string        \<comment> \<open>\<open>key_value_pair\<close>\<close>
  ls_all :: string         \<comment> \<open>\<open>all_key_value_pairs\<close>\<close>
  ls_none :: bool          \<comment> \<open>\<open>key_value_none\<close>\<close>
  ls_buffer :: string      \<comment> \<open>the static buffer of \<open>replace_str\<close>\<close>

fun log_keys :: "log_env \<Rightarrow> nat \<Rightarrow> string option list \<Rightarrow> lstate \<Rightarrow> (int \<times> lstate) cres option" where
  "log_keys env 0 args ls = Some (Inr (0, ls))"
| "log_keys env (Suc n) [] ls = Some (Inl NoVarArg)"
| "log_keys env (Suc n) (None # args) ls = Some (Inr (0, ls\<lparr>ls_none := True\<rparr>))"
| "log_keys env (Suc n) (Some tmp # args) ls =
     (let pair = (if int (length tmp) < KEY_VALUE_SIZE then tmp else ls_pair ls) in
      case populate_str (le_pad env) (le_asprintf env) (Some (ls_msg ls)) (Some pair) (ls_buffer ls) of
        None \<Rightarrow> None
      | Some (Inl e) \<Rightarrow> Some (Inl e)
      | Some (Inr (ret, msg, buf)) \<Rightarrow>
          (let ls1 = ls\<lparr>ls_msg := (case msg of None \<Rightarrow> ls_msg ls | Some m \<Rightarrow> m), ls_pair := pair,
                        ls_buffer := buf\<rparr> in
           if ret < 0 then Some (Inr (- 1, ls1))
           else if KEY_VALUE_SIZE \<le> int (length pair + 1) then Some (Inl OutOfBounds)
           else
             log_keys env n args
               (ls1\<lparr>ls_pair := pair @ '','',
                    ls_all := strncat (ls_all ls1) (pair @ '','') (256 - length (ls_all ls1) - 1)\<rparr>)))"

text \<open>The message and its fields, once the keys are substituted.\<close>

definition log_send :: "log_env \<Rightarrow> event \<Rightarrow> lstate \<Rightarrow> int \<times> jarg list option" where
  "log_send env e ls =
     (if \<not> le_asprintf_msg env then (- 1, None)
      else
        (let message = ''MESSAGE=ops-evt|'' @ show_int (event_id e) @ ''|'' @ severity e @ ''|'' @ ls_msg ls;
             level = severity_level (Some (severity e)) in
         if level < 0 then (- 1, None)
         else
           (let fields =
              [JStr (Some message), JStr (Some ''PRIORITY=%d''), JInt level,
               JStr (Some ''MESSAGE_ID=%s''), JStr (Some MESSAGE_OPS_EVT),
               JStr (Some ''OPS_EVENT_ID=%d''), JInt (event_id e),
               JStr (Some ''OPS_EVENT_CATEGORY=%s''), JStr (category e)] @
              (if ls_none ls then [] else [JStr (Some (ls_all ls))])
            in (le_journal env fields, Some fields))))"

text \<open>\<open>log_event\<close>: its return value, the buffer of \<open>replace_str\<close>, and the arguments of the
  \<open>sd_journal_send\<close> it makes, if any.\<close>

definition log_event ::
    "log_env \<Rightarrow> string option \<Rightarrow> string option list \<Rightarrow> evlog \<Rightarrow> string \<Rightarrow>
     (int \<times> string \<times> jarg list option) cres option" where
  "log_event env ev_name args s buffer = (case ev_name of
     None \<Rightarrow> Some (Inr (- 1, buffer, None))
   | Some name \<Rightarrow>
       (let index = event_search (Some name) s in
        if index = int MAX_EVENT_TABLE_SIZE - 1 \<or> index < 0 then
          Some (Inr (- 1, buffer,
            Some [JStr (Some ''ops-evt|Unknown Event Name %s''), JStr (Some name),
                  JStr (Some ''MESSAGE_ID=%s''), JStr (Some MESSAGE_OPS_EVT)]))
        else (case ev_table s of
            None \<Rightarrow> Some (Inl NullDeref)
          | Some tbl \<Rightarrow>
              (case array_get tbl (nat index) of
                 Inl e \<Rightarrow> Some (Inl e)
               | Inr ev \<Rightarrow>
                   (case log_keys env (nat (num_of_keys ev)) args
                      \<lparr>ls_msg = (if length (event_description ev) < MAX_LOG_STR then event_description ev else []),
                       ls_pair = [], ls_all = [], ls_none = False, ls_buffer = buffer\<rparr> of
                      None \<Rightarrow> None
                    | Some (Inl e) \<Rightarrow> Some (Inl e)
                    | Some (Inr (ret, ls)) \<Rightarrow>
                        if ret < 0 then Some (Inr (- 1, ls_buffer ls, None))
                        else
                          (case log_send env ev ls of
                             (r, sent) \<Rightarrow> Some (Inr (r, ls_buffer ls, sent))))))))"

section \<open>The braces around a key\<close>

lemma shift_right_result:
  "Suc i < length k \<Longrightarrow> shift_right k i = Inr (k ! 0 # take (Suc i) k @ drop (Suc (Suc i)) k)"
proof (induction i arbitrary: k)
  case 0
  then obtain a b r where "k = a # b # r" by (metis length_Cons Suc_less_eq length_Suc_conv less_Suc_eq_0_disj list.exhaust list.size(3) not_less_zero)
  then show ?case by simp
next
  case (Suc i)
  let ?k = "k[Suc (Suc i) := k ! Suc i]"
  have "shift_right ?k i = Inr (?k ! 0 # take (Suc i) ?k @ drop (Suc (Suc i)) ?k)"
    using Suc.prems by (intro Suc.IH) simp
  moreover have "drop (Suc (Suc i)) ?k = k ! Suc i # drop (Suc (Suc (Suc i))) k"
    using Suc.prems by (simp add: Cons_nth_drop_Suc [symmetric, of "Suc (Suc i)"])
  moreover have "take (Suc (Suc i)) k = take (Suc i) k @ [k ! Suc i]"
    using Suc.prems by (simp add: take_Suc_conv_app_nth)
  ultimately show ?case using Suc.prems by simp
qed

lemma cstr_pad: "CHR 0x00 \<notin> set s \<Longrightarrow> 0 < m \<Longrightarrow> cstr (s @ replicate m (CHR 0x00)) = s"
  by (cases m) simp_all

lemma make_key_format_result:
  assumes "o1 \<noteq> []" "CHR 0x00 \<notin> set o1" "length o1 \<le> 126" "2 \<le> m"
  shows "make_key_format (Some (o1 @ replicate m (CHR 0x00))) =
    (if m = 2 then Inl OutOfBounds
     else Inr (0, Some ((''{'' @ o1 @ ''}'') @ replicate (m - 2) (CHR 0x00))))"
proof -
  let ?n = "length o1"
  obtain j where m: "m = Suc (Suc j)" using assms(4) by (metis add_2_eq_Suc le_Suc_ex)
  let ?k = "o1 @ replicate m (CHR 0x00)"
  have cs: "cstr ?k = o1" using assms(2,4) by (intro cstr_pad) simp_all
  have "shift_right ?k ?n = Inr (?k ! 0 # take (Suc ?n) ?k @ drop (Suc (Suc ?n)) ?k)"
    using m by (intro shift_right_result) simp
  then have sh: "shift_right ?k ?n = Inr (hd o1 # o1 @ CHR 0x00 # replicate j (CHR 0x00))"
    using m assms(1) by (simp add: nth_append hd_conv_nth)
  let ?k2 = "CHR ''{'' # o1 @ CHR 0x00 # replicate j (CHR 0x00)"
  have cs2: "cstr ?k2 = CHR ''{'' # o1"
    using cstr_stop [of "CHR ''{'' # o1" "replicate j (CHR 0x00)"] assms(2) by simp
  have br: "append_brace ?k2 ?n = (if j = 0 then Inl OutOfBounds
      else Inr (CHR ''{'' # o1 @ CHR ''}'' # replicate j (CHR 0x00)))"
  proof (cases j)
    case 0
    then show ?thesis using assms(1) cs2 by (simp add: append_brace_def list_update_append)
  next
    case (Suc i)
    then show ?thesis using assms(1) cs2 by (simp add: append_brace_def list_update_append)
  qed
  show ?thesis
    using cs sh br m assms(3) by (simp add: make_key_format_def)
qed

section \<open>Templates\<close>

text \<open>A description template: literal text and holes \<open>{key}\<close>.\<close>

datatype piece = Lit string | Hole string

type_synonym template = "piece list"

primrec render_piece :: "piece \<Rightarrow> string" where
  "render_piece (Lit s) = s"
| "render_piece (Hole k) = ''{'' @ k @ ''}''"

definition render :: "template \<Rightarrow> string" where
  "render t = concat (map render_piece t)"

definition fill :: "string \<Rightarrow> string \<Rightarrow> template \<Rightarrow> template" where
  "fill k v t = map (\<lambda>p. if p = Hole k then Lit v else p) t"

fun wf_piece :: "piece \<Rightarrow> bool" where
  "wf_piece (Lit s) \<longleftrightarrow> CHR ''{'' \<notin> set s"
| "wf_piece (Hole k) \<longleftrightarrow> CHR ''{'' \<notin> set k \<and> CHR ''}'' \<notin> set k"

abbreviation wf_template :: "template \<Rightarrow> bool" where
  "wf_template t \<equiv> list_all wf_piece t"

abbreviation key_of :: "string \<Rightarrow> string" where "key_of k \<equiv> ''{'' @ k @ ''}''"

lemma render_simps [simp]:
  "render [] = []" "render (p # t) = render_piece p @ render t" "render (t @ u) = render t @ render u"
  by (simp_all add: render_def)

lemma fill_simps [simp]:
  "fill k v [] = []" "fill k v (Hole k # t) = Lit v # fill k v t" "fill k v (Lit s # t) = Lit s # fill k v t"
  "j \<noteq> k \<Longrightarrow> fill k v (Hole j # t) = Hole j # fill k v t" "fill k v (t @ u) = fill k v t @ fill k v u"
  by (simp_all add: fill_def)

lemma fill_absent: "Hole k \<notin> set t \<Longrightarrow> fill k v t = t"
  by (induction t) (auto simp: fill_def)

lemma wf_fill: "wf_template t \<Longrightarrow> CHR ''{'' \<notin> set v \<Longrightarrow> wf_template (fill k v t)"
  by (induction t) (auto simp: fill_def)

definition after :: "string \<Rightarrow> (string \<times> string) option \<Rightarrow> (string \<times> string) option" where
  "after s r = (case r of None \<Rightarrow> None | Some (a, b) \<Rightarrow> Some (s @ a, b))"

lemma after_simps [simp]:
  "after s None = None" "after s (Some (a, b)) = Some (s @ a, b)" "after [] r = r"
  "after s (after t r) = after (s @ t) r"
  by (auto simp: after_def split: option.split)

lemma strstr_step:
  "take (length p) (d # s) \<noteq> p \<Longrightarrow> strstr (d # s) p = after [d] (strstr s p)"
  by (subst strstr.simps) (auto simp: after_def split: option.split)

lemma strstr_skip: "c \<notin> set s \<Longrightarrow> strstr (s @ x) (c # p) = after s (strstr x (c # p))"
proof (induction s)
  case (Cons d s)
  then have "strstr ((d # s) @ x) (c # p) = after [d] (strstr (s @ x) (c # p))"
    using strstr_step [of "c # p" d "s @ x"] by auto
  with Cons show ?case by simp
qed simp

lemma brace_prefix:
  assumes "CHR ''}'' \<notin> set j" "CHR ''}'' \<notin> set k" "take (Suc (length k)) (j @ CHR ''}'' # x) = k @ ''}''"
  shows "j = k"
proof -
  have "j @ CHR ''}'' # x = (k @ ''}'') @ drop (Suc (length k)) (j @ CHR ''}'' # x)"
    using assms(3) append_take_drop_id [of "Suc (length k)" "j @ CHR ''}'' # x"] by simp
  then have "takeWhile (\<lambda>c. c \<noteq> CHR ''}'') (j @ CHR ''}'' # x) =
      takeWhile (\<lambda>c. c \<noteq> CHR ''}'') (k @ CHR ''}'' # drop (Suc (length k)) (j @ CHR ''}'' # x))"
    by simp
  moreover have "takeWhile (\<lambda>c. c \<noteq> CHR ''}'') (j @ CHR ''}'' # x) = j"
    using assms(1) by (intro takeWhile_stop) auto
  moreover have "takeWhile (\<lambda>c. c \<noteq> CHR ''}'') (k @ CHR ''}'' # y) = k" for y
    using assms(2) by (intro takeWhile_stop) auto
  ultimately show ?thesis by simp
qed

lemma strstr_other_hole:
  assumes "j \<noteq> k" "wf_piece (Hole j)" "CHR ''}'' \<notin> set k"
  shows "strstr (key_of j @ x) (key_of k) = after (key_of j) (strstr x (key_of k))"
proof -
  have "take (length (key_of k)) (CHR ''{'' # (j @ ''}'') @ x) \<noteq> key_of k"
    using brace_prefix [of j k x] assms by auto
  from strstr_step [OF this]
  have "strstr (key_of j @ x) (key_of k) = after ''{'' (strstr ((j @ ''}'') @ x) (key_of k))"
    by simp
  also have "strstr ((j @ ''}'') @ x) (key_of k) = after (j @ ''}'') (strstr x (key_of k))"
    using assms(2) strstr_skip [of "CHR ''{''" "j @ ''}''" x "k @ ''}''"] by simp
  finally show ?thesis by simp
qed

lemma strstr_render:
  assumes "wf_template t" "CHR ''}'' \<notin> set k" "Hole k \<notin> set t"
  shows "strstr (render t @ x) (key_of k) = after (render t) (strstr x (key_of k))"
  using assms
proof (induction t)
  case (Cons p t)
  then have IH: "strstr (render t @ x) (key_of k) = after (render t) (strstr x (key_of k))" by simp
  show ?case
  proof (cases p)
    case (Lit s)
    with Cons.prems have "strstr (s @ (render t @ x)) (key_of k) = after s (strstr (render t @ x) (key_of k))"
      using strstr_skip [of "CHR ''{''" s "render t @ x" "k @ ''}''"] by simp
    with Lit IH show ?thesis by simp
  next
    case (Hole j)
    with Cons.prems have "strstr (key_of j @ (render t @ x)) (key_of k) =
        after (key_of j) (strstr (render t @ x) (key_of k))"
      by (intro strstr_other_hole) auto
    with Hole IH show ?thesis by simp
  qed
qed simp

lemma strstr_key_here: "strstr (key_of k @ x) (key_of k) = Some ([], x)"
  by (subst strstr.simps) simp

lemma strstr_key_nil: "strstr [] (key_of k) = None"
  by (subst strstr.simps) simp

lemma replace_loop_absent:
  assumes "wf_template t" "CHR ''}'' \<notin> set k" "Hole k \<notin> set t"
  shows "replace_loop (key_of k) v (render t) buf = Some (Inr (render t, buf))"
  using strstr_render [OF assms, of "[]"] strstr_key_nil [of k]
  by (subst replace_loop.simps) simp

text \<open>The first hole of a template that has one.\<close>

lemma strstr_render_hole:
  assumes "wf_template t1" "CHR ''}'' \<notin> set k" "Hole k \<notin> set t1"
  shows "strstr (render (t1 @ Hole k # t2)) (key_of k) = Some (render t1, render t2)"
  using strstr_render [OF assms, of "render (Hole k # t2)"] strstr_key_here [of k "render t2"] by simp

text \<open>
  On a template the loop computes \<open>fill\<close>. While it runs, the text holds \<open>m\<close> values and
  the remaining holes, so its length lies between those of the two ends.
\<close>

lemma length_fill:
  "length (render (fill k v t)) + count_list t (Hole k) * (length k + 2) =
   length (render t) + count_list t (Hole k) * length v"
proof (induction t)
  case (Cons p t)
  then show ?case by (cases "p = Hole k") (auto simp: fill_def)
qed simp

lemma replace_loop_fill:
  assumes "wf_template t" "CHR ''{'' \<notin> set v" "CHR ''}'' \<notin> set k" "CHR ''{'' \<notin> set k"
    and "length (render t) < MAX_LOG_STR" "length (render (fill k v t)) < MAX_LOG_STR"
    and "Hole k \<in> set t \<or> buf = render t"
  shows "replace_loop (key_of k) v (render t) buf = Some (Inr (render (fill k v t), render (fill k v t)))"
  using assms
proof (induction "count_list t (Hole k)" arbitrary: t buf)
  case 0
  then have "Hole k \<notin> set t" by (simp add: count_list_0_iff)
  with 0 show ?case using replace_loop_absent [of t k v buf] by (simp add: fill_absent)
next
  case (Suc n)
  then have "Hole k \<in> set t" by (metis count_list_0_iff nat.distinct(1))
  then obtain t1 t2 where t: "t = t1 @ Hole k # t2" "Hole k \<notin> set t1"
    by (meson split_list_first)
  let ?t = "t1 @ Lit v # t2"
  have fill: "fill k v ?t = fill k v t" using t by (simp add: fill_absent)
  have n: "n = count_list ?t (Hole k)" using Suc(2) t by simp
  have wf: "wf_template ?t" using Suc.prems(1,2) t by simp
  have len: "length (render ?t) < MAX_LOG_STR"
  proof (cases "length v \<le> length k + 2")
    case True
    then show ?thesis using Suc.prems(5) t by simp
  next
    case False
    then have "n * (length k + 2) \<le> n * length v" by (intro mult_le_mono2) simp
    then have "length (render ?t) \<le> length (render (fill k v ?t))"
      using length_fill [of k v ?t] unfolding n [symmetric] by linarith
    with Suc.prems(6) fill show ?thesis by simp
  qed
  have "replace_loop (key_of k) v (render ?t) (render ?t) = Some (Inr (render (fill k v ?t), render (fill k v ?t)))"
    using Suc.prems wf len fill by (intro Suc.hyps(1) n) simp_all
  moreover have "strstr (render t) (key_of k) = Some (render t1, render t2)"
    using strstr_render_hole [of t1 k t2] Suc.prems t by simp
  ultimately show ?case
    using len by (subst replace_loop.simps) (simp flip: fill)
qed

section \<open>One key/value pair\<close>

definition wf_kv :: "string \<Rightarrow> string \<Rightarrow> bool" where
  "wf_kv k v \<longleftrightarrow> k \<noteq> [] \<and> v \<noteq> [] \<and> length k + length v + 2 < 128 \<and>
     set k \<inter> {CHR ''{'', CHR ''}'', CHR ''='', CHR 0x00} = {} \<and> set v \<inter> {CHR ''{'', CHR ''=''} = {}"

abbreviation pair_of :: "string \<Rightarrow> string \<Rightarrow> string" where "pair_of k v \<equiv> k @ ''='' @ v"

lemma replace_str_overflow:
  assumes "orig \<noteq> []" "CHR 0x00 \<notin> set orig" "length orig \<le> 126" "pad (length orig + 2) = 0"
  shows "replace_str pad str (Some orig) rep buffer = Some (Inl OutOfBounds)"
  using make_key_format_result [of orig 2] assms by (simp add: replace_str_def Let_def numeral_2_eq_2)

lemma replace_str_fill:
  assumes "wf_kv k v" "wf_template t" "0 < pad (length k + 2)"
    and "length (render t) < MAX_LOG_STR" "length (render (fill k v t)) < MAX_LOG_STR" "Hole k \<in> set t"
  shows "replace_str pad (render t) (Some k) v buf =
    Some (Inr (Some (render (fill k v t)), render (fill k v t), render (fill k v t)))"
proof -
  let ?m = "2 + pad (length k + 2)"
  have "make_key_format (Some (k @ replicate ?m (CHR 0x00))) =
      Inr (0, Some (key_of k @ replicate (?m - 2) (CHR 0x00)))"
    using assms(1,3) make_key_format_result [of k ?m] by (simp add: wf_kv_def)
  moreover have "cstr (key_of k @ replicate (?m - 2) (CHR 0x00)) = key_of k"
    using assms(1,3) by (intro cstr_pad) (auto simp: wf_kv_def)
  moreover have "replace_loop (key_of k) v (render t) buf =
      Some (Inr (render (fill k v t), render (fill k v t)))"
    using assms by (intro replace_loop_fill) (auto simp: wf_kv_def)
  ultimately show ?thesis by (simp add: replace_str_def Let_def add.commute)
qed

lemma populate_str_fill:
  assumes "wf_kv k v" "wf_template t" "0 < pad (length k + 2)"
    and "length (render t) < MAX_LOG_STR" "length (render (fill k v t)) < MAX_LOG_STR" "Hole k \<in> set t"
  shows "populate_str pad True (Some (render t)) (Some (pair_of k v)) buf =
    Some (Inr (0, Some (render (fill k v t)), render (fill k v t)))"
proof -
  have "Lit v \<in> set (fill k v t)" using assms(6) by (force simp: fill_def)
  then obtain t1 t2 where "fill k v t = t1 @ Lit v # t2" by (meson split_list)
  then have ne: "render (fill k v t) \<noteq> []" using assms(1) by (simp add: wf_kv_def)
  have "strtok ''='' (pair_of k v) = Some (k, v)"
    using assms(1) strtok_first [of k "''=''" "CHR ''=''" v] by (auto simp: wf_kv_def)
  moreover have "strtok ''='' v = Some (v, [])"
    using assms(1) by (intro strtok_last) (auto simp: wf_kv_def)
  ultimately show ?thesis
    using assms(1,5) ne replace_str_fill [of k v t pad buf] assms
    by (simp add: populate_str_def populate_loop.simps wf_kv_def)
qed

section \<open>All pairs of a call\<close>

fun fill_all :: "(string \<times> string) list \<Rightarrow> template \<Rightarrow> template" where
  "fill_all [] t = t"
| "fill_all ((k, v) # kvs) t = fill_all kvs (fill k v t)"

text \<open>Every pair is well formed, has a hole to fill, and no intermediate text outgrows the
  message buffer.\<close>

fun fits :: "(nat \<Rightarrow> nat) \<Rightarrow> (string \<times> string) list \<Rightarrow> template \<Rightarrow> bool" where
  "fits pad [] t \<longleftrightarrow> length (render t) < MAX_LOG_STR"
| "fits pad ((k, v) # kvs) t \<longleftrightarrow> length (render t) < MAX_LOG_STR \<and> wf_kv k v \<and> Hole k \<in> set t \<and>
     0 < pad (length k + 2) \<and> fits pad kvs (fill k v t)"

lemma fits_length: "fits pad kvs t \<Longrightarrow> length (render t) < MAX_LOG_STR"
  by (cases "(pad, kvs, t)" rule: fits.cases) auto

definition pairs_text :: "(string \<times> string) list \<Rightarrow> string" where
  "pairs_text kvs = concat (map (\<lambda>(k, v). pair_of k v @ '','') kvs)"

lemma strncat_limit: "length a \<le> n \<Longrightarrow> strncat a b (n - length a) = take n (a @ b)"
  by (simp add: strncat_def)

lemma take_take_append: "take n (take n xs @ ys) = take n (xs @ ys)"
  by (cases "n \<le> length xs") simp_all

lemma log_keys_fill:
  assumes "fits (le_pad env) kvs t" "wf_template t" "le_asprintf env" "ls_msg ls = render t"
    and "length (ls_all ls) \<le> 255"
  shows "\<exists>ls'. log_keys env (length kvs) (map (\<lambda>(k, v). Some (pair_of k v)) kvs @ rest) ls = Some (Inr (0, ls')) \<and>
     ls_msg ls' = render (fill_all kvs t) \<and> ls_none ls' = ls_none ls \<and>
     ls_all ls' = take 255 (ls_all ls @ pairs_text kvs)"
  using assms
proof (induction kvs arbitrary: t ls)
  case Nil
  then show ?case by (simp add: pairs_text_def)
next
  case (Cons kv kvs)
  obtain k v where kv: "kv = (k, v)" by (cases kv)
  let ?r = "render (fill k v t)" and ?p = "pair_of k v"
  let ?ls = "ls\<lparr>ls_msg := ?r, ls_buffer := ?r, ls_pair := ?p @ '','',
      ls_all := take 255 (ls_all ls @ ?p @ '','')\<rparr>"
  from Cons.prems kv have wf: "wf_kv k v" "Hole k \<in> set t" "0 < le_pad env (length k + 2)"
    "fits (le_pad env) kvs (fill k v t)" "length (render t) < MAX_LOG_STR" by auto
  have pop: "populate_str (le_pad env) True (Some (render t)) (Some ?p) (ls_buffer ls) = Some (Inr (0, Some ?r, ?r))"
    using wf Cons.prems fits_length [OF wf(4)] by (intro populate_str_fill)
  have len: "length k + length v + 2 < 128" using wf(1) by (simp add: wf_kv_def)
  have cat: "strncat (ls_all ls) (?p @ '','') (256 - length (ls_all ls) - 1) = take 255 (ls_all ls @ ?p @ '','')"
    using strncat_limit [of "ls_all ls" 255 "?p @ '',''"] Cons.prems(5) by simp
  have step: "log_keys env (length (kv # kvs)) (map (\<lambda>(k, v). Some (pair_of k v)) (kv # kvs) @ rest) ls =
      log_keys env (length kvs) (map (\<lambda>(k, v). Some (pair_of k v)) kvs @ rest) ?ls"
    using pop len cat Cons.prems(3,4) kv by (simp add: Let_def del: take_append)
  have "\<exists>ls'. log_keys env (length kvs) (map (\<lambda>(k, v). Some (pair_of k v)) kvs @ rest) ?ls = Some (Inr (0, ls')) \<and>
     ls_msg ls' = render (fill_all kvs (fill k v t)) \<and> ls_none ls' = ls_none ?ls \<and>
     ls_all ls' = take 255 (ls_all ?ls @ pairs_text kvs)"
    using wf Cons.prems by (intro Cons.IH) (auto intro: wf_fill simp: wf_kv_def)
  moreover have "take 255 (take 255 (ls_all ls @ ?p @ '','') @ pairs_text kvs) =
      take 255 (ls_all ls @ pairs_text (kv # kvs))"
    using kv by (simp add: take_take_append pairs_text_def del: take_append)
  ultimately show ?case unfolding step using kv by auto
qed

section \<open>The event that a name finds\<close>

lemma event_search_loop_hit:
  assumes "k < length es" "event_name (es ! k) = f"
    and "\<forall>j<k. event_name (es ! j) \<noteq> f \<and> event_description (es ! j) \<noteq> EVENT_NAME_DELIMITER_STR"
  shows "event_search_loop es f i = i + k"
  using assms
proof (induction es arbitrary: k i)
  case (Cons e es)
  show ?case
  proof (cases k)
    case 0
    with Cons.prems show ?thesis by simp
  next
    case (Suc m)
    with Cons.prems have e: "event_name e \<noteq> f" "event_description e \<noteq> EVENT_NAME_DELIMITER_STR"
      by (metis nth_Cons_0 zero_less_Suc)+
    have "event_search_loop es f (i + 1) = i + 1 + m"
      using Cons.prems Suc by (intro Cons.IH) force+
    with Suc show ?thesis using e e [symmetric] by simp
  qed
qed simp

lemma event_search_loop_miss:
  "\<forall>e\<in>set es. event_name e \<noteq> f \<and> event_description e \<noteq> EVENT_NAME_DELIMITER_STR \<Longrightarrow>
   event_search_loop es f i = i + length es"
proof (induction es arbitrary: i)
  case (Cons e es)
  then have "f \<noteq> event_name e" "EVENT_NAME_DELIMITER_STR \<noteq> event_description e" by (metis list.set_intros(1))+
  with Cons show ?case by simp
qed simp

lemma log_events_nth:
  assumes "ev_table s = Some t" "i < length (log_events s)"
  shows "log_events s ! i = t ! i" and "i < length t"
  using assms length_takeWhile_le [of "\<lambda>e. event_name e \<noteq> EVENT_NAME_DELIMITER_STR" t]
  by (auto simp: log_events_def events_of_def takeWhile_nth)

lemma event_search_hit:
  assumes "evlog_inv s" "i < length (log_events s)"
    and "\<forall>j<i. event_name (log_events s ! j) \<noteq> event_name (log_events s ! i) \<and>
      event_description (log_events s ! j) \<noteq> EVENT_NAME_DELIMITER_STR"
  obtains t where "ev_table s = Some t" "event_search (Some (event_name (log_events s ! i))) s = int i"
    "array_get t i = Inr (log_events s ! i)"
proof -
  from assms(2) obtain t where t: "ev_table s = Some t"
    by (auto simp: log_events_def split: option.splits)
  have len: "length t = MAX_EVENT_TABLE_SIZE" using assms(1) t by (simp add: evlog_inv_def)
  have nth: "log_events s ! j = t ! j" "j < length t" if "j \<le> i" for j
    using log_events_nth [OF t, of j] assms(2) that by auto
  have "event_search_loop t (event_name (log_events s ! i)) 0 = 0 + i"
    using assms(3) nth by (intro event_search_loop_hit) auto
  with t len nth [of i] show ?thesis
    by (intro that [of t]) (simp_all add: event_search_def)
qed

section \<open>A concrete library\<close>

definition lag_log :: evlog where
  "lag_log = \<lparr>ev_table = Some (event_of lacp_def # replicate 499 (blank_event\<lparr>event_name := EVENT_NAME_DELIMITER_STR\<rparr>)),
     category_table = replicate 99 None, category_index = 0\<rparr>"

definition full_log :: evlog where
  "full_log = lag_log\<lparr>ev_table := Some (replicate 500 (event_of lldp_def))\<rparr>"

definition lag_env :: log_env where
  "lag_env = \<lparr>le_pad = \<lambda>n. 8, le_asprintf = True, le_asprintf_msg = True, le_journal = \<lambda>f. 0\<rparr>"

definition lag_template :: template where
  "lag_template = [Lit ''Dynamic LAG '', Hole ''lag_id'', Lit '' created'']"

lemma lag_log_events [simp]: "evlog_inv lag_log" "log_events lag_log = [event_of lacp_def]"
  by (simp_all add: lag_log_def evlog_inv_def log_events_def events_of_def takeWhile_replicate
      event_of_def lacp_def_def)

section \<open>Properties\<close>

lemma key_value_eq:
  "key_value_string m s1 out =
    (case (s1, out) of
       (Some k, Some v) \<Rightarrow>
         if m \<and> k \<noteq> [] \<and> v \<noteq> [] \<and> length k + length v + 2 < 128 then Some (k @ ''='' @ v) else None
     | _ \<Rightarrow> None)"
proof -
  have w: "(of_nat n :: 32 word) < of_int (KEY_VALUE_SIZE - (int k + 2)) \<longleftrightarrow> n + k + 2 < 128"
    if "n \<le> 127" "k < 127" for n k
  proof -
    have "(of_int (KEY_VALUE_SIZE - (int k + 2)) :: 32 word) = of_nat (126 - k)"
      using that by (simp flip: of_nat_diff add: of_nat_diff)
    moreover have u: "unat (of_nat j :: 32 word) = j" if "j < 200" for j
      using that by (simp add: unat_of_nat)
    have "(of_nat n :: 32 word) < of_nat (126 - k) \<longleftrightarrow> n < 126 - k"
      unfolding word_less_nat_alt using that by (subst (1 2) u) simp_all
    ultimately show ?thesis by auto
  qed
  have z: "(0 :: 32 word) < of_nat n \<longleftrightarrow> 0 < n" "unat (of_nat n :: 32 word) = n" if "n \<le> 127" for n
    using that by (simp_all add: word_less_nat_alt unat_of_nat)
  show ?thesis
  proof (cases "s1 \<noteq> None \<and> out \<noteq> None")
    case True
    then obtain k v where kv: "s1 = Some k" "out = Some v" by auto
    have l: "length (take 127 v) \<le> 127" by simp
    show ?thesis
    proof (cases "m \<and> k \<noteq> [] \<and> length k < 127")
      case True
      then show ?thesis
        using kv w [OF l, of "length k"] z [OF l]
        by (auto simp: key_value_string_def Let_def strncat_def min_def)
    next
      case False
      then show ?thesis using kv by (auto simp: key_value_string_def Let_def)
    qed
  next
    case False
    then show ?thesis by (auto simp: key_value_string_def Let_def split: option.splits)
  qed
qed

text \<open>\<open>EV_KV(k, v)\<close> yields \<open>k=v\<close> exactly when memory is left, both parts are non-empty and the
  pair and its NUL fit in 127 bytes; in every other case it yields NULL.\<close>

theorem key_value_string_spec:
  "key_value_string m s1 out =
    (case (s1, out) of
       (Some k, Some v) \<Rightarrow>
         if m \<and> k \<noteq> [] \<and> v \<noteq> [] \<and> length k + length v + 2 < 128 then Some (k @ ''='' @ v) else None
     | _ \<Rightarrow> None)"
  by (rule key_value_eq)

text \<open>The arguments of the journal call for an event whose message is \<open>msg\<close>.\<close>

definition event_fields :: "event \<Rightarrow> string \<Rightarrow> string \<Rightarrow> jarg list" where
  "event_fields e msg pairs =
     [JStr (Some (''MESSAGE=ops-evt|'' @ show_int (event_id e) @ ''|'' @ severity e @ ''|'' @ msg)),
      JStr (Some ''PRIORITY=%d''), JInt (severity_level (Some (severity e))),
      JStr (Some ''MESSAGE_ID=%s''), JStr (Some MESSAGE_OPS_EVT),
      JStr (Some ''OPS_EVENT_ID=%d''), JInt (event_id e),
      JStr (Some ''OPS_EVENT_CATEGORY=%s''), JStr (category e), JStr (Some pairs)]"

abbreviation EV_KV :: "string \<times> string \<Rightarrow> string option" where
  "EV_KV kv \<equiv> key_value_string True (Some (fst kv)) (Some (snd kv))"

lemma fits_EV_KV:
  "fits pad kvs t \<Longrightarrow> map EV_KV kvs = map (\<lambda>(k, v). Some (pair_of k v)) kvs"
  by (induction pad kvs t rule: fits.induct) (auto simp: key_value_eq wf_kv_def)

lemma severity_level_known: "x \<in> set log_sev \<Longrightarrow> 0 \<le> severity_level (Some x)"
  using log_severity.look_miss_iff [of "Some x"] log_severity.look_in_range [of "Some x"] by auto

lemma log_event_sends:
  assumes "evlog_inv s" "i < length (log_events s)" "i \<noteq> 499" "e = log_events s ! i"
    and "\<forall>j<i. event_name (log_events s ! j) \<noteq> event_name e \<and>
      event_description (log_events s ! j) \<noteq> EVENT_NAME_DELIMITER_STR"
    and "event_description e = render t" "wf_template t" "num_of_keys e = int (length kvs)"
    and "fits (le_pad env) kvs t" "le_asprintf env" "le_asprintf_msg env" "severity e \<in> set log_sev"
  shows "\<exists>buf' fields. fields = event_fields e (render (fill_all kvs t)) (take 255 (pairs_text kvs)) \<and>
    log_event env (Some (event_name e)) (map EV_KV kvs) s buf =
      Some (Inr (le_journal env fields, buf', Some fields))"
proof -
  obtain tbl where tbl: "ev_table s = Some tbl" "event_search (Some (event_name e)) s = int i"
    "array_get tbl i = Inr e"
    using event_search_hit [OF assms(1,2)] assms(4,5) by metis
  let ?ls = "\<lparr>ls_msg = render t, ls_pair = [], ls_all = [], ls_none = False, ls_buffer = buf\<rparr>"
  obtain ls' where ls': "log_keys env (length kvs) (map (\<lambda>(k, v). Some (pair_of k v)) kvs) ?ls = Some (Inr (0, ls'))"
    "ls_msg ls' = render (fill_all kvs t)" "\<not> ls_none ls'" "ls_all ls' = take 255 (pairs_text kvs)"
    using log_keys_fill [OF assms(9,7,10), of ?ls "[]"] by auto
  have "log_event env (Some (event_name e)) (map EV_KV kvs) s buf =
      (case log_send env e ls' of (r, sent) \<Rightarrow> Some (Inr (r, ls_buffer ls', sent)))"
    unfolding fits_EV_KV [OF assms(9)] using tbl ls'(1) assms(3,6,8) fits_length [OF assms(9)]
    by (simp add: log_event_def)
  moreover have "log_send env e ls' = (let f = event_fields e (ls_msg ls') (ls_all ls') in (le_journal env f, Some f))"
    using severity_level_known [OF assms(12)] assms(11) ls'(3)
    by (simp add: log_send_def event_fields_def Let_def)
  ultimately show ?thesis unfolding ls'(2,4) by (auto simp: Let_def)
qed

text \<open>The facts of one concrete event.\<close>

lemma lag_event: "event_description (event_of lacp_def) = render lag_template" "wf_template lag_template"
  "severity (event_of lacp_def) \<in> set log_sev" "event_name (event_of lacp_def) = ''LAG_CREATE''"
  by (simp_all add: event_of_def lacp_def_def lag_template_def log_sev_def)

lemma lag_keys: "num_of_keys (event_of lacp_def) = int (length [(''lag_id'', ''7'')])"
  by (simp add: event_of_def lacp_def_def count_tokens.simps strtok_def)

lemma lag_fits: "fits (le_pad lag_env) [(''lag_id'', ''7'')] lag_template" "le_asprintf lag_env" "le_asprintf_msg lag_env"
  by (simp_all add: lag_env_def lag_template_def wf_kv_def)

lemma lag_texts: "render (fill_all [(''lag_id'', ''7'')] lag_template) = ''Dynamic LAG 7 created''"
  "take 255 (pairs_text [(''lag_id'', ''7'')]) = ''lag_id=7,''"
  by (simp_all add: lag_template_def pairs_text_def)

text \<open>C2: logging a loaded event with one pair per key of its template sends one journal entry whose
  message is the template with every key replaced by its value, with the event's severity
  level, number and category, and with the list of pairs cut to 255 characters.\<close>

theorem log_event_message:
  assumes "evlog_inv s" "i < length (log_events s)" "i \<noteq> 499" "e = log_events s ! i"
    and "\<forall>j<i. event_name (log_events s ! j) \<noteq> event_name e \<and>
      event_description (log_events s ! j) \<noteq> EVENT_NAME_DELIMITER_STR"
    and "event_description e = render t" "wf_template t" "num_of_keys e = int (length kvs)"
    and "fits (le_pad env) kvs t" "le_asprintf env" "le_asprintf_msg env" "severity e \<in> set log_sev"
  shows "\<exists>buf' fields. fields = event_fields e (render (fill_all kvs t)) (take 255 (pairs_text kvs)) \<and>
    log_event env (Some (event_name e)) (map EV_KV kvs) s buf =
      Some (Inr (le_journal env fields, buf', Some fields))"
  using assms by (rule log_event_sends)

lemma log_event_message_witness:
  "\<exists>buf' fields. fields = event_fields (event_of lacp_def) ''Dynamic LAG 7 created'' ''lag_id=7,'' \<and>
     log_event lag_env (Some ''LAG_CREATE'') (map EV_KV [(''lag_id'', ''7'')]) lag_log [] =
       Some (Inr (le_journal lag_env fields, buf', Some fields))"
proof -
  have e0: "event_of lacp_def = log_events lag_log ! 0" "0 < length (log_events lag_log)" "(0::nat) \<noteq> 499"
    by simp_all
  note log_event_message [OF lag_log_events(1) e0(2,3,1) _ lag_event(1,2) lag_keys lag_fits lag_event(3), of "[]"]
  then show ?thesis unfolding lag_texts lag_event(4) by blast
qed

text \<open>C21: an event name that the library does not know is searched through the whole table and the
  search ends at index 500, which is not the 499 that \<open>log_event\<close> takes for unknown: it reads
  past the table instead of reporting the name.\<close>

theorem log_event_unknown_overflow:
  assumes "evlog_inv s" "ev_table s = Some t"
    and "\<forall>e\<in>set t. event_name e \<noteq> name \<and> event_description e \<noteq> EVENT_NAME_DELIMITER_STR"
  shows "log_event env (Some name) args s buf = Some (Inl OutOfBounds)"
proof -
  have len: "length t = MAX_EVENT_TABLE_SIZE" using assms(1,2) by (simp add: evlog_inv_def)
  with assms(2,3) event_search_loop_miss [of t name 0]
  have "event_search (Some name) s = int MAX_EVENT_TABLE_SIZE" by (simp add: event_search_def)
  with assms(2) len show ?thesis by (simp add: log_event_def)
qed

lemma log_event_unknown_overflow_witness:
  "log_event lag_env (Some ''NO_SUCH_EVENT'') [] full_log [] = Some (Inl OutOfBounds)"
proof -
  have "evlog_inv full_log" "ev_table full_log = Some (replicate 500 (event_of lldp_def))"
    by (simp_all add: full_log_def lag_log_def evlog_inv_def)
  then show ?thesis
    using log_event_unknown_overflow [of full_log "replicate 500 (event_of lldp_def)" "''NO_SUCH_EVENT''"]
    by (simp add: event_of_def lldp_def_def)
qed

text \<open>The array \<open>key_name\<close> is a byte too small for the key in braces: unless the compiler pads
  it, substituting any key writes past it.\<close>

theorem replace_str_key_overflow:
  assumes "orig \<noteq> []" "CHR 0x00 \<notin> set orig" "length orig \<le> 126" "pad (length orig + 2) = 0"
  shows "replace_str pad str (Some orig) rep buffer = Some (Inl OutOfBounds)"
  using assms by (rule replace_str_overflow)

lemma replace_str_key_overflow_witness:
  "replace_str (\<lambda>n. (16 - n mod 16) mod 16) ''vlan {interface_name}'' (Some ''interface_name'') ''1'' [] =
    Some (Inl OutOfBounds)"
  using replace_str_key_overflow [of "''interface_name''" "\<lambda>n. (16 - n mod 16) mod 16" "''vlan {interface_name}''" "''1''" "[]"]
  by simp

text \<open>A value that is its own key in braces is put back for ever: the call does not return.\<close>

theorem replace_loop_diverges:
  assumes "strstr str key_name \<noteq> None" "length str < MAX_LOG_STR"
  shows "replace_loop key_name key_name str buffer = None"
proof -
  have "r = k \<longrightarrow> length st < MAX_LOG_STR \<longrightarrow> strstr st k = None"
    if "replace_loop k r st bf = Some y" for k r st bf y
  proof (rule replace_loop.raw_induct
      [where P = "\<lambda>k r st bf y. r = k \<longrightarrow> length st < MAX_LOG_STR \<longrightarrow> strstr st k = None", OF _ that])
    fix loop k r st bf and y :: "(string \<times> string) cres"
    assume IH: "\<And>k r st bf y. loop k r st bf = Some y \<Longrightarrow>
        r = k \<longrightarrow> length st < MAX_LOG_STR \<longrightarrow> strstr st k = None"
      and body: "(case strstr st k of None \<Rightarrow> Some (Inr (st, bf))
         | Some (pre, post) \<Rightarrow>
             let new = pre @ r @ post in
             if length new < MAX_LOG_STR then loop k r new new else Some (Inl OutOfBounds)) = Some y"
    show "r = k \<longrightarrow> length st < MAX_LOG_STR \<longrightarrow> strstr st k = None"
    proof (rule ccontr)
      assume "\<not> (r = k \<longrightarrow> length st < MAX_LOG_STR \<longrightarrow> strstr st k = None)"
      then obtain pre post where r: "r = k" "length st < MAX_LOG_STR" "strstr st k = Some (pre, post)"
        by auto
      have "st = pre @ k @ post" using r(3) by (rule strstr_split)
      with r body have "loop k k st st = Some y" by (simp add: Let_def)
      from IH [OF this] r show False by simp
    qed
  qed
  with assms show ?thesis by (cases "replace_loop key_name key_name str buffer") auto
qed

lemma replace_loop_diverges_witness:
  "replace_loop ''{id}'' ''{id}'' ''LAG {id}'' [] = None"
  using replace_loop_diverges [of "''LAG {id}''" "''{id}''" "[]"]
  by (simp add: strstr.simps)

text \<open>A pair whose key is not in the text does not leave the text alone: the message becomes
  whatever an earlier call left in the static buffer.\<close>

theorem populate_str_stale:
  assumes "wf_kv k v" "wf_template t" "0 < pad (length k + 2)" "Hole k \<notin> set t"
    and "buf \<noteq> []" "length buf < MAX_LOG_STR"
  shows "populate_str pad True (Some (render t)) (Some (pair_of k v)) buf = Some (Inr (0, Some buf, buf))"
proof -
  let ?m = "2 + pad (length k + 2)"
  have "make_key_format (Some (k @ replicate ?m (CHR 0x00))) =
      Inr (0, Some (key_of k @ replicate (?m - 2) (CHR 0x00)))"
    using assms(1,3) make_key_format_result [of k ?m] by (simp add: wf_kv_def)
  moreover have "cstr (key_of k @ replicate (?m - 2) (CHR 0x00)) = key_of k"
    using assms(1,3) by (intro cstr_pad) (auto simp: wf_kv_def)
  moreover have "replace_loop (key_of k) v (render t) buf = Some (Inr (render t, buf))"
    using assms by (intro replace_loop_absent) (auto simp: wf_kv_def)
  ultimately have "replace_str pad (render t) (Some k) v buf = Some (Inr (Some buf, render t, buf))"
    by (simp add: replace_str_def Let_def add.commute)
  moreover have "strtok ''='' (pair_of k v) = Some (k, v)"
    using assms(1) strtok_first [of k "''=''" "CHR ''=''" v] by (auto simp: wf_kv_def)
  moreover have "strtok ''='' v = Some (v, [])"
    using assms(1) by (intro strtok_last) (auto simp: wf_kv_def)
  ultimately show ?thesis
    using assms by (simp add: populate_str_def populate_loop.simps wf_kv_def)
qed

lemma populate_str_stale_witness:
  "populate_str (\<lambda>n. 8) True (Some ''LLDP Enabled'') (Some ''port=1'') ''LAG 7 created'' =
    Some (Inr (0, Some ''LAG 7 created'', ''LAG 7 created''))"
  using populate_str_stale [of "''port''" "''1''" "[Lit ''LLDP Enabled'']" "\<lambda>n. 8" "''LAG 7 created''"]
  by (simp add: wf_kv_def)

end
