(* ===== verification/Linked_Store.thy ===== *)
theory Linked_Store
  imports Prelude
begin

text \<open>
  Singly linked lists in an explicit store, as \<open>feature_mapping.c\<close> and \<open>showtech.c\<close>
  build them. A store maps the addresses of one node type to nodes; a pointer is an
  \<open>addr option\<close> whose \<open>None\<close> is NULL; addresses are the numbers of the \<open>calloc\<close> calls,
  so a fresh one is one not used before. The locale \<open>linked_list\<close> states what a node
  type's \<open>next\<close> field promises, and its lemmas are those that every list needs.
\<close>

type_synonym addr = nat
type_synonym 'n store = "addr \<rightharpoonup> 'n"

section \<open>Access\<close>

definition deref :: "'n store \<Rightarrow> addr option \<Rightarrow> 'n cres" where
  "deref h p = (case p of
     None \<Rightarrow> Inl NullDeref
   | Some a \<Rightarrow> (case h a of None \<Rightarrow> Inl UseAfterFree | Some n \<Rightarrow> Inr n))"

definition update_node :: "('n \<Rightarrow> 'n) \<Rightarrow> addr option \<Rightarrow> 'n store \<Rightarrow> 'n store cres" where
  "update_node f p h = bind_res (deref h p) (\<lambda>n. Inr (h(the p \<mapsto> f n)))"

text \<open>\<open>if (afternode != NULL) { elem->next = afternode->next; afternode->next = elem; }\<close> for a
  new node \<open>m\<close> at \<open>elem\<close>.\<close>

definition insert_after ::
    "('n \<Rightarrow> addr option) \<Rightarrow> (addr option \<Rightarrow> 'n \<Rightarrow> 'n) \<Rightarrow> addr option \<Rightarrow> addr \<Rightarrow> 'n \<Rightarrow> 'n store \<Rightarrow> 'n store cres"
where
  "insert_after nxt set_nxt afternode elem m h = (case afternode of
     None \<Rightarrow> Inr (h(elem \<mapsto> m))
   | Some a \<Rightarrow> bind_res (deref h afternode)
       (\<lambda>n. Inr (h(elem \<mapsto> set_nxt (nxt n) m, a \<mapsto> set_nxt (Some elem) n))))"

lemma deref_Some [simp]: "h a = Some n \<Longrightarrow> deref h (Some a) = Inr n"
  by (simp add: deref_def)

lemma deref_NULL [simp]: "deref h None = Inl NullDeref"
  by (simp add: deref_def)

lemma update_node_Some [simp]: "h a = Some n \<Longrightarrow> update_node f (Some a) h = Inr (h(a \<mapsto> f n))"
  by (simp add: update_node_def)

lemma insert_after_NULL [simp]: "insert_after nxt set_nxt None e m h = Inr (h(e \<mapsto> m))"
  by (simp add: insert_after_def)

lemma insert_after_Some [simp]:
  "h a = Some n \<Longrightarrow> insert_after nxt set_nxt (Some a) e m h =
     Inr (h(e \<mapsto> set_nxt (nxt n) m, a \<mapsto> set_nxt (Some e) n))"
  by (simp add: insert_after_def)

section \<open>Paths\<close>

text \<open>\<open>lpath nxt h p as\<close>: from \<open>p\<close> the links run through the nodes at \<open>as\<close>, then NULL.\<close>

fun lpath :: "('n \<Rightarrow> addr option) \<Rightarrow> 'n store \<Rightarrow> addr option \<Rightarrow> addr list \<Rightarrow> bool" where
  "lpath nxt h p [] \<longleftrightarrow> p = None"
| "lpath nxt h p (a # as) \<longleftrightarrow> p = Some a \<and> (case h a of None \<Rightarrow> False | Some n \<Rightarrow> lpath nxt h (nxt n) as)"

lemma lpath_dom: "lpath nxt h p as \<Longrightarrow> set as \<subseteq> dom h"
  by (induction nxt h p as rule: lpath.induct) (auto split: option.splits)

lemma lpath_frame:
  "(\<And>a. a \<in> set as \<Longrightarrow> h' a = h a) \<Longrightarrow> lpath nxt h' p as = lpath nxt h p as"
  by (induction nxt h p as rule: lpath.induct) (auto split: option.splits)

lemma lpath_upd_other [simp]: "a \<notin> set as \<Longrightarrow> lpath nxt (h(a := x)) p as = lpath nxt h p as"
  by (rule lpath_frame) auto

lemma lpath_det: "lpath nxt h p as \<Longrightarrow> lpath nxt h p bs \<Longrightarrow> as = bs"
proof (induction as arbitrary: p bs)
  case (Cons a as)
  then obtain bs' where bs: "bs = a # bs'" by (cases bs) (auto split: option.splits)
  from Cons.prems bs obtain n where "lpath nxt h (nxt n) as" "lpath nxt h (nxt n) bs'"
    by (auto split: option.splits)
  with Cons.IH bs show ?case by blast
next
  case Nil
  then show ?case by (cases bs) auto
qed

lemma lpath_suffix: "lpath nxt h p (as @ a # bs) \<Longrightarrow> lpath nxt h (Some a) (a # bs)"
proof (induction as arbitrary: p)
  case (Cons b as)
  then obtain n where "lpath nxt h (nxt n) (as @ a # bs)" by (auto split: option.splits)
  then show ?case by (rule Cons.IH)
qed simp

lemma lpath_last: "lpath nxt h p (as @ [a]) \<Longrightarrow> \<exists>n. h a = Some n \<and> nxt n = None"
  using lpath_suffix [of nxt h p as a "[]"] by (auto split: option.splits)

text \<open>Links do not come back to a node: a list cannot be its own proper suffix.\<close>

lemma lpath_distinct: "lpath nxt h p as \<Longrightarrow> distinct as"
proof (induction as arbitrary: p)
  case (Cons a as)
  obtain n where n: "h a = Some n" "lpath nxt h (nxt n) as"
    using Cons.prems by (auto split: option.splits)
  have "a \<notin> set as"
  proof
    assume "a \<in> set as"
    then obtain xs ys where as: "as = xs @ a # ys" by (meson split_list)
    with n have "lpath nxt h (Some a) (a # ys)" using lpath_suffix by fastforce
    moreover have "lpath nxt h (Some a) (a # as)" using Cons.prems by simp
    ultimately have "a # ys = a # as" by (rule lpath_det)
    moreover have "length (a # ys) < length (a # as)" using as by simp
    ultimately show False by simp
  qed
  with n Cons.IH show ?case by simp
qed simp

section \<open>The interface of a node type\<close>

locale linked_list =
  fixes nxt :: "'n \<Rightarrow> addr option" and set_nxt :: "addr option \<Rightarrow> 'n \<Rightarrow> 'n"
  assumes nxt_set [simp]: "nxt (set_nxt p n) = p"
begin

lemma upd_same:
  "h a = Some n \<Longrightarrow> nxt n' = nxt n \<Longrightarrow> lpath nxt (h(a \<mapsto> n')) p as = lpath nxt h p as"
  by (induction as arbitrary: p) (auto split: option.splits)

lemma append_node:
  assumes "lpath nxt h p (as @ [a])" "e \<notin> set as" "e \<noteq> a" "h a = Some n"
  shows "lpath nxt (h(e \<mapsto> set_nxt (nxt n) m, a \<mapsto> set_nxt (Some e) n)) p (as @ [a, e])"
proof -
  have "a \<notin> set as" using lpath_distinct [OF assms(1)] by simp
  moreover have "nxt n = None" using lpath_last [OF assms(1)] assms(4) by auto
  ultimately show ?thesis
    using assms by (induction as arbitrary: p) (auto split: option.splits)
qed

text \<open>Appending after the last node of a list that may be empty; \<open>hd\<close> is the pointer the code
  sets when it was NULL.\<close>

lemma insert_last:
  assumes "lpath nxt h p as" "e \<notin> dom h" "nxt m = None"
  shows "\<exists>h'. insert_after nxt set_nxt (if as = [] then None else Some (last as)) e m h = Inr h' \<and>
    lpath nxt h' (if p = None then Some e else p) (as @ [e]) \<and>
    (\<forall>x. x \<notin> set as \<longrightarrow> x \<noteq> e \<longrightarrow> h' x = h x) \<and>
    (\<forall>x\<in>set as. \<exists>n q. h x = Some n \<and> (h' x = Some n \<or> h' x = Some (set_nxt q n))) \<and>
    (\<exists>q. h' e = Some m \<or> h' e = Some (set_nxt q m))"
proof (cases as rule: rev_cases)
  case Nil
  with assms show ?thesis by auto
next
  case (snoc bs a)
  with assms obtain n where n: "h a = Some n" using lpath_last by blast
  have e: "e \<notin> set bs" "e \<noteq> a" using lpath_dom [OF assms(1)] assms(2) snoc by auto
  have ne: "p \<noteq> None" using assms(1) snoc by (cases bs) auto
  have d: "x \<in> set bs \<Longrightarrow> x \<noteq> a \<and> (\<exists>n. h x = Some n)" for x
    using lpath_distinct [OF assms(1)] lpath_dom [OF assms(1)] snoc by auto
  show ?thesis
    using snoc n e ne d append_node [of h p bs a e n m] assms(1)
    by auto
qed

end

section \<open>The values a list holds\<close>

definition contents :: "('n \<Rightarrow> 'v) \<Rightarrow> 'n store \<Rightarrow> addr list \<Rightarrow> 'v list" where
  "contents val h as = map (\<lambda>a. val (the (h a))) as"

lemma contents_simps [simp]:
  "contents val h [] = []" "contents val h (a # as) = val (the (h a)) # contents val h as"
  "contents val h (as @ bs) = contents val h as @ contents val h bs"
  by (simp_all add: contents_def)

lemma contents_frame: "(\<And>a. a \<in> set as \<Longrightarrow> h' a = h a) \<Longrightarrow> contents val h' as = contents val h as"
  by (simp add: contents_def)

lemma length_contents [simp]: "length (contents val h as) = length as"
  by (simp add: contents_def)

locale value_list = linked_list nxt set_nxt
  for nxt :: "'n \<Rightarrow> addr option" and set_nxt :: "addr option \<Rightarrow> 'n \<Rightarrow> 'n" +
  fixes val :: "'n \<Rightarrow> 'v"
  assumes val_set [simp]: "val (set_nxt p n) = val n"
begin

lemma insert_last_contents:
  assumes "lpath nxt h p as" "e \<notin> dom h" "nxt m = None"
  obtains h' where
    "insert_after nxt set_nxt (if as = [] then None else Some (last as)) e m h = Inr h'"
    "lpath nxt h' (if p = None then Some e else p) (as @ [e])"
    "contents val h' (as @ [e]) = contents val h as @ [val m]"
    "\<And>x. x \<notin> set as \<Longrightarrow> x \<noteq> e \<Longrightarrow> h' x = h x"
    "dom h' = insert e (dom h)"
proof -
  obtain h' where h': "insert_after nxt set_nxt (if as = [] then None else Some (last as)) e m h = Inr h'"
    "lpath nxt h' (if p = None then Some e else p) (as @ [e])"
    "\<forall>x. x \<notin> set as \<longrightarrow> x \<noteq> e \<longrightarrow> h' x = h x"
    "\<forall>x\<in>set as. \<exists>n q. h x = Some n \<and> (h' x = Some n \<or> h' x = Some (set_nxt q n))"
    "\<exists>q. h' e = Some m \<or> h' e = Some (set_nxt q m)"
    using insert_last [OF assms] by blast
  have "val (the (h' x)) = val (the (h x))" if "x \<in> set as" for x
    using h'(4) that by fastforce
  moreover have "val (the (h' e)) = val m" using h'(5) by auto
  ultimately have "contents val h' (as @ [e]) = contents val h as @ [val m]"
    by (simp add: contents_def)
  moreover have "dom h' = insert e (dom h)"
  proof (rule set_eqI)
    fix x
    show "x \<in> dom h' \<longleftrightarrow> x \<in> insert e (dom h)"
      using h'(3-5) by (cases "x = e"; cases "x \<in> set as") fastforce+
  qed
  ultimately show ?thesis using h' that by blast
qed

end

end
