(* ===== verification/Feature_Mapping.thy ===== *)
theory Feature_Mapping
  imports Supportability_Utils Linked_Store
begin

text \<open>
  \<open>src/src/featuremapping/feature_mapping.c\<close>: the list of features and of the daemons
  that serve each, loaded once from a YAML file. The heap is two stores, one per node
  type; the file-level \<open>feature_head\<close> and the stores are the record \<open>fm\<close>, the local
  variables of the parser are \<open>fm_locals\<close>. The refinement theorem relates the pointer
  structure to the list of features that an abstract parser computes.
\<close>

section \<open>Data\<close>

abbreviation FEATURE_SIZE :: nat where "FEATURE_SIZE \<equiv> 30"
abbreviation FEATURE_DESC_SIZE :: nat where "FEATURE_DESC_SIZE \<equiv> 100"
abbreviation DIAG_DUMP_FEATURE_FLAG :: string where "DIAG_DUMP_FEATURE_FLAG \<equiv> ''y''"

datatype diag_enable = DISABLE | ENABLE

record daemon =
  d_name :: string
  d_diag_flag :: diag_enable
  d_next :: "addr option"

record feature =
  f_name :: string
  f_desc :: "string option"
  p_daemon :: "addr option"
  f_diag_flag :: diag_enable
  f_next :: "addr option"

record fm =
  feature_head :: "addr option"
  features :: "feature store"
  daemons :: "daemon store"
  brk :: addr                     \<comment> \<open>the number of \<open>calloc\<close> calls so far\<close>

record fm_locals =
  current_state :: int
  curr_feature :: "addr option"
  curr_daemon :: "addr option"

record fm_env =
  fm_calloc :: "addr \<Rightarrow> bool"       \<comment> \<open>which \<open>calloc\<close> calls succeed\<close>
  fm_yaml_init :: bool
  fm_file :: "yevent list option"  \<comment> \<open>None: \<open>fopen\<close> fails\<close>

text \<open>The enumeration of keys.\<close>

abbreviation VALUE :: int where "VALUE \<equiv> 0"
abbreviation FEATURE_NAME :: int where "FEATURE_NAME \<equiv> 1"
abbreviation FEATURE_DESC :: int where "FEATURE_DESC \<equiv> 2"
abbreviation DAEMON :: int where "DAEMON \<equiv> 3"
abbreviation DAEMON_NAME :: int where "DAEMON_NAME \<equiv> 4"
abbreviation DIAGDUMP_FLAG :: int where "DIAGDUMP_FLAG \<equiv> 5"

definition keystr_feat :: "string list" where
  "keystr_feat = [''values'', ''feature_name'', ''feature_desc'', ''daemon'', ''name'', ''diag_dump'']"

section \<open>Operations\<close>

definition feature_mapping_add_feature ::
    "fm_env \<Rightarrow> addr option \<Rightarrow> string option \<Rightarrow> fm \<Rightarrow> (addr option \<times> fm) cres" where
  "feature_mapping_add_feature env afternode feature_name s = (case feature_name of
     None \<Rightarrow> Inr (None, s)
   | Some name \<Rightarrow>
       (let e = brk s; s1 = s\<lparr>brk := brk s + 1\<rparr> in
        if \<not> fm_calloc env e then Inr (None, s1)
        else
          bind_res (insert_after f_next (\<lambda>p n. n\<lparr>f_next := p\<rparr>) afternode e
              \<lparr>f_name = take FEATURE_SIZE name, f_desc = None, p_daemon = None, f_diag_flag = DISABLE,
               f_next = None\<rparr> (features s1))
            (\<lambda>h. Inr (Some e, s1\<lparr>features := h\<rparr>))))"

definition feature_mapping_add_feature_desc ::
    "addr option \<Rightarrow> string option \<Rightarrow> fm \<Rightarrow> (int \<times> fm) cres" where
  "feature_mapping_add_feature_desc element feature_desc s =
     (if element = None then Inr (1, s)
      else (case feature_desc of
          None \<Rightarrow> Inr (1, s)
        | Some d \<Rightarrow>
            bind_res (update_node (\<lambda>n. n\<lparr>f_desc := Some (take FEATURE_DESC_SIZE d)\<rparr>) element (features s))
              (\<lambda>h. Inr (0, s\<lparr>features := h\<rparr>))))"

definition feature_mapping_add_daemon ::
    "fm_env \<Rightarrow> addr option \<Rightarrow> string option \<Rightarrow> fm \<Rightarrow> (addr option \<times> fm) cres" where
  "feature_mapping_add_daemon env afternode daemon s = (case daemon of
     None \<Rightarrow> Inr (None, s)
   | Some name \<Rightarrow>
       (let e = brk s; s1 = s\<lparr>brk := brk s + 1\<rparr> in
        if \<not> fm_calloc env e then Inr (None, s1)
        else
          bind_res (insert_after d_next (\<lambda>p n. n\<lparr>d_next := p\<rparr>) afternode e
              \<lparr>d_name = take FEATURE_SIZE name, d_diag_flag = DISABLE, d_next = None\<rparr> (daemons s1))
            (\<lambda>h. Inr (Some e, s1\<lparr>daemons := h\<rparr>))))"

definition feature_mapping_check_key :: "string option \<Rightarrow> int" where
  "feature_mapping_check_key data =
     (case scan_table (tl keystr_feat) data FEATURE_NAME of Some i \<Rightarrow> i | None \<Rightarrow> VALUE)"

interpretation feat_key: table_lookup "tl keystr_feat" 1 0 feature_mapping_check_key
  unfolding feature_mapping_check_key_def [abs_def]
  by (rule scan_table_lookup) (simp_all add: keystr_feat_def)

section \<open>The parser\<close>

text \<open>\<open>case FEATURE_NAME\<close> and \<open>case DAEMON_NAME\<close> of the inner switch.\<close>

definition on_feature_name :: "fm_env \<Rightarrow> string \<Rightarrow> fm_locals \<Rightarrow> fm \<Rightarrow> (fm_locals \<times> fm) cres" where
  "on_feature_name env v l s =
     bind_res (feature_mapping_add_feature env (curr_feature l) (Some v) s)
       (\<lambda>(p, s'). Inr (l\<lparr>curr_daemon := None, curr_feature := p\<rparr>,
          if feature_head s' = None then s'\<lparr>feature_head := p\<rparr> else s'))"

definition on_daemon_name :: "fm_env \<Rightarrow> string \<Rightarrow> fm_locals \<Rightarrow> fm \<Rightarrow> (fm_locals \<times> fm) cres" where
  "on_daemon_name env v l s =
     bind_res (feature_mapping_add_daemon env (curr_daemon l) (Some v) s)
       (\<lambda>(p, s'). if curr_feature l \<noteq> None then
           bind_res (deref (features s') (curr_feature l)) (\<lambda>f.
             if p_daemon f = None then
               bind_res (update_node (\<lambda>n. n\<lparr>p_daemon := p\<rparr>) (curr_feature l) (features s'))
                 (\<lambda>h. Inr (l\<lparr>curr_daemon := p\<rparr>, s'\<lparr>features := h\<rparr>))
             else Inr (l\<lparr>curr_daemon := p\<rparr>, s'))
         else Inr (l\<lparr>curr_daemon := p\<rparr>, s'))"

definition on_diagdump :: "string \<Rightarrow> fm_locals \<Rightarrow> fm \<Rightarrow> (fm_locals \<times> fm) cres" where
  "on_diagdump v l s =
     (let flag = (if strcmp_with_nullcheck (Some DIAG_DUMP_FEATURE_FLAG) (Some v) \<noteq> 0 then DISABLE else ENABLE) in
      bind_res
        (if curr_daemon l \<noteq> None
         then bind_res (update_node (\<lambda>n. n\<lparr>d_diag_flag := flag\<rparr>) (curr_daemon l) (daemons s))
                (\<lambda>h. Inr (s\<lparr>daemons := h\<rparr>))
         else Inr s)
        (\<lambda>s1. bind_res
          (if curr_feature l \<noteq> None
           then bind_res (update_node (\<lambda>n. n\<lparr>f_diag_flag := flag\<rparr>) (curr_feature l) (features s1))
                  (\<lambda>h. Inr (s1\<lparr>features := h\<rparr>))
           else Inr s1)
          (\<lambda>s2. Inr (l, s2))))"

definition on_value :: "fm_env \<Rightarrow> string \<Rightarrow> fm_locals \<Rightarrow> fm \<Rightarrow> (fm_locals \<times> fm) cres" where
  "on_value env v l s =
     (if current_state l = FEATURE_NAME then on_feature_name env v l s
      else if current_state l = FEATURE_DESC then
        bind_res (feature_mapping_add_feature_desc (curr_feature l) (Some v) s) (\<lambda>(_, s'). Inr (l, s'))
      else if current_state l = DAEMON_NAME then on_daemon_name env v l s
      else if current_state l = DIAGDUMP_FLAG then on_diagdump v l s
      else Inr (l, s))"

definition on_scalar :: "fm_env \<Rightarrow> string \<Rightarrow> fm_locals \<Rightarrow> fm \<Rightarrow> (fm_locals \<times> fm) cres" where
  "on_scalar env v l s =
     (let event_value = feature_mapping_check_key (Some v) in
      if event_value = VALUE then on_value env v l s
      else if event_value \<in> {FEATURE_NAME, FEATURE_DESC, DAEMON, DAEMON_NAME, DIAGDUMP_FLAG}
        then Inr (l\<lparr>current_state := event_value\<rparr>, s)
      else Inr (l, s))"

text \<open>The event loop; its result is the return value of the parser.\<close>

fun fm_events :: "fm_env \<Rightarrow> yevent list \<Rightarrow> fm_locals \<Rightarrow> fm \<Rightarrow> (int \<times> fm) cres" where
  "fm_events env [] l s = Inr (1, s)"
| "fm_events env (STREAM_END_EVENT # es) l s = Inr (0, s)"
| "fm_events env (OTHER_EVENT # es) l s = fm_events env es l s"
| "fm_events env (SCALAR_EVENT v # es) l s =
     bind_res (on_scalar env v l s) (\<lambda>(l', s'). fm_events env es l' s')"

definition fm_locals0 :: fm_locals where
  "fm_locals0 = \<lparr>current_state = 0, curr_feature = None, curr_daemon = None\<rparr>"

definition parse_feature_mapping_yaml :: "fm_env \<Rightarrow> fm \<Rightarrow> (int \<times> fm) cres" where
  "parse_feature_mapping_yaml env s =
     (if \<not> fm_yaml_init env then Inr (1, s)
      else (case fm_file env of
          None \<Rightarrow> Inr (1, s)
        | Some events \<Rightarrow> fm_events env events fm_locals0 s))"

definition get_feature_mapping :: "fm_env \<Rightarrow> fm \<Rightarrow> (addr option \<times> fm) cres" where
  "get_feature_mapping env s =
     (if feature_head s = None
      then bind_res (parse_feature_mapping_yaml env s) (\<lambda>(_, s'). Inr (feature_head s', s'))
      else Inr (feature_head s, s))"

definition fm0 :: fm where
  "fm0 = \<lparr>feature_head = None, features = Map.empty, daemons = Map.empty, brk = 0\<rparr>"

section \<open>The lists\<close>

text \<open>What a node holds besides its link.\<close>

definition daemon_val :: "daemon \<Rightarrow> string \<times> diag_enable" where
  "daemon_val d = (d_name d, d_diag_flag d)"

definition feature_val :: "feature \<Rightarrow> string \<times> string option \<times> addr option \<times> diag_enable" where
  "feature_val f = (f_name f, f_desc f, p_daemon f, f_diag_flag f)"

interpretation fl: value_list f_next "\<lambda>p n. n\<lparr>f_next := p\<rparr>" feature_val
  by unfold_locales (simp_all add: feature_val_def)

interpretation dl: value_list d_next "\<lambda>p n. n\<lparr>d_next := p\<rparr>" daemon_val
  by unfold_locales (simp_all add: daemon_val_def)

section \<open>The abstract parser\<close>

record feature_spec =
  fs_name :: string
  fs_desc :: "string option"
  fs_daemons :: "(string \<times> diag_enable) list"
  fs_flag :: diag_enable

definition flag_of :: "string \<Rightarrow> diag_enable" where
  "flag_of v = (if v = DIAG_DUMP_FEATURE_FLAG then ENABLE else DISABLE)"

definition spec_value :: "int \<Rightarrow> string \<Rightarrow> feature_spec list \<Rightarrow> feature_spec list" where
  "spec_value st v fs =
     (if st = FEATURE_NAME then
        fs @ [\<lparr>fs_name = take FEATURE_SIZE v, fs_desc = None, fs_daemons = [], fs_flag = DISABLE\<rparr>]
      else if st = FEATURE_DESC then upd_last (\<lambda>f. f\<lparr>fs_desc := Some (take FEATURE_DESC_SIZE v)\<rparr>) fs
      else if st = DAEMON_NAME then
        upd_last (\<lambda>f. f\<lparr>fs_daemons := fs_daemons f @ [(take FEATURE_SIZE v, DISABLE)]\<rparr>) fs
      else if st = DIAGDUMP_FLAG then
        upd_last (\<lambda>f. f\<lparr>fs_flag := flag_of v,
          fs_daemons := upd_last (\<lambda>(n, _). (n, flag_of v)) (fs_daemons f)\<rparr>) fs
      else fs)"

definition spec_scalar :: "string \<Rightarrow> int \<times> feature_spec list \<Rightarrow> int \<times> feature_spec list" where
  "spec_scalar v = (\<lambda>(st, fs).
     (let k = feature_mapping_check_key (Some v) in
      if k = VALUE then (st, spec_value st v fs) else (k, fs)))"

definition spec_parse :: "string list \<Rightarrow> int \<times> feature_spec list \<Rightarrow> int \<times> feature_spec list" where
  "spec_parse vs x = fold spec_scalar vs x"

section \<open>Representation\<close>

text \<open>
  \<open>gs\<close> is the shape of the heap: the address of each feature with those of its daemons.
  \<open>fm_rep\<close> says that the stores hold exactly this shape below the head and that it reads
  as the list \<open>fs\<close>; nothing is shared between two features.
\<close>

type_synonym shape = "(addr \<times> addr list) list"

definition feature_at :: "fm \<Rightarrow> addr \<times> addr list \<Rightarrow> feature_spec \<Rightarrow> bool" where
  "feature_at s g f \<longleftrightarrow> (\<exists>p. fst g \<in> dom (features s) \<and>
     feature_val (the (features s (fst g))) = (fs_name f, fs_desc f, p, fs_flag f) \<and>
     lpath d_next (daemons s) p (snd g) \<and>
     contents daemon_val (daemons s) (snd g) = fs_daemons f)"

definition fm_rep :: "fm \<Rightarrow> shape \<Rightarrow> feature_spec list \<Rightarrow> bool" where
  "fm_rep s gs fs \<longleftrightarrow>
     lpath f_next (features s) (feature_head s) (map fst gs) \<and>
     list_all2 (feature_at s) gs fs \<and>
     distinct (concat (map snd gs)) \<and>
     dom (features s) \<subseteq> {..<brk s} \<and> dom (daemons s) \<subseteq> {..<brk s}"

definition locals_at :: "fm \<Rightarrow> fm_locals \<Rightarrow> shape \<Rightarrow> bool" where
  "locals_at s l gs \<longleftrightarrow>
     curr_feature l = (if gs = [] then None else Some (fst (last gs))) \<and>
     (if gs = [] then (\<forall>a. curr_daemon l = Some a \<longrightarrow> a \<in> dom (daemons s))
      else curr_daemon l = (if snd (last gs) = [] then None else Some (last (snd (last gs)))))"

lemma feature_at_cong:
  assumes "feature_at s g f" "fst g \<in> dom (features s')"
    and "feature_val (the (features s' (fst g))) = feature_val (the (features s (fst g)))"
    and "\<And>x. x \<in> set (snd g) \<Longrightarrow> daemons s' x = daemons s x"
  shows "feature_at s' g f"
  using assms lpath_frame [of "snd g" "daemons s'" "daemons s" d_next] contents_frame [of "snd g" "daemons s'" "daemons s" daemon_val]
  unfolding feature_at_def by auto

lemma feature_at_daemons: "feature_at s g f \<Longrightarrow> set (snd g) \<subseteq> dom (daemons s)"
  by (auto simp: feature_at_def dest: lpath_dom)

lemma rep_daemons:
  assumes "list_all2 (feature_at s) gs fs" "g \<in> set gs"
  shows "set (snd g) \<subseteq> dom (daemons s)"
  using assms feature_at_daemons by (metis in_set_conv_nth list_all2_conv_all_nth)

text \<open>Replacing the last feature and its daemons, the rest left alone.\<close>

lemma rep_update_last:
  assumes rep: "fm_rep s (gs0 @ [(a, ds)]) (fs0 @ [f])" and n: "features s a = Some n"
    and n': "f_next n' = f_next n" "feature_val n' = (fs_name f', fs_desc f', p, fs_flag f')"
    and path: "lpath d_next dh p ds'" "contents daemon_val dh ds' = fs_daemons f'"
    and frame: "\<And>x. x \<notin> set ds \<Longrightarrow> x < brk s \<Longrightarrow> dh x = daemons s x"
    and new: "set ds' - set ds \<subseteq> {brk s..<b}" "dom dh \<subseteq> {..<b}" "brk s \<le> b"
  shows "fm_rep (s\<lparr>features := (features s)(a \<mapsto> n'), daemons := dh, brk := b\<rparr>) (gs0 @ [(a, ds')]) (fs0 @ [f'])"
proof -
  let ?s = "s\<lparr>features := (features s)(a \<mapsto> n'), daemons := dh, brk := b\<rparr>"
  have R: "lpath f_next (features s) (feature_head s) (map fst gs0 @ [a])"
    "list_all2 (feature_at s) gs0 fs0" "distinct (concat (map snd gs0) @ ds)"
    "dom (features s) \<subseteq> {..<brk s}" "dom (daemons s) \<subseteq> {..<brk s}"
    using rep list_all2_lengthD [of "feature_at s" "gs0 @ [(a, ds)]" "fs0 @ [f]"]
    by (simp_all add: fm_rep_def list_all2_append)
  have da: "a \<notin> fst ` set gs0" using lpath_distinct [OF R(1)] by auto
  have below: "set (snd g) \<subseteq> {..<brk s}" if "g \<in> set gs0" for g
    using rep_daemons [OF R(2) that] R(5) by blast
  have other: "feature_at ?s g f" if g: "g \<in> set gs0" and at: "feature_at s g f" for g f
  proof (rule feature_at_cong [OF at])
    show "fst g \<in> dom (features ?s)" using at by (auto simp: feature_at_def)
    show "feature_val (the (features ?s (fst g))) = feature_val (the (features s (fst g)))"
      using da g by auto
    show "daemons ?s x = daemons s x" if "x \<in> set (snd g)" for x
    proof -
      have "x \<notin> set ds" using R(3) g that by auto
      with below [OF g] that frame show ?thesis by auto
    qed
  qed
  have all: "list_all2 (feature_at ?s) gs0 fs0"
    using R(2) other by (auto simp: list_all2_conv_all_nth)
  have last: "feature_at ?s (a, ds') f'"
    using n' path by (auto simp: feature_at_def)
  have dist: "distinct (concat (map snd gs0) @ ds')"
  proof -
    have "set (concat (map snd gs0)) \<subseteq> {..<brk s}" using below by auto
    moreover have "distinct ds'" using path(1) by (rule lpath_distinct)
    moreover have "set (concat (map snd gs0)) \<inter> set ds = {}" using R(3) by auto
    ultimately show ?thesis using R(3) new(1) by (auto 0 3)
  qed
  have "lpath f_next (features ?s) (feature_head ?s) (map fst gs0 @ [a])"
    using R(1) n n'(1) fl.upd_same by simp
  moreover have "dom (features ?s) \<subseteq> {..<brk ?s}" using R(4) n new(3) by auto
  ultimately show ?thesis
    using all last dist new(2) by (simp add: fm_rep_def list_all2_appendI)
qed

section \<open>One scalar\<close>

text \<open>A state whose parser has at least one feature, taken apart at the last one.\<close>

lemma rep_cases:
  assumes "fm_rep s gs fs" "locals_at s l gs"
  obtains (empty) "gs = []" "fs = []" "feature_head s = None" "curr_feature l = None"
    | (last) gs0 a ds fs0 f n where "gs = gs0 @ [(a, ds)]" "fs = fs0 @ [f]" "features s a = Some n"
        "curr_feature l = Some a" "curr_daemon l = (if ds = [] then None else Some (last ds))"
        "feature_val n = (fs_name f, fs_desc f, p_daemon n, fs_flag f)"
        "lpath d_next (daemons s) (p_daemon n) ds" "contents daemon_val (daemons s) ds = fs_daemons f"
proof (cases gs rule: rev_cases)
  case Nil
  with assms show ?thesis by (intro empty) (auto simp: fm_rep_def locals_at_def)
next
  case (snoc gs0 g)
  obtain a ds where g: "g = (a, ds)" by (cases g)
  have len: "length gs = length fs" using assms(1) by (auto simp: fm_rep_def dest: list_all2_lengthD)
  with snoc obtain fs0 f where fs: "fs = fs0 @ [f]" by (cases fs rule: rev_cases) auto
  with assms(1) snoc g len have "feature_at s (a, ds) f"
    by (simp add: fm_rep_def list_all2_append)
  then obtain n where "features s a = Some n" "feature_val n = (fs_name f, fs_desc f, p_daemon n, fs_flag f)"
    "lpath d_next (daemons s) (p_daemon n) ds" "contents daemon_val (daemons s) ds = fs_daemons f"
    by (auto simp: feature_at_def feature_val_def)
  with snoc g fs assms(2) show ?thesis by (intro last) (auto simp: locals_at_def)
qed

lemma step_feature_name:
  assumes "fm_rep s gs fs" "locals_at s l gs" "\<And>a. fm_calloc env a"
  shows "\<exists>l' s' gs'. on_feature_name env v l s = Inr (l', s') \<and>
    fm_rep s' gs' (spec_value FEATURE_NAME v fs) \<and> locals_at s' l' gs' \<and> current_state l' = current_state l"
proof -
  let ?e = "brk s" and ?as = "map fst gs"
  let ?m = "\<lparr>f_name = take FEATURE_SIZE v, f_desc = None, p_daemon = None, f_diag_flag = DISABLE, f_next = None\<rparr>"
  have R: "lpath f_next (features s) (feature_head s) ?as" "list_all2 (feature_at s) gs fs"
    "distinct (concat (map snd gs))" "dom (features s) \<subseteq> {..<brk s}" "dom (daemons s) \<subseteq> {..<brk s}"
    using assms(1) by (simp_all add: fm_rep_def)
  have e: "?e \<notin> dom (features s)" using R(4) by auto
  have m: "f_next ?m = None" by simp
  obtain h where h: "insert_after f_next (\<lambda>p n. n\<lparr>f_next := p\<rparr>) (if ?as = [] then None else Some (last ?as)) ?e ?m (features s) = Inr h"
    "lpath f_next h (if feature_head s = None then Some ?e else feature_head s) (?as @ [?e])"
    "contents feature_val h (?as @ [?e]) = contents feature_val (features s) ?as @ [feature_val ?m]"
    "\<And>x. x \<notin> set ?as \<Longrightarrow> x \<noteq> ?e \<Longrightarrow> h x = features s x"
    "dom h = insert ?e (dom (features s))"
    by (rule fl.insert_last_contents [OF R(1) e m]) (rule that)
  define hd where hd: "hd = (if feature_head s = None then Some ?e else feature_head s)"
  let ?s = "s\<lparr>brk := brk s + 1, features := h, feature_head := hd\<rparr>"
  let ?l = "l\<lparr>curr_daemon := None, curr_feature := Some ?e\<rparr>"
  have cf: "curr_feature l = (if ?as = [] then None else Some (last ?as))"
    using assms(2) by (simp add: locals_at_def last_map)
  have run: "on_feature_name env v l s = Inr (?l, ?s)"
    using h(1) assms(3)
    by (cases s) (simp add: on_feature_name_def feature_mapping_add_feature_def Let_def cf hd)
  have val: "feature_val (the (h (fst g))) = feature_val (the (features s (fst g)))" if "g \<in> set gs" for g
    using h(3) that by (simp add: contents_def)
  have "feature_at ?s g f" if "g \<in> set gs" "feature_at s g f" for g f
    using that(2) by (rule feature_at_cong) (use h(5) val that in \<open>auto simp: feature_at_def\<close>)
  then have all: "list_all2 (feature_at ?s) gs fs"
    using R(2) by (auto simp: list_all2_conv_all_nth)
  have "feature_at ?s (?e, []) \<lparr>fs_name = take FEATURE_SIZE v, fs_desc = None, fs_daemons = [], fs_flag = DISABLE\<rparr>"
    using h(3,5) by (auto simp: feature_at_def feature_val_def)
  with all R h(2,5) [folded hd] have "fm_rep ?s (gs @ [(?e, [])]) (spec_value FEATURE_NAME v fs)"
    by (auto simp: fm_rep_def spec_value_def intro: list_all2_appendI)
  moreover have "locals_at ?s ?l (gs @ [(?e, [])])" by (simp add: locals_at_def)
  ultimately show ?thesis using run by fastforce
qed

lemma step_feature_desc:
  assumes "fm_rep s gs fs" "locals_at s l gs"
  shows "\<exists>s' gs'. feature_mapping_add_feature_desc (curr_feature l) (Some v) s = Inr (if gs = [] then 1 else 0, s') \<and>
    fm_rep s' gs' (spec_value FEATURE_DESC v fs) \<and> locals_at s' l gs'"
  using assms
proof (cases rule: rep_cases)
  case empty
  with assms show ?thesis by (auto simp: feature_mapping_add_feature_desc_def spec_value_def)
next
  case (last gs0 a ds fs0 f n)
  let ?n = "n\<lparr>f_desc := Some (take FEATURE_DESC_SIZE v)\<rparr>"
  let ?f = "f\<lparr>fs_desc := Some (take FEATURE_DESC_SIZE v)\<rparr>"
  have "fm_rep (s\<lparr>features := (features s)(a \<mapsto> ?n), daemons := daemons s, brk := brk s\<rparr>) (gs0 @ [(a, ds)]) (fs0 @ [?f])"
    using last assms(1) by (intro rep_update_last [where p = "p_daemon n"]) (auto simp: feature_val_def fm_rep_def)
  moreover have "locals_at (s\<lparr>features := (features s)(a \<mapsto> ?n)\<rparr>) l gs"
    using assms(2) by (simp add: locals_at_def)
  ultimately show ?thesis
    using last by (auto simp: feature_mapping_add_feature_desc_def spec_value_def)
qed

lemma step_daemon_name:
  assumes "fm_rep s gs fs" "locals_at s l gs" "\<And>a. fm_calloc env a"
  shows "\<exists>l' s' gs'. on_daemon_name env v l s = Inr (l', s') \<and>
    fm_rep s' gs' (spec_value DAEMON_NAME v fs) \<and> locals_at s' l' gs' \<and> current_state l' = current_state l"
  using assms(1,2)
proof (cases rule: rep_cases)
  case empty
  let ?e = "brk s" and ?m = "\<lparr>d_name = take FEATURE_SIZE v, d_diag_flag = DISABLE, d_next = None\<rparr>"
  have cd: "curr_daemon l = Some a \<Longrightarrow> a \<in> dom (daemons s)" for a
    using assms(2) empty by (simp add: locals_at_def)
  obtain h where h: "insert_after d_next (\<lambda>p n. n\<lparr>d_next := p\<rparr>) (curr_daemon l) ?e ?m (daemons s) = Inr h"
    "dom h = insert ?e (dom (daemons s))"
  proof (cases "curr_daemon l")
    case None
    then show ?thesis by (intro that [of "(daemons s)(?e \<mapsto> ?m)"]) auto
  next
    case (Some a)
    with cd obtain n where "daemons s a = Some n" by auto
    with Some show ?thesis
      by (intro that [of "(daemons s)(?e \<mapsto> ?m\<lparr>d_next := d_next n\<rparr>, a \<mapsto> n\<lparr>d_next := Some ?e\<rparr>)"]) auto
  qed
  have "on_daemon_name env v l s = Inr (l\<lparr>curr_daemon := Some ?e\<rparr>, s\<lparr>brk := brk s + 1, daemons := h\<rparr>)"
    using h assms(3) empty by (simp add: on_daemon_name_def feature_mapping_add_daemon_def Let_def)
  moreover have "fm_rep (s\<lparr>brk := brk s + 1, daemons := h\<rparr>) [] []"
    using assms(1) empty h(2) by (auto simp: fm_rep_def)
  moreover have "locals_at (s\<lparr>brk := brk s + 1, daemons := h\<rparr>) (l\<lparr>curr_daemon := Some ?e\<rparr>) []"
    using empty h(2) by (simp add: locals_at_def)
  ultimately show ?thesis using empty by (fastforce simp: spec_value_def)
next
  case (last gs0 a ds fs0 f n)
  let ?e = "brk s" and ?m = "\<lparr>d_name = take FEATURE_SIZE v, d_diag_flag = DISABLE, d_next = None\<rparr>"
  let ?p = "if p_daemon n = None then Some ?e else p_daemon n"
  let ?f = "f\<lparr>fs_daemons := fs_daemons f @ [(take FEATURE_SIZE v, DISABLE)]\<rparr>"
  have D: "dom (daemons s) \<subseteq> {..<brk s}" using assms(1) by (simp add: fm_rep_def)
  have e: "?e \<notin> dom (daemons s)" using D by auto
  have m: "d_next ?m = None" by simp
  obtain h where h: "insert_after d_next (\<lambda>p n. n\<lparr>d_next := p\<rparr>) (if ds = [] then None else Some (List.last ds)) ?e ?m (daemons s) = Inr h"
    "lpath d_next h ?p (ds @ [?e])"
    "contents daemon_val h (ds @ [?e]) = contents daemon_val (daemons s) ds @ [daemon_val ?m]"
    "\<And>x. x \<notin> set ds \<Longrightarrow> x \<noteq> ?e \<Longrightarrow> h x = daemons s x"
    "dom h = insert ?e (dom (daemons s))"
    by (rule dl.insert_last_contents [OF last(7) e m]) (rule that)
  let ?n = "n\<lparr>p_daemon := ?p\<rparr>"
  let ?s = "s\<lparr>features := (features s)(a \<mapsto> ?n), daemons := h, brk := Suc (brk s)\<rparr>"
  have same: "p_daemon n = Some x \<Longrightarrow> s\<lparr>features := (features s)(a \<mapsto> n\<lparr>p_daemon := Some x\<rparr>), daemons := d, brk := b\<rparr> =
      s\<lparr>brk := b, daemons := d\<rparr>" for x d b
    using last(3) by (cases s; cases n) (auto simp: map_upd_triv)
  have "on_daemon_name env v l s = Inr (l\<lparr>curr_daemon := Some ?e\<rparr>, ?s)"
    using h(1) assms(3) last(3-5) same
    by (cases "p_daemon n") (auto simp: on_daemon_name_def feature_mapping_add_daemon_def Let_def)
  moreover have "fm_rep ?s (gs0 @ [(a, ds @ [?e])]) (fs0 @ [?f])"
  proof (rule rep_update_last [where p = ?p])
    show "fm_rep s (gs0 @ [(a, ds)]) (fs0 @ [f])" using assms(1) last by simp
    show "contents daemon_val h (ds @ [?e]) = fs_daemons ?f"
      using h(3) last(8) by (simp add: daemon_val_def)
    show "feature_val ?n = (fs_name ?f, fs_desc ?f, ?p, fs_flag ?f)"
      using last(6) by (simp add: feature_val_def)
    show "dom h \<subseteq> {..<Suc (brk s)}" using D h(5) by auto
  qed (use last h in auto)
  moreover have "locals_at ?s (l\<lparr>curr_daemon := Some ?e\<rparr>) (gs0 @ [(a, ds @ [?e])])"
    using last by (simp add: locals_at_def)
  ultimately show ?thesis using last by (fastforce simp: spec_value_def)
qed

lemma contents_upd_last:
  assumes "lpath nxt h p (as @ [a])" "val x = f (val (the (h a)))"
  shows "contents val (h(a \<mapsto> x)) (as @ [a]) = upd_last f (contents val h (as @ [a]))"
proof -
  have "a \<notin> set as" using lpath_distinct [OF assms(1)] by simp
  then have "contents val (h(a \<mapsto> x)) as = contents val h as" by (intro contents_frame) auto
  with assms(2) show ?thesis by simp
qed

lemma flag_read:
  "(if strcmp_with_nullcheck (Some DIAG_DUMP_FEATURE_FLAG) (Some v) \<noteq> 0 then DISABLE else ENABLE) = flag_of v"
  by (auto simp: flag_of_def)

lemma step_diagdump:
  assumes "fm_rep s gs fs" "locals_at s l gs"
  shows "\<exists>s' gs'. on_diagdump v l s = Inr (l, s') \<and>
    fm_rep s' gs' (spec_value DIAGDUMP_FLAG v fs) \<and> locals_at s' l gs'"
  using assms(1,2)
proof (cases rule: rep_cases)
  case empty
  have cd: "curr_daemon l = Some a \<Longrightarrow> \<exists>n. daemons s a = Some n" for a
    using assms(2) empty by (auto simp: locals_at_def)
  obtain h where h: "(if curr_daemon l \<noteq> None
         then bind_res (update_node (\<lambda>n. n\<lparr>d_diag_flag := flag_of v\<rparr>) (curr_daemon l) (daemons s))
                (\<lambda>h. Inr (s\<lparr>daemons := h\<rparr>)) else Inr s) = Inr (s\<lparr>daemons := h\<rparr>)" "dom h = dom (daemons s)"
  proof (cases "curr_daemon l")
    case None
    then show ?thesis by (intro that [of "daemons s"]) simp_all
  next
    case (Some a)
    with cd obtain k where "daemons s a = Some k" by blast
    with Some show ?thesis
      by (intro that [of "(daemons s)(a \<mapsto> k\<lparr>d_diag_flag := flag_of v\<rparr>)"]) auto
  qed
  have "on_diagdump v l s = Inr (l, s\<lparr>daemons := h\<rparr>)"
    unfolding on_diagdump_def Let_def flag_read h(1) using empty by simp
  moreover have "fm_rep (s\<lparr>daemons := h\<rparr>) [] []" "locals_at (s\<lparr>daemons := h\<rparr>) l []"
    using assms empty h(2) by (auto simp: fm_rep_def locals_at_def)
  ultimately show ?thesis using empty by (auto simp: spec_value_def)
next
  case (last gs0 a ds fs0 f n)
  let ?n = "n\<lparr>f_diag_flag := flag_of v\<rparr>"
  let ?f = "f\<lparr>fs_flag := flag_of v, fs_daemons := upd_last (\<lambda>(n, _). (n, flag_of v)) (fs_daemons f)\<rparr>"
  have D: "dom (daemons s) \<subseteq> {..<brk s}" using assms(1) by (simp add: fm_rep_def)
  obtain h where h: "(if curr_daemon l \<noteq> None
         then bind_res (update_node (\<lambda>n. n\<lparr>d_diag_flag := flag_of v\<rparr>) (curr_daemon l) (daemons s))
                (\<lambda>h. Inr (s\<lparr>daemons := h\<rparr>)) else Inr s) = Inr (s\<lparr>daemons := h\<rparr>)"
    "lpath d_next h (p_daemon n) ds" "dom h = dom (daemons s)"
    "contents daemon_val h ds = upd_last (\<lambda>(n, _). (n, flag_of v)) (contents daemon_val (daemons s) ds)"
    "\<And>x. x \<notin> set ds \<Longrightarrow> h x = daemons s x"
  proof (cases ds rule: rev_cases)
    case Nil
    with last show ?thesis by (intro that [of "daemons s"]) simp_all
  next
    case (snoc ds0 d)
    then obtain k where k: "daemons s d = Some k" using lpath_last last(7) by blast
    let ?k = "k\<lparr>d_diag_flag := flag_of v\<rparr>"
    show ?thesis
    proof (rule that [of "(daemons s)(d \<mapsto> ?k)"])
      show "lpath d_next ((daemons s)(d \<mapsto> ?k)) (p_daemon n) ds"
        using last(7) k dl.upd_same by simp
      show "contents daemon_val ((daemons s)(d \<mapsto> ?k)) ds =
          upd_last (\<lambda>(n, _). (n, flag_of v)) (contents daemon_val (daemons s) ds)"
        unfolding snoc using last(7) k snoc by (intro contents_upd_last) (auto simp: daemon_val_def)
    qed (use last k snoc in auto)
  qed
  let ?s = "s\<lparr>features := (features s)(a \<mapsto> ?n), daemons := h, brk := brk s\<rparr>"
  have "on_diagdump v l s = Inr (l, ?s)"
    unfolding on_diagdump_def Let_def flag_read h(1) using last(3,4) by (cases s) simp
  moreover have "fm_rep ?s (gs0 @ [(a, ds)]) (fs0 @ [?f])"
    using last h D assms(1) by (intro rep_update_last [where p = "p_daemon n"]) (auto simp: feature_val_def)
  moreover have "locals_at ?s l (gs0 @ [(a, ds)])"
    using assms(2) last by (simp add: locals_at_def)
  ultimately show ?thesis using last by (fastforce simp: spec_value_def)
qed

lemma check_key_cases:
  "feature_mapping_check_key x \<in> {VALUE, FEATURE_NAME, FEATURE_DESC, DAEMON, DAEMON_NAME, DIAGDUMP_FLAG}"
  using feat_key.look_in_range [of x] by (auto simp: keystr_feat_def)

lemma spec_value_other:
  "st \<notin> {FEATURE_NAME, FEATURE_DESC, DAEMON_NAME, DIAGDUMP_FLAG} \<Longrightarrow> spec_value st v fs = fs"
  by (simp add: spec_value_def)

lemma on_value_refines:
  assumes "fm_rep s gs fs" "locals_at s l gs" "\<And>a. fm_calloc env a"
  shows "\<exists>l' s' gs'. on_value env v l s = Inr (l', s') \<and> fm_rep s' gs' (spec_value (current_state l) v fs) \<and>
    locals_at s' l' gs' \<and> current_state l' = current_state l"
proof -
  consider "current_state l = FEATURE_NAME" | "current_state l = FEATURE_DESC"
    | "current_state l = DAEMON_NAME" | "current_state l = DIAGDUMP_FLAG"
    | "current_state l \<notin> {FEATURE_NAME, FEATURE_DESC, DAEMON_NAME, DIAGDUMP_FLAG}" by blast
  then show ?thesis
  proof cases
    case 1
    with step_feature_name [OF assms, of v] show ?thesis by (simp add: on_value_def)
  next
    case 2
    obtain s' gs' where "feature_mapping_add_feature_desc (curr_feature l) (Some v) s = Inr (if gs = [] then 1 else 0, s')"
      "fm_rep s' gs' (spec_value FEATURE_DESC v fs)" "locals_at s' l gs'"
      using step_feature_desc [OF assms(1,2), of v] by blast
    with 2 show ?thesis by (auto simp: on_value_def)
  next
    case 3
    with step_daemon_name [OF assms, of v] show ?thesis by (simp add: on_value_def)
  next
    case 4
    with step_diagdump [OF assms(1,2), of v] show ?thesis by (auto simp: on_value_def)
  next
    case 5
    then have "on_value env v l s = Inr (l, s)" by (simp add: on_value_def)
    with assms spec_value_other [OF 5] show ?thesis by auto
  qed
qed

lemma on_scalar_refines:
  assumes "fm_rep s gs fs" "locals_at s l gs" "\<And>a. fm_calloc env a"
  shows "\<exists>l' s' gs'. on_scalar env v l s = Inr (l', s') \<and>
    fm_rep s' gs' (snd (spec_scalar v (current_state l, fs))) \<and> locals_at s' l' gs' \<and>
    current_state l' = fst (spec_scalar v (current_state l, fs))"
proof (cases "feature_mapping_check_key (Some v) = VALUE")
  case True
  with on_value_refines [OF assms, of v] show ?thesis by (simp add: on_scalar_def spec_scalar_def Let_def)
next
  case False
  let ?k = "feature_mapping_check_key (Some v)"
  have "on_scalar env v l s = Inr (l\<lparr>current_state := ?k\<rparr>, s)"
    using False check_key_cases [of "Some v"] by (auto simp: on_scalar_def Let_def)
  moreover have "locals_at s (l\<lparr>current_state := ?k\<rparr>) gs" using assms(2) by (simp add: locals_at_def)
  ultimately show ?thesis using False assms(1) by (auto simp: spec_scalar_def Let_def)
qed

lemma fm_events_refines:
  assumes "fm_rep s gs fs" "locals_at s l gs" "\<And>a. fm_calloc env a"
  shows "\<exists>s' gs'. fm_events env es l s = Inr (if ycomplete es then 0 else 1, s') \<and>
    fm_rep s' gs' (snd (spec_parse (yscalars es) (current_state l, fs)))"
  using assms(1,2)
proof (induction es arbitrary: l s gs fs)
  case (Cons e es)
  show ?case
  proof (cases e)
    case (SCALAR_EVENT v)
    obtain l' s' gs' where st: "on_scalar env v l s = Inr (l', s')"
      "fm_rep s' gs' (snd (spec_scalar v (current_state l, fs)))" "locals_at s' l' gs'"
      "current_state l' = fst (spec_scalar v (current_state l, fs))"
      using on_scalar_refines [OF Cons.prems assms(3), of v] by blast
    from Cons.IH [OF st(2,3)] st show ?thesis
      using SCALAR_EVENT by (simp add: spec_parse_def)
  qed (use Cons in \<open>auto simp: spec_parse_def\<close>)
qed (auto simp: spec_parse_def)

lemma fm0_rep: "fm_rep fm0 [] []" "locals_at fm0 fm_locals0 []"
  by (simp_all add: fm_rep_def locals_at_def fm0_def fm_locals0_def)

section \<open>The shipped format\<close>

text \<open>The scalars of one entry of the file.\<close>

definition daemon_scalars :: "string \<times> diag_enable \<Rightarrow> string list" where
  "daemon_scalars d = [''name'', fst d, ''diag_dump'', if snd d = ENABLE then ''y'' else ''n'']"

definition feature_scalars :: "feature_spec \<Rightarrow> string list" where
  "feature_scalars f = [''feature_name'', fs_name f, ''feature_desc'', the (fs_desc f), ''daemon''] @
     concat (map daemon_scalars (fs_daemons f))"

text \<open>What the file can say: a description, at least one daemon, texts that fit and are no key,
  and the feature's own flag is that of its last daemon.\<close>

definition plain :: "string \<Rightarrow> bool" where
  "plain v \<longleftrightarrow> v \<notin> set (tl keystr_feat)"

definition wf_feature :: "feature_spec \<Rightarrow> bool" where
  "wf_feature f \<longleftrightarrow> plain (fs_name f) \<and> length (fs_name f) \<le> FEATURE_SIZE \<and>
     (\<exists>d. fs_desc f = Some d \<and> plain d \<and> length d \<le> FEATURE_DESC_SIZE) \<and>
     fs_daemons f \<noteq> [] \<and> fs_flag f = snd (last (fs_daemons f)) \<and>
     (\<forall>(n, _)\<in>set (fs_daemons f). plain n \<and> length n \<le> FEATURE_SIZE)"

lemma check_key_plain [simp]: "plain v \<Longrightarrow> feature_mapping_check_key (Some v) = VALUE"
  by (rule feat_key.look_miss) (auto simp: plain_def)

lemma check_key_keys [simp]:
  "feature_mapping_check_key (Some ''feature_name'') = FEATURE_NAME"
  "feature_mapping_check_key (Some ''feature_desc'') = FEATURE_DESC"
  "feature_mapping_check_key (Some ''daemon'') = DAEMON"
  "feature_mapping_check_key (Some ''name'') = DAEMON_NAME"
  "feature_mapping_check_key (Some ''diag_dump'') = DIAGDUMP_FLAG"
  using feat_key.look_hit [of 0] feat_key.look_hit [of 1] feat_key.look_hit [of 2]
    feat_key.look_hit [of 3] feat_key.look_hit [of 4]
  by (simp_all add: keystr_feat_def)

lemma plain_yn [simp]: "plain ''y''" "plain ''n''"
  by (simp_all add: plain_def keystr_feat_def)

lemma spec_parse_simps [simp]:
  "spec_parse [] x = x" "spec_parse (v # vs) x = spec_parse vs (spec_scalar v x)"
  "spec_parse (vs @ ws) x = spec_parse ws (spec_parse vs x)"
  by (simp_all add: spec_parse_def)

lemma spec_daemon:
  assumes "plain (fst d)" "length (fst d) \<le> FEATURE_SIZE"
  shows "spec_parse (daemon_scalars d) (st, fs @ [f]) =
    (DIAGDUMP_FLAG, fs @ [f\<lparr>fs_daemons := fs_daemons f @ [d], fs_flag := snd d\<rparr>])"
  using assms by (cases d; cases "snd d") (simp_all add: daemon_scalars_def spec_scalar_def spec_value_def flag_of_def)

lemma spec_daemons:
  assumes "\<forall>(n, _)\<in>set ds. plain n \<and> length n \<le> FEATURE_SIZE" "ds \<noteq> []"
  shows "spec_parse (concat (map daemon_scalars ds)) (st, fs @ [f]) =
    (DIAGDUMP_FLAG, fs @ [f\<lparr>fs_daemons := fs_daemons f @ ds, fs_flag := snd (last ds)\<rparr>])"
  using assms
proof (induction ds arbitrary: st f)
  case (Cons d ds)
  have "plain (fst d)" "length (fst d) \<le> FEATURE_SIZE" using Cons.prems(1) by auto
  note d = spec_daemon [OF this, of st fs f]
  show ?case
  proof (cases "ds = []")
    case True
    with d show ?thesis by simp
  next
    case False
    with Cons.IH [of _ "f\<lparr>fs_daemons := fs_daemons f @ [d], fs_flag := snd d\<rparr>"] Cons.prems(1) d
    show ?thesis by simp
  qed
qed simp

lemma spec_feature:
  assumes "wf_feature f"
  shows "spec_parse (feature_scalars f) (st, fs) = (DIAGDUMP_FLAG, fs @ [f])"
proof -
  let ?f0 = "\<lparr>fs_name = fs_name f, fs_desc = fs_desc f, fs_daemons = [], fs_flag = DISABLE\<rparr>"
  have "spec_parse [''feature_name'', fs_name f, ''feature_desc'', the (fs_desc f), ''daemon''] (st, fs) =
      (DAEMON, fs @ [?f0])"
    using assms by (auto simp: wf_feature_def spec_scalar_def spec_value_def Let_def)
  moreover have "spec_parse (concat (map daemon_scalars (fs_daemons f))) (DAEMON, fs @ [?f0]) =
      (DIAGDUMP_FLAG, fs @ [?f0\<lparr>fs_daemons := fs_daemons ?f0 @ fs_daemons f, fs_flag := snd (last (fs_daemons f))\<rparr>])"
    using assms by (intro spec_daemons) (auto simp: wf_feature_def)
  moreover have "?f0\<lparr>fs_daemons := fs_daemons ?f0 @ fs_daemons f, fs_flag := snd (last (fs_daemons f))\<rparr> = f"
    using assms by (cases f) (simp add: wf_feature_def)
  ultimately show ?thesis unfolding feature_scalars_def spec_parse_simps(3) by simp
qed

lemma spec_features:
  "\<forall>f\<in>set fs. wf_feature f \<Longrightarrow>
   snd (spec_parse (concat (map feature_scalars fs)) (st, fs0)) = fs0 @ fs"
  by (induction fs arbitrary: st fs0) (simp_all add: spec_feature)

section \<open>Safety whatever \<open>calloc\<close> returns\<close>

definition pointers_ok :: "fm \<Rightarrow> fm_locals \<Rightarrow> bool" where
  "pointers_ok s l \<longleftrightarrow> (\<forall>a. curr_feature l = Some a \<longrightarrow> a \<in> dom (features s)) \<and>
     (\<forall>a. curr_daemon l = Some a \<longrightarrow> a \<in> dom (daemons s))"

lemma insert_after_ok:
  assumes "\<forall>a. p = Some a \<longrightarrow> a \<in> dom h"
  obtains h' where "insert_after nxt set_nxt p e m h = Inr h'" "dom h' = insert e (dom h)"
proof (cases p)
  case (Some a)
  with assms obtain n where "h a = Some n" by auto
  with Some show ?thesis
    by (intro that [of "h(e \<mapsto> set_nxt (nxt n) m, a \<mapsto> set_nxt (Some e) n)"]) auto
qed (auto intro: that)

lemma add_feature_ok:
  assumes "pointers_ok s l"
  shows "\<exists>p s'. feature_mapping_add_feature env (curr_feature l) (Some v) s = Inr (p, s') \<and>
    (\<forall>a. p = Some a \<longrightarrow> a \<in> dom (features s')) \<and> daemons s' = daemons s"
proof -
  obtain h where "insert_after f_next (\<lambda>p n. n\<lparr>f_next := p\<rparr>) (curr_feature l) (brk s)
     \<lparr>f_name = take FEATURE_SIZE v, f_desc = None, p_daemon = None, f_diag_flag = DISABLE, f_next = None\<rparr>
     (features s) = Inr h" "dom h = insert (brk s) (dom (features s))"
    using insert_after_ok [of "curr_feature l" "features s"] assms unfolding pointers_ok_def by blast
  then show ?thesis
    by (auto simp: feature_mapping_add_feature_def Let_def)
qed

lemma add_daemon_ok:
  assumes "pointers_ok s l"
  shows "\<exists>p s'. feature_mapping_add_daemon env (curr_daemon l) (Some v) s = Inr (p, s') \<and>
    (\<forall>a. p = Some a \<longrightarrow> a \<in> dom (daemons s')) \<and> features s' = features s"
proof -
  obtain h where "insert_after d_next (\<lambda>p n. n\<lparr>d_next := p\<rparr>) (curr_daemon l) (brk s)
     \<lparr>d_name = take FEATURE_SIZE v, d_diag_flag = DISABLE, d_next = None\<rparr> (daemons s) = Inr h"
    "dom h = insert (brk s) (dom (daemons s))"
    using insert_after_ok [of "curr_daemon l" "daemons s"] assms unfolding pointers_ok_def by blast
  then show ?thesis
    by (auto simp: feature_mapping_add_daemon_def Let_def)
qed

lemma update_node_ok:
  assumes "\<forall>a. p = Some a \<longrightarrow> a \<in> dom h" "p \<noteq> None"
  obtains h' where "update_node f p h = Inr h'" "dom h' = dom h"
proof -
  from assms obtain a n where "p = Some a" "h a = Some n" by auto
  then show ?thesis by (intro that [of "h(a \<mapsto> f n)"]) auto
qed

lemma on_feature_name_ok:
  assumes "pointers_ok s l"
  shows "\<exists>l' s'. on_feature_name env v l s = Inr (l', s') \<and> pointers_ok s' l'"
proof -
  obtain p s' where "feature_mapping_add_feature env (curr_feature l) (Some v) s = Inr (p, s')"
    "\<forall>a. p = Some a \<longrightarrow> a \<in> dom (features s')"
    using add_feature_ok [OF assms, of env v] by blast
  then show ?thesis by (simp add: on_feature_name_def pointers_ok_def)
qed

lemma on_daemon_name_ok:
  assumes "pointers_ok s l"
  shows "\<exists>l' s'. on_daemon_name env v l s = Inr (l', s') \<and> pointers_ok s' l'"
proof -
  obtain p s' where d: "feature_mapping_add_daemon env (curr_daemon l) (Some v) s = Inr (p, s')"
    "\<forall>a. p = Some a \<longrightarrow> a \<in> dom (daemons s')" "features s' = features s"
    using add_daemon_ok [OF assms, of env v] by blast
  show ?thesis
  proof (cases "curr_feature l")
    case None
    with d show ?thesis by (simp add: on_daemon_name_def pointers_ok_def)
  next
    case (Some a)
    with assms obtain n where "features s a = Some n" by (auto simp: pointers_ok_def)
    with d Some show ?thesis by (auto simp: on_daemon_name_def pointers_ok_def)
  qed
qed

lemma on_diagdump_ok:
  assumes "pointers_ok s l"
  shows "\<exists>s'. on_diagdump v l s = Inr (l, s') \<and> pointers_ok s' l"
proof -
  let ?d = "if curr_daemon l \<noteq> None
     then bind_res (update_node (\<lambda>n. n\<lparr>d_diag_flag := flag_of v\<rparr>) (curr_daemon l) (daemons s))
            (\<lambda>h. Inr (s\<lparr>daemons := h\<rparr>)) else Inr s"
  have ok: "\<forall>a. curr_daemon l = Some a \<longrightarrow> a \<in> dom (daemons s)" "\<forall>a. curr_feature l = Some a \<longrightarrow> a \<in> dom (features s)"
    using assms by (simp_all add: pointers_ok_def)
  have "\<exists>s1. ?d = Inr s1 \<and> dom (daemons s1) = dom (daemons s) \<and> features s1 = features s"
  proof (cases "curr_daemon l")
    case (Some a)
    with ok obtain n where "daemons s a = Some n" by auto
    with Some show ?thesis by auto
  qed simp
  then obtain s1 where s1: "?d = Inr s1" "dom (daemons s1) = dom (daemons s)" "features s1 = features s" by blast
  show ?thesis
  proof (cases "curr_feature l")
    case None
    with s1 ok show ?thesis unfolding on_diagdump_def Let_def flag_read s1(1) by (auto simp: pointers_ok_def)
  next
    case (Some a)
    with ok obtain n where "features s a = Some n" by auto
    with Some s1 ok show ?thesis unfolding on_diagdump_def Let_def flag_read s1(1) by (auto simp: pointers_ok_def)
  qed
qed

lemma on_desc_ok:
  assumes "pointers_ok s l"
  shows "\<exists>r s'. feature_mapping_add_feature_desc (curr_feature l) (Some v) s = Inr (r, s') \<and> pointers_ok s' l"
proof (cases "curr_feature l")
  case None
  with assms show ?thesis by (simp add: feature_mapping_add_feature_desc_def)
next
  case (Some a)
  with assms obtain n where "features s a = Some n" by (auto simp: pointers_ok_def)
  with Some assms show ?thesis by (auto simp: feature_mapping_add_feature_desc_def pointers_ok_def)
qed

lemma on_scalar_ok:
  assumes "pointers_ok s l"
  shows "\<exists>l' s'. on_scalar env v l s = Inr (l', s') \<and> pointers_ok s' l'"
proof -
  have "\<exists>l' s'. on_value env v l s = Inr (l', s') \<and> pointers_ok s' l'"
    using on_feature_name_ok [OF assms, of env v] on_daemon_name_ok [OF assms, of env v]
      on_diagdump_ok [OF assms, of v] on_desc_ok [OF assms, of v] assms
    by (auto simp: on_value_def)
  with assms show ?thesis by (auto simp: on_scalar_def Let_def pointers_ok_def)
qed

lemma fm_events_ok:
  "pointers_ok s l \<Longrightarrow> \<exists>r s'. fm_events env es l s = Inr (r, s')"
proof (induction es arbitrary: l s)
  case (Cons e es)
  show ?case
  proof (cases e)
    case (SCALAR_EVENT v)
    with on_scalar_ok [OF Cons.prems, of env v] Cons.IH show ?thesis by fastforce
  qed (use Cons in auto)
qed simp

section \<open>A concrete file\<close>

definition routing_feature :: feature_spec where
  "routing_feature = \<lparr>fs_name = ''routing'', fs_desc = Some ''Routing protocols'',
     fs_daemons = [(''ops-ospfd'', ENABLE), (''ops-bgpd'', DISABLE)], fs_flag = DISABLE\<rparr>"

definition routing_env :: fm_env where
  "routing_env = \<lparr>fm_calloc = \<lambda>a. True, fm_yaml_init = True,
     fm_file = Some (ystream (concat (map feature_scalars [routing_feature])))\<rparr>"

lemma routing_wf: "wf_feature routing_feature"
  by (simp add: wf_feature_def routing_feature_def plain_def keystr_feat_def)

section \<open>Properties\<close>

lemma mapping_run:
  assumes "\<And>a. fm_calloc env a" "fm_yaml_init env" "fm_file env = Some es"
  shows "\<exists>s gs. get_feature_mapping env fm0 = Inr (feature_head s, s) \<and>
    fm_rep s gs (snd (spec_parse (yscalars es) (0, [])))"
proof -
  have "current_state fm_locals0 = 0" by (simp add: fm_locals0_def)
  with fm_events_refines [OF fm0_rep assms(1), of es] obtain s gs where
    "fm_events env es fm_locals0 fm0 = Inr (if ycomplete es then 0 else 1, s)"
    "fm_rep s gs (snd (spec_parse (yscalars es) (0, [])))" by auto
  with assms show ?thesis
    by (auto simp: get_feature_mapping_def parse_feature_mapping_yaml_def fm0_def)
qed

text \<open>C9: the pointer structure that a first call of \<open>get_feature_mapping\<close> builds represents exactly
  the list of features that the abstract parser computes from the file's scalars, also when
  the YAML parser stops on an error: then it holds what was read up to there.\<close>

theorem get_feature_mapping_refines:
  assumes "\<And>a. fm_calloc env a" "fm_yaml_init env" "fm_file env = Some es"
  shows "\<exists>s gs. get_feature_mapping env fm0 = Inr (feature_head s, s) \<and>
    fm_rep s gs (snd (spec_parse (yscalars es) (0, [])))"
  using assms by (rule mapping_run)

lemma get_feature_mapping_refines_witness:
  "\<exists>s gs. get_feature_mapping (routing_env\<lparr>fm_file := Some [SCALAR_EVENT ''feature_name'', SCALAR_EVENT ''fan'']\<rparr>) fm0 =
      Inr (feature_head s, s) \<and>
    fm_rep s gs [\<lparr>fs_name = ''fan'', fs_desc = None, fs_daemons = [], fs_flag = DISABLE\<rparr>]"
  using get_feature_mapping_refines [of "routing_env\<lparr>fm_file := Some [SCALAR_EVENT ''feature_name'', SCALAR_EVENT ''fan'']\<rparr>"
    "[SCALAR_EVENT ''feature_name'', SCALAR_EVENT ''fan'']"]
  by (simp add: routing_env_def spec_scalar_def spec_value_def plain_def keystr_feat_def)



text \<open>Whichever of its memory requests fail and whatever the file holds, loading the mapping
  follows no NULL or dangling pointer and returns.\<close>

theorem get_feature_mapping_safe:
  "ok_res (get_feature_mapping env fm0)"
proof -
  have "pointers_ok fm0 fm_locals0" by (simp add: pointers_ok_def fm_locals0_def)
  note fm_events_ok [OF this]
  then have "\<exists>r s. fm_events env es fm_locals0 fm0 = Inr (r, s)" for es by blast
  then obtain r t where run: "fm_events env es fm_locals0 fm0 = Inr (r es, t es)" for es by metis
  have "feature_head fm0 = None" by (simp add: fm0_def)
  then show ?thesis
    by (simp add: get_feature_mapping_def parse_feature_mapping_yaml_def run split: option.splits)
qed

text \<open>The mapping is a singleton: once a call has returned a list, every later call returns the
  same one and changes nothing, whatever the file has become.\<close>

theorem get_feature_mapping_once:
  assumes "get_feature_mapping env s = Inr (Some p, s')"
  shows "get_feature_mapping env' s' = Inr (Some p, s')"
  using assms by (auto simp: get_feature_mapping_def bind_res_eq_Inr split: if_splits)

lemma get_feature_mapping_once_witness:
  "get_feature_mapping routing_env (fm0\<lparr>feature_head := Some 0\<rparr>) = Inr (Some 0, fm0\<lparr>feature_head := Some 0\<rparr>)"
  using get_feature_mapping_once [of routing_env "fm0\<lparr>feature_head := Some 0\<rparr>" 0 "fm0\<lparr>feature_head := Some 0\<rparr>"]
  by (simp add: get_feature_mapping_def)

end
