(* ===== verification/Vtysh.thy ===== *)
theory Vtysh
  imports CLib
begin

text \<open>
  What the command files share of the command shell: the values a command returns and
  the array of its arguments.
\<close>

datatype sig = SIGINT | SIGALRM | SIGTSTP

datatype cmd_ret = CMD_SUCCESS | CMD_WARNING | CMD_OVSDB_FAILURE | CMD_ERR_NO_MATCH

text \<open>How a command ends: it returns, or the process exits.\<close>

datatype ending = Returned cmd_ret | Exited

text \<open>The arguments of a command; \<open>argv[i]\<close> beyond \<open>argc\<close> is outside the array.\<close>

definition arg :: "string option list \<Rightarrow> nat \<Rightarrow> string option cres" where
  "arg argv i = (if i < length argv then Inr (argv ! i) else Inl OutOfBounds)"

definition atoi_arg :: "string option list \<Rightarrow> nat \<Rightarrow> int cres" where
  "atoi_arg argv i = bind_res (arg argv i) (\<lambda>a. case a of None \<Rightarrow> Inl NullDeref | Some s \<Rightarrow> Inr (atoi s))"

lemma arg_simps [simp]: "i < length argv \<Longrightarrow> arg argv i = Inr (argv ! i)"
  "length argv \<le> i \<Longrightarrow> arg argv i = Inl OutOfBounds"
  by (simp_all add: arg_def)

text \<open>\<open>%s\<close> of a string that may be NULL, as the C library prints it.\<close>

definition fmt_s :: "string option \<Rightarrow> string" where
  "fmt_s s = (case s of None \<Rightarrow> ''(null)'' | Some v \<Rightarrow> v)"

text \<open>\<open>%-n.ns\<close>: a column of width \<open>n\<close>.\<close>

definition column :: "nat \<Rightarrow> string \<Rightarrow> string" where
  "column n v = take n v @ replicate (n - length v) (CHR '' '')"

lemma length_column [simp]: "length (column n v) = n"
  by (simp add: column_def)

end
