(* ===== verification/Syslog_Vty.thy ===== *)
theory Syslog_Vty
  imports Supportability_Utils Vtysh
begin

text \<open>
  \<open>src/src/cli/syslog_vty.c\<close>: the commands that add and remove remote syslog servers, rows of
  an OVSDB table that the system row refers to. The OVSDB client library and the transaction
  calls of the vtysh are not part of the repository: their operations are the record
  \<open>idl\<close>, an argument of every command, and what the code relies on is \<open>idl_ok\<close>. A
  command works on the copy of the database that its transaction sees; an aborted
  transaction, or one whose commit fails, leaves the database as it was.
\<close>

section \<open>Rows and the library\<close>

record syslog_remote =
  sr_remote_host :: string
  sr_transport :: "string option"
  sr_port_number :: "int option"
  sr_severity :: "string option"

datatype txn_status = TXN_SUCCESS | TXN_UNCHANGED | TXN_FAILED

text \<open>Rows are named by numbers; \<open>'d\<close> is the database.\<close>

record 'd idl =
  idl_rows :: "'d \<Rightarrow> nat list"                        \<comment> \<open>\<open>OVSREC_SYSLOG_REMOTE_FOR_EACH\<close>\<close>
  idl_row :: "'d \<Rightarrow> nat \<Rightarrow> syslog_remote"
  idl_delete :: "nat \<Rightarrow> 'd \<Rightarrow> 'd"
  idl_insert :: "'d \<Rightarrow> (nat \<times> 'd) option"
  idl_write :: "nat \<Rightarrow> (syslog_remote \<Rightarrow> syslog_remote) \<Rightarrow> 'd \<Rightarrow> 'd"
  idl_system :: "'d \<Rightarrow> nat list option"               \<comment> \<open>\<open>syslog_remotes\<close> of the first system row\<close>
  idl_set_system :: "nat list \<Rightarrow> 'd \<Rightarrow> 'd"

definition blank_row :: syslog_remote where
  "blank_row = \<lparr>sr_remote_host = [], sr_transport = None, sr_port_number = None, sr_severity = None\<rparr>"

text \<open>The documented behaviour of the library: what each call changes, and that it changes
  nothing else. The order in which rows are visited is not specified.\<close>

definition idl_ok :: "'d idl \<Rightarrow> bool" where
  "idl_ok I \<longleftrightarrow>
     (\<forall>d. distinct (idl_rows I d)) \<and>
     (\<forall>r d. set (idl_rows I (idl_delete I r d)) = set (idl_rows I d) - {r} \<and>
        (\<forall>q. q \<noteq> r \<longrightarrow> idl_row I (idl_delete I r d) q = idl_row I d q) \<and>
        idl_system I (idl_delete I r d) = idl_system I d) \<and>
     (\<forall>d r d'. idl_insert I d = Some (r, d') \<longrightarrow>
        r \<notin> set (idl_rows I d) \<and> set (idl_rows I d') = insert r (set (idl_rows I d)) \<and>
        idl_row I d' r = blank_row \<and> (\<forall>q. q \<noteq> r \<longrightarrow> idl_row I d' q = idl_row I d q) \<and>
        idl_system I d' = idl_system I d) \<and>
     (\<forall>r f d. idl_rows I (idl_write I r f d) = idl_rows I d \<and>
        idl_row I (idl_write I r f d) = (idl_row I d)(r := f (idl_row I d r)) \<and>
        idl_system I (idl_write I r f d) = idl_system I d) \<and>
     (\<forall>rs d. idl_rows I (idl_set_system I rs d) = idl_rows I d \<and>
        idl_row I (idl_set_system I rs d) = idl_row I d \<and>
        (idl_system I d \<noteq> None \<longrightarrow> idl_system I (idl_set_system I rs d) = Some rs))"

text \<open>What else the commands see of the system.\<close>

record 'd syslog_env =
  txn_ok :: bool                          \<comment> \<open>\<open>cli_do_config_start\<close> yields a transaction\<close>
  valid_ip :: "string \<Rightarrow> bool"            \<comment> \<open>\<open>is_valid_ip_address\<close>\<close>
  row_calloc :: "64 word \<Rightarrow> bool"         \<comment> \<open>\<open>calloc\<close> of an array of that many row pointers\<close>
  commit_status :: "'d \<Rightarrow> txn_status"

section \<open>Constants\<close>

abbreviation DEFAULT_UDP_PORT :: int where "DEFAULT_UDP_PORT \<equiv> 514"
abbreviation DEFAULT_TCP_PORT :: int where "DEFAULT_TCP_PORT \<equiv> 1470"
abbreviation MAX_REMOTE_SERVERS :: nat where "MAX_REMOTE_SERVERS \<equiv> 4"
abbreviation MIN_PORT_NUMBER_SUPPORTED :: int where "MIN_PORT_NUMBER_SUPPORTED \<equiv> 1"
abbreviation MAX_PORT_NUMBER_SUPPORTED :: int where "MAX_PORT_NUMBER_SUPPORTED \<equiv> 65535"

text \<open>The two expressions of \<open>syslog_vty.h\<close>. In a POSIX bracket expression a backslash is
  an ordinary character, so \<open>[a-zA-Z0-9\-]\<close> holds it.\<close>

definition alnum :: "char list" where
  "alnum = char_range (CHR ''a'') (CHR ''z'') @ char_range (CHR ''A'') (CHR ''Z'') @ char_range (CHR ''0'') (CHR ''9'')"

definition host_label :: rx where
  "host_label = Alt (Cls alnum)
     (Cat (Cls alnum) (Cat (Star (Cls (alnum @ [CHR 0x5C, CHR ''-'']))) (Cls alnum)))"

definition HOSTNAME_RGX :: ere where
  "HOSTNAME_RGX = \<lparr>ere_bol = True, ere_body = Cat (Star (Cat host_label (Cls ''.''))) host_label, ere_eol = True\<rparr>"

definition octet_rx :: rx where
  "octet_rx = Rep (Cls (char_range (CHR ''0'') (CHR ''9''))) 1 3"

definition IPV4_RANGE_RGX :: ere where
  "IPV4_RANGE_RGX = \<lparr>ere_bol = True,
     ere_body = Cat octet_rx (Cat (Cls ''.'') (Cat octet_rx (Cat (Cls ''.'') (Cat octet_rx (Cat (Cls ''.'') octet_rx))))),
     ere_eol = True\<rparr>"

section \<open>Finding a row\<close>

text \<open>The body of the loop of \<open>syslog_remote_get_config\<close>: \<open>True\<close> where it reaches the
  \<open>return\<close>. \<open>has_next\<close> says that there is a next row.\<close>

definition transport_matches :: "bool \<Rightarrow> string option \<Rightarrow> string option \<Rightarrow> bool" where
  "transport_matches exact_match rt transport =
     (case transport of
        Some t \<Rightarrow> (case rt of
            Some _ \<Rightarrow> strcmp_with_nullcheck rt transport = 0
          | None \<Rightarrow> strcmp_with_nullcheck (Some ''udp'') transport = 0)
      | None \<Rightarrow> \<not> exact_match \<or> rt = None \<or> strcmp_with_nullcheck rt (Some ''udp'') = 0)"

definition uses_udp :: "string option \<Rightarrow> bool" where
  "uses_udp rt \<longleftrightarrow> rt = None \<or> strcmp_with_nullcheck rt (Some ''udp'') = 0"

definition port_matches :: "bool \<Rightarrow> bool \<Rightarrow> string option \<Rightarrow> int option \<Rightarrow> int option \<Rightarrow> bool" where
  "port_matches has_next exact_match rt rp port_number =
     (case port_number of
        Some p \<Rightarrow> (case rp of
            None \<Rightarrow> p = (if uses_udp rt then DEFAULT_UDP_PORT else DEFAULT_TCP_PORT)
          | Some q \<Rightarrow> \<not> has_next \<or> q = p)
      | None \<Rightarrow> \<not> exact_match \<or> (case rp of
            None \<Rightarrow> True
          | Some q \<Rightarrow> q = (if uses_udp rt then DEFAULT_UDP_PORT else DEFAULT_TCP_PORT)))"

definition severity_matches :: "bool \<Rightarrow> string option \<Rightarrow> string option \<Rightarrow> bool" where
  "severity_matches exact_match rs severity =
     (case severity of
        Some v \<Rightarrow> (case rs of
            Some u \<Rightarrow> strcmp u v = 0
          | None \<Rightarrow> strcmp_with_nullcheck (Some ''info'') severity = 0)
      | None \<Rightarrow> \<not> exact_match \<or> rs = None \<or> strcmp_with_nullcheck rs (Some ''info'') = 0)"

definition row_matches ::
    "bool \<Rightarrow> bool \<Rightarrow> bool \<Rightarrow> string \<Rightarrow> string option \<Rightarrow> int option \<Rightarrow> string option \<Rightarrow> syslog_remote \<Rightarrow> bool" where
  "row_matches has_next host_only exact remote_host transport port_number severity row \<longleftrightarrow>
     strcmp_with_nullcheck (Some (sr_remote_host row)) (Some remote_host) = 0 \<and>
     (host_only \<or>
      transport_matches exact (sr_transport row) transport \<and>
      port_matches has_next exact (sr_transport row) (sr_port_number row) port_number \<and>
      severity_matches exact (sr_severity row) severity)"

fun find_row ::
    "('r \<Rightarrow> syslog_remote) \<Rightarrow> 'r list \<Rightarrow> bool \<Rightarrow> bool \<Rightarrow> string \<Rightarrow> string option \<Rightarrow> int option \<Rightarrow> string option \<Rightarrow> 'r option" where
  "find_row row [] ho ex h t p s = None"
| "find_row row (r # rs) ho ex h t p s =
     (if row_matches (rs \<noteq> []) ho ex h t p s (row r) then Some r else find_row row rs ho ex h t p s)"

definition syslog_remote_get_config ::
    "'d idl \<Rightarrow> 'd \<Rightarrow> string \<Rightarrow> string option \<Rightarrow> int option \<Rightarrow> string option \<Rightarrow> bool \<Rightarrow> bool \<Rightarrow> nat option" where
  "syslog_remote_get_config I d remote_host transport port_number severity host_only_match exact_match =
     find_row (idl_row I d) (idl_rows I d) host_only_match exact_match remote_host transport port_number severity"

section \<open>Deleting and adding\<close>

abbreviation system_refs :: "'d idl \<Rightarrow> 'd \<Rightarrow> nat list" where
  "system_refs I d \<equiv> (case idl_system I d of None \<Rightarrow> [] | Some rs \<Rightarrow> rs)"

text \<open>The references other than the deleted one are copied into an array of one less than
  their number; a row that is not referred to would make the copy run past it.\<close>

definition cli_syslog_delete_config ::
    "'d idl \<Rightarrow> 'd syslog_env \<Rightarrow> string \<Rightarrow> string option \<Rightarrow> int option \<Rightarrow> string option \<Rightarrow> bool \<Rightarrow> bool \<Rightarrow> 'd \<Rightarrow>
     (cmd_ret \<times> string list \<times> 'd) cres" where
  "cli_syslog_delete_config I env remote_host transport port_number severity host_only_match error_on_no_match d =
     (case syslog_remote_get_config I d remote_host transport port_number severity host_only_match False of
        Some row \<Rightarrow>
          (let d1 = idl_delete I row d;
               refs = system_refs I d1;
               room = (of_nat (length refs) - 1 :: 64 word);
               kept = filter (\<lambda>r. r \<noteq> row) refs
           in if \<not> row_calloc env room then Inr (CMD_OVSDB_FAILURE, [], d1)
              else if unat room < length kept then Inl OutOfBounds
              else Inr (CMD_SUCCESS, [], idl_set_system I kept d1))
      | None \<Rightarrow>
          if error_on_no_match then Inr (CMD_WARNING, [''Syslog configuration not found''], d)
          else Inr (CMD_SUCCESS, [], d))"

definition invalid_host :: "'d syslog_env \<Rightarrow> string \<Rightarrow> bool" where
  "invalid_host env h \<longleftrightarrow> \<not> valid_ip env h \<and>
     (validate_cli_args (Some h) (Some HOSTNAME_RGX) \<noteq> 0 \<or> validate_cli_args (Some h) (Some IPV4_RANGE_RGX) = 0)"

text \<open>\<open>cli_do_config_finish\<close> and what follows it: \<open>d0\<close> is the database before the
  transaction, \<open>d\<close> the one it asks for.\<close>

definition finish_config :: "'d syslog_env \<Rightarrow> 'd \<Rightarrow> 'd \<Rightarrow> cmd_ret \<times> string list \<times> 'd" where
  "finish_config env d0 d =
     (if commit_status env d \<noteq> TXN_SUCCESS \<and> commit_status env d \<noteq> TXN_UNCHANGED
      then (CMD_OVSDB_FAILURE, [''Configuration failed''], d0)
      else (CMD_SUCCESS, [], d))"

definition fill_row :: "string \<Rightarrow> string option \<Rightarrow> int option \<Rightarrow> string option \<Rightarrow> syslog_remote \<Rightarrow> syslog_remote" where
  "fill_row h t p s row =
     (let row1 = row\<lparr>sr_remote_host := h\<rparr>;
          row2 = (if t \<noteq> None then row1\<lparr>sr_transport := t\<rparr> else row1);
          row3 = (case p of
              Some n \<Rightarrow> if MIN_PORT_NUMBER_SUPPORTED \<le> n \<and> n \<le> MAX_PORT_NUMBER_SUPPORTED
                then row2\<lparr>sr_port_number := p\<rparr> else row2
            | None \<Rightarrow> row2)
      in if s \<noteq> None then row3\<lparr>sr_severity := s\<rparr> else row3)"

text \<open>The part of \<open>cli_syslog_config\<close> under the second \<open>if(is_add)\<close>.\<close>

definition add_remote ::
    "'d idl \<Rightarrow> 'd syslog_env \<Rightarrow> string \<Rightarrow> string option \<Rightarrow> int option \<Rightarrow> string option \<Rightarrow> 'd \<Rightarrow> 'd \<Rightarrow>
     cmd_ret \<times> string list \<times> 'd" where
  "add_remote I env h t p s d0 d1 =
     (if MAX_REMOTE_SERVERS \<le> length (system_refs I d1)
      then (CMD_WARNING, [''Limit of 4 remote syslog servers already reached''], d0)
      else (case idl_insert I d1 of
          None \<Rightarrow> (CMD_OVSDB_FAILURE, [], d0)
        | Some (row, d2) \<Rightarrow>
            (let d3 = idl_write I row (fill_row h t p s) d2;
                 refs = system_refs I d3
             in if \<not> row_calloc env (of_nat (length refs) + 1) then (CMD_OVSDB_FAILURE, [], d0)
                else finish_config env d0 (idl_set_system I (refs @ [row]) d3))))"

definition cli_syslog_config ::
    "'d idl \<Rightarrow> 'd syslog_env \<Rightarrow> string option \<Rightarrow> string option \<Rightarrow> int option \<Rightarrow> string option \<Rightarrow> bool \<Rightarrow> 'd \<Rightarrow>
     (cmd_ret \<times> string list \<times> 'd) cres" where
  "cli_syslog_config I env remote_host transport port_number severity is_add d =
     (if \<not> txn_ok env then Inr (CMD_OVSDB_FAILURE, [], d)
      else (case remote_host of
          None \<Rightarrow> Inr (CMD_WARNING, [''Command failed''], d)
        | Some h \<Rightarrow>
            if 255 < length h then Inr (CMD_WARNING, [''Host name too long''], d)
            else if invalid_host env h then Inr (CMD_WARNING, [''Remote syslog server address is invalid''], d)
            else if idl_system I d = None then Inr (CMD_OVSDB_FAILURE, [], d)
            else if is_add \<and> syslog_remote_get_config I d h transport port_number severity False True \<noteq> None
              then Inr (CMD_SUCCESS, [], d)
            else bind_res (cli_syslog_delete_config I env h transport port_number severity is_add (\<not> is_add) d)
              (\<lambda>(rc, out, d1).
                 if rc \<noteq> CMD_SUCCESS then Inr (rc, out, d)
                 else if is_add then Inr (add_remote I env h transport port_number severity d d1)
                 else Inr (finish_config env d d1))))"

section \<open>The commands\<close>

type_synonym 'd syslog_handler = "'d idl \<Rightarrow> 'd syslog_env \<Rightarrow> string option list \<Rightarrow> 'd \<Rightarrow> (cmd_ret \<times> string list \<times> 'd) cres"

definition vtysh_config_syslog_basic :: "'d syslog_handler" where
  "vtysh_config_syslog_basic I env argv d =
     bind_res (arg argv 0) (\<lambda>h. cli_syslog_config I env h None None None True d)"

definition syslog_proto :: "string \<Rightarrow> bool \<Rightarrow> 'd syslog_handler" where
  "syslog_proto proto is_add I env argv d =
     bind_res (if length argv = 2 then bind_res (atoi_arg argv 1) (\<lambda>p. Inr (Some p)) else Inr None) (\<lambda>port.
       bind_res (arg argv 0) (\<lambda>h. cli_syslog_config I env h (Some proto) port None is_add d))"

definition vtysh_config_syslog_udp :: "'d syslog_handler" where
  "vtysh_config_syslog_udp = syslog_proto ''udp'' True"

definition vtysh_config_syslog_tcp :: "'d syslog_handler" where
  "vtysh_config_syslog_tcp = syslog_proto ''tcp'' True"

definition vtysh_config_syslog_svrt :: "'d syslog_handler" where
  "vtysh_config_syslog_svrt I env argv d =
     bind_res (arg argv 0) (\<lambda>h. bind_res (arg argv 1) (\<lambda>s. cli_syslog_config I env h None None s True d))"

definition syslog_proto_svrt :: "string \<Rightarrow> bool \<Rightarrow> 'd syslog_handler" where
  "syslog_proto_svrt proto is_add I env argv d =
     bind_res (atoi_arg argv 1) (\<lambda>p. bind_res (arg argv 0) (\<lambda>h. bind_res (arg argv 2) (\<lambda>s.
       cli_syslog_config I env h (Some proto) (Some p) s is_add d)))"

definition vtysh_config_syslog_udp_svrt :: "'d syslog_handler" where
  "vtysh_config_syslog_udp_svrt = syslog_proto_svrt ''udp'' True"

definition vtysh_config_syslog_tcp_svrt :: "'d syslog_handler" where
  "vtysh_config_syslog_tcp_svrt = syslog_proto_svrt ''tcp'' True"

definition vtysh_config_syslog_prot_svrt_noport :: "'d syslog_handler" where
  "vtysh_config_syslog_prot_svrt_noport I env argv d =
     bind_res (arg argv 0) (\<lambda>h. bind_res (arg argv 1) (\<lambda>t. bind_res (arg argv 2) (\<lambda>s.
       cli_syslog_config I env h t None s True d)))"

definition no_vtysh_config_syslog_basic :: "'d syslog_handler" where
  "no_vtysh_config_syslog_basic I env argv d =
     bind_res (arg argv 0) (\<lambda>h. cli_syslog_config I env h None None None False d)"

definition no_vtysh_config_syslog_udp :: "'d syslog_handler" where
  "no_vtysh_config_syslog_udp = syslog_proto ''udp'' False"

definition no_vtysh_config_syslog_tcp :: "'d syslog_handler" where
  "no_vtysh_config_syslog_tcp = syslog_proto ''tcp'' False"

definition no_vtysh_config_syslog_svrt :: "'d syslog_handler" where
  "no_vtysh_config_syslog_svrt I env argv d =
     bind_res (arg argv 0) (\<lambda>h. bind_res (arg argv 1) (\<lambda>s. cli_syslog_config I env h None None s False d))"

definition no_vtysh_config_syslog_udp_svrt :: "'d syslog_handler" where
  "no_vtysh_config_syslog_udp_svrt = syslog_proto_svrt ''udp'' False"

definition no_vtysh_config_syslog_tcp_svrt :: "'d syslog_handler" where
  "no_vtysh_config_syslog_tcp_svrt = syslog_proto_svrt ''tcp'' False"

definition no_vtysh_config_syslog_prot_svrt_noport :: "'d syslog_handler" where
  "no_vtysh_config_syslog_prot_svrt_noport I env argv d =
     bind_res (arg argv 0) (\<lambda>h. bind_res (arg argv 1) (\<lambda>t. bind_res (arg argv 2) (\<lambda>s.
       cli_syslog_config I env h t None s False d)))"

text \<open>
  \<open>no logging\<close> asks first and reads the terminal character by character. At the end of
  the input \<open>getchar\<close> yields \<open>EOF\<close> for ever, which is neither answer: the loop does not
  end, the value \<open>None\<close>.
\<close>

definition delete_all :: "'d idl \<Rightarrow> 'd \<Rightarrow> 'd" where
  "delete_all I d = foldl (\<lambda>d r. idl_delete I r d) d (idl_rows I d)"

definition remove_all_remotes :: "'d idl \<Rightarrow> 'd syslog_env \<Rightarrow> 'd \<Rightarrow> cmd_ret \<times> string list \<times> 'd" where
  "remove_all_remotes I env d =
     (if \<not> txn_ok env then (CMD_OVSDB_FAILURE, [], d)
      else if idl_system I d = None then (CMD_OVSDB_FAILURE, [], d)
      else finish_config env d (idl_set_system I [] (delete_all I d)))"

fun vtysh_config_no_syslog ::
    "'d idl \<Rightarrow> 'd syslog_env \<Rightarrow> string \<Rightarrow> 'd \<Rightarrow> (cmd_ret \<times> string list \<times> 'd) option" where
  "vtysh_config_no_syslog I env [] d = None"
| "vtysh_config_no_syslog I env (c # cs) d =
     (if c = CHR ''y'' then Some (remove_all_remotes I env d)
      else if c = CHR ''n'' then Some (CMD_SUCCESS, [], d)
      else vtysh_config_no_syslog I env cs d)"

section \<open>The configuration as a map\<close>

definition servers :: "'d idl \<Rightarrow> 'd \<Rightarrow> syslog_remote list" where
  "servers I d = map (idl_row I d) (idl_rows I d)"

definition remotes :: "'d idl \<Rightarrow> 'd \<Rightarrow> string \<Rightarrow> syslog_remote option" where
  "remotes I d h = find (\<lambda>x. sr_remote_host x = h) (servers I d)"

text \<open>The system row refers to every row once, a host has at most one row, and there are at
  most four.\<close>

definition syslog_inv :: "'d idl \<Rightarrow> 'd \<Rightarrow> bool" where
  "syslog_inv I d \<longleftrightarrow> (case idl_system I d of
      None \<Rightarrow> False
    | Some refs \<Rightarrow> distinct refs \<and> set refs = set (idl_rows I d) \<and> length refs \<le> MAX_REMOTE_SERVERS) \<and>
    distinct (map sr_remote_host (servers I d))"

lemma idl_okD:
  assumes "idl_ok I"
  shows idl_distinct: "distinct (idl_rows I d)"
    and idl_delete: "set (idl_rows I (idl_delete I r d)) = set (idl_rows I d) - {r}"
      "q \<noteq> r \<Longrightarrow> idl_row I (idl_delete I r d) q = idl_row I d q"
      "idl_system I (idl_delete I r d) = idl_system I d"
    and idl_insert: "idl_insert I d = Some (r, d') \<Longrightarrow> r \<notin> set (idl_rows I d)"
      "idl_insert I d = Some (r, d') \<Longrightarrow> set (idl_rows I d') = insert r (set (idl_rows I d))"
      "idl_insert I d = Some (r, d') \<Longrightarrow> idl_row I d' r = blank_row"
      "idl_insert I d = Some (r, d') \<Longrightarrow> q \<noteq> r \<Longrightarrow> idl_row I d' q = idl_row I d q"
      "idl_insert I d = Some (r, d') \<Longrightarrow> idl_system I d' = idl_system I d"
    and idl_write: "idl_rows I (idl_write I r f d) = idl_rows I d"
      "idl_row I (idl_write I r f d) = (idl_row I d)(r := f (idl_row I d r))"
      "idl_system I (idl_write I r f d) = idl_system I d"
    and idl_set_system: "idl_rows I (idl_set_system I rs d) = idl_rows I d"
      "idl_row I (idl_set_system I rs d) = idl_row I d"
      "idl_system I d \<noteq> None \<Longrightarrow> idl_system I (idl_set_system I rs d) = Some rs"
  using assms unfolding idl_ok_def by blast+

text \<open>The invariant and the map, in terms of the set of rows.\<close>

lemma distinct_hosts_iff:
  assumes "idl_ok I"
  shows "distinct (map sr_remote_host (servers I d)) \<longleftrightarrow> inj_on (\<lambda>r. sr_remote_host (idl_row I d r)) (set (idl_rows I d))"
  using idl_distinct [OF assms, of d] by (simp add: servers_def distinct_map o_def)

lemma remotes_iff:
  assumes "idl_ok I" "syslog_inv I d"
  shows "remotes I d h = Some x \<longleftrightarrow> (\<exists>r\<in>set (idl_rows I d). idl_row I d r = x \<and> sr_remote_host x = h)"
proof -
  have inj: "inj_on (\<lambda>r. sr_remote_host (idl_row I d r)) (set (idl_rows I d))"
    using assms(2) distinct_hosts_iff [OF assms(1)] by (simp add: syslog_inv_def)
  show ?thesis
  proof
    assume "remotes I d h = Some x"
    then show "\<exists>r\<in>set (idl_rows I d). idl_row I d r = x \<and> sr_remote_host x = h"
      by (auto simp: remotes_def find_Some_iff servers_def)
  next
    assume "\<exists>r\<in>set (idl_rows I d). idl_row I d r = x \<and> sr_remote_host x = h"
    then obtain r where r: "r \<in> set (idl_rows I d)" "idl_row I d r = x" "sr_remote_host x = h" by blast
    then have "remotes I d h \<noteq> None" by (auto simp: remotes_def find_None_iff servers_def)
    then obtain y where y: "remotes I d h = Some y" by blast
    then obtain q where "q \<in> set (idl_rows I d)" "idl_row I d q = y" "sr_remote_host y = h"
      by (auto simp: remotes_def find_Some_iff servers_def) (metis nth_map nth_mem)
    with inj r have "q = r" by (auto dest: inj_onD)
    with y r \<open>idl_row I d q = y\<close> show "remotes I d h = Some x" by simp
  qed
qed

lemma remotes_None_iff:
  "remotes I d h = None \<longleftrightarrow> (\<forall>r\<in>set (idl_rows I d). sr_remote_host (idl_row I d r) \<noteq> h)"
  by (simp add: remotes_def find_None_iff servers_def)

lemma syslog_invD:
  assumes "syslog_inv I d"
  obtains refs where "idl_system I d = Some refs" "distinct refs" "set refs = set (idl_rows I d)" "length refs \<le> 4"
    "system_refs I d = refs"
  using assms unfolding syslog_inv_def by (cases "idl_system I d") auto

text \<open>Removing a row and the reference to it.\<close>

lemma remove_row:
  assumes ok: "idl_ok I" and inv: "syslog_inv I d" and r: "r \<in> set (idl_rows I d)"
    and d': "d' = idl_set_system I (filter (\<lambda>q. q \<noteq> r) (system_refs I d)) (idl_delete I r d)"
  shows "syslog_inv I d'" "remotes I d' = (remotes I d)(sr_remote_host (idl_row I d r) := None)"
    "length (system_refs I d') = length (system_refs I d) - 1"
    "length (filter (\<lambda>q. q \<noteq> r) (system_refs I d)) = length (system_refs I d) - 1" "system_refs I d \<noteq> []"
proof -
  obtain refs where refs: "idl_system I d = Some refs" "distinct refs" "set refs = set (idl_rows I d)"
    "length refs \<le> 4" "system_refs I d = refs" by (rule syslog_invD [OF inv])
  have rows: "set (idl_rows I d') = set (idl_rows I d) - {r}"
    by (simp add: d' idl_delete [OF ok] idl_set_system [OF ok])
  have row: "idl_row I d' q = idl_row I d q" if "q \<noteq> r" for q
    using that by (simp add: d' idl_delete [OF ok] idl_set_system [OF ok])
  have sys: "idl_system I d' = Some (filter (\<lambda>q. q \<noteq> r) refs)"
    using refs by (simp add: d' idl_delete [OF ok] idl_set_system [OF ok])
  have "filter (\<lambda>q. q \<noteq> r) refs = remove1 r refs"
    using refs(2) by (simp add: distinct_remove1_removeAll removeAll_filter_not_eq eq_commute)
  then have len: "length (filter (\<lambda>q. q \<noteq> r) refs) = length refs - 1"
    using r refs(3) by (simp add: length_remove1)
  have inj: "inj_on (\<lambda>q. sr_remote_host (idl_row I d q)) (set (idl_rows I d))"
    using inv distinct_hosts_iff [OF ok] by (simp add: syslog_inv_def)
  then have "inj_on (\<lambda>q. sr_remote_host (idl_row I d q)) (set (idl_rows I d) - {r})"
    by (rule inj_on_subset) auto
  moreover have "inj_on (\<lambda>q. sr_remote_host (idl_row I d' q)) (set (idl_rows I d) - {r}) \<longleftrightarrow>
      inj_on (\<lambda>q. sr_remote_host (idl_row I d q)) (set (idl_rows I d) - {r})"
    by (rule inj_on_cong) (simp add: row)
  ultimately show inv': "syslog_inv I d'"
    using refs rows sys len by (auto simp: syslog_inv_def distinct_hosts_iff [OF ok])
  show "length (system_refs I d') = length (system_refs I d) - 1"
    "length (filter (\<lambda>q. q \<noteq> r) (system_refs I d)) = length (system_refs I d) - 1"
    using sys refs(5) len by simp_all
  show "system_refs I d \<noteq> []" using r refs by auto
  show "remotes I d' = (remotes I d)(sr_remote_host (idl_row I d r) := None)"
  proof
    fix h
    have "remotes I d' h = Some x \<longleftrightarrow> ((remotes I d)(sr_remote_host (idl_row I d r) := None)) h = Some x" for x
    proof (cases "h = sr_remote_host (idl_row I d r)")
      case True
      have "\<not> (\<exists>q\<in>set (idl_rows I d) - {r}. sr_remote_host (idl_row I d q) = h)"
        using inj r True by (auto dest: inj_onD)
      with True show ?thesis by (auto simp: remotes_iff [OF ok inv'] rows row)
    next
      case False
      then show ?thesis by (auto simp: remotes_iff [OF ok inv'] remotes_iff [OF ok inv] rows row)
    qed
    then show "remotes I d' h = ((remotes I d)(sr_remote_host (idl_row I d r) := None)) h"
      by (metis option.exhaust)
  qed
qed

text \<open>Adding a row and a reference to it.\<close>

lemma insert_row:
  assumes ok: "idl_ok I" and inv: "syslog_inv I d" and ins: "idl_insert I d = Some (r, d2)"
    and fresh: "remotes I d h = None" and room: "length (system_refs I d) < 4"
    and f: "sr_remote_host (f blank_row) = h"
    and d': "d' = idl_set_system I (system_refs I d @ [r]) (idl_write I r f d2)"
  shows "syslog_inv I d'" "remotes I d' = (remotes I d)(h \<mapsto> f blank_row)"
proof -
  obtain refs where refs: "idl_system I d = Some refs" "distinct refs" "set refs = set (idl_rows I d)"
    "length refs \<le> 4" "system_refs I d = refs" by (rule syslog_invD [OF inv])
  note new = idl_insert [OF ok ins]
  have rows: "set (idl_rows I d') = insert r (set (idl_rows I d))"
    using new by (simp add: d' idl_write [OF ok] idl_set_system [OF ok])
  have row: "idl_row I d' q = (if q = r then f blank_row else idl_row I d q)" for q
    using new by (simp add: d' idl_write [OF ok] idl_set_system [OF ok])
  have sys: "idl_system I d' = Some (refs @ [r])"
    using refs new by (simp add: d' idl_write [OF ok] idl_set_system [OF ok])
  have others: "idl_row I d' q = idl_row I d q" if "q \<in> set (idl_rows I d)" for q
    using that new(1) row [of q] by auto
  have inj: "inj_on (\<lambda>q. sr_remote_host (idl_row I d q)) (set (idl_rows I d))"
    using inv distinct_hosts_iff [OF ok] by (simp add: syslog_inv_def)
  have nohost: "sr_remote_host (idl_row I d q) \<noteq> h" if "q \<in> set (idl_rows I d)" for q
    using fresh that by (simp add: remotes_None_iff)
  have "inj_on (\<lambda>q. sr_remote_host (idl_row I d' q)) (set (idl_rows I d)) \<longleftrightarrow>
      inj_on (\<lambda>q. sr_remote_host (idl_row I d q)) (set (idl_rows I d))"
    by (rule inj_on_cong) (simp add: others)
  moreover have "sr_remote_host (idl_row I d' r) \<notin> (\<lambda>q. sr_remote_host (idl_row I d' q)) ` (set (idl_rows I d) - {r})"
  proof
    assume "sr_remote_host (idl_row I d' r) \<in> (\<lambda>q. sr_remote_host (idl_row I d' q)) ` (set (idl_rows I d) - {r})"
    then obtain q where q: "q \<in> set (idl_rows I d)" "sr_remote_host (idl_row I d' q) = h"
      using row [of r] f by (elim imageE) auto
    then show False using nohost [OF q(1)] others [OF q(1)] by simp
  qed
  ultimately have "inj_on (\<lambda>q. sr_remote_host (idl_row I d' q)) (insert r (set (idl_rows I d)))"
    using inj by (simp add: inj_on_insert)
  then show inv': "syslog_inv I d'"
    using refs rows sys room new(1) by (auto simp: syslog_inv_def distinct_hosts_iff [OF ok])
  show "remotes I d' = (remotes I d)(h \<mapsto> f blank_row)"
  proof
    fix k
    have "remotes I d' k = Some x \<longleftrightarrow> ((remotes I d)(h \<mapsto> f blank_row)) k = Some x" for x
      using f nohost others row [of r]
      by (cases "k = h") (auto simp: remotes_iff [OF ok inv'] remotes_iff [OF ok inv] rows)
    then show "remotes I d' k = ((remotes I d)(h \<mapsto> f blank_row)) k" by (metis option.exhaust)
  qed
qed

section \<open>What the search compares\<close>

definition default_port :: "string option \<Rightarrow> int" where
  "default_port t = (if uses_udp t then DEFAULT_UDP_PORT else DEFAULT_TCP_PORT)"

definition eff_transport :: "syslog_remote \<Rightarrow> string" where
  "eff_transport x = (case sr_transport x of None \<Rightarrow> ''udp'' | Some t \<Rightarrow> t)"

definition eff_port :: "syslog_remote \<Rightarrow> int" where
  "eff_port x = (case sr_port_number x of None \<Rightarrow> default_port (sr_transport x) | Some p \<Rightarrow> p)"

definition eff_severity :: "syslog_remote \<Rightarrow> string" where
  "eff_severity x = (case sr_severity x of None \<Rightarrow> ''info'' | Some v \<Rightarrow> v)"

text \<open>What a row amounts to, the defaults filled in.\<close>

definition settings :: "syslog_remote \<Rightarrow> string \<times> string \<times> int \<times> string" where
  "settings x = (sr_remote_host x, eff_transport x, eff_port x, eff_severity x)"

definition entry :: "string \<Rightarrow> string option \<Rightarrow> int option \<Rightarrow> string option \<Rightarrow> syslog_remote" where
  "entry h t p s = fill_row h t p s blank_row"

definition port_in_range :: "int option \<Rightarrow> bool" where
  "port_in_range p \<longleftrightarrow> (\<forall>n. p = Some n \<longrightarrow> MIN_PORT_NUMBER_SUPPORTED \<le> n \<and> n \<le> MAX_PORT_NUMBER_SUPPORTED)"

lemma entry_fields:
  assumes "port_in_range p"
  shows "entry h t p s = \<lparr>sr_remote_host = h, sr_transport = t, sr_port_number = p, sr_severity = s\<rparr>"
  using assms by (auto simp: entry_def fill_row_def blank_row_def port_in_range_def Let_def split: option.split)

lemma fill_row_host [simp]: "sr_remote_host (fill_row h t p s x) = h"
  by (simp add: fill_row_def Let_def split: option.split)

text \<open>A \<open>no logging\<close> command names a server and, if it likes, what it is set to.\<close>

definition similar :: "string \<Rightarrow> string option \<Rightarrow> int option \<Rightarrow> string option \<Rightarrow> syslog_remote \<Rightarrow> bool" where
  "similar h t p s x \<longleftrightarrow> sr_remote_host x = h \<and> (t = None \<or> t = Some (eff_transport x)) \<and>
     (p = None \<or> p = Some (eff_port x)) \<and> (s = None \<or> s = Some (eff_severity x))"

text \<open>The port of a row without a successor is compared only where the row has none of its own.\<close>

definition port_compared :: "bool \<Rightarrow> int option \<Rightarrow> syslog_remote \<Rightarrow> bool" where
  "port_compared has_next p x \<longleftrightarrow> has_next \<or> p = None \<or> sr_port_number x = None \<or> sr_port_number x = p"

lemma row_matches_similar:
  assumes "port_compared has_next p x"
  shows "row_matches has_next False False h t p s x \<longleftrightarrow> similar h t p s x"
proof -
  have "transport_matches False (sr_transport x) t \<longleftrightarrow> t = None \<or> t = Some (eff_transport x)"
    by (auto simp: transport_matches_def eff_transport_def split: option.split)
  moreover have "port_matches has_next False (sr_transport x) (sr_port_number x) p \<longleftrightarrow> p = None \<or> p = Some (eff_port x)"
    using assms by (auto simp: port_matches_def eff_port_def default_port_def port_compared_def split: option.splits)
  moreover have "severity_matches False (sr_severity x) s \<longleftrightarrow> s = None \<or> s = Some (eff_severity x)"
    by (auto simp: severity_matches_def eff_severity_def split: option.split)
  ultimately show ?thesis by (auto simp: row_matches_def similar_def)
qed

lemma row_matches_exact:
  assumes "port_compared has_next p x" "port_in_range p"
  shows "row_matches has_next False True h t p s x \<longleftrightarrow> settings x = settings (entry h t p s)"
proof -
  have "transport_matches True (sr_transport x) t \<longleftrightarrow> eff_transport x = eff_transport (entry h t p s)"
    using assms(2) by (auto simp: transport_matches_def eff_transport_def entry_fields split: option.split)
  moreover have "port_matches has_next True (sr_transport x) (sr_port_number x) p \<longleftrightarrow> eff_port x = eff_port (entry h t p s)"
    if "eff_transport x = eff_transport (entry h t p s)"
  proof -
    have "uses_udp (sr_transport x) \<longleftrightarrow> uses_udp t"
      using that assms(2) by (auto simp: uses_udp_def eff_transport_def entry_fields split: option.splits)
    then show ?thesis
      using assms by (auto simp: port_matches_def eff_port_def default_port_def port_compared_def entry_fields split: option.splits)
  qed
  moreover have "severity_matches True (sr_severity x) s \<longleftrightarrow> eff_severity x = eff_severity (entry h t p s)"
    using assms(2) by (auto simp: severity_matches_def eff_severity_def entry_fields split: option.split)
  moreover have "sr_remote_host (entry h t p s) = h" by (simp add: entry_def)
  ultimately show ?thesis by (auto simp: row_matches_def settings_def)
qed

lemma row_matches_host: "row_matches has_next True ex h t p s x \<longleftrightarrow> sr_remote_host x = h"
  by (auto simp: row_matches_def)

section \<open>The search\<close>

lemma find_row_only:
  assumes "distinct rs" "r \<in> set rs" "\<And>q. q \<in> set rs \<Longrightarrow> q \<noteq> r \<Longrightarrow> sr_remote_host (row q) \<noteq> h"
  shows "find_row row rs ho ex h t p s = (if row_matches (last rs \<noteq> r) ho ex h t p s (row r) then Some r else None)"
  using assms
proof (induction rs)
  case (Cons q rs)
  show ?case
  proof (cases "q = r")
    case True
    then have "r \<notin> set rs" using Cons.prems(1) by simp
    have "find_row row rs ho ex h t p s = None"
      using Cons.prems(3) True Cons.prems(1)
    proof (induction rs)
      case (Cons y ys)
      then show ?case by (auto simp: row_matches_def)
    qed simp
    moreover have "last (q # rs) \<noteq> r \<longleftrightarrow> rs \<noteq> []"
      using True \<open>r \<notin> set rs\<close> last_in_set [of rs] by auto
    ultimately show ?thesis using True by simp
  next
    case False
    then have "r \<in> set rs" "\<not> row_matches (rs \<noteq> []) ho ex h t p s (row q)"
      using Cons.prems(2,3) by (auto simp: row_matches_def)
    with Cons show ?thesis by auto
  qed
qed simp

lemma find_row_none:
  assumes "\<And>q. q \<in> set rs \<Longrightarrow> sr_remote_host (row q) \<noteq> h"
  shows "find_row row rs ho ex h t p s = None"
  using assms by (induction rs) (auto simp: row_matches_def)

lemma get_config_none:
  "remotes I d h = None \<Longrightarrow> syslog_remote_get_config I d h t p s ho ex = None"
  unfolding syslog_remote_get_config_def by (rule find_row_none) (simp add: remotes_None_iff)

lemma get_config_row:
  assumes ok: "idl_ok I" and inv: "syslog_inv I d" and x: "remotes I d h = Some x"
  obtains r where "r \<in> set (idl_rows I d)" "idl_row I d r = x" "sr_remote_host x = h"
    "\<And>t p s ho ex. syslog_remote_get_config I d h t p s ho ex =
       (if row_matches (last (idl_rows I d) \<noteq> r) ho ex h t p s x then Some r else None)"
proof -
  obtain r where r: "r \<in> set (idl_rows I d)" "idl_row I d r = x" "sr_remote_host x = h"
    using x remotes_iff [OF ok inv] by blast
  have inj: "inj_on (\<lambda>q. sr_remote_host (idl_row I d q)) (set (idl_rows I d))"
    using inv distinct_hosts_iff [OF ok] by (simp add: syslog_inv_def)
  have "syslog_remote_get_config I d h t p s ho ex =
       (if row_matches (last (idl_rows I d) \<noteq> r) ho ex h t p s (idl_row I d r) then Some r else None)" for t p s ho ex
    unfolding syslog_remote_get_config_def
    by (rule find_row_only [OF idl_distinct [OF ok] r(1)]) (use inj r in \<open>auto dest: inj_onD\<close>)
  with r show ?thesis by (intro that) auto
qed

text \<open>The request's port is compared with the row's.\<close>

definition port_seen :: "'d idl \<Rightarrow> 'd \<Rightarrow> string \<Rightarrow> int option \<Rightarrow> bool" where
  "port_seen I d h p \<longleftrightarrow> (\<forall>x. remotes I d h = Some x \<longrightarrow>
     port_compared (sr_remote_host (last (servers I d)) \<noteq> h) p x)"

lemma last_row:
  assumes ok: "idl_ok I" and inv: "syslog_inv I d" and r: "r \<in> set (idl_rows I d)"
  shows "last (idl_rows I d) \<noteq> r \<longleftrightarrow> sr_remote_host (last (servers I d)) \<noteq> sr_remote_host (idl_row I d r)"
proof -
  have ne: "idl_rows I d \<noteq> []" using r by auto
  have inj: "inj_on (\<lambda>q. sr_remote_host (idl_row I d q)) (set (idl_rows I d))"
    using inv distinct_hosts_iff [OF ok] by (simp add: syslog_inv_def)
  have "last (servers I d) = idl_row I d (last (idl_rows I d))" using ne by (simp add: servers_def last_map)
  with inj r last_in_set [OF ne] show ?thesis by (auto dest: inj_onD)
qed

section \<open>The contract\<close>

definition logging_spec ::
    "syslog_remote \<Rightarrow> (string \<Rightarrow> syslog_remote option) \<Rightarrow> cmd_ret \<times> (string \<Rightarrow> syslog_remote option)" where
  "logging_spec e m =
     (let same = (case m (sr_remote_host e) of None \<Rightarrow> False | Some x \<Rightarrow> settings x = settings e) in
      if same then (CMD_SUCCESS, m)
      else if m (sr_remote_host e) = None \<and> MAX_REMOTE_SERVERS \<le> card (dom m) then (CMD_WARNING, m)
      else (CMD_SUCCESS, m(sr_remote_host e \<mapsto> e)))"

definition no_logging_spec ::
    "string \<Rightarrow> string option \<Rightarrow> int option \<Rightarrow> string option \<Rightarrow> (string \<Rightarrow> syslog_remote option) \<Rightarrow>
     cmd_ret \<times> (string \<Rightarrow> syslog_remote option)" where
  "no_logging_spec h t p s m = (case m h of
      None \<Rightarrow> (CMD_WARNING, m)
    | Some x \<Rightarrow> if similar h t p s x then (CMD_SUCCESS, m(h := None)) else (CMD_WARNING, m))"

text \<open>An environment in which nothing fails, and a host name that passes the checks.\<close>

definition env_works :: "'d idl \<Rightarrow> 'd syslog_env \<Rightarrow> bool" where
  "env_works I env \<longleftrightarrow> txn_ok env \<and> (\<forall>n. row_calloc env n) \<and> (\<forall>d. commit_status env d = TXN_SUCCESS) \<and>
     (\<forall>d. idl_insert I d \<noteq> None)"

definition host_accepted :: "'d syslog_env \<Rightarrow> string \<Rightarrow> bool" where
  "host_accepted env h \<longleftrightarrow> length h \<le> 255 \<and> \<not> invalid_host env h"

lemma dom_remotes:
  assumes "idl_ok I" "syslog_inv I d"
  shows "card (dom (remotes I d)) = length (system_refs I d)"
proof -
  obtain refs where refs: "distinct refs" "set refs = set (idl_rows I d)" "system_refs I d = refs"
    by (rule syslog_invD [OF assms(2)])
  have inj: "inj_on (\<lambda>q. sr_remote_host (idl_row I d q)) (set (idl_rows I d))"
    using assms(2) distinct_hosts_iff [OF assms(1)] by (simp add: syslog_inv_def)
  have "dom (remotes I d) = (\<lambda>q. sr_remote_host (idl_row I d q)) ` set (idl_rows I d)"
    using remotes_None_iff [of I d] by (auto simp: dom_def image_iff)
  moreover have "card (set (idl_rows I d)) = length refs" using distinct_card [OF refs(1)] refs(2) by simp
  ultimately show ?thesis using inj refs(3) by (simp add: card_image)
qed

lemma word_room: "n \<noteq> 0 \<Longrightarrow> n \<le> 4 \<Longrightarrow> unat (of_nat n - 1 :: 64 word) = n - 1"
proof -
  assume n: "n \<noteq> 0" "n \<le> 4"
  then have "(of_nat n - 1 :: 64 word) = of_nat (n - 1)" by simp
  moreover have "unat (of_nat (n - 1) :: 64 word) = n - 1"
    using n(2) by (simp add: unat_of_nat take_bit_nat_eq_self)
  ultimately show ?thesis by simp
qed

text \<open>What the delete step does, for a server that is there and for one that is not.\<close>

lemma delete_row_step:
  assumes ok: "idl_ok I" and inv: "syslog_inv I d" and r: "r \<in> set (idl_rows I d)"
    and found: "syslog_remote_get_config I d h t p s ho False = Some r"
  defines "d' \<equiv> idl_set_system I (filter (\<lambda>q. q \<noteq> r) (system_refs I d)) (idl_delete I r d)"
  shows "cli_syslog_delete_config I env h t p s ho er d =
     Inr (if row_calloc env (of_nat (length (system_refs I d)) - 1) then (CMD_SUCCESS, [], d')
          else (CMD_OVSDB_FAILURE, [], idl_delete I r d))"
    "syslog_inv I d'" "remotes I d' = (remotes I d)(sr_remote_host (idl_row I d r) := None)"
    "length (system_refs I d') = length (system_refs I d) - 1" "length (system_refs I d) \<le> 4" "system_refs I d \<noteq> []"
proof -
  note rem = remove_row [OF ok inv r d'_def [THEN meta_eq_to_obj_eq]]
  show "syslog_inv I d'" "remotes I d' = (remotes I d)(sr_remote_host (idl_row I d r) := None)"
    "length (system_refs I d') = length (system_refs I d) - 1" "system_refs I d \<noteq> []" by (rule rem)+
  show len: "length (system_refs I d) \<le> 4" by (rule syslog_invD [OF inv]) simp
  have "\<not> unat (of_nat (length (system_refs I d)) - 1 :: 64 word) < length (filter (\<lambda>q. q \<noteq> r) (system_refs I d))"
    using word_room [of "length (system_refs I d)"] len rem(4,5) by simp
  then show "cli_syslog_delete_config I env h t p s ho er d =
     Inr (if row_calloc env (of_nat (length (system_refs I d)) - 1) then (CMD_SUCCESS, [], d')
          else (CMD_OVSDB_FAILURE, [], idl_delete I r d))"
    using found by (simp add: cli_syslog_delete_config_def idl_delete [OF ok] Let_def d'_def)
qed

lemma delete_miss_step:
  "syslog_remote_get_config I d h t p s ho False = None \<Longrightarrow>
   cli_syslog_delete_config I env h t p s ho er d =
     Inr (if er then (CMD_WARNING, [''Syslog configuration not found''], d) else (CMD_SUCCESS, [], d))"
  by (simp add: cli_syslog_delete_config_def)

text \<open>What adding does to a database in which the host has no row.\<close>

lemma add_remote_cases:
  assumes ok: "idl_ok I" and inv: "syslog_inv I d1" and fresh: "remotes I d1 h = None"
  obtains rc out where "add_remote I env h t p s d0 d1 = (rc, out, d0)" "rc \<noteq> CMD_SUCCESS"
      "4 \<le> length (system_refs I d1) \<Longrightarrow> rc = CMD_WARNING" "env_works I env \<Longrightarrow> 4 \<le> length (system_refs I d1)"
    | d' where "add_remote I env h t p s d0 d1 = (CMD_SUCCESS, [], d')" "syslog_inv I d'"
      "remotes I d' = (remotes I d1)(h \<mapsto> entry h t p s)" "length (system_refs I d1) < 4"
proof (cases "4 \<le> length (system_refs I d1)")
  case True
  then show ?thesis by (intro that(1)) (auto simp: add_remote_def)
next
  case False
  show ?thesis
  proof (cases "idl_insert I d1")
    case None
    then have "\<not> env_works I env" by (auto simp: env_works_def) (metis option.simps(3))
    with False None show ?thesis by (intro that(1)) (auto simp: add_remote_def)
  next
    case (Some y)
    then obtain row d2 where ins: "idl_insert I d1 = Some (row, d2)" by (cases y) simp
    define d' where "d' = idl_set_system I (system_refs I d1 @ [row]) (idl_write I row (fill_row h t p s) d2)"
    have run: "add_remote I env h t p s d0 d1 =
        (if \<not> row_calloc env (of_nat (length (system_refs I d1)) + 1) then (CMD_OVSDB_FAILURE, [], d0)
         else finish_config env d0 d')"
      using False ins by (simp add: add_remote_def Let_def idl_write [OF ok] idl_insert [OF ok ins] d'_def)
    have new: "syslog_inv I d'" "remotes I d' = (remotes I d1)(h \<mapsto> entry h t p s)"
      unfolding entry_def by (rule insert_row [OF ok inv ins fresh _ _ d'_def]; use False in simp)+
    show ?thesis
    proof (cases "row_calloc env (of_nat (length (system_refs I d1)) + 1) \<and> commit_status env d' \<in> {TXN_SUCCESS, TXN_UNCHANGED}")
      case True
      with run new False show ?thesis by (intro that(2) [of d']) (auto simp: finish_config_def)
    next
      case bad: False
      with run False show ?thesis
        by (intro that(1) [of "fst (add_remote I env h t p s d0 d1)" "fst (snd (add_remote I env h t p s d0 d1))"])
          (auto simp: finish_config_def env_works_def)
    qed
  qed
qed

lemma config_checked:
  assumes "host_accepted env h" "syslog_inv I d" "txn_ok env"
  shows "cli_syslog_config I env (Some h) t p s is_add d =
    (if is_add \<and> syslog_remote_get_config I d h t p s False True \<noteq> None then Inr (CMD_SUCCESS, [], d)
     else bind_res (cli_syslog_delete_config I env h t p s is_add (\<not> is_add) d)
       (\<lambda>(rc, out, d1).
          if rc \<noteq> CMD_SUCCESS then Inr (rc, out, d)
          else if is_add then Inr (add_remote I env h t p s d d1)
          else Inr (finish_config env d d1)))"
  using assms by (auto simp: cli_syslog_config_def host_accepted_def elim: syslog_invD)

lemma get_config_host:
  assumes ok: "idl_ok I" and inv: "syslog_inv I d" and miss: "syslog_remote_get_config I d h t p s True ex = None"
  shows "remotes I d h = None"
proof (rule ccontr)
  assume "remotes I d h \<noteq> None"
  then obtain x where x: "remotes I d h = Some x" by blast
  show False
  proof (rule get_config_row [OF ok inv x])
    fix r
    assume "sr_remote_host x = h" "\<And>t p s ho ex. syslog_remote_get_config I d h t p s ho ex =
       (if row_matches (last (idl_rows I d) \<noteq> r) ho ex h t p s x then Some r else None)"
    with miss show False by (simp add: row_matches_host)
  qed
qed

text \<open>The delete step of a command for a server: it fails, finds nothing, or removes the row.\<close>

lemma delete_cases:
  assumes ok: "idl_ok I" and inv: "syslog_inv I d"
  obtains (fails) rc out d1 where "cli_syslog_delete_config I env h t p s ho er d = Inr (rc, out, d1)" "rc \<noteq> CMD_SUCCESS"
      "syslog_remote_get_config I d h t p s ho False = None \<and> er \<and> rc = CMD_WARNING \<or> \<not> env_works I env"
    | (none) "cli_syslog_delete_config I env h t p s ho er d = Inr (CMD_SUCCESS, [], d)" "\<not> er"
      "syslog_remote_get_config I d h t p s ho False = None"
    | (removed) d1 where "cli_syslog_delete_config I env h t p s ho er d = Inr (CMD_SUCCESS, [], d1)"
      "syslog_inv I d1" "remotes I d1 = (remotes I d)(h := None)" "length (system_refs I d1) < 4"
      "syslog_remote_get_config I d h t p s ho False \<noteq> None"
proof (cases "syslog_remote_get_config I d h t p s ho False")
  case None
  from delete_miss_step [OF this, of env er] None show ?thesis by (cases er) (auto intro: fails none)
next
  case (Some r)
  then have "remotes I d h \<noteq> None" using get_config_none [of I d h t p s ho False] by auto
  then obtain x where x: "remotes I d h = Some x" by blast
  obtain r0 where r0: "r0 \<in> set (idl_rows I d)" "idl_row I d r0 = x" "sr_remote_host x = h"
    and found: "\<And>t p s ho ex. syslog_remote_get_config I d h t p s ho ex =
       (if row_matches (last (idl_rows I d) \<noteq> r0) ho ex h t p s x then Some r0 else None)"
    by (rule get_config_row [OF ok inv x]) (rule that)
  have "r0 = r" using found [of t p s ho False] Some by (simp split: if_splits)
  with r0 have r: "r \<in> set (idl_rows I d)" "sr_remote_host (idl_row I d r) = h" by simp_all
  note step = delete_row_step [OF ok inv r(1) Some]
  have "length (system_refs I d) - 1 < 4" using step(5,6) by (cases "system_refs I d") auto
  show ?thesis
  proof (cases "row_calloc env (of_nat (length (system_refs I d)) - 1)")
    case True
    show ?thesis
      by (rule removed [OF _ step(2)]) (use step(1,3,4) r(2) Some True \<open>length (system_refs I d) - 1 < 4\<close> in simp_all)
  next
    case False
    then have "\<not> env_works I env" by (auto simp: env_works_def)
    with step(1) False show ?thesis by (intro fails [of CMD_OVSDB_FAILURE "[]" "idl_delete I r d"]) simp_all
  qed
qed

text \<open>C17: whatever fails (the transaction, an allocation, the insertion, the commit) and whatever is asked for,
  \<open>cli_syslog_config\<close> makes no memory fault, keeps the invariant of the tables (the system row refers to every
  server once, one row per host, at most four), leaves the other hosts alone, and changes nothing unless it
  returns success.\<close>

theorem cli_syslog_config_safe:
  assumes "idl_ok I" "syslog_inv I d"
  shows "\<exists>rc out d'. cli_syslog_config I env host t p s is_add d = Inr (rc, out, d') \<and> syslog_inv I d' \<and>
     (rc = CMD_SUCCESS \<or> d' = d) \<and> (\<forall>k. host = Some k \<or> remotes I d' k = remotes I d k)"
proof (cases "\<exists>h. host = Some h \<and> host_accepted env h \<and> txn_ok env")
  case False
  with assms(2) show ?thesis
    by (auto simp: cli_syslog_config_def host_accepted_def split: option.split elim: syslog_invD)
next
  case True
  then obtain h where h: "host = Some h" "host_accepted env h" "txn_ok env" by blast
  note run = config_checked [OF h(2) assms(2) h(3), of t p s is_add, folded h(1)]
  show ?thesis
  proof (cases "is_add \<and> syslog_remote_get_config I d h t p s False True \<noteq> None")
    case True
    with run assms(2) show ?thesis by simp
  next
    case new: False
    show ?thesis
    proof (cases rule: delete_cases [OF assms, of env h t p s is_add "\<not> is_add"])
      case (1 rc out d1)
      with run new assms(2) show ?thesis by auto
    next
      case 2
      then have "remotes I d h = None"
        using new get_config_host [OF assms, of h t p s] by simp
      then show ?thesis
        using run new 2 assms(2) h(1) by (cases rule: add_remote_cases [OF assms, of h env t p s d]) auto
    next
      case (3 d1)
      then have fresh: "remotes I d1 h = None" by simp
      show ?thesis
      proof (cases is_add)
        case True
        then show ?thesis
          using run new 3 assms(2) h(1)
          by (cases rule: add_remote_cases [OF assms(1) 3(2) fresh, of env t p s d]) auto
      next
        case False
        then show ?thesis using run 3 assms(2) h(1) by (auto simp: finish_config_def)
      qed
    qed
  qed
qed

lemma logging_step:
  assumes "idl_ok I" "syslog_inv I d" "env_works I env" "host_accepted env h" "port_in_range p" "port_seen I d h p"
  shows "\<exists>rc out d'. cli_syslog_config I env (Some h) t p s True d = Inr (rc, out, d') \<and> syslog_inv I d' \<and>
     (rc, remotes I d') = logging_spec (entry h t p s) (remotes I d)"
proof -
  have env: "txn_ok env" using assms(3) by (simp add: env_works_def)
  note run = config_checked [OF assms(4,2) env, of t p s True]
  have host: "sr_remote_host (entry h t p s) = h" by (simp add: entry_def)
  show ?thesis
  proof (cases "remotes I d h")
    case None
    then have miss: "syslog_remote_get_config I d h t p s ho ex = None" for ho ex by (rule get_config_none)
    show ?thesis
      using run miss delete_miss_step [OF miss] None assms(2,3) dom_remotes [OF assms(1,2)] host
      by (cases rule: add_remote_cases [OF assms(1,2) None, of env t p s d]) (auto simp: logging_spec_def)
  next
    case (Some x)
    obtain r where r: "r \<in> set (idl_rows I d)" "idl_row I d r = x" "sr_remote_host x = h"
      and found: "\<And>t p s ho ex. syslog_remote_get_config I d h t p s ho ex =
         (if row_matches (last (idl_rows I d) \<noteq> r) ho ex h t p s x then Some r else None)"
      by (rule get_config_row [OF assms(1,2) Some]) (rule that)
    have "port_compared (last (idl_rows I d) \<noteq> r) p x"
      using assms(6) Some r last_row [OF assms(1,2) r(1)] by (simp add: port_seen_def)
    then have same: "row_matches (last (idl_rows I d) \<noteq> r) False True h t p s x \<longleftrightarrow> settings x = settings (entry h t p s)"
      using assms(5) by (rule row_matches_exact)
    show ?thesis
    proof (cases "settings x = settings (entry h t p s)")
      case True
      with run found [of t p s False True] same Some assms(2) host show ?thesis
        by (simp add: logging_spec_def)
    next
      case False
      show ?thesis
      proof (cases rule: delete_cases [OF assms(1,2), of env h t p s True False])
        case (3 d1)
        then have "remotes I d1 h = None" by simp
        then show ?thesis
          using run found [of t p s False True] same False Some 3 host assms(3)
          by (cases rule: add_remote_cases [OF assms(1) 3(2), of h env t p s d]) (auto simp: logging_spec_def)
      qed (use found [of t p s True False] assms(3) in \<open>auto simp: row_matches_host r\<close>)
    qed
  qed
qed

text \<open>C8: \<open>logging\<close> refines its contract: the server's entry becomes the requested one, unless one with the same
  effective settings is there (nothing changes) or it would be the fifth server (refused). The request's port
  has to be one that the search compares (\<open>port_seen\<close>).\<close>

theorem logging_refines:
  assumes "idl_ok I" "syslog_inv I d" "env_works I env" "host_accepted env h" "port_in_range p" "port_seen I d h p"
  shows "\<exists>rc out d'. cli_syslog_config I env (Some h) t p s True d = Inr (rc, out, d') \<and> syslog_inv I d' \<and>
     (rc, remotes I d') = logging_spec (entry h t p s) (remotes I d)"
  using assms by (rule logging_step)

text \<open>C19: \<open>no logging\<close> refines its contract: it removes the server when the parts that the command names agree
  with the server's effective settings, and warns and changes nothing otherwise, again where the search compares
  the port.\<close>

theorem no_logging_refines:
  assumes "idl_ok I" "syslog_inv I d" "env_works I env" "host_accepted env h" "port_seen I d h p"
  shows "\<exists>rc out d'. cli_syslog_config I env (Some h) t p s False d = Inr (rc, out, d') \<and> syslog_inv I d' \<and>
     (rc, remotes I d') = no_logging_spec h t p s (remotes I d)"
proof -
  have env: "txn_ok env" using assms(3) by (simp add: env_works_def)
  note run = config_checked [OF assms(4,2) env, of t p s False]
  show ?thesis
  proof (cases "remotes I d h")
    case None
    then have miss: "syslog_remote_get_config I d h t p s ho ex = None" for ho ex by (rule get_config_none)
    show ?thesis using run delete_miss_step [OF miss] None assms(2) by (simp add: no_logging_spec_def)
  next
    case (Some x)
    obtain r where r: "r \<in> set (idl_rows I d)" "idl_row I d r = x" "sr_remote_host x = h"
      and found: "\<And>t p s ho ex. syslog_remote_get_config I d h t p s ho ex =
         (if row_matches (last (idl_rows I d) \<noteq> r) ho ex h t p s x then Some r else None)"
      by (rule get_config_row [OF assms(1,2) Some]) (rule that)
    have "port_compared (last (idl_rows I d) \<noteq> r) p x"
      using assms(5) Some r last_row [OF assms(1,2) r(1)] by (simp add: port_seen_def)
    then have same: "row_matches (last (idl_rows I d) \<noteq> r) False False h t p s x \<longleftrightarrow> similar h t p s x"
      by (rule row_matches_similar)
    show ?thesis
    proof (cases rule: delete_cases [OF assms(1,2), of env h t p s False True])
      case (1 rc out d1)
      with run same Some assms(2,3) found [of t p s False False] show ?thesis
        by (auto simp: no_logging_spec_def split: if_splits)
    next
      case (3 d1)
      with run same Some assms(3) found [of t p s False False] show ?thesis
        by (auto simp: no_logging_spec_def finish_config_def env_works_def split: if_splits)
    qed simp
  qed
qed

text \<open>The port of the last row in the table is not compared: \<open>no logging\<close> with any port removes that server
  although its port is another one.\<close>

theorem last_server_port_ignored:
  assumes "idl_ok I" "syslog_inv I d" "env_works I env" "host_accepted env h" "remotes I d h = Some x"
    "sr_port_number x = Some q" "last (servers I d) = x" "similar h t None s x"
  shows "\<exists>out d'. cli_syslog_config I env (Some h) t (Some p) s False d = Inr (CMD_SUCCESS, out, d') \<and>
     remotes I d' = (remotes I d)(h := None)"
proof -
  have env: "txn_ok env" using assms(3) by (simp add: env_works_def)
  note run = config_checked [OF assms(4,2) env, of t "Some p" s False]
  obtain r where r: "r \<in> set (idl_rows I d)" "idl_row I d r = x" "sr_remote_host x = h"
    and found: "\<And>t p s ho ex. syslog_remote_get_config I d h t p s ho ex =
       (if row_matches (last (idl_rows I d) \<noteq> r) ho ex h t p s x then Some r else None)"
    by (rule get_config_row [OF assms(1,2,5)]) (rule that)
  have "last (idl_rows I d) = r" using last_row [OF assms(1,2) r(1)] assms(7) r by simp
  moreover have "row_matches False False False h t (Some p) s x \<longleftrightarrow> row_matches False False False h t None s x"
    using assms(6) by (simp add: row_matches_def port_matches_def)
  ultimately have "syslog_remote_get_config I d h t (Some p) s False False = Some r"
    using found [of t "Some p" s False False] row_matches_similar [of False None x h t s] assms(8)
    by (simp add: port_compared_def)
  then show ?thesis
  proof (cases rule: delete_cases [OF assms(1,2), of env h t "Some p" s False True])
    case (3 d1)
    with run assms(3) show ?thesis by (simp add: finish_config_def env_works_def)
  qed (use assms(3) in simp_all)
qed

section \<open>Removing all servers\<close>

lemma delete_all_rows:
  assumes "idl_ok I"
  shows "set (idl_rows I (foldl (\<lambda>d r. idl_delete I r d) d rs)) = set (idl_rows I d) - set rs"
    "idl_system I (foldl (\<lambda>d r. idl_delete I r d) d rs) = idl_system I d"
  by (induction rs arbitrary: d) (auto simp: idl_delete [OF assms])

lemma remove_all_ok:
  assumes "idl_ok I" "syslog_inv I d" "env_works I env"
  shows "\<exists>d'. remove_all_remotes I env d = (CMD_SUCCESS, [], d') \<and> syslog_inv I d' \<and> remotes I d' = Map.empty"
proof -
  let ?d = "idl_set_system I [] (delete_all I d)"
  obtain refs where refs: "idl_system I d = Some refs" by (rule syslog_invD [OF assms(2)])
  have rows: "idl_rows I ?d = []" "idl_system I ?d = Some []"
    using delete_all_rows [OF assms(1), of d "idl_rows I d"] refs
    by (simp_all add: delete_all_def idl_set_system [OF assms(1)])
  then have "syslog_inv I ?d" "remotes I ?d = Map.empty"
    by (simp_all add: syslog_inv_def servers_def remotes_def fun_eq_iff)
  then show ?thesis
    using assms(3) refs by (auto simp: remove_all_remotes_def finish_config_def env_works_def)
qed

text \<open>\<open>no logging\<close> asks until it reads \<open>y\<close> or \<open>n\<close>: at the first of them it removes every server, or
  none; when the input ends before, it never returns.\<close>

theorem no_syslog_asks:
  assumes "idl_ok I" "syslog_inv I d" "env_works I env"
  shows "case dropWhile (\<lambda>c. c \<noteq> CHR ''y'' \<and> c \<noteq> CHR ''n'') input of
      [] \<Rightarrow> vtysh_config_no_syslog I env input d = None
    | c # _ \<Rightarrow> \<exists>d'. vtysh_config_no_syslog I env input d = Some (CMD_SUCCESS, [], d') \<and> syslog_inv I d' \<and>
        (if c = CHR ''y'' then remotes I d' = Map.empty else d' = d)"
proof (induction input)
  case (Cons c cs)
  show ?case
  proof (cases "c = CHR ''y'' \<or> c = CHR ''n''")
    case True
    with remove_all_ok [OF assms] assms(2) show ?thesis by auto
  next
    case False
    then have "vtysh_config_no_syslog I env (c # cs) d = vtysh_config_no_syslog I env cs d"
      "dropWhile (\<lambda>c. c \<noteq> CHR ''y'' \<and> c \<noteq> CHR ''n'') (c # cs) = dropWhile (\<lambda>c. c \<noteq> CHR ''y'' \<and> c \<noteq> CHR ''n'') cs"
      by simp_all
    with Cons show ?thesis by (simp only:)
  qed
qed simp

section \<open>A database\<close>

text \<open>A library that keeps the rows in a list satisfies \<open>idl_ok\<close>.\<close>

record rowdb =
  db_rows :: "nat list"
  db_row :: "nat \<Rightarrow> syslog_remote"
  db_refs :: "nat list option"

definition list_idl :: "rowdb idl" where
  "list_idl = \<lparr>idl_rows = (\<lambda>d. remdups (db_rows d)),
     idl_row = db_row,
     idl_delete = (\<lambda>r d. d\<lparr>db_rows := filter (\<lambda>q. q \<noteq> r) (db_rows d)\<rparr>),
     idl_insert = (\<lambda>d. let r = Suc (fold max (db_rows d) 0)
                  in Some (r, d\<lparr>db_rows := db_rows d @ [r], db_row := (db_row d)(r := blank_row)\<rparr>)),
     idl_write = (\<lambda>r f d. d\<lparr>db_row := (db_row d)(r := f (db_row d r))\<rparr>),
     idl_system = db_refs,
     idl_set_system = (\<lambda>rs d. d\<lparr>db_refs := Some rs\<rparr>)\<rparr>"

lemma fold_max_le: "(x :: nat) \<in> set xs \<or> x \<le> a \<Longrightarrow> x \<le> fold max xs a"
  by (induction xs arbitrary: a) (auto simp: le_max_iff_disj)

lemma list_idl_ok: "idl_ok list_idl"
proof -
  have "Suc (fold max xs 0) \<notin> set xs" for xs :: "nat list"
    using fold_max_le [of "Suc (fold max xs 0)" xs 0] by auto
  then show ?thesis by (auto simp: idl_ok_def list_idl_def Let_def)
qed

definition sure_env :: "rowdb syslog_env" where
  "sure_env = \<lparr>txn_ok = True, valid_ip = (\<lambda>h. h = ''10.0.0.1'' \<or> h = ''10.0.0.2''), row_calloc = (\<lambda>_. True),
     commit_status = (\<lambda>_. TXN_SUCCESS)\<rparr>"

definition two_servers :: rowdb where
  "two_servers = \<lparr>db_rows = [1, 2],
     db_row = (\<lambda>r. if r = 1 then entry ''10.0.0.1'' (Some ''udp'') (Some 514) None
                   else entry ''10.0.0.2'' (Some ''tcp'') (Some 1470) (Some ''err'')),
     db_refs = Some [1, 2]\<rparr>"

lemma sure_env_works: "env_works list_idl sure_env"
  by (simp add: env_works_def sure_env_def list_idl_def Let_def)

lemma sure_hosts: "host_accepted sure_env ''10.0.0.1''" "host_accepted sure_env ''10.0.0.2''"
  by (simp_all add: host_accepted_def invalid_host_def sure_env_def)

lemma servers_two: "servers list_idl two_servers =
    [\<lparr>sr_remote_host = ''10.0.0.1'', sr_transport = Some ''udp'', sr_port_number = Some 514, sr_severity = None\<rparr>,
     \<lparr>sr_remote_host = ''10.0.0.2'', sr_transport = Some ''tcp'', sr_port_number = Some 1470, sr_severity = Some ''err''\<rparr>]"
  by (simp add: servers_def list_idl_def two_servers_def entry_fields port_in_range_def)

lemma second_server: "remotes list_idl two_servers ''10.0.0.2'' =
    Some \<lparr>sr_remote_host = ''10.0.0.2'', sr_transport = Some ''tcp'', sr_port_number = Some 1470, sr_severity = Some ''err''\<rparr>"
  by (simp add: remotes_def servers_two)

lemma two_servers_inv: "syslog_inv list_idl two_servers"
  unfolding syslog_inv_def servers_two by (simp add: list_idl_def two_servers_def)

theorem cli_syslog_config_safe_witness:
  "\<exists>rc out d'. cli_syslog_config list_idl (sure_env\<lparr>commit_status := \<lambda>_. TXN_FAILED\<rparr>) (Some ''10.0.0.1'') None None None
       True two_servers = Inr (rc, out, d') \<and> syslog_inv list_idl d' \<and>
     (rc = CMD_SUCCESS \<or> d' = two_servers) \<and>
     (\<forall>k. Some ''10.0.0.1'' = Some k \<or> remotes list_idl d' k = remotes list_idl two_servers k)"
  by (rule cli_syslog_config_safe [OF list_idl_ok two_servers_inv])

theorem logging_refines_witness:
  "\<exists>rc out d'. cli_syslog_config list_idl sure_env (Some ''10.0.0.1'') (Some ''tcp'') (Some 601) None True two_servers =
       Inr (rc, out, d') \<and> syslog_inv list_idl d' \<and>
     (rc, remotes list_idl d') =
       logging_spec (entry ''10.0.0.1'' (Some ''tcp'') (Some 601) None) (remotes list_idl two_servers)"
  by (rule logging_refines [OF list_idl_ok two_servers_inv sure_env_works sure_hosts(1)])
    (simp_all add: port_in_range_def port_seen_def servers_two port_compared_def)

theorem no_logging_refines_witness:
  "\<exists>rc out d'. cli_syslog_config list_idl sure_env (Some ''10.0.0.1'') None (Some 515) None False two_servers =
       Inr (rc, out, d') \<and> syslog_inv list_idl d' \<and>
     (rc, remotes list_idl d') = no_logging_spec ''10.0.0.1'' None (Some 515) None (remotes list_idl two_servers)"
  by (rule no_logging_refines [OF list_idl_ok two_servers_inv sure_env_works sure_hosts(1)])
    (simp_all add: port_seen_def servers_two port_compared_def)

theorem last_server_port_ignored_witness:
  "\<exists>out d'. cli_syslog_config list_idl sure_env (Some ''10.0.0.2'') None (Some 9999) None False two_servers =
       Inr (CMD_SUCCESS, out, d') \<and>
     remotes list_idl d' = (remotes list_idl two_servers)(''10.0.0.2'' := None)"
  by (rule last_server_port_ignored [OF list_idl_ok two_servers_inv sure_env_works sure_hosts(2) second_server])
    (simp_all add: servers_two similar_def)

theorem no_syslog_asks_witness:
  "case dropWhile (\<lambda>c. c \<noteq> CHR ''y'' \<and> c \<noteq> CHR ''n'') ''?y'' of
      [] \<Rightarrow> vtysh_config_no_syslog list_idl sure_env ''?y'' two_servers = None
    | c # _ \<Rightarrow> \<exists>d'. vtysh_config_no_syslog list_idl sure_env ''?y'' two_servers = Some (CMD_SUCCESS, [], d') \<and>
        syslog_inv list_idl d' \<and> (if c = CHR ''y'' then remotes list_idl d' = Map.empty else d' = two_servers)"
  by (rule no_syslog_asks [OF list_idl_ok two_servers_inv sure_env_works])

end
