(* ===== verification/Syslog_Context.thy ===== *)
theory Syslog_Context
  imports Syslog_Vty
begin

text \<open>
  \<open>src/src/cli/vtysh_ovsdb_syslog_context.c\<close>: the lines that show running-config prints for the
  remote syslog servers, and the round trip with the commands of \<open>Syslog_Vty\<close>: typing the
  printed lines into an empty configuration restores it.
\<close>

section \<open>Printing\<close>

definition SEVERITYKEY :: string where
  "SEVERITYKEY = '' severity ''"

definition running_line :: "syslog_remote \<Rightarrow> string" where
  "running_line row =
     (let transport = (case sr_transport row of None \<Rightarrow> '''' | Some t \<Rightarrow> t);
          transkey = (case sr_transport row of None \<Rightarrow> '''' | Some t \<Rightarrow> '' '');
          severity = (case sr_severity row of None \<Rightarrow> '''' | Some v \<Rightarrow> v);
          sevkey = (case sr_severity row of None \<Rightarrow> '''' | Some v \<Rightarrow> SEVERITYKEY)
      in case sr_port_number row of
           None \<Rightarrow> ''logging '' @ sr_remote_host row @ transkey @ transport @ sevkey @ severity
         | Some p \<Rightarrow> ''logging '' @ sr_remote_host row @ transkey @ transport @ '' '' @
             show_int (signed_take_bit 31 p) @ sevkey @ severity)"

definition vtysh_config_context_syslog_clientcallback :: "'d idl \<Rightarrow> 'd \<Rightarrow> string list" where
  "vtysh_config_context_syslog_clientcallback I d = map (running_line \<circ> idl_row I d) (idl_rows I d)"

section \<open>Command lines\<close>

text \<open>The words of a command line, one space between them, and the handler whose command
  declaration they follow, with the arguments it is given: the words that the declaration
  leaves open (keywords are not arguments).\<close>

fun unwords :: "string list \<Rightarrow> string" where
  "unwords [] = []"
| "unwords [w] = w"
| "unwords (w # ws) = w @ '' '' @ unwords ws"

datatype logging_cmd =
    Basic string
  | Proto string string                  \<comment> \<open>host, protocol\<close>
  | Proto_port string string string
  | Svrt string string                   \<comment> \<open>host, severity\<close>
  | Proto_svrt string string string
  | Proto_port_svrt string string string string

fun cmd_words :: "logging_cmd \<Rightarrow> string list" where
  "cmd_words (Basic h) = [''logging'', h]"
| "cmd_words (Proto h t) = [''logging'', h, t]"
| "cmd_words (Proto_port h t p) = [''logging'', h, t, p]"
| "cmd_words (Svrt h s) = [''logging'', h, ''severity'', s]"
| "cmd_words (Proto_svrt h t s) = [''logging'', h, t, ''severity'', s]"
| "cmd_words (Proto_port_svrt h t p s) = [''logging'', h, t, p, ''severity'', s]"

fun run_cmd :: "'d idl \<Rightarrow> 'd syslog_env \<Rightarrow> logging_cmd \<Rightarrow> 'd \<Rightarrow> (cmd_ret \<times> string list \<times> 'd) cres" where
  "run_cmd I env (Basic h) = vtysh_config_syslog_basic I env [Some h]"
| "run_cmd I env (Proto h t) =
     (if t = ''udp'' then vtysh_config_syslog_udp else vtysh_config_syslog_tcp) I env [Some h]"
| "run_cmd I env (Proto_port h t p) =
     (if t = ''udp'' then vtysh_config_syslog_udp else vtysh_config_syslog_tcp) I env [Some h, Some p]"
| "run_cmd I env (Svrt h s) = vtysh_config_syslog_svrt I env [Some h, Some s]"
| "run_cmd I env (Proto_svrt h t s) = vtysh_config_syslog_prot_svrt_noport I env [Some h, Some t, Some s]"
| "run_cmd I env (Proto_port_svrt h t p s) =
     (if t = ''udp'' then vtysh_config_syslog_udp_svrt else vtysh_config_syslog_tcp_svrt) I env [Some h, Some p, Some s]"

text \<open>A command that its declaration admits.\<close>

fun cmd_ok :: "logging_cmd \<Rightarrow> bool" where
  "cmd_ok (Proto h t) = (t = ''udp'' \<or> t = ''tcp'')"
| "cmd_ok (Proto_port h t p) = (t = ''udp'' \<or> t = ''tcp'')"
| "cmd_ok (Proto_svrt h t s) = (t = ''udp'' \<or> t = ''tcp'')"
| "cmd_ok (Proto_port_svrt h t p s) = (t = ''udp'' \<or> t = ''tcp'')"
| "cmd_ok c = True"

section \<open>Round trip\<close>

text \<open>The rows that commands create.\<close>

definition row_ok :: "'d syslog_env \<Rightarrow> syslog_remote \<Rightarrow> bool" where
  "row_ok env x \<longleftrightarrow> host_accepted env (sr_remote_host x) \<and> port_in_range (sr_port_number x) \<and>
     (case sr_transport x of None \<Rightarrow> sr_port_number x = None | Some t \<Rightarrow> t = ''udp'' \<or> t = ''tcp'')"

definition cmd_of :: "syslog_remote \<Rightarrow> logging_cmd" where
  "cmd_of x = (case (sr_transport x, sr_port_number x, sr_severity x) of
      (None, _, None) \<Rightarrow> Basic (sr_remote_host x)
    | (None, _, Some s) \<Rightarrow> Svrt (sr_remote_host x) s
    | (Some t, None, None) \<Rightarrow> Proto (sr_remote_host x) t
    | (Some t, Some p, None) \<Rightarrow> Proto_port (sr_remote_host x) t (show_int p)
    | (Some t, None, Some s) \<Rightarrow> Proto_svrt (sr_remote_host x) t s
    | (Some t, Some p, Some s) \<Rightarrow> Proto_port_svrt (sr_remote_host x) t (show_int p) s)"

lemma port_int:
  assumes "port_in_range (Some p)"
  shows "signed_take_bit 31 p = p" "atoi (show_int p) = p"
proof -
  have "1 \<le> p" "p \<le> 65535" using assms by (simp_all add: port_in_range_def)
  then show "signed_take_bit 31 p = p" "atoi (show_int p) = p"
    by (simp_all add: signed_take_bit_int_eq_self atoi_show_int)
qed

text \<open>A printed line is the text of a command, and the command asks for the row.\<close>

lemma running_line_cmd:
  assumes "row_ok env x"
  shows "running_line x = unwords (cmd_words (cmd_of x))" "cmd_ok (cmd_of x)"
    "run_cmd I env (cmd_of x) d =
       cli_syslog_config I env (Some (sr_remote_host x)) (sr_transport x) (sr_port_number x) (sr_severity x) True d"
proof -
  obtain h t p s where x: "x = \<lparr>sr_remote_host = h, sr_transport = t, sr_port_number = p, sr_severity = s\<rparr>"
    by (cases x) simp
  note defs = vtysh_config_syslog_basic_def vtysh_config_syslog_udp_def vtysh_config_syslog_tcp_def
    vtysh_config_syslog_svrt_def vtysh_config_syslog_prot_svrt_noport_def vtysh_config_syslog_udp_svrt_def
    vtysh_config_syslog_tcp_svrt_def syslog_proto_def syslog_proto_svrt_def arg_def atoi_arg_def
  show "running_line x = unwords (cmd_words (cmd_of x))" "cmd_ok (cmd_of x)"
    "run_cmd I env (cmd_of x) d =
       cli_syslog_config I env (Some (sr_remote_host x)) (sr_transport x) (sr_port_number x) (sr_severity x) True d"
    using assms port_int unfolding x
    by (cases t; cases p; cases s; force simp: row_ok_def cmd_of_def running_line_def SEVERITYKEY_def Let_def defs)+
qed

fun run_cmds :: "'d idl \<Rightarrow> 'd syslog_env \<Rightarrow> logging_cmd list \<Rightarrow> 'd \<Rightarrow> 'd cres" where
  "run_cmds I env [] d = Inr d"
| "run_cmds I env (c # cs) d = bind_res (run_cmd I env c d) (\<lambda>(_, _, d'). run_cmds I env cs d')"

lemma run_cmds_adds:
  assumes "idl_ok I" "env_works I env" "syslog_inv I d" "\<forall>x\<in>set xs. row_ok env x"
    "distinct (map sr_remote_host xs)" "\<forall>x\<in>set xs. remotes I d (sr_remote_host x) = None"
    "card (dom (remotes I d)) + length xs \<le> 4"
  shows "\<exists>d'. run_cmds I env (map cmd_of xs) d = Inr d' \<and> syslog_inv I d' \<and>
     remotes I d' = remotes I d ++ map_of (map (\<lambda>x. (sr_remote_host x, x)) xs)"
  using assms(3-)
proof (induction xs arbitrary: d)
  case (Cons x xs)
  have ok: "row_ok env x" and fresh: "remotes I d (sr_remote_host x) = None" using Cons.prems by simp_all
  have e: "entry (sr_remote_host x) (sr_transport x) (sr_port_number x) (sr_severity x) = x"
    using ok by (simp add: row_ok_def entry_fields)
  obtain rc out d1 where d1: "run_cmd I env (cmd_of x) d = Inr (rc, out, d1)" "syslog_inv I d1"
    "(rc, remotes I d1) = logging_spec x (remotes I d)"
    using logging_step [OF assms(1) Cons.prems(1) assms(2), of "sr_remote_host x" "sr_port_number x"
        "sr_transport x" "sr_severity x"] ok fresh running_line_cmd(3) [OF ok, of I d]
    by (auto simp: row_ok_def port_seen_def e)
  have m: "remotes I d1 = (remotes I d)(sr_remote_host x \<mapsto> x)"
    using d1(3) fresh Cons.prems(5) by (simp add: logging_spec_def)
  have fin: "finite (dom (remotes I d))"
  proof -
    have "dom (remotes I d) \<subseteq> sr_remote_host ` set (servers I d)"
      by (auto simp: remotes_def find_Some_iff)
    then show ?thesis by (rule finite_subset) simp
  qed
  have "card (dom (remotes I d1)) + length xs \<le> 4"
    using Cons.prems(5) fin fresh by (simp add: m card_insert_if domIff)
  moreover have "\<forall>y\<in>set xs. remotes I d1 (sr_remote_host y) = None"
    using Cons.prems(3,4) by (auto simp: m) (metis imageI)
  ultimately obtain d' where d': "run_cmds I env (map cmd_of xs) d1 = Inr d'" "syslog_inv I d'"
      "remotes I d' = remotes I d1 ++ map_of (map (\<lambda>x. (sr_remote_host x, x)) xs)"
    using Cons.IH [of d1] Cons.prems(2,3) d1(2) by auto
  have "sr_remote_host x \<notin> dom (map_of (map (\<lambda>x. (sr_remote_host x, x)) xs))"
    using Cons.prems(3) by (auto simp: dom_map_of_conv_image_fst image_image)
  then have "remotes I d' = remotes I d ++ map_of (map (\<lambda>x. (sr_remote_host x, x)) (x # xs))"
    using d'(3) by (simp add: m map_add_upd_left)
  moreover have "run_cmds I env (map cmd_of (x # xs)) d = Inr d'" using d'(1) d1(1) by simp
  ultimately show ?case using d'(2) by blast
qed simp

text \<open>The configuration as the map of its rows.\<close>

lemma remotes_map_of: "remotes I d = map_of (map (\<lambda>x. (sr_remote_host x, x)) (servers I d))"
proof
  fix h
  have "find (\<lambda>x. sr_remote_host x = h) xs = map_of (map (\<lambda>x. (sr_remote_host x, x)) xs) h" for xs
    by (induction xs) auto
  then show "remotes I d h = map_of (map (\<lambda>x. (sr_remote_host x, x)) (servers I d)) h"
    by (simp add: remotes_def)
qed

text \<open>C10: the running configuration round trip: every line that is printed for the servers of a database is the
  text of an admissible \<open>logging\<close> command, and running those commands, in the printed order, on a database
  without servers yields one with the same servers, their unset columns included.\<close>

theorem running_config_roundtrip:
  assumes "idl_ok I" "syslog_inv I d" "\<forall>x\<in>set (servers I d). row_ok env x"
    "idl_ok J" "env_works J env" "syslog_inv J d0" "servers J d0 = []"
  shows "\<exists>cmds d'. vtysh_config_context_syslog_clientcallback I d = map (unwords \<circ> cmd_words) cmds \<and>
     list_all cmd_ok cmds \<and> run_cmds J env cmds d0 = Inr d' \<and> remotes J d' = remotes I d"
proof -
  have empty: "remotes J d0 = Map.empty" using assms(7) by (simp add: remotes_def fun_eq_iff)
  have len: "length (servers I d) \<le> 4"
  proof -
    obtain refs where refs: "distinct refs" "set refs = set (idl_rows I d)" "length refs \<le> 4"
      by (rule syslog_invD [OF assms(2)])
    have "length (idl_rows I d) = card (set (idl_rows I d))" by (simp add: distinct_card idl_distinct [OF assms(1)])
    also have "\<dots> = length refs" using distinct_card [OF refs(1)] refs(2) by simp
    finally show ?thesis using refs(3) by (simp add: servers_def)
  qed
  have dist: "distinct (map sr_remote_host (servers I d))" using assms(2) by (simp add: syslog_inv_def)
  obtain d' where d': "run_cmds J env (map cmd_of (servers I d)) d0 = Inr d'"
    "remotes J d' = remotes J d0 ++ map_of (map (\<lambda>x. (sr_remote_host x, x)) (servers I d))"
    using run_cmds_adds [OF assms(4,5,6,3) dist] empty len by auto
  have "vtysh_config_context_syslog_clientcallback I d = map (unwords \<circ> cmd_words) (map cmd_of (servers I d))"
    using assms(3) running_line_cmd(1)
    by (auto simp: vtysh_config_context_syslog_clientcallback_def servers_def)
  moreover have "list_all cmd_ok (map cmd_of (servers I d))"
    using assms(3) running_line_cmd(2) by (auto simp: list_all_iff)
  ultimately show ?thesis using d' empty by (intro exI conjI) (auto simp: remotes_map_of [of I d])
qed

theorem running_config_roundtrip_witness:
  "\<exists>cmds d'. vtysh_config_context_syslog_clientcallback list_idl two_servers = map (unwords \<circ> cmd_words) cmds \<and>
     list_all cmd_ok cmds \<and> run_cmds list_idl sure_env cmds (two_servers\<lparr>db_rows := [], db_refs := Some []\<rparr>) = Inr d' \<and>
     remotes list_idl d' = remotes list_idl two_servers"
proof (rule running_config_roundtrip [OF list_idl_ok two_servers_inv _ list_idl_ok sure_env_works])
  show "\<forall>x\<in>set (servers list_idl two_servers). row_ok sure_env x"
    using sure_hosts by (simp add: servers_two row_ok_def port_in_range_def)
  show "syslog_inv list_idl (two_servers\<lparr>db_rows := [], db_refs := Some []\<rparr>)"
    "servers list_idl (two_servers\<lparr>db_rows := [], db_refs := Some []\<rparr>) = []"
    by (simp_all add: syslog_inv_def servers_def list_idl_def)
qed

end
