(* ===== verification/Show_Tech_Config.thy ===== *)
theory Show_Tech_Config
  imports Supportability_Utils Linked_Store
begin

text \<open>
  \<open>src/src/showtech/showtech.c\<close>: the show tech configuration, a tree of five node types
  (features, sub features, CLI commands, OVSDB tables and their columns) read from a YAML
  file. The heap is one store per node type; the stores with the file-level head are the
  record \<open>sts\<close>, the parser's locals are \<open>st_locals\<close>. Freeing walks linked lists, so it
  is a partial function: its value \<open>None\<close> would be a walk that does not end.
\<close>

section \<open>Data\<close>

record st_clicmds =
  command :: "string option"
  command_failed :: bool
  cli_next :: "addr option"

record st_ovscolm =
  col_name :: "string option"
  col_next :: "addr option"

record st_ovstable =
  tablename :: "string option"
  p_colmname :: "addr option"
  tab_next :: "addr option"

record st_sub_feature =
  sub_name :: "string option"
  sub_desc :: "string option"
  no_sta_support :: bool
  support_stb :: bool
  is_dummy :: bool
  p_clicmds :: "addr option"
  p_ovstable :: "addr option"
  sub_next :: "addr option"

record st_feature =
  ft_name :: "string option"
  ft_desc :: "string option"
  p_subfeature :: "addr option"
  ft_next :: "addr option"

record sts =
  st_head :: "addr option"
  feats :: "st_feature store"
  subs :: "st_sub_feature store"
  clis :: "st_clicmds store"
  tables :: "st_ovstable store"
  cols :: "st_ovscolm store"
  st_brk :: addr

record st_locals =
  st_state :: int
  st_feat :: "addr option"
  st_sub :: "addr option"
  st_cli :: "addr option"
  st_table :: "addr option"
  st_col :: "addr option"

record st_env =
  st_calloc :: "addr \<Rightarrow> bool"
  st_yaml_init :: bool
  st_file :: "string \<Rightarrow> yevent list option"   \<comment> \<open>None: \<open>fopen\<close> fails\<close>

abbreviation FEATURE :: int where "FEATURE \<equiv> 0"
abbreviation FEATURE_NAME :: int where "FEATURE_NAME \<equiv> 1"
abbreviation FEATURE_DESC :: int where "FEATURE_DESC \<equiv> 2"
abbreviation SUB_FEATURE :: int where "SUB_FEATURE \<equiv> 3"
abbreviation SUB_FEATURE_NAME :: int where "SUB_FEATURE_NAME \<equiv> 4"
abbreviation SUB_FEATURE_DESC :: int where "SUB_FEATURE_DESC \<equiv> 5"
abbreviation SUPPORT_SHOWTECH_ALL :: int where "SUPPORT_SHOWTECH_ALL \<equiv> 6"
abbreviation SUPPORT_SHOWTECH_FEATURE :: int where "SUPPORT_SHOWTECH_FEATURE \<equiv> 7"
abbreviation CLI_CMDS :: int where "CLI_CMDS \<equiv> 8"
abbreviation OVSDB :: int where "OVSDB \<equiv> 9"
abbreviation TABLE :: int where "TABLE \<equiv> 10"
abbreviation TABLE_NAME :: int where "TABLE_NAME \<equiv> 11"
abbreviation COLNAMES :: int where "COLNAMES \<equiv> 12"
abbreviation VALUE :: int where "VALUE \<equiv> 13"

definition st_keystr :: "string list" where
  "st_keystr = [''feature'', ''feature_name'', ''feature_desc'', ''sub_feature'', ''sub_feature_name'',
     ''sub_feature_desc'', ''support_showtech_all'', ''support_showtech_feature'', ''cli_cmds'',
     ''ovsdb'', ''table'', ''table_name'', ''col_names'']"

text \<open>\<open>^\s*show\s+tech\s*\<close>\<close>

definition space_class :: rx where
  "space_class = Cls [CHR '' '', CHR 0x09, CHR 0x0A, CHR 0x0B, CHR 0x0C, CHR 0x0D]"

definition showtech_pattern :: ere where
  "showtech_pattern = \<lparr>ere_bol = True,
     ere_body = Cat (Star space_class) (Cat (lit ''show'') (Cat space_class (Cat (Star space_class)
       (Cat (lit ''tech'') (Star space_class))))),
     ere_eol = False\<rparr>"

definition getValueType :: "string option \<Rightarrow> int" where
  "getValueType data = (case scan_table st_keystr data FEATURE of Some i \<Rightarrow> i | None \<Rightarrow> VALUE)"

interpretation st_key: table_lookup st_keystr 0 13 getValueType
  unfolding getValueType_def [abs_def] by (rule scan_table_lookup) (simp_all add: st_keystr_def)

section \<open>Nodes\<close>

text \<open>\<open>calloc\<close> of a node: its address is the number of the call.\<close>

definition st_alloc :: "st_env \<Rightarrow> sts \<Rightarrow> addr option \<times> sts" where
  "st_alloc env s = (if st_calloc env (st_brk s) then Some (st_brk s) else None, s\<lparr>st_brk := st_brk s + 1\<rparr>)"

definition add_feature :: "st_env \<Rightarrow> addr option \<Rightarrow> sts \<Rightarrow> (addr option \<times> sts) cres" where
  "add_feature env afternode s = (case st_alloc env s of
     (None, s1) \<Rightarrow> Inr (None, s1)
   | (Some e, s1) \<Rightarrow>
       bind_res (insert_after ft_next (\<lambda>p n. n\<lparr>ft_next := p\<rparr>) afternode e
           \<lparr>ft_name = None, ft_desc = None, p_subfeature = None, ft_next = None\<rparr> (feats s1))
         (\<lambda>h. Inr (Some e, s1\<lparr>feats := h\<rparr>)))"

definition add_feature_name :: "addr option \<Rightarrow> string option \<Rightarrow> sts \<Rightarrow> (int \<times> sts) cres" where
  "add_feature_name element name s =
     (if element = None then Inr (- 1, s)
      else bind_res (update_node (\<lambda>n. n\<lparr>ft_name := strdup_with_nullcheck name\<rparr>) element (feats s))
        (\<lambda>h. Inr (0, s\<lparr>feats := h\<rparr>)))"

definition add_feature_desc :: "addr option \<Rightarrow> string option \<Rightarrow> sts \<Rightarrow> (int \<times> sts) cres" where
  "add_feature_desc element desc s =
     (if element = None then Inr (- 1, s)
      else bind_res (update_node (\<lambda>n. n\<lparr>ft_desc := strdup_with_nullcheck desc\<rparr>) element (feats s))
        (\<lambda>h. Inr (0, s\<lparr>feats := h\<rparr>)))"

definition add_subfeature :: "st_env \<Rightarrow> addr option \<Rightarrow> sts \<Rightarrow> (addr option \<times> sts) cres" where
  "add_subfeature env afternode s = (case st_alloc env s of
     (None, s1) \<Rightarrow> Inr (None, s1)
   | (Some e, s1) \<Rightarrow>
       bind_res (insert_after sub_next (\<lambda>p n. n\<lparr>sub_next := p\<rparr>) afternode e
           \<lparr>sub_name = None, sub_desc = None, no_sta_support = False, support_stb = False,
            is_dummy = False, p_clicmds = None, p_ovstable = None, sub_next = None\<rparr> (subs s1))
         (\<lambda>h. Inr (Some e, s1\<lparr>subs := h\<rparr>)))"

definition set_sub :: "(st_sub_feature \<Rightarrow> st_sub_feature) \<Rightarrow> addr option \<Rightarrow> sts \<Rightarrow> (int \<times> sts) cres" where
  "set_sub f element s =
     (if element = None then Inr (- 1, s)
      else bind_res (update_node f element (subs s)) (\<lambda>h. Inr (0, s\<lparr>subs := h\<rparr>)))"

definition add_subfeature_name :: "addr option \<Rightarrow> string option \<Rightarrow> sts \<Rightarrow> (int \<times> sts) cres" where
  "add_subfeature_name element name = set_sub (\<lambda>n. n\<lparr>sub_name := strdup_with_nullcheck name\<rparr>) element"

definition add_subfeature_desc :: "addr option \<Rightarrow> string option \<Rightarrow> sts \<Rightarrow> (int \<times> sts) cres" where
  "add_subfeature_desc element desc = set_sub (\<lambda>n. n\<lparr>sub_desc := strdup_with_nullcheck desc\<rparr>) element"

definition set_subfeature_as_dummy :: "addr option \<Rightarrow> sts \<Rightarrow> (int \<times> sts) cres" where
  "set_subfeature_as_dummy element = set_sub (\<lambda>n. n\<lparr>is_dummy := True\<rparr>) element"

definition yes_or_true :: "string option \<Rightarrow> bool" where
  "yes_or_true v \<longleftrightarrow> strcmp_with_nullcheck (Some ''yes'') v = 0 \<or> strcmp_with_nullcheck (Some ''true'') v = 0"

definition add_subfeature_showtechall :: "addr option \<Rightarrow> string option \<Rightarrow> sts \<Rightarrow> (int \<times> sts) cres" where
  "add_subfeature_showtechall element v = set_sub (\<lambda>n. n\<lparr>no_sta_support := \<not> yes_or_true v\<rparr>) element"

definition add_subfeature_showtechfeature :: "addr option \<Rightarrow> string option \<Rightarrow> sts \<Rightarrow> (int \<times> sts) cres" where
  "add_subfeature_showtechfeature element v = set_sub (\<lambda>n. n\<lparr>support_stb := yes_or_true v\<rparr>) element"

definition add_clicmds :: "st_env \<Rightarrow> addr option \<Rightarrow> string \<Rightarrow> sts \<Rightarrow> (addr option \<times> sts) cres" where
  "add_clicmds env afternode cmd s =
     (if regexec showtech_pattern cmd then Inr (None, s)
      else (case st_alloc env s of
          (None, s1) \<Rightarrow> Inr (None, s1)
        | (Some e, s1) \<Rightarrow>
            bind_res (insert_after cli_next (\<lambda>p n. n\<lparr>cli_next := p\<rparr>) afternode e
                \<lparr>command = strdup_with_nullcheck (Some cmd), command_failed = False, cli_next = None\<rparr> (clis s1))
              (\<lambda>h. Inr (Some e, s1\<lparr>clis := h\<rparr>))))"

definition add_ovstable :: "st_env \<Rightarrow> addr option \<Rightarrow> sts \<Rightarrow> (addr option \<times> sts) cres" where
  "add_ovstable env afternode s = (case st_alloc env s of
     (None, s1) \<Rightarrow> Inr (None, s1)
   | (Some e, s1) \<Rightarrow>
       bind_res (insert_after tab_next (\<lambda>p n. n\<lparr>tab_next := p\<rparr>) afternode e
           \<lparr>tablename = None, p_colmname = None, tab_next = None\<rparr> (tables s1))
         (\<lambda>h. Inr (Some e, s1\<lparr>tables := h\<rparr>)))"

definition add_ovstable_name :: "addr option \<Rightarrow> string option \<Rightarrow> sts \<Rightarrow> (int \<times> sts) cres" where
  "add_ovstable_name element name s =
     (if element = None then Inr (- 1, s)
      else bind_res (update_node (\<lambda>n. n\<lparr>tablename := strdup_with_nullcheck name\<rparr>) element (tables s))
        (\<lambda>h. Inr (0, s\<lparr>tables := h\<rparr>)))"

definition add_ovscolumn :: "st_env \<Rightarrow> addr option \<Rightarrow> string option \<Rightarrow> sts \<Rightarrow> (addr option \<times> sts) cres" where
  "add_ovscolumn env afternode name s = (case st_alloc env s of
     (None, s1) \<Rightarrow> Inr (None, s1)
   | (Some e, s1) \<Rightarrow>
       bind_res (insert_after col_next (\<lambda>p n. n\<lparr>col_next := p\<rparr>) afternode e
           \<lparr>col_name = strdup_with_nullcheck name, col_next = None\<rparr> (cols s1))
         (\<lambda>h. Inr (Some e, s1\<lparr>cols := h\<rparr>)))"

section \<open>Freeing\<close>

text \<open>The five nested loops of \<open>free_feature_data\<close>, innermost first.\<close>

partial_function (option) free_clis :: "addr option \<Rightarrow> sts \<Rightarrow> sts cres option" where
  "free_clis p s = (case p of
     None \<Rightarrow> Some (Inr s)
   | Some a \<Rightarrow> (case clis s a of
         None \<Rightarrow> Some (Inl UseAfterFree)
       | Some n \<Rightarrow> free_clis (cli_next n) (s\<lparr>clis := (clis s)(a := None)\<rparr>)))"

partial_function (option) free_cols :: "addr option \<Rightarrow> sts \<Rightarrow> sts cres option" where
  "free_cols p s = (case p of
     None \<Rightarrow> Some (Inr s)
   | Some a \<Rightarrow> (case cols s a of
         None \<Rightarrow> Some (Inl UseAfterFree)
       | Some n \<Rightarrow> free_cols (col_next n) (s\<lparr>cols := (cols s)(a := None)\<rparr>)))"

partial_function (option) free_tables :: "addr option \<Rightarrow> sts \<Rightarrow> sts cres option" where
  "free_tables p s = (case p of
     None \<Rightarrow> Some (Inr s)
   | Some a \<Rightarrow> (case tables s a of
         None \<Rightarrow> Some (Inl UseAfterFree)
       | Some n \<Rightarrow> (case free_cols (p_colmname n) s of
             None \<Rightarrow> None
           | Some (Inl e) \<Rightarrow> Some (Inl e)
           | Some (Inr s1) \<Rightarrow> (case tables s1 a of
                 None \<Rightarrow> Some (Inl UseAfterFree)
               | Some n1 \<Rightarrow> free_tables (tab_next n1) (s1\<lparr>tables := (tables s1)(a := None)\<rparr>)))))"

text \<open>\<open>iter\<close> is the feature being freed; the loop over its sub features resets its strings
  again.\<close>

partial_function (option) free_subs :: "addr option \<Rightarrow> addr option \<Rightarrow> sts \<Rightarrow> sts cres option" where
  "free_subs iter p s = (case p of
     None \<Rightarrow> Some (Inr s)
   | Some a \<Rightarrow> (case subs s a of
         None \<Rightarrow> Some (Inl UseAfterFree)
       | Some n \<Rightarrow>
           (case update_node (\<lambda>f. f\<lparr>ft_name := None, ft_desc := None\<rparr>) iter (feats s) of
              Inl e \<Rightarrow> Some (Inl e)
            | Inr h \<Rightarrow>
               (case free_clis (p_clicmds n) (s\<lparr>feats := h\<rparr>) of
                  None \<Rightarrow> None
                | Some (Inl e) \<Rightarrow> Some (Inl e)
                | Some (Inr s1) \<Rightarrow> (case free_tables (p_ovstable n) s1 of
                      None \<Rightarrow> None
                    | Some (Inl e) \<Rightarrow> Some (Inl e)
                    | Some (Inr s2) \<Rightarrow> (case subs s2 a of
                          None \<Rightarrow> Some (Inl UseAfterFree)
                        | Some n2 \<Rightarrow> free_subs iter (sub_next n2) (s2\<lparr>subs := (subs s2)(a := None)\<rparr>)))))))"

partial_function (option) free_features :: "addr option \<Rightarrow> sts \<Rightarrow> sts cres option" where
  "free_features p s = (case p of
     None \<Rightarrow> Some (Inr s)
   | Some a \<Rightarrow>
       (case update_node (\<lambda>f. f\<lparr>ft_name := None, ft_desc := None\<rparr>) p (feats s) of
          Inl e \<Rightarrow> Some (Inl e)
        | Inr h \<Rightarrow> (case h a of
              None \<Rightarrow> Some (Inl UseAfterFree)
            | Some n \<Rightarrow> (case free_subs p (p_subfeature n) (s\<lparr>feats := h\<rparr>) of
                  None \<Rightarrow> None
                | Some (Inl e) \<Rightarrow> Some (Inl e)
                | Some (Inr s1) \<Rightarrow> (case feats s1 a of
                      None \<Rightarrow> Some (Inl UseAfterFree)
                    | Some n1 \<Rightarrow> free_features (ft_next n1) (s1\<lparr>feats := (feats s1)(a := None)\<rparr>))))))"

definition free_feature_data :: "sts \<Rightarrow> sts cres option" where
  "free_feature_data s = free_features (st_head s) (s\<lparr>st_head := None\<rparr>)"

definition free_show_tech_config :: "sts \<Rightarrow> sts cres option" where
  "free_show_tech_config s = free_feature_data s"

section \<open>The parser\<close>

text \<open>One case of the event switch: \<open>Some l\<close> to go on with the locals \<open>l\<close>, \<open>None\<close> for
  \<open>goto CLEAN_UP\<close>.\<close>

type_synonym st_step = "(st_locals option \<times> sts) cres option"

definition clean_up :: "sts \<Rightarrow> st_step" where
  "clean_up s = and_then (free_show_tech_config s) (\<lambda>s'. Some (Inr (None, s')))"

definition go_on :: "st_step \<Rightarrow> (st_locals \<Rightarrow> sts \<Rightarrow> st_step) \<Rightarrow> st_step" where
  "go_on r f = and_then r (\<lambda>(lo, s). case lo of None \<Rightarrow> Some (Inr (None, s)) | Some l \<Rightarrow> f l s)"

text \<open>\<open>if (curr_feature != NULL && !curr_feature->p_subfeature) curr_feature->p_subfeature = ...\<close>\<close>

definition link_sub :: "addr option \<Rightarrow> addr option \<Rightarrow> sts \<Rightarrow> sts cres" where
  "link_sub feat p s =
     (if feat = None then Inr s
      else bind_res (deref (feats s) feat) (\<lambda>n.
        if p_subfeature n = None
        then bind_res (update_node (\<lambda>n. n\<lparr>p_subfeature := p\<rparr>) feat (feats s)) (\<lambda>h. Inr (s\<lparr>feats := h\<rparr>))
        else Inr s))"

text \<open>The block that creates a dummy sub feature when there is none.\<close>

definition dummy_subfeature :: "st_env \<Rightarrow> st_locals \<Rightarrow> sts \<Rightarrow> st_step" where
  "dummy_subfeature env l s =
     (if st_sub l \<noteq> None then Some (Inr (Some l, s))
      else and_then (Some (add_subfeature env (st_sub l) s)) (\<lambda>(p, s1).
        if p = None then clean_up s1
        else and_then (Some (set_subfeature_as_dummy p s1)) (\<lambda>(_, s2).
          and_then (Some (link_sub (st_feat l) p s2)) (\<lambda>s3.
            Some (Inr (Some (l\<lparr>st_sub := p, st_cli := None, st_table := None, st_col := None\<rparr>), s3))))))"

definition on_setter :: "addr option \<Rightarrow> (int \<times> sts) cres \<Rightarrow> st_locals \<Rightarrow> sts \<Rightarrow> st_step" where
  "on_setter element r l s =
     (if element = None then clean_up s
      else and_then (Some r) (\<lambda>(_, s'). Some (Inr (Some l, s'))))"

definition append_cli :: "st_env \<Rightarrow> string \<Rightarrow> st_locals \<Rightarrow> sts \<Rightarrow> st_step" where
  "append_cli env v l1 s1 =
     and_then (Some (add_clicmds env (st_cli l1) v s1)) (\<lambda>(p, s2).
       if p = None then clean_up s2
       else and_then (Some (deref (subs s2) (st_sub l1))) (\<lambda>n.
         if p_clicmds n = None
         then and_then (Some (update_node (\<lambda>n. n\<lparr>p_clicmds := p\<rparr>) (st_sub l1) (subs s2)))
                (\<lambda>h. Some (Inr (Some (l1\<lparr>st_cli := p\<rparr>), s2\<lparr>subs := h\<rparr>)))
         else Some (Inr (Some (l1\<lparr>st_cli := p\<rparr>), s2))))"

definition on_cli_cmd :: "st_env \<Rightarrow> string \<Rightarrow> st_locals \<Rightarrow> sts \<Rightarrow> st_step" where
  "on_cli_cmd env v l s = go_on (dummy_subfeature env l s) (append_cli env v)"

definition on_col_name :: "st_env \<Rightarrow> string \<Rightarrow> st_locals \<Rightarrow> sts \<Rightarrow> st_step" where
  "on_col_name env v l s =
     (if st_table l = None then clean_up s
      else and_then (Some (add_ovscolumn env (st_col l) (Some v) s)) (\<lambda>(p, s2).
         if p = None then clean_up s2
         else and_then (Some (deref (tables s2) (st_table l))) (\<lambda>n.
           if p_colmname n = None
           then and_then (Some (update_node (\<lambda>n. n\<lparr>p_colmname := p\<rparr>) (st_table l) (tables s2)))
                  (\<lambda>h. Some (Inr (Some (l\<lparr>st_col := p\<rparr>), s2\<lparr>tables := h\<rparr>)))
           else Some (Inr (Some (l\<lparr>st_col := p\<rparr>), s2)))))"

text \<open>\<open>case VALUE\<close>, by the state the last keyword has set.\<close>

definition st_value :: "st_env \<Rightarrow> string \<Rightarrow> st_locals \<Rightarrow> sts \<Rightarrow> st_step" where
  "st_value env v l s =
     (if st_state l = FEATURE_NAME then on_setter (st_feat l) (add_feature_name (st_feat l) (Some v) s) l s
      else if st_state l = FEATURE_DESC then on_setter (st_feat l) (add_feature_desc (st_feat l) (Some v) s) l s
      else if st_state l = SUB_FEATURE_NAME then on_setter (st_sub l) (add_subfeature_name (st_sub l) (Some v) s) l s
      else if st_state l = SUB_FEATURE_DESC then on_setter (st_sub l) (add_subfeature_desc (st_sub l) (Some v) s) l s
      else if st_state l = SUPPORT_SHOWTECH_ALL then
        go_on (dummy_subfeature env l s) (\<lambda>l1 s1.
          and_then (Some (add_subfeature_showtechall (st_sub l1) (Some v) s1)) (\<lambda>(_, s2). Some (Inr (Some l1, s2))))
      else if st_state l = SUPPORT_SHOWTECH_FEATURE then
        go_on (dummy_subfeature env l s) (\<lambda>l1 s1.
          and_then (Some (add_subfeature_showtechfeature (st_sub l1) (Some v) s1)) (\<lambda>(_, s2). Some (Inr (Some l1, s2))))
      else if st_state l = CLI_CMDS then on_cli_cmd env v l s
      else if st_state l = TABLE_NAME then on_setter (st_table l) (add_ovstable_name (st_table l) (Some v) s) l s
      else if st_state l = COLNAMES then on_col_name env v l s
      else Some (Inr (Some l, s)))"

definition on_feature_key :: "st_env \<Rightarrow> st_locals \<Rightarrow> sts \<Rightarrow> st_step" where
  "on_feature_key env l s =
     and_then (Some (add_feature env (st_feat l) s)) (\<lambda>(p, s1).
       if p = None then clean_up s1
       else Some (Inr (Some (l\<lparr>st_state := FEATURE, st_feat := p, st_sub := None, st_cli := None,
                             st_table := None, st_col := None\<rparr>),
                       if st_head s1 = None then s1\<lparr>st_head := p\<rparr> else s1)))"

definition on_sub_key :: "st_env \<Rightarrow> st_locals \<Rightarrow> sts \<Rightarrow> st_step" where
  "on_sub_key env l s =
     (if st_feat l = None then clean_up s
      else and_then (Some (add_subfeature env (st_sub l) s)) (\<lambda>(p, s1).
        if p = None then clean_up s1
        else and_then (Some (link_sub (st_feat l) p s1)) (\<lambda>s2.
          Some (Inr (Some (l\<lparr>st_state := SUB_FEATURE, st_sub := p, st_cli := None, st_table := None,
                           st_col := None\<rparr>), s2)))))"

definition append_table :: "st_env \<Rightarrow> st_locals \<Rightarrow> sts \<Rightarrow> st_step" where
  "append_table env l1 s1 =
     and_then (Some (add_ovstable env (st_table l1) s1)) (\<lambda>(p, s2).
       if p = None then clean_up s2
       else and_then (Some (deref (subs s2) (st_sub l1))) (\<lambda>n.
         if p_ovstable n = None
         then and_then (Some (update_node (\<lambda>n. n\<lparr>p_ovstable := p\<rparr>) (st_sub l1) (subs s2)))
                (\<lambda>h. Some (Inr (Some (l1\<lparr>st_table := p\<rparr>), s2\<lparr>subs := h\<rparr>)))
         else Some (Inr (Some (l1\<lparr>st_table := p\<rparr>), s2))))"

definition on_table_key :: "st_env \<Rightarrow> st_locals \<Rightarrow> sts \<Rightarrow> st_step" where
  "on_table_key env l s =
     (if st_feat l = None then clean_up s
      else go_on (dummy_subfeature env (l\<lparr>st_state := TABLE, st_col := None\<rparr>) s) (append_table env))"

definition st_scalar :: "st_env \<Rightarrow> string \<Rightarrow> st_locals \<Rightarrow> sts \<Rightarrow> st_step" where
  "st_scalar env v l s =
     (let event_value = getValueType (Some v) in
      if event_value = VALUE then st_value env v l s
      else if event_value = FEATURE then on_feature_key env l s
      else if event_value = SUB_FEATURE then on_sub_key env l s
      else if event_value = TABLE then on_table_key env l s
      else Some (Inr (Some (l\<lparr>st_state := event_value\<rparr>), s)))"

fun st_events :: "st_env \<Rightarrow> yevent list \<Rightarrow> st_locals \<Rightarrow> sts \<Rightarrow> sts cres option" where
  "st_events env [] l s = free_show_tech_config s"
| "st_events env (STREAM_END_EVENT # es) l s = Some (Inr s)"
| "st_events env (OTHER_EVENT # es) l s = st_events env es l s"
| "st_events env (SCALAR_EVENT v # es) l s =
     and_then (st_scalar env v l s) (\<lambda>(lo, s'). case lo of None \<Rightarrow> Some (Inr s') | Some l' \<Rightarrow> st_events env es l' s')"

definition st_locals0 :: st_locals where
  "st_locals0 = \<lparr>st_state = 0, st_feat = None, st_sub = None, st_cli = None, st_table = None, st_col = None\<rparr>"

abbreviation default_config_file :: string where
  "default_config_file \<equiv> ''/etc/openswitch/supportability/ops_showtech.yaml''"

text \<open>A parser error on the very first event goes to \<open>CLEAN_UP\<close> like any other; nothing has been
  built then.\<close>

definition parse_showtech_config :: "st_env \<Rightarrow> string option \<Rightarrow> sts \<Rightarrow> (addr option \<times> sts) cres option" where
  "parse_showtech_config env config_file s =
     and_then (free_show_tech_config s) (\<lambda>s1.
       if \<not> st_yaml_init env then Some (Inr (None, s1))
       else (case st_file env (case config_file of None \<Rightarrow> default_config_file | Some f \<Rightarrow> f) of
           None \<Rightarrow> Some (Inr (None, s1))
         | Some events \<Rightarrow>
             and_then (st_events env events st_locals0 s1) (\<lambda>s2. Some (Inr (st_head s2, s2)))))"

text \<open>\<open>regcomp\<close> succeeds on the constant pattern.\<close>

definition get_showtech_config :: "st_env \<Rightarrow> string option \<Rightarrow> sts \<Rightarrow> (addr option \<times> sts) cres option" where
  "get_showtech_config env config_file s =
     (if st_head s = None
      then and_then (parse_showtech_config env config_file s) (\<lambda>(p, s1). Some (Inr (p, s1\<lparr>st_head := p\<rparr>)))
      else Some (Inr (st_head s, s)))"

definition sts0 :: sts where
  "sts0 = \<lparr>st_head = None, feats = Map.empty, subs = Map.empty, clis = Map.empty, tables = Map.empty,
     cols = Map.empty, st_brk = 0\<rparr>"

end
