(* ===== verification/Show_Tech_Heap.thy ===== *)
theory Show_Tech_Heap
  imports Show_Tech_Config
begin

text \<open>
  The show tech configuration on the heap as a value: a tree of \<open>config_spec\<close> that the
  relation \<open>st_rep\<close> reads off the five stores, what freeing it does, and how each operation
  on the last feature, sub feature, table or column changes it.
\<close>

section \<open>The lists\<close>

definition feat_val :: "st_feature \<Rightarrow> string option \<times> string option \<times> addr option" where
  "feat_val n = (ft_name n, ft_desc n, p_subfeature n)"

definition sub_val ::
    "st_sub_feature \<Rightarrow> (string option \<times> string option \<times> bool \<times> bool \<times> bool) \<times> addr option \<times> addr option" where
  "sub_val n = ((sub_name n, sub_desc n, no_sta_support n, support_stb n, is_dummy n), p_clicmds n, p_ovstable n)"

definition table_val :: "st_ovstable \<Rightarrow> string option \<times> addr option" where
  "table_val n = (tablename n, p_colmname n)"

interpretation ftl: value_list ft_next "\<lambda>p n. n\<lparr>ft_next := p\<rparr>" feat_val
  by unfold_locales (simp_all add: feat_val_def)

interpretation sbl: value_list sub_next "\<lambda>p n. n\<lparr>sub_next := p\<rparr>" sub_val
  by unfold_locales (simp_all add: sub_val_def)

interpretation cll: value_list cli_next "\<lambda>p n. n\<lparr>cli_next := p\<rparr>" command
  by unfold_locales simp_all

interpretation tbl: value_list tab_next "\<lambda>p n. n\<lparr>tab_next := p\<rparr>" table_val
  by unfold_locales (simp_all add: table_val_def)

interpretation col: value_list col_next "\<lambda>p n. n\<lparr>col_next := p\<rparr>" col_name
  by unfold_locales simp_all

section \<open>The tree as a value\<close>

record table_spec =
  ts_name :: "string option"
  ts_cols :: "string option list"

record sub_spec =
  ss_info :: "string option \<times> string option \<times> bool \<times> bool \<times> bool"  \<comment> \<open>name, description, flags\<close>
  ss_cmds :: "string option list"
  ss_tables :: "table_spec list"

record config_spec =
  cs_name :: "string option"
  cs_desc :: "string option"
  cs_subs :: "sub_spec list"

text \<open>Shapes: the addresses of the nodes of a table, a sub feature, a feature.\<close>

type_synonym tshape = "addr \<times> addr list"
type_synonym sshape = "addr \<times> addr list \<times> tshape list"
type_synonym fshape = "addr \<times> sshape list"

fun tab_addrs :: "tshape \<Rightarrow> addr list" where
  "tab_addrs (t, ks) = t # ks"

fun sub_addrs :: "sshape \<Rightarrow> addr list" where
  "sub_addrs (b, cs, ts) = b # cs @ concat (map tab_addrs ts)"

fun feat_addrs :: "fshape \<Rightarrow> addr list" where
  "feat_addrs (a, ss) = a # concat (map sub_addrs ss)"

abbreviation all_addrs :: "fshape list \<Rightarrow> addr list" where
  "all_addrs gs \<equiv> concat (map feat_addrs gs)"

text \<open>A node of the given shape sits in the stores and reads as the given value.\<close>

fun table_at :: "sts \<Rightarrow> tshape \<Rightarrow> table_spec \<Rightarrow> bool" where
  "table_at s (t, ks) x \<longleftrightarrow> (\<exists>n. tables s t = Some n \<and> tablename n = ts_name x \<and>
     lpath col_next (cols s) (p_colmname n) ks \<and> contents col_name (cols s) ks = ts_cols x)"

fun sub_at :: "sts \<Rightarrow> sshape \<Rightarrow> sub_spec \<Rightarrow> bool" where
  "sub_at s (b, cs, ts) x \<longleftrightarrow> (\<exists>n. subs s b = Some n \<and> fst (sub_val n) = ss_info x \<and>
     lpath cli_next (clis s) (p_clicmds n) cs \<and> contents command (clis s) cs = ss_cmds x \<and>
     lpath tab_next (tables s) (p_ovstable n) (map fst ts) \<and> list_all2 (table_at s) ts (ss_tables x))"

fun feat_at :: "sts \<Rightarrow> fshape \<Rightarrow> config_spec \<Rightarrow> bool" where
  "feat_at s (a, ss) x \<longleftrightarrow> (\<exists>n. feats s a = Some n \<and> ft_name n = cs_name x \<and> ft_desc n = cs_desc x \<and>
     lpath sub_next (subs s) (p_subfeature n) (map fst ss) \<and> list_all2 (sub_at s) ss (cs_subs x))"

text \<open>The addresses that a shape uses in each store.\<close>

definition clis_s :: "sshape list \<Rightarrow> addr set" where "clis_s ss = (\<Union>(b, cs, ts)\<in>set ss. set cs)"
definition tabs_s :: "sshape list \<Rightarrow> addr set" where "tabs_s ss = (\<Union>(b, cs, ts)\<in>set ss. set (map fst ts))"
definition cols_s :: "sshape list \<Rightarrow> addr set" where "cols_s ss = (\<Union>(b, cs, ts)\<in>set ss. set (concat (map snd ts)))"

lemma addrs_s_simps [simp]:
  "clis_s [] = {}" "clis_s ((b, cs, ts) # ss) = set cs \<union> clis_s ss" "clis_s (ss @ ss') = clis_s ss \<union> clis_s ss'"
  "tabs_s [] = {}" "tabs_s ((b, cs, ts) # ss) = set (map fst ts) \<union> tabs_s ss" "tabs_s (ss @ ss') = tabs_s ss \<union> tabs_s ss'"
  "cols_s [] = {}" "cols_s ((b, cs, ts) # ss) = set (concat (map snd ts)) \<union> cols_s ss" "cols_s (ss @ ss') = cols_s ss \<union> cols_s ss'"
  by (simp_all add: clis_s_def tabs_s_def cols_s_def)

lemma addrs_s_sub:
  "set (map fst ss) \<union> clis_s ss \<union> tabs_s ss \<union> cols_s ss = set (concat (map sub_addrs ss))"
proof (induction ss)
  case (Cons g ss)
  have "set (concat (map tab_addrs ts)) = set (map fst ts) \<union> set (concat (map snd ts))" for ts
    by (induction ts) auto
  with Cons show ?case by (cases g) auto
qed simp

text \<open>The stores hold the tree below the head and nothing else.\<close>

definition holds_only :: "sts \<Rightarrow> fshape list \<Rightarrow> bool" where
  "holds_only s gs \<longleftrightarrow> dom (feats s) = set (map fst gs) \<and>
     dom (subs s) = set (concat (map (\<lambda>g. map fst (snd g)) gs)) \<and>
     dom (clis s) = (\<Union>g\<in>set gs. clis_s (snd g)) \<and>
     dom (tables s) = (\<Union>g\<in>set gs. tabs_s (snd g)) \<and>
     dom (cols s) = (\<Union>g\<in>set gs. cols_s (snd g))"

definition st_rep :: "sts \<Rightarrow> fshape list \<Rightarrow> config_spec list \<Rightarrow> bool" where
  "st_rep s gs fs \<longleftrightarrow>
     lpath ft_next (feats s) (st_head s) (map fst gs) \<and> list_all2 (feat_at s) gs fs \<and>
     distinct (all_addrs gs) \<and> holds_only s gs \<and> set (all_addrs gs) \<subseteq> {..<st_brk s}"

section \<open>Frames\<close>

definition same_at :: "sts \<Rightarrow> sts \<Rightarrow> addr set \<Rightarrow> bool" where
  "same_at s s' A \<longleftrightarrow> (\<forall>x\<in>A. subs s' x = subs s x \<and> clis s' x = clis s x \<and>
     tables s' x = tables s x \<and> cols s' x = cols s x)"

lemma same_at_subset: "same_at s s' A \<Longrightarrow> B \<subseteq> A \<Longrightarrow> same_at s s' B"
  by (auto simp: same_at_def)

lemma same_at_Un [simp]: "same_at s s' (A \<union> B) \<longleftrightarrow> same_at s s' A \<and> same_at s s' B"
  by (auto simp: same_at_def)

lemma table_at_val:
  assumes "table_at s (t, ks) x" "\<And>a. a \<in> set ks \<Longrightarrow> cols s' a = cols s a" "tables s' t = Some n'"
    and "table_val n' = table_val (the (tables s t))"
  shows "table_at s' (t, ks) x"
  using assms(1,3,4) lpath_frame [OF assms(2)] contents_frame [OF assms(2), where val = col_name]
  by (auto simp: table_val_def)

lemma table_at_same:
  assumes "table_at s g x" "same_at s s' (set (tab_addrs g))"
  shows "table_at s' g x"
proof -
  obtain t ks where g: "g = (t, ks)" by (cases g)
  with assms obtain n where "tables s t = Some n" by auto
  moreover have "tables s' t = tables s t" using assms(2) g by (simp add: same_at_def)
  ultimately show ?thesis
    using assms g by (intro table_at_val [of s t ks x s' n, folded g]) (auto simp: same_at_def)
qed

lemma tables_same:
  assumes "list_all2 (table_at s) ts xs" "same_at s s' (set (concat (map tab_addrs ts)))"
  shows "list_all2 (table_at s') ts xs" "lpath tab_next (tables s') p (map fst ts) = lpath tab_next (tables s) p (map fst ts)"
proof -
  have sub: "same_at s s' (set (tab_addrs g))" if "g \<in> set ts" for g
    by (rule same_at_subset [OF assms(2)]) (use that in auto)
  show "list_all2 (table_at s') ts xs"
    using assms(1) by (rule list.rel_mono_strong) (use sub table_at_same in blast)
  have "tables s' a = tables s a" if a: "a \<in> set (map fst ts)" for a
  proof -
    from a obtain g where g: "g \<in> set ts" "a = fst g" by auto
    with sub [OF g(1)] show ?thesis by (cases g) (simp add: same_at_def)
  qed
  then show "lpath tab_next (tables s') p (map fst ts) = lpath tab_next (tables s) p (map fst ts)"
    by (rule lpath_frame)
qed

lemma sub_at_val:
  assumes "sub_at s (b, cs, ts) x" "same_at s s' (set cs \<union> set (concat (map tab_addrs ts)))" "subs s' b = Some n'"
    and "sub_val n' = sub_val (the (subs s b))"
  shows "sub_at s' (b, cs, ts) x"
proof -
  have eq: "\<And>a. a \<in> set cs \<Longrightarrow> clis s' a = clis s a" using assms(2) by (simp add: same_at_def)
  have ts: "same_at s s' (set (concat (map tab_addrs ts)))" using assms(2) by (rule same_at_subset) auto
  show ?thesis
    using assms(1,3,4) lpath_frame [OF eq] contents_frame [OF eq, where val = command] tables_same [OF _ ts]
    by (auto simp: sub_val_def)
qed

lemma sub_at_same:
  assumes "sub_at s g x" "same_at s s' (set (sub_addrs g))"
  shows "sub_at s' g x"
proof -
  obtain b cs ts where g: "g = (b, cs, ts)" by (cases g)
  with assms obtain n where "subs s b = Some n" by auto
  moreover have "subs s' b = subs s b" using assms(2) g by (simp add: same_at_def)
  ultimately show ?thesis
    using assms g by (intro sub_at_val [of s b cs ts x s' n, folded g]) (auto simp: same_at_def)
qed

lemma subs_same:
  assumes "list_all2 (sub_at s) ss xs" "same_at s s' (set (concat (map sub_addrs ss)))"
  shows "list_all2 (sub_at s') ss xs" "lpath sub_next (subs s') p (map fst ss) = lpath sub_next (subs s) p (map fst ss)"
proof -
  have sub: "same_at s s' (set (sub_addrs g))" if "g \<in> set ss" for g
    by (rule same_at_subset [OF assms(2)]) (use that in auto)
  show "list_all2 (sub_at s') ss xs"
    using assms(1) by (rule list.rel_mono_strong) (use sub sub_at_same in blast)
  have "subs s' a = subs s a" if a: "a \<in> set (map fst ss)" for a
  proof -
    from a obtain g where g: "g \<in> set ss" "a = fst g" by auto
    with sub [OF g(1)] show ?thesis by (cases g) (simp add: same_at_def)
  qed
  then show "lpath sub_next (subs s') p (map fst ss) = lpath sub_next (subs s) p (map fst ss)"
    by (rule lpath_frame)
qed

lemma feat_at_val:
  assumes "feat_at s (a, ss) x" "same_at s s' (set (concat (map sub_addrs ss)))" "feats s' a = Some n'"
    and "feat_val n' = feat_val (the (feats s a))"
  shows "feat_at s' (a, ss) x"
  using assms(1,3,4) subs_same [OF _ assms(2)] by (auto simp: feat_val_def)

lemma feat_at_same:
  assumes "feat_at s g x" "same_at s s' (set (feat_addrs g))" "feats s' (fst g) = feats s (fst g)"
  shows "feat_at s' g x"
proof -
  obtain a ss where g: "g = (a, ss)" by (cases g)
  with assms obtain n where "feats s a = Some n" by auto
  moreover have "feats s' a = feats s a" using assms(3) g by simp
  ultimately show ?thesis
    using assms g by (intro feat_at_val [of s a ss x s' n, folded g]) (auto simp: same_at_def)
qed

section \<open>Freeing a tree\<close>

definition without :: "('a \<rightharpoonup> 'b) \<Rightarrow> 'a set \<Rightarrow> 'a \<rightharpoonup> 'b" where
  "without h A = (\<lambda>x. if x \<in> A then None else h x)"

lemma without_simps [simp]:
  "without (h(a := None)) A = without h (insert a A)" "without (without h A) B = without h (A \<union> B)"
  "without h {} = h"
  by (auto simp: without_def fun_eq_iff)

lemma without_apply: "without h A x = (if x \<in> A then None else h x)"
  by (simp add: without_def)

lemma tab_addrs_parts: "fst t \<in> set (tab_addrs t) \<and> set (snd t) \<subseteq> set (tab_addrs t)"
  by (cases t) auto

lemma free_clis_path:
  "lpath cli_next (clis s) p cs \<Longrightarrow> free_clis p s = Some (Inr (s\<lparr>clis := without (clis s) (set cs)\<rparr>))"
proof (induction cs arbitrary: p s)
  case Nil
  then show ?case by (subst free_clis.simps) simp
next
  case (Cons a cs)
  then obtain n where n: "p = Some a" "clis s a = Some n" "lpath cli_next (clis s) (cli_next n) cs" "a \<notin> set cs"
    using lpath_distinct [OF Cons.prems] by (auto split: option.splits)
  let ?s = "s\<lparr>clis := (clis s)(a := None)\<rparr>"
  have path: "lpath cli_next (clis ?s) (cli_next n) cs" using n by simp
  have "free_clis (cli_next n) ?s = Some (Inr (?s\<lparr>clis := without (clis ?s) (set cs)\<rparr>))"
    by (rule Cons.IH [OF path])
  with n show ?case by (subst free_clis.simps) simp
qed

lemma free_cols_path:
  "lpath col_next (cols s) p ks \<Longrightarrow> free_cols p s = Some (Inr (s\<lparr>cols := without (cols s) (set ks)\<rparr>))"
proof (induction ks arbitrary: p s)
  case Nil
  then show ?case by (subst free_cols.simps) simp
next
  case (Cons a ks)
  then obtain n where n: "p = Some a" "cols s a = Some n" "lpath col_next (cols s) (col_next n) ks" "a \<notin> set ks"
    using lpath_distinct [OF Cons.prems] by (auto split: option.splits)
  let ?s = "s\<lparr>cols := (cols s)(a := None)\<rparr>"
  have path: "lpath col_next (cols ?s) (col_next n) ks" using n by simp
  have "free_cols (col_next n) ?s = Some (Inr (?s\<lparr>cols := without (cols ?s) (set ks)\<rparr>))"
    by (rule Cons.IH [OF path])
  with n show ?case by (subst free_cols.simps) simp
qed

lemma free_tables_path:
  assumes "lpath tab_next (tables s) p (map fst ts)" "list_all2 (table_at s) ts xs"
    and "distinct (concat (map tab_addrs ts))"
  shows "free_tables p s = Some (Inr (s\<lparr>tables := without (tables s) (set (map fst ts)),
    cols := without (cols s) (set (concat (map snd ts)))\<rparr>))"
  using assms
proof (induction ts arbitrary: p s xs)
  case Nil
  then show ?case by (subst free_tables.simps) simp
next
  case (Cons g ts)
  obtain t ks where g: "g = (t, ks)" by (cases g)
  obtain x xs' where xs: "xs = x # xs'" "table_at s (t, ks) x" "list_all2 (table_at s) ts xs'"
    using Cons.prems(2) g by (auto simp: list_all2_Cons1)
  then obtain n where n: "tables s t = Some n" "lpath col_next (cols s) (p_colmname n) ks" by auto
  have p: "p = Some t" "lpath tab_next (tables s) (tab_next n) (map fst ts)"
    using Cons.prems(1) g n(1) by auto
  let ?s = "s\<lparr>cols := without (cols s) (set ks), tables := (tables s)(t := None)\<rparr>"
  have dis: "t \<notin> set (concat (map tab_addrs ts))" "set ks \<inter> set (concat (map tab_addrs ts)) = {}"
    "distinct (concat (map tab_addrs ts))"
    using Cons.prems(3) g by auto
  have same: "same_at s ?s (set (concat (map tab_addrs ts)))"
    using dis unfolding same_at_def by (auto simp: without_apply)
  have path: "lpath tab_next (tables ?s) (tab_next n) (map fst ts)"
    using p(2) unfolding tables_same(2) [OF xs(3) same] .
  have "free_tables (tab_next n) ?s = Some (Inr (?s\<lparr>tables := without (tables ?s) (set (map fst ts)),
    cols := without (cols ?s) (set (concat (map snd ts)))\<rparr>))"
    by (rule Cons.IH [OF path tables_same(1) [OF xs(3) same] dis(3)])
  with n p g show ?case by (subst free_tables.simps) (simp add: free_cols_path)
qed

lemma free_subs_path:
  assumes "lpath sub_next (subs s) p (map fst ss)" "list_all2 (sub_at s) ss xs"
    and "distinct (concat (map sub_addrs ss))" "feats s a = Some f"
  shows "\<exists>f'. ft_next f' = ft_next f \<and> free_subs (Some a) p s = Some (Inr (s\<lparr>
    feats := (feats s)(a \<mapsto> f'), subs := without (subs s) (set (map fst ss)),
    clis := without (clis s) (clis_s ss),
    tables := without (tables s) (tabs_s ss),
    cols := without (cols s) (cols_s ss)\<rparr>))"
  using assms
proof (induction ss arbitrary: p s xs f)
  case Nil
  then show ?case
    by (subst free_subs.simps) (cases s, auto intro!: exI [of _ f] simp: map_upd_triv)
next
  case (Cons g ss)
  obtain b cs ts where g: "g = (b, cs, ts)" by (cases g)
  obtain x xs' where xs: "xs = x # xs'" "sub_at s (b, cs, ts) x" "list_all2 (sub_at s) ss xs'"
    using Cons.prems(2) g by (auto simp: list_all2_Cons1)
  then obtain n where n: "subs s b = Some n" "lpath cli_next (clis s) (p_clicmds n) cs"
    "lpath tab_next (tables s) (p_ovstable n) (map fst ts)" "list_all2 (table_at s) ts (ss_tables x)" by auto
  have p: "p = Some b" "lpath sub_next (subs s) (sub_next n) (map fst ss)"
    using Cons.prems(1) g n(1) by auto
  let ?f = "f\<lparr>ft_name := None, ft_desc := None\<rparr>"
  let ?s1 = "s\<lparr>feats := (feats s)(a \<mapsto> ?f), clis := without (clis s) (set cs)\<rparr>"
  let ?s2 = "?s1\<lparr>tables := without (tables s) (set (map fst ts)), cols := without (cols s) (set (concat (map snd ts)))\<rparr>"
  let ?s3 = "?s2\<lparr>subs := (subs s)(b := None)\<rparr>"
  have dis: "b \<notin> set (concat (map sub_addrs ss))" "set cs \<inter> set (concat (map sub_addrs ss)) = {}"
    "set (concat (map tab_addrs ts)) \<inter> set (concat (map sub_addrs ss)) = {}"
    "distinct (concat (map sub_addrs ss))" "set cs \<inter> set (concat (map tab_addrs ts)) = {}"
    "distinct (concat (map tab_addrs ts))"
    using Cons.prems(3) g by auto
  have sub: "set (map fst ts) \<subseteq> set (concat (map tab_addrs ts))" "set (concat (map snd ts)) \<subseteq> set (concat (map tab_addrs ts))"
    using tab_addrs_parts by auto
  have st: "tables ?s1 = tables s" "list_all2 (table_at ?s1) ts (ss_tables x)"
    using n(4) by (simp, rule list.rel_mono_strong) auto
  have f2: "free_tables (p_ovstable n) ?s1 = Some (Inr ?s2)"
    using n(3) st dis(6) by (subst free_tables_path) auto
  have "same_at s ?s3 (set (concat (map sub_addrs ss)))"
  proof -
    have "x \<noteq> b \<and> x \<notin> set cs \<and> x \<notin> set (map fst ts) \<and> x \<notin> set (concat (map snd ts))"
      if "x \<in> set (concat (map sub_addrs ss))" for x
      using that dis(1-3) sub by blast
    then show ?thesis unfolding same_at_def by (simp add: without_apply del: set_map set_concat)
  qed
  note s3 = subs_same [OF xs(3) this]
  have p3: "lpath sub_next (subs ?s3) (sub_next n) (map fst ss)" using p(2) unfolding s3(2) .
  have fa3: "feats ?s3 a = Some ?f" by simp
  obtain f' where f': "ft_next f' = ft_next ?f" "free_subs (Some a) (sub_next n) ?s3 = Some (Inr (?s3\<lparr>
    feats := (feats ?s3)(a \<mapsto> f'), subs := without (subs ?s3) (set (map fst ss)),
    clis := without (clis ?s3) (clis_s ss),
    tables := without (tables ?s3) (tabs_s ss),
    cols := without (cols ?s3) (cols_s ss)\<rparr>))"
    using Cons.IH [OF p3 s3(1) dis(4) fa3] by blast
  have "free_subs (Some a) p s = free_subs (Some a) (sub_next n) ?s3"
    using p n Cons.prems(4) f2 by (subst free_subs.simps) (simp add: free_clis_path)
  with f' have "ft_next f' = ft_next f \<and> free_subs (Some a) p s = Some (Inr (s\<lparr>
    feats := (feats s)(a \<mapsto> f'), subs := without (subs s) (set (map fst (g # ss))),
    clis := without (clis s) (clis_s (g # ss)), tables := without (tables s) (tabs_s (g # ss)),
    cols := without (cols s) (cols_s (g # ss))\<rparr>))"
    unfolding g by simp
  then show ?case by (rule exI)
qed

lemma free_features_path:
  assumes "lpath ft_next (feats s) p (map fst gs)" "list_all2 (feat_at s) gs fs" "distinct (all_addrs gs)"
  shows "\<exists>s'. free_features p s = Some (Inr s') \<and> st_head s' = st_head s \<and> st_brk s' = st_brk s \<and>
    dom (feats s') = dom (feats s) - set (map fst gs) \<and>
    dom (subs s') = dom (subs s) - set (concat (map (\<lambda>g. map fst (snd g)) gs)) \<and>
    dom (clis s') = dom (clis s) - (\<Union>g\<in>set gs. clis_s (snd g)) \<and>
    dom (tables s') = dom (tables s) - (\<Union>g\<in>set gs. tabs_s (snd g)) \<and>
    dom (cols s') = dom (cols s) - (\<Union>g\<in>set gs. cols_s (snd g))"
  using assms
proof (induction gs arbitrary: p s fs)
  case Nil
  then show ?case by (subst free_features.simps) simp
next
  case (Cons g gs)
  obtain a ss where g: "g = (a, ss)" by (cases g)
  obtain x xs where fs: "fs = x # xs" "feat_at s (a, ss) x" "list_all2 (feat_at s) gs xs"
    using Cons.prems(2) g by (auto simp: list_all2_Cons1)
  then obtain n where n: "feats s a = Some n" "lpath sub_next (subs s) (p_subfeature n) (map fst ss)"
    "list_all2 (sub_at s) ss (cs_subs x)" by auto
  have p: "p = Some a" "lpath ft_next (feats s) (ft_next n) (map fst gs)"
    using Cons.prems(1) g n(1) by auto
  let ?n = "n\<lparr>ft_name := None, ft_desc := None\<rparr>"
  let ?s1 = "s\<lparr>feats := (feats s)(a \<mapsto> ?n)\<rparr>"
  let ?A = "set (concat (map sub_addrs ss))"
  have dis: "a \<notin> set (all_addrs gs)" "?A \<inter> set (all_addrs gs) = {}" "distinct (all_addrs gs)"
    "a \<notin> ?A" "distinct (concat (map sub_addrs ss))"
    using Cons.prems(3) g by auto
  have "same_at s ?s1 ?A" by (simp add: same_at_def)
  note s1 = subs_same [OF n(3) this]
  have path: "lpath sub_next (subs ?s1) (p_subfeature n) (map fst ss)" using n(2) by simp
  have fa: "feats ?s1 a = Some ?n" by simp
  obtain f' where f': "ft_next f' = ft_next n" "free_subs (Some a) (p_subfeature n) ?s1 = Some (Inr (?s1\<lparr>
    feats := (feats ?s1)(a \<mapsto> f'), subs := without (subs ?s1) (set (map fst ss)),
    clis := without (clis ?s1) (clis_s ss), tables := without (tables ?s1) (tabs_s ss),
    cols := without (cols ?s1) (cols_s ss)\<rparr>))"
    using free_subs_path [OF path s1(1) dis(5) fa] by auto
  let ?s3 = "s\<lparr>subs := without (subs s) (set (map fst ss)), clis := without (clis s) (clis_s ss),
    tables := without (tables s) (tabs_s ss), cols := without (cols s) (cols_s ss), feats := (feats s)(a := None)\<rparr>"
  have run: "free_features p s = free_features (ft_next n) ?s3"
    using p n f' by (subst free_features.simps) simp
  have same: "same_at s ?s3 (set (all_addrs gs))"
  proof -
    have "x \<notin> ?A" if "x \<in> set (all_addrs gs)" for x using that dis(2) by blast
    then show ?thesis
      using addrs_s_sub [of ss] unfolding same_at_def by (auto simp: without_apply simp del: set_map set_concat)
  qed
  have at: "list_all2 (feat_at ?s3) gs xs"
    using fs(3)
  proof (rule list.rel_mono_strong)
    fix h y
    assume h: "h \<in> set gs" "feat_at s h y"
    have "fst h \<in> set (feat_addrs h)" by (cases h) simp
    with h(1) have "fst h \<in> set (all_addrs gs)" by auto
    then have "fst h \<noteq> a" using dis(1) by auto
    moreover have "same_at s ?s3 (set (feat_addrs h))"
      by (rule same_at_subset [OF same]) (use h(1) in auto)
    ultimately show "feat_at ?s3 h y" using feat_at_same [OF h(2)] by simp
  qed
  have path3: "lpath ft_next (feats ?s3) (ft_next n) (map fst gs)"
    using p(2) lpath_distinct [OF Cons.prems(1)] g by simp
  show ?case
    unfolding run using Cons.IH [OF path3 at dis(3)] g by (auto simp: without_def dom_def)
qed

section \<open>Replacing the last feature\<close>

lemma feat_at_dom: "feat_at s g f \<Longrightarrow> fst g \<in> dom (feats s)"
  by (cases g) auto

lemma rep_last_feat:
  assumes rep: "st_rep s (gs0 @ [(a, ss)]) (fs0 @ [f])"
    and n: "feats s a = Some n" "feats s' = (feats s)(a \<mapsto> n')" "ft_next n' = ft_next n" "st_head s' = st_head s"
    and at: "feat_at s' (a, ss') f'"
    and same: "same_at s s' ({..<st_brk s} - set (concat (map sub_addrs ss)))"
    and new: "distinct (concat (map sub_addrs ss'))"
      "set (concat (map sub_addrs ss')) \<subseteq> set (concat (map sub_addrs ss)) \<union> {st_brk s..<st_brk s'}" "st_brk s \<le> st_brk s'"
    and grow: "set (map fst ss) \<subseteq> set (map fst ss')" "clis_s ss \<subseteq> clis_s ss'" "tabs_s ss \<subseteq> tabs_s ss'" "cols_s ss \<subseteq> cols_s ss'"
    and doms: "dom (subs s') = dom (subs s) \<union> set (map fst ss')" "dom (clis s') = dom (clis s) \<union> clis_s ss'"
      "dom (tables s') = dom (tables s) \<union> tabs_s ss'" "dom (cols s') = dom (cols s) \<union> cols_s ss'"
  shows "st_rep s' (gs0 @ [(a, ss')]) (fs0 @ [f'])"
proof -
  let ?A = "set (concat (map sub_addrs ss))"
  have len: "length gs0 = length fs0"
    using rep by (auto simp: st_rep_def dest: list_all2_lengthD)
  have R: "lpath ft_next (feats s) (st_head s) (map fst gs0 @ [a])" "list_all2 (feat_at s) gs0 fs0"
    "distinct (all_addrs gs0 @ a # concat (map sub_addrs ss))" "holds_only s (gs0 @ [(a, ss)])"
    "set (all_addrs gs0) \<union> insert a ?A \<subseteq> {..<st_brk s}"
    using rep len by (auto simp: st_rep_def list_all2_append)
  have "lpath ft_next (feats s') (st_head s') (map fst gs0 @ [a])"
    unfolding n(2,4) using R(1) ftl.upd_same n(1,3) by simp
  moreover have "list_all2 (feat_at s') gs0 fs0"
    using R(2)
  proof (rule list.rel_mono_strong)
    fix h y
    assume h: "h \<in> set gs0" "feat_at s h y"
    have sub: "set (feat_addrs h) \<subseteq> set (all_addrs gs0)" using h(1) by auto
    have "fst h \<in> set (feat_addrs h)" by (cases h) simp
    with sub R(3) have "fst h \<noteq> a" by auto
    moreover have "same_at s s' (set (feat_addrs h))"
      by (rule same_at_subset [OF same]) (use sub R(3,5) in auto)
    ultimately show "feat_at s' h y" using feat_at_same [OF h(2)] n(2) by simp
  qed
  moreover have "distinct (all_addrs gs0 @ a # concat (map sub_addrs ss'))"
  proof -
    have "x \<notin> set (concat (map sub_addrs ss'))" if "x \<in> insert a (set (all_addrs gs0))" for x
    proof -
      have "x \<notin> ?A" "x < st_brk s" using that R(3,5) by auto
      then show ?thesis using new(2) by auto
    qed
    then show ?thesis using R(3) new(1) by (auto simp del: set_concat)
  qed
  moreover have "holds_only s' (gs0 @ [(a, ss')])"
    using R(4) doms grow n(1,2) unfolding holds_only_def by auto
  moreover have "set (all_addrs gs0) \<union> insert a (set (concat (map sub_addrs ss'))) \<subseteq> {..<st_brk s'}"
    using R(5) new(2,3) by (auto simp del: set_concat) (fastforce simp del: set_concat)+
  ultimately show ?thesis
    using at by (simp add: st_rep_def list_all2_appendI)
qed

lemma rep_split:
  assumes "st_rep s (gs0 @ [(a, ss)]) fs"
  obtains fs0 f n where "fs = fs0 @ [f]" "feats s a = Some n" "ft_name n = cs_name f" "ft_desc n = cs_desc f"
    "lpath sub_next (subs s) (p_subfeature n) (map fst ss)" "list_all2 (sub_at s) ss (cs_subs f)"
    "distinct (concat (map sub_addrs ss))" "set (concat (map sub_addrs ss)) \<subseteq> {..<st_brk s}"
    "dom (feats s) \<union> dom (subs s) \<union> dom (clis s) \<union> dom (tables s) \<union> dom (cols s) \<subseteq> {..<st_brk s}"
proof -
  obtain fs0 f where fs: "fs = fs0 @ [f]"
    using assms by (cases fs rule: rev_cases) (auto simp: st_rep_def dest: list_all2_lengthD)
  have "length gs0 = length fs0" using assms fs by (auto simp: st_rep_def dest: list_all2_lengthD)
  then have "feat_at s (a, ss) f" using assms fs by (simp add: st_rep_def list_all2_append)
  then obtain n where n: "feats s a = Some n" "ft_name n = cs_name f" "ft_desc n = cs_desc f"
    "lpath sub_next (subs s) (p_subfeature n) (map fst ss)" "list_all2 (sub_at s) ss (cs_subs f)" by auto
  have d: "distinct (concat (map sub_addrs ss))" "set (concat (map sub_addrs ss)) \<subseteq> {..<st_brk s}"
    using assms by (auto simp: st_rep_def)
  let ?gs = "gs0 @ [(a, ss)]"
  have all: "(\<Union>g\<in>set ?gs. set (feat_addrs g)) \<subseteq> {..<st_brk s}"
    using assms unfolding st_rep_def by simp
  have parts: "fst g \<in> set (feat_addrs g)" "set (map fst (snd g)) \<subseteq> set (feat_addrs g)"
    "clis_s (snd g) \<subseteq> set (feat_addrs g)" "tabs_s (snd g) \<subseteq> set (feat_addrs g)" "cols_s (snd g) \<subseteq> set (feat_addrs g)"
    for g
    using addrs_s_sub [of "snd g"] by (cases g; auto)+
  have "holds_only s ?gs" using assms by (simp add: st_rep_def)
  then have doms: "dom (feats s) = (\<Union>g\<in>set ?gs. {fst g})" "dom (subs s) = (\<Union>g\<in>set ?gs. set (map fst (snd g)))"
    "dom (clis s) = (\<Union>g\<in>set ?gs. clis_s (snd g))" "dom (tables s) = (\<Union>g\<in>set ?gs. tabs_s (snd g))"
    "dom (cols s) = (\<Union>g\<in>set ?gs. cols_s (snd g))"
    unfolding holds_only_def by auto
  have "dom (feats s) \<union> dom (subs s) \<union> dom (clis s) \<union> dom (tables s) \<union> dom (cols s) \<subseteq>
      (\<Union>g\<in>set ?gs. set (feat_addrs g))"
    unfolding doms by (intro Un_least UN_mono) (use parts in auto)
  with all have "dom (feats s) \<union> dom (subs s) \<union> dom (clis s) \<union> dom (tables s) \<union> dom (cols s) \<subseteq> {..<st_brk s}"
    by (rule order_trans [rotated])
  then show ?thesis using fs n d by (intro that) auto
qed

text \<open>Replacing the last sub feature of the last feature.\<close>

lemma rep_last_sub:
  assumes rep: "st_rep s (gs0 @ [(a, ss0 @ [(b, cs, ts)])]) (fs0 @ [f])" "cs_subs f = xs0 @ [x]"
    and stores: "feats s' = feats s" "st_head s' = st_head s" "subs s b = Some m" "subs s' = (subs s)(b \<mapsto> m')"
      "sub_next m' = sub_next m"
    and at: "sub_at s' (b, cs', ts') x'"
    and same: "same_at s s' ({..<st_brk s} - set (sub_addrs (b, cs, ts)))"
    and new: "distinct (sub_addrs (b, cs', ts'))" "st_brk s \<le> st_brk s'"
      "set (sub_addrs (b, cs', ts')) \<subseteq> set (sub_addrs (b, cs, ts)) \<union> {st_brk s..<st_brk s'}"
    and grow: "set cs \<subseteq> set cs'" "set (map fst ts) \<subseteq> set (map fst ts')"
      "set (concat (map snd ts)) \<subseteq> set (concat (map snd ts'))"
    and doms: "dom (clis s') = dom (clis s) \<union> set cs'" "dom (tables s') = dom (tables s) \<union> set (map fst ts')"
      "dom (cols s') = dom (cols s) \<union> set (concat (map snd ts'))"
  shows "st_rep s' (gs0 @ [(a, ss0 @ [(b, cs', ts')])]) (fs0 @ [f\<lparr>cs_subs := xs0 @ [x']\<rparr>])"
proof -
  let ?ss = "ss0 @ [(b, cs, ts)]"
  let ?B = "set (sub_addrs (b, cs, ts))"
  obtain n where n: "feats s a = Some n" "ft_name n = cs_name f" "ft_desc n = cs_desc f"
    "lpath sub_next (subs s) (p_subfeature n) (map fst ?ss)" "list_all2 (sub_at s) ?ss (cs_subs f)"
    "distinct (concat (map sub_addrs ?ss))" "set (concat (map sub_addrs ?ss)) \<subseteq> {..<st_brk s}"
    by (rule rep_split [OF rep(1)]) auto
  have len: "length ss0 = length xs0" using n(5) rep(2) by (auto dest: list_all2_lengthD)
  have dis: "set (concat (map sub_addrs ss0)) \<inter> ?B = {}" "distinct (concat (map sub_addrs ss0))"
    "set (concat (map sub_addrs ss0)) \<subseteq> {..<st_brk s}"
    using n(6,7) by (auto simp del: sub_addrs.simps)
  have s0: "same_at s s' (set (concat (map sub_addrs ss0)))"
    by (rule same_at_subset [OF same]) (use dis in blast)
  have p: "lpath sub_next (subs s') (p_subfeature n) (map fst (ss0 @ [(b, cs', ts')]))"
    unfolding stores(4) using n(4) sbl.upd_same [of "subs s" b m m', OF stores(3,5)] by simp
  have ls: "list_all2 (sub_at s) ss0 xs0" using n(5) rep(2) len by (simp add: list_all2_append)
  have fa: "feat_at s' (a, ss0 @ [(b, cs', ts')]) (f\<lparr>cs_subs := xs0 @ [x']\<rparr>)"
    using n(1-3) p subs_same(1) [OF ls s0] at stores(1)
    by (auto intro!: list_all2_appendI simp del: sub_at.simps)
  have new_dis: "distinct (concat (map sub_addrs (ss0 @ [(b, cs', ts')])))"
  proof -
    have "set (concat (map sub_addrs ss0)) \<inter> {st_brk s..<st_brk s'} = {}"
      using dis(3) by fastforce
    then have "set (concat (map sub_addrs ss0)) \<inter> set (sub_addrs (b, cs', ts')) = {}"
      using dis(1) new(3) by blast
    with dis(2) new(1) show ?thesis
      by (simp only: map_append concat_append list.map concat.simps append_Nil2 distinct_append simp_thms)
  qed
  show ?thesis
  proof (rule rep_last_feat [OF rep(1) n(1) _ refl stores(2) fa _ new_dis _ new(2)])
    show "feats s' = (feats s)(a \<mapsto> n)" using n(1) stores(1) by (simp add: map_upd_triv)
    show "same_at s s' ({..<st_brk s} - set (concat (map sub_addrs ?ss)))"
      by (rule same_at_subset [OF same]) (auto simp del: sub_addrs.simps)
    show "set (concat (map sub_addrs (ss0 @ [(b, cs', ts')]))) \<subseteq>
        set (concat (map sub_addrs ?ss)) \<union> {st_brk s..<st_brk s'}"
      using new(3) by (auto simp del: sub_addrs.simps)
    show "dom (subs s') = dom (subs s) \<union> set (map fst (ss0 @ [(b, cs', ts')]))"
      using lpath_dom [OF n(4)] stores(3,4) by auto
  qed (use grow doms rep in \<open>auto simp: st_rep_def holds_only_def\<close>)
qed

section \<open>The operations on the last sub feature\<close>

definition last_opt :: "'a list \<Rightarrow> 'a option" where
  "last_opt xs = (if xs = [] then None else Some (last xs))"

lemma last_opt_simps [simp]: "last_opt [] = None" "last_opt (xs @ [x]) = Some x"
  by (simp_all add: last_opt_def)

lemma last_opt_map: "last_opt (map f xs) = map_option f (last_opt xs)"
  by (simp add: last_opt_def last_map)

text \<open>The parser's view of a heap whose last feature is \<open>f\<close> with the last sub feature \<open>x\<close>.\<close>

definition at_sub ::
    "sts \<Rightarrow> fshape list \<Rightarrow> addr \<Rightarrow> sshape list \<Rightarrow> sshape \<Rightarrow> config_spec list \<Rightarrow> config_spec \<Rightarrow> sub_spec list \<Rightarrow> sub_spec \<Rightarrow> bool"
where
  "at_sub s gs0 a ss0 g fs0 f xs0 x \<longleftrightarrow>
     st_rep s (gs0 @ [(a, ss0 @ [g])]) (fs0 @ [f\<lparr>cs_subs := xs0 @ [x]\<rparr>])"

lemma tables_dom:
  assumes "list_all2 (table_at s) ts xs"
  shows "set (map fst ts) \<subseteq> dom (tables s)" "set (concat (map snd ts)) \<subseteq> dom (cols s)"
proof -
  have "fst g \<in> dom (tables s) \<and> set (snd g) \<subseteq> dom (cols s)" if g: "g \<in> set ts" for g
  proof -
    obtain x where "table_at s g x" using assms g by (metis in_set_conv_nth list_all2_conv_all_nth)
    then show ?thesis by (cases g) (auto dest: lpath_dom)
  qed
  then show "set (map fst ts) \<subseteq> dom (tables s)" "set (concat (map snd ts)) \<subseteq> dom (cols s)" by auto
qed

lemma at_sub_split:
  assumes "at_sub s gs0 a ss0 (b, cs, ts) fs0 f xs0 x"
  obtains m where "subs s b = Some m" "fst (sub_val m) = ss_info x"
    "lpath cli_next (clis s) (p_clicmds m) cs" "contents command (clis s) cs = ss_cmds x"
    "lpath tab_next (tables s) (p_ovstable m) (map fst ts)" "list_all2 (table_at s) ts (ss_tables x)"
    "distinct (sub_addrs (b, cs, ts))" "set (sub_addrs (b, cs, ts)) \<subseteq> {..<st_brk s}"
    "dom (clis s) \<subseteq> {..<st_brk s}" "dom (tables s) \<subseteq> {..<st_brk s}" "dom (cols s) \<subseteq> {..<st_brk s}"
proof (rule rep_split [OF assms [unfolded at_sub_def]])
  fix fs0' f' n
  assume fs: "fs0 @ [f\<lparr>cs_subs := xs0 @ [x]\<rparr>] = fs0' @ [f']"
    and l: "list_all2 (sub_at s) (ss0 @ [(b, cs, ts)]) (cs_subs f')"
    and d: "distinct (concat (map sub_addrs (ss0 @ [(b, cs, ts)])))"
      "set (concat (map sub_addrs (ss0 @ [(b, cs, ts)]))) \<subseteq> {..<st_brk s}"
      "dom (feats s) \<union> dom (subs s) \<union> dom (clis s) \<union> dom (tables s) \<union> dom (cols s) \<subseteq> {..<st_brk s}"
  from fs have "cs_subs f' = xs0 @ [x]" by auto
  with l have "list_all2 (sub_at s) (ss0 @ [(b, cs, ts)]) (xs0 @ [x])" by simp
  moreover from this have "length ss0 = length xs0" by (auto dest: list_all2_lengthD)
  ultimately have "sub_at s (b, cs, ts) x" by (simp add: list_all2_append)
  moreover have "distinct (sub_addrs (b, cs, ts))" "set (sub_addrs (b, cs, ts)) \<subseteq> {..<st_brk s}"
    using d(1,2) by (simp_all del: sub_addrs.simps)
  ultimately show thesis using d(3) by (auto intro: that simp del: sub_addrs.simps)
qed

lemma step_set_sub:
  assumes at: "at_sub s gs0 a ss0 (b, cs, ts) fs0 f xs0 x"
    and g: "\<And>m. sub_next (g m) = sub_next m" "\<And>m. sub_val (g m) = (h (fst (sub_val m)), snd (sub_val m))"
  obtains s' where "set_sub g (Some b) s = Inr (0, s')"
    "at_sub s' gs0 a ss0 (b, cs, ts) fs0 f xs0 (x\<lparr>ss_info := h (ss_info x)\<rparr>)"
proof (rule at_sub_split [OF at])
  fix m
  assume m: "subs s b = Some m" "fst (sub_val m) = ss_info x"
    "lpath cli_next (clis s) (p_clicmds m) cs" "contents command (clis s) cs = ss_cmds x"
    "lpath tab_next (tables s) (p_ovstable m) (map fst ts)" "list_all2 (table_at s) ts (ss_tables x)"
    "distinct (sub_addrs (b, cs, ts))"
  let ?s = "s\<lparr>subs := (subs s)(b \<mapsto> g m)\<rparr>" and ?x = "x\<lparr>ss_info := h (ss_info x)\<rparr>"
  have same: "same_at s ?s ({..<st_brk s} - set (sub_addrs (b, cs, ts)))"
    by (auto simp: same_at_def)
  have ts: "list_all2 (table_at ?s) ts (ss_tables x)"
    using m(6) by (rule list.rel_mono_strong) auto
  have sub: "sub_at ?s (b, cs, ts) ?x"
    using m(2-5) ts g(2) [of m] by (auto simp: sub_val_def)
  have "st_rep ?s (gs0 @ [(a, ss0 @ [(b, cs, ts)])]) (fs0 @ [f\<lparr>cs_subs := xs0 @ [x]\<rparr>\<lparr>cs_subs := xs0 @ [?x]\<rparr>])"
    using lpath_dom [OF m(3)] tables_dom [OF m(6)] m(7)
    by (intro rep_last_sub [OF at [unfolded at_sub_def] _ _ _ m(1) _ g(1) sub same]) auto
  then show thesis using m(1) by (intro that [of ?s]) (simp_all add: set_sub_def at_sub_def)
qed

lemma lpath_None_iff: "lpath nxt h p as \<Longrightarrow> p = None \<longleftrightarrow> as = []"
  by (cases as) auto

lemma step_append_cli:
  assumes at: "at_sub s gs0 a ss0 (b, cs, ts) fs0 f xs0 x"
    and l: "st_cli l = last_opt cs" "st_sub l = Some b"
    and v: "\<not> regexec showtech_pattern v" "st_calloc env (st_brk s)"
  obtains s' where "append_cli env v l s = Some (Inr (Some (l\<lparr>st_cli := Some (st_brk s)\<rparr>), s'))"
    "at_sub s' gs0 a ss0 (b, cs @ [st_brk s], ts) fs0 f xs0 (x\<lparr>ss_cmds := ss_cmds x @ [Some v]\<rparr>)"
proof (rule at_sub_split [OF at])
  fix m
  assume m: "subs s b = Some m" "fst (sub_val m) = ss_info x"
    "lpath cli_next (clis s) (p_clicmds m) cs" "contents command (clis s) cs = ss_cmds x"
    "lpath tab_next (tables s) (p_ovstable m) (map fst ts)" "list_all2 (table_at s) ts (ss_tables x)"
    "distinct (sub_addrs (b, cs, ts))" "set (sub_addrs (b, cs, ts)) \<subseteq> {..<st_brk s}" "dom (clis s) \<subseteq> {..<st_brk s}"
  let ?e = "st_brk s" and ?m = "\<lparr>command = Some v, command_failed = False, cli_next = None\<rparr>"
  have e: "?e \<notin> dom (clis s)" using m(9) by auto
  have nx: "cli_next ?m = None" by simp
  obtain h where h: "insert_after cli_next (\<lambda>p n. n\<lparr>cli_next := p\<rparr>) (if cs = [] then None else Some (last cs)) ?e ?m (clis s) = Inr h"
    "lpath cli_next h (if p_clicmds m = None then Some ?e else p_clicmds m) (cs @ [?e])"
    "contents command h (cs @ [?e]) = contents command (clis s) cs @ [command ?m]"
    "\<And>x. x \<notin> set cs \<Longrightarrow> x \<noteq> ?e \<Longrightarrow> h x = clis s x" "dom h = insert ?e (dom (clis s))"
    by (rule cll.insert_last_contents [OF m(3) e nx]) (rule that)
  let ?p = "if p_clicmds m = None then Some ?e else p_clicmds m"
  let ?s = "s\<lparr>st_brk := Suc ?e, clis := h, subs := (subs s)(b \<mapsto> m\<lparr>p_clicmds := ?p\<rparr>)\<rparr>"
  let ?x = "x\<lparr>ss_cmds := ss_cmds x @ [Some v]\<rparr>"
  have same: "p_clicmds m = Some y \<Longrightarrow>
      s\<lparr>st_brk := k, clis := h, subs := (subs s)(b \<mapsto> m\<lparr>p_clicmds := Some y\<rparr>)\<rparr> = s\<lparr>st_brk := k, clis := h\<rparr>" for y k
    using m(1) by (cases s; cases m) (auto simp: map_upd_triv)
  have run: "append_cli env v l s = Some (Inr (Some (l\<lparr>st_cli := Some ?e\<rparr>), ?s))"
    using h(1) [folded last_opt_def] m(1) l v same
    by (cases "p_clicmds m") (simp_all add: append_cli_def add_clicmds_def st_alloc_def)
  have "same_at s ?s ({..<st_brk s} - set (sub_addrs (b, cs, ts)))"
    using h(4) by (auto simp: same_at_def)
  moreover have "sub_at ?s (b, cs @ [?e], ts) ?x"
  proof -
    have "list_all2 (table_at ?s) ts (ss_tables x)"
      using m(6) by (rule list.rel_mono_strong) auto
    then show ?thesis using m(2,4,5) h(2,3) by (simp add: sub_val_def)
  qed
  moreover have "distinct (sub_addrs (b, cs @ [?e], ts))"
  proof -
    have "?e \<notin> set (sub_addrs (b, cs, ts))" using m(8) by blast
    with m(7) show ?thesis by auto
  qed
  ultimately have "st_rep ?s (gs0 @ [(a, ss0 @ [(b, cs @ [?e], ts)])])
      (fs0 @ [f\<lparr>cs_subs := xs0 @ [x]\<rparr>\<lparr>cs_subs := xs0 @ [?x]\<rparr>])"
    using lpath_dom [OF m(3)] tables_dom [OF m(6)] h(5) m(1)
    by (intro rep_last_sub [OF at [unfolded at_sub_def], where m = m and m' = "m\<lparr>p_clicmds := ?p\<rparr>"]) auto
  with run show thesis by (intro that [of ?s]) (simp_all add: at_sub_def)
qed

lemma step_append_table:
  assumes at: "at_sub s gs0 a ss0 (b, cs, ts) fs0 f xs0 x"
    and l: "st_table l = last_opt (map fst ts)" "st_sub l = Some b" and v: "st_calloc env (st_brk s)"
  obtains s' where "append_table env l s = Some (Inr (Some (l\<lparr>st_table := Some (st_brk s)\<rparr>), s'))"
    "at_sub s' gs0 a ss0 (b, cs, ts @ [(st_brk s, [])]) fs0 f xs0
       (x\<lparr>ss_tables := ss_tables x @ [\<lparr>ts_name = None, ts_cols = []\<rparr>]\<rparr>)"
proof (rule at_sub_split [OF at])
  fix m
  assume m: "subs s b = Some m" "fst (sub_val m) = ss_info x"
    "lpath cli_next (clis s) (p_clicmds m) cs" "contents command (clis s) cs = ss_cmds x"
    "lpath tab_next (tables s) (p_ovstable m) (map fst ts)" "list_all2 (table_at s) ts (ss_tables x)"
    "distinct (sub_addrs (b, cs, ts))" "set (sub_addrs (b, cs, ts)) \<subseteq> {..<st_brk s}" "dom (tables s) \<subseteq> {..<st_brk s}"
  let ?e = "st_brk s" and ?m = "\<lparr>tablename = None, p_colmname = None, tab_next = None\<rparr>"
  have e: "?e \<notin> dom (tables s)" using m(9) by auto
  have nx: "tab_next ?m = None" by simp
  obtain h where h: "insert_after tab_next (\<lambda>p n. n\<lparr>tab_next := p\<rparr>) (if map fst ts = [] then None else Some (last (map fst ts))) ?e ?m (tables s) = Inr h"
    "lpath tab_next h (if p_ovstable m = None then Some ?e else p_ovstable m) (map fst ts @ [?e])"
    "contents table_val h (map fst ts @ [?e]) = contents table_val (tables s) (map fst ts) @ [table_val ?m]"
    "\<And>x. x \<notin> set (map fst ts) \<Longrightarrow> x \<noteq> ?e \<Longrightarrow> h x = tables s x" "dom h = insert ?e (dom (tables s))"
    by (rule tbl.insert_last_contents [OF m(5) e nx]) (rule that)
  let ?p = "if p_ovstable m = None then Some ?e else p_ovstable m"
  let ?s = "s\<lparr>st_brk := Suc ?e, tables := h, subs := (subs s)(b \<mapsto> m\<lparr>p_ovstable := ?p\<rparr>)\<rparr>"
  let ?x = "x\<lparr>ss_tables := ss_tables x @ [\<lparr>ts_name = None, ts_cols = []\<rparr>]\<rparr>"
  have same: "p_ovstable m = Some y \<Longrightarrow>
      s\<lparr>st_brk := k, tables := h, subs := (subs s)(b \<mapsto> m\<lparr>p_ovstable := Some y\<rparr>)\<rparr> = s\<lparr>st_brk := k, tables := h\<rparr>" for y k
    using m(1) by (cases s; cases m) (auto simp: map_upd_triv)
  have run: "append_table env l s = Some (Inr (Some (l\<lparr>st_table := Some ?e\<rparr>), ?s))"
    using h(1) [folded last_opt_def] m(1) l v same
    by (cases "p_ovstable m") (simp_all add: append_table_def add_ovstable_def st_alloc_def)
  have "same_at s ?s ({..<st_brk s} - set (sub_addrs (b, cs, ts)))"
    using h(4) tab_addrs_parts by (fastforce simp: same_at_def)
  moreover have "sub_at ?s (b, cs, ts @ [(?e, [])]) ?x"
  proof -
    have "list_all2 (table_at ?s) ts (ss_tables x)"
      using m(6)
    proof (rule list.rel_mono_strong)
      fix g y
      assume g: "g \<in> set ts" "table_at s g y"
      obtain t ks where tk: "g = (t, ks)" by (cases g)
      have "t \<in> dom h" using g tk h(5) by auto
      then obtain n' where n': "h t = Some n'" by auto
      have "table_val (the (h t)) = table_val (the (tables s t))"
        using h(3) g(1) tk by (force simp: contents_def)
      with n' g(2) tk show "table_at ?s g y"
        by (intro table_at_val [of s t ks y ?s n', folded tk]) (simp_all add: same_at_def)
    qed
    moreover obtain k where "h ?e = Some k" using h(5) by blast
    then have "table_at ?s (?e, []) \<lparr>ts_name = None, ts_cols = []\<rparr>"
      using h(3) by (auto simp: table_val_def)
    ultimately show ?thesis using m(2,3,4) h(2) by (simp add: sub_val_def list_all2_appendI)
  qed
  moreover have "distinct (sub_addrs (b, cs, ts @ [(?e, [])]))"
  proof -
    have "?e \<notin> set (sub_addrs (b, cs, ts))" using m(8) by blast
    with m(7) show ?thesis by auto
  qed
  ultimately have "st_rep ?s (gs0 @ [(a, ss0 @ [(b, cs, ts @ [(?e, [])])])])
      (fs0 @ [f\<lparr>cs_subs := xs0 @ [x]\<rparr>\<lparr>cs_subs := xs0 @ [?x]\<rparr>])"
    using lpath_dom [OF m(3)] tables_dom [OF m(6)] h(5) m(1)
    by (intro rep_last_sub [OF at [unfolded at_sub_def], where m = m and m' = "m\<lparr>p_ovstable := ?p\<rparr>"]) auto
  with run show thesis by (intro that [of ?s]) (simp_all add: at_sub_def)
qed

text \<open>Replacing the last table of the last sub feature.\<close>

lemma at_table_split:
  assumes "at_sub s gs0 a ss0 (b, cs, ts0 @ [(t, ks)]) fs0 f xs0 x" "ss_tables x = ys0 @ [y]"
  obtains n where "tables s t = Some n" "tablename n = ts_name y" "lpath col_next (cols s) (p_colmname n) ks"
    "contents col_name (cols s) ks = ts_cols y" "list_all2 (table_at s) ts0 ys0"
    "distinct (concat (map tab_addrs (ts0 @ [(t, ks)])))"
    "set (concat (map tab_addrs (ts0 @ [(t, ks)]))) \<subseteq> {..<st_brk s}" "dom (cols s) \<subseteq> {..<st_brk s}"
proof (rule at_sub_split [OF assms(1)])
  assume l: "list_all2 (table_at s) (ts0 @ [(t, ks)]) (ss_tables x)"
    and d: "distinct (sub_addrs (b, cs, ts0 @ [(t, ks)]))" "set (sub_addrs (b, cs, ts0 @ [(t, ks)])) \<subseteq> {..<st_brk s}"
      "dom (cols s) \<subseteq> {..<st_brk s}"
  have "length ts0 = length ys0" using l assms(2) by (auto dest: list_all2_lengthD)
  with l assms(2) have "table_at s (t, ks) y" "list_all2 (table_at s) ts0 ys0"
    by (simp_all add: list_all2_append)
  moreover obtain n where "tables s t = Some n" "tablename n = ts_name y" "lpath col_next (cols s) (p_colmname n) ks"
    "contents col_name (cols s) ks = ts_cols y"
    using calculation(1) by auto
  moreover have "distinct (concat (map tab_addrs (ts0 @ [(t, ks)])))"
    "set (concat (map tab_addrs (ts0 @ [(t, ks)]))) \<subseteq> {..<st_brk s}"
    using d(1,2) by auto
  ultimately show thesis using d(3) by (intro that)
qed

lemma rep_last_table:
  assumes at: "at_sub s gs0 a ss0 (b, cs, ts0 @ [(t, ks)]) fs0 f xs0 x" "ss_tables x = ys0 @ [y]"
    and n: "tables s t = Some n" "tab_next n' = tab_next n"
    and s': "s' = s\<lparr>tables := (tables s)(t \<mapsto> n'), cols := h, st_brk := k\<rparr>"
    and ta: "table_at s' (t, ks') y'"
    and frame: "\<And>z. z \<notin> set ks \<Longrightarrow> z < st_brk s \<Longrightarrow> h z = cols s z"
    and new: "distinct (t # ks')" "set ks' \<subseteq> set ks \<union> {st_brk s..<k}" "set ks \<subseteq> set ks'" "st_brk s \<le> k"
    and dm: "dom h = dom (cols s) \<union> set ks'"
  shows "at_sub s' gs0 a ss0 (b, cs, ts0 @ [(t, ks')]) fs0 f xs0 (x\<lparr>ss_tables := ys0 @ [y']\<rparr>)"
proof (rule at_sub_split [OF at(1)])
  fix m
  assume m: "subs s b = Some m" "fst (sub_val m) = ss_info x"
    "lpath cli_next (clis s) (p_clicmds m) cs" "contents command (clis s) cs = ss_cmds x"
    "lpath tab_next (tables s) (p_ovstable m) (map fst (ts0 @ [(t, ks)]))"
    "list_all2 (table_at s) (ts0 @ [(t, ks)]) (ss_tables x)"
    "distinct (sub_addrs (b, cs, ts0 @ [(t, ks)]))" "set (sub_addrs (b, cs, ts0 @ [(t, ks)])) \<subseteq> {..<st_brk s}"
  let ?x = "x\<lparr>ss_tables := ys0 @ [y']\<rparr>"
  have l0: "list_all2 (table_at s) ts0 ys0" by (rule at_table_split [OF at])
  have dis: "t \<notin> set (concat (map tab_addrs ts0))" "set ks \<inter> set (concat (map tab_addrs ts0)) = {}"
    "set (concat (map tab_addrs ts0)) \<subseteq> {..<st_brk s}" "b \<noteq> t" "b < st_brk s" "t < st_brk s"
    "set cs \<subseteq> {..<st_brk s}" "t \<notin> set cs" "set cs \<inter> set ks = {}" "b \<notin> set ks"
    using m(7,8) by auto
  have "same_at s s' (set (concat (map tab_addrs ts0)))"
  proof -
    have "z \<noteq> t \<and> h z = cols s z" if "z \<in> set (concat (map tab_addrs ts0))" for z
      using that dis(1-3) frame [of z] by blast
    then show ?thesis by (simp add: same_at_def s' del: set_map set_concat)
  qed
  note ts0 = tables_same(1) [OF l0 this]
  have "lpath tab_next (tables s') (p_ovstable m) (map fst (ts0 @ [(t, ks')]))"
    using m(5) tbl.upd_same [of "tables s" t n n'] n by (simp add: s')
  with ts0 ta m(1-4) have sub: "sub_at s' (b, cs, ts0 @ [(t, ks')]) ?x"
    by (auto simp: s' list_all2_appendI simp del: table_at.simps)
  have same: "same_at s s' ({..<st_brk s} - set (sub_addrs (b, cs, ts0 @ [(t, ks)])))"
    using frame by (auto simp: same_at_def s')
  have "set ks' \<inter> set (concat (map tab_addrs ts0)) = {}" "set ks' \<inter> insert b (set cs) = {}"
    using new(2) dis by (fastforce simp del: set_concat)+
  with m(7) new(1) have "distinct (sub_addrs (b, cs, ts0 @ [(t, ks')]))" by auto
  then have "st_rep s' (gs0 @ [(a, ss0 @ [(b, cs, ts0 @ [(t, ks')])])])
      (fs0 @ [f\<lparr>cs_subs := xs0 @ [x]\<rparr>\<lparr>cs_subs := xs0 @ [?x]\<rparr>])"
    using lpath_dom [OF m(3)] tables_dom [OF m(6)] m(1) n(1) dm new
    by (intro rep_last_sub [OF at(1) [unfolded at_sub_def] _ _ _ m(1) _ refl sub same])
      (auto simp: s' map_upd_triv)
  then show ?thesis by (simp add: at_sub_def)
qed

lemma step_table_name:
  assumes at: "at_sub s gs0 a ss0 (b, cs, ts0 @ [(t, ks)]) fs0 f xs0 x" "ss_tables x = ys0 @ [y]"
  obtains s' where "add_ovstable_name (Some t) (Some v) s = Inr (0, s')"
    "at_sub s' gs0 a ss0 (b, cs, ts0 @ [(t, ks)]) fs0 f xs0 (x\<lparr>ss_tables := ys0 @ [y\<lparr>ts_name := Some v\<rparr>]\<rparr>)"
proof (rule at_table_split [OF at])
  fix n
  assume n: "tables s t = Some n" "lpath col_next (cols s) (p_colmname n) ks"
    "contents col_name (cols s) ks = ts_cols y" "distinct (concat (map tab_addrs (ts0 @ [(t, ks)])))"
  let ?n = "n\<lparr>tablename := Some v\<rparr>"
  let ?s = "s\<lparr>tables := (tables s)(t \<mapsto> ?n), cols := cols s, st_brk := st_brk s\<rparr>"
  have "at_sub ?s gs0 a ss0 (b, cs, ts0 @ [(t, ks)]) fs0 f xs0 (x\<lparr>ss_tables := ys0 @ [y\<lparr>ts_name := Some v\<rparr>]\<rparr>)"
    using n lpath_dom [OF n(2)] by (intro rep_last_table [OF at n(1) _ refl]) auto
  with n(1) show thesis by (intro that [of ?s]) (simp_all add: add_ovstable_name_def)
qed

lemma step_col_name:
  assumes at: "at_sub s gs0 a ss0 (b, cs, ts0 @ [(t, ks)]) fs0 f xs0 x" "ss_tables x = ys0 @ [y]"
    and l: "st_table l = Some t" "st_col l = last_opt ks" and v: "st_calloc env (st_brk s)"
  obtains s' where "on_col_name env v l s = Some (Inr (Some (l\<lparr>st_col := Some (st_brk s)\<rparr>), s'))"
    "at_sub s' gs0 a ss0 (b, cs, ts0 @ [(t, ks @ [st_brk s])]) fs0 f xs0
      (x\<lparr>ss_tables := ys0 @ [y\<lparr>ts_cols := ts_cols y @ [Some v]\<rparr>]\<rparr>)"
proof (rule at_table_split [OF at])
  fix n
  assume n: "tables s t = Some n" "tablename n = ts_name y" "lpath col_next (cols s) (p_colmname n) ks"
    "contents col_name (cols s) ks = ts_cols y" "distinct (concat (map tab_addrs (ts0 @ [(t, ks)])))"
    "set (concat (map tab_addrs (ts0 @ [(t, ks)]))) \<subseteq> {..<st_brk s}" "dom (cols s) \<subseteq> {..<st_brk s}"
  let ?e = "st_brk s" and ?m = "\<lparr>col_name = Some v, col_next = None\<rparr>"
  have e: "?e \<notin> dom (cols s)" using n(7) by auto
  have nx: "col_next ?m = None" by simp
  obtain h where h: "insert_after col_next (\<lambda>p n. n\<lparr>col_next := p\<rparr>) (if ks = [] then None else Some (last ks)) ?e ?m (cols s) = Inr h"
    "lpath col_next h (if p_colmname n = None then Some ?e else p_colmname n) (ks @ [?e])"
    "contents col_name h (ks @ [?e]) = contents col_name (cols s) ks @ [col_name ?m]"
    "\<And>x. x \<notin> set ks \<Longrightarrow> x \<noteq> ?e \<Longrightarrow> h x = cols s x" "dom h = insert ?e (dom (cols s))"
    by (rule col.insert_last_contents [OF n(3) e nx]) (rule that)
  let ?p = "if p_colmname n = None then Some ?e else p_colmname n"
  let ?n = "n\<lparr>p_colmname := ?p\<rparr>"
  let ?s = "s\<lparr>tables := (tables s)(t \<mapsto> ?n), cols := h, st_brk := Suc ?e\<rparr>"
  have same: "p_colmname n = Some z \<Longrightarrow>
      s\<lparr>tables := (tables s)(t \<mapsto> n\<lparr>p_colmname := Some z\<rparr>), cols := h, st_brk := k\<rparr> = s\<lparr>st_brk := k, cols := h\<rparr>" for z k
    using n(1) by (cases s; cases n) (auto simp: map_upd_triv)
  have run: "on_col_name env v l s = Some (Inr (Some (l\<lparr>st_col := Some ?e\<rparr>), ?s))"
    using h(1) [folded last_opt_def] n(1) l v same
    by (cases "p_colmname n") (simp_all add: on_col_name_def add_ovscolumn_def st_alloc_def)
  have "?e \<notin> insert t (set ks)" "distinct (t # ks)" using n(5,6) by auto
  then have "at_sub ?s gs0 a ss0 (b, cs, ts0 @ [(t, ks @ [?e])]) fs0 f xs0
      (x\<lparr>ss_tables := ys0 @ [y\<lparr>ts_cols := ts_cols y @ [Some v]\<rparr>]\<rparr>)"
    using n h lpath_dom [OF n(3)] by (intro rep_last_table [OF at n(1) _ refl]) auto
  with run show thesis by (rule that)
qed

section \<open>The operations on the last feature\<close>

abbreviation blank_sub :: sub_spec where
  "blank_sub \<equiv> \<lparr>ss_info = (None, None, False, False, False), ss_cmds = [], ss_tables = []\<rparr>"

lemma distinct_concat_map_disjoint:
  "distinct (concat (map f xs)) \<Longrightarrow> y \<in> set xs \<Longrightarrow> z \<in> set xs \<Longrightarrow> y \<noteq> z \<Longrightarrow> set (f y) \<inter> set (f z) = {}"
  by (induction xs) auto

lemma distinct_concat_map_in: "distinct (concat (map f xs)) \<Longrightarrow> y \<in> set xs \<Longrightarrow> distinct (f y)"
  by (induction xs) auto

lemma step_append_sub:
  assumes rep: "st_rep s (gs0 @ [(a, ss)]) (fs0 @ [f])" and v: "st_calloc env (st_brk s)"
  obtains s1 s' where "add_subfeature env (last_opt (map fst ss)) s = Inr (Some (st_brk s), s1)"
    "link_sub (Some a) (Some (st_brk s)) s1 = Inr s'" "s' = s1\<lparr>feats := feats s'\<rparr>"
    "at_sub s' gs0 a ss (st_brk s, [], []) fs0 f (cs_subs f) blank_sub"
proof (rule rep_split [OF rep])
  fix fs0' f' n
  assume fs: "fs0 @ [f] = fs0' @ [f']" and n: "feats s a = Some n" "ft_name n = cs_name f'" "ft_desc n = cs_desc f'"
    "lpath sub_next (subs s) (p_subfeature n) (map fst ss)" "list_all2 (sub_at s) ss (cs_subs f')"
    "distinct (concat (map sub_addrs ss))" "set (concat (map sub_addrs ss)) \<subseteq> {..<st_brk s}"
    "dom (feats s) \<union> dom (subs s) \<union> dom (clis s) \<union> dom (tables s) \<union> dom (cols s) \<subseteq> {..<st_brk s}"
  have f': "f' = f" using fs by simp
  let ?e = "st_brk s" and ?m = "\<lparr>sub_name = None, sub_desc = None, no_sta_support = False, support_stb = False,
            is_dummy = False, p_clicmds = None, p_ovstable = None, sub_next = None\<rparr>"
  have e: "?e \<notin> dom (subs s)" using n(8) by auto
  have nx: "sub_next ?m = None" by simp
  obtain h where h: "insert_after sub_next (\<lambda>p n. n\<lparr>sub_next := p\<rparr>) (if map fst ss = [] then None else Some (last (map fst ss))) ?e ?m (subs s) = Inr h"
    "lpath sub_next h (if p_subfeature n = None then Some ?e else p_subfeature n) (map fst ss @ [?e])"
    "contents sub_val h (map fst ss @ [?e]) = contents sub_val (subs s) (map fst ss) @ [sub_val ?m]"
    "\<And>x. x \<notin> set (map fst ss) \<Longrightarrow> x \<noteq> ?e \<Longrightarrow> h x = subs s x" "dom h = insert ?e (dom (subs s))"
    by (rule sbl.insert_last_contents [OF n(4) e nx]) (rule that)
  let ?p = "if p_subfeature n = None then Some ?e else p_subfeature n"
  let ?n = "n\<lparr>p_subfeature := ?p\<rparr>"
  let ?s1 = "s\<lparr>st_brk := Suc ?e, subs := h\<rparr>"
  let ?s = "s\<lparr>st_brk := Suc ?e, subs := h, feats := (feats s)(a \<mapsto> ?n)\<rparr>"
  have same: "p_subfeature n = Some y \<Longrightarrow>
      s\<lparr>st_brk := k, subs := h, feats := (feats s)(a \<mapsto> n\<lparr>p_subfeature := Some y\<rparr>)\<rparr> = s\<lparr>st_brk := k, subs := h\<rparr>" for y k
    using n(1) by (cases s; cases n) (auto simp: map_upd_triv)
  have add: "add_subfeature env (last_opt (map fst ss)) s = Inr (Some ?e, ?s1)"
    using h(1) [folded last_opt_def] v by (simp add: add_subfeature_def st_alloc_def)
  have link: "link_sub (Some a) (Some ?e) ?s1 = Inr ?s"
    using n(1) same by (cases "p_subfeature n") (simp_all add: link_sub_def)
  have fe: "feats ?s = (feats s)(a \<mapsto> ?n)" by simp
  have fa: "feat_at ?s (a, ss @ [(?e, [], [])]) (f\<lparr>cs_subs := cs_subs f @ [blank_sub]\<rparr>)"
  proof -
    have "list_all2 (sub_at ?s) ss (cs_subs f)"
      using n(5) unfolding f'
    proof (rule list.rel_mono_strong)
      fix g y
      assume g: "g \<in> set ss" "sub_at s g y"
      obtain b cs ts where b: "g = (b, cs, ts)" by (cases g)
      have "b \<in> dom h" using g b h(5) by auto
      then obtain m where m: "h b = Some m" by auto
      have "sub_val (the (h b)) = sub_val (the (subs s b))"
        using h(3) g(1) b by (force simp: contents_def)
      moreover have "x \<noteq> ?e \<and> x \<notin> set (map fst ss)" if "x \<in> set cs \<union> set (concat (map tab_addrs ts))" for x
      proof -
        have sub: "x \<in> set (concat (map sub_addrs ss))" using that g(1) b by force
        have xg: "x \<in> set (sub_addrs (b, cs, ts))" "x \<noteq> b"
          using that distinct_concat_map_in [OF n(6) g(1)] b by auto
        have "fst z \<noteq> x" if z: "z \<in> set ss" for z
        proof (cases "z = g")
          case False
          have "fst z \<in> set (sub_addrs z)" by (cases z) simp
          with distinct_concat_map_disjoint [OF n(6) z g(1) False] xg b show ?thesis by blast
        qed (use xg b in simp)
        with sub n(7) show ?thesis by force
      qed
      ultimately show "sub_at ?s g y"
        using m g(2) b by (intro sub_at_val [of s b cs ts y ?s m, folded b]) (auto simp: same_at_def h(4))
    qed
    moreover obtain k where "h ?e = Some k" using h(5) by blast
    then have "sub_at ?s (?e, [], []) blank_sub"
      using h(3) by (auto simp: sub_val_def)
    ultimately show ?thesis using n(2,3) h(2) by (simp add: f' list_all2_appendI)
  qed
  have "st_rep ?s (gs0 @ [(a, ss @ [(?e, [], [])])]) (fs0 @ [f\<lparr>cs_subs := cs_subs f @ [blank_sub]\<rparr>])"
  proof (rule rep_last_feat [OF rep n(1) fe _ _ fa])
    show "same_at s ?s ({..<?e} - set (concat (map sub_addrs ss)))"
    proof -
      have "x \<notin> set (map fst ss)" if "x \<notin> set (concat (map sub_addrs ss))" for x
        using that by (force simp: image_iff)
      then show ?thesis by (auto simp: same_at_def h(4))
    qed
    show "distinct (concat (map sub_addrs (ss @ [(?e, [], [])])))" using n(6,7) by auto
    show "dom (subs ?s) = dom (subs s) \<union> set (map fst (ss @ [(?e, [], [])]))"
      using h(5) lpath_dom [OF n(4)] by auto
  qed (use rep in \<open>auto simp: st_rep_def holds_only_def\<close>)
  with add link show thesis by (intro that [of ?s1 ?s]) (simp_all add: at_sub_def)
qed

lemma step_set_feat:
  assumes rep: "st_rep s (gs0 @ [(a, ss)]) (fs0 @ [f])"
  shows "\<exists>s'. add_feature_name (Some a) (Some v) s = Inr (0, s') \<and>
      st_rep s' (gs0 @ [(a, ss)]) (fs0 @ [f\<lparr>cs_name := Some v\<rparr>])"
    and "\<exists>s'. add_feature_desc (Some a) (Some v) s = Inr (0, s') \<and>
      st_rep s' (gs0 @ [(a, ss)]) (fs0 @ [f\<lparr>cs_desc := Some v\<rparr>])"
proof -
  obtain n where n: "feats s a = Some n" "feat_at s (a, ss) f"
  proof (rule rep_split [OF rep])
    fix fs0' f' n
    assume "fs0 @ [f] = fs0' @ [f']" "feats s a = Some n" "ft_name n = cs_name f'" "ft_desc n = cs_desc f'"
      "lpath sub_next (subs s) (p_subfeature n) (map fst ss)" "list_all2 (sub_at s) ss (cs_subs f')"
    then show thesis by (intro that [of n]) auto
  qed
  have upd: "st_rep (s\<lparr>feats := (feats s)(a \<mapsto> n')\<rparr>) (gs0 @ [(a, ss)]) (fs0 @ [f'])"
    if "ft_next n' = ft_next n" "p_subfeature n' = p_subfeature n" "ft_name n' = cs_name f'" "ft_desc n' = cs_desc f'"
      "cs_subs f' = cs_subs f" for n' f'
  proof -
    let ?s = "s\<lparr>feats := (feats s)(a \<mapsto> n')\<rparr>"
    have "same_at s ?s (set (concat (map sub_addrs ss)))" by (simp add: same_at_def)
    note sub = subs_same(1) [OF _ this]
    have fa: "feat_at ?s (a, ss) f'" using n that sub by auto
    have fe: "feats ?s = (feats s)(a \<mapsto> n')" by simp
    show ?thesis
      using rep by (intro rep_last_feat [OF rep n(1) fe that(1) _ fa])
        (auto simp: st_rep_def holds_only_def same_at_def)
  qed
  show "\<exists>s'. add_feature_name (Some a) (Some v) s = Inr (0, s') \<and>
      st_rep s' (gs0 @ [(a, ss)]) (fs0 @ [f\<lparr>cs_name := Some v\<rparr>])"
    using n upd [of "n\<lparr>ft_name := Some v\<rparr>" "f\<lparr>cs_name := Some v\<rparr>"] by (simp add: add_feature_name_def)
  show "\<exists>s'. add_feature_desc (Some a) (Some v) s = Inr (0, s') \<and>
      st_rep s' (gs0 @ [(a, ss)]) (fs0 @ [f\<lparr>cs_desc := Some v\<rparr>])"
    using n upd [of "n\<lparr>ft_desc := Some v\<rparr>" "f\<lparr>cs_desc := Some v\<rparr>"] by (simp add: add_feature_desc_def)
qed

abbreviation blank_feature :: config_spec where
  "blank_feature \<equiv> \<lparr>cs_name = None, cs_desc = None, cs_subs = []\<rparr>"

lemma step_append_feature:
  assumes rep: "st_rep s gs fs" and v: "st_calloc env (st_brk s)" and l: "st_feat l = last_opt (map fst gs)"
  obtains s' where "on_feature_key env l s = Some (Inr (Some (l\<lparr>st_state := FEATURE, st_feat := Some (st_brk s),
      st_sub := None, st_cli := None, st_table := None, st_col := None\<rparr>), s'))"
    "st_rep s' (gs @ [(st_brk s, [])]) (fs @ [blank_feature])"
proof -
  let ?e = "st_brk s" and ?m = "\<lparr>ft_name = None, ft_desc = None, p_subfeature = None, ft_next = None\<rparr>"
  have R: "lpath ft_next (feats s) (st_head s) (map fst gs)" "list_all2 (feat_at s) gs fs"
    "distinct (all_addrs gs)" "holds_only s gs" "set (all_addrs gs) \<subseteq> {..<st_brk s}"
    using rep by (simp_all add: st_rep_def)
  have fst_in: "fst g \<in> set (feat_addrs g)" for g by (cases g) simp
  have "dom (feats s) \<subseteq> set (all_addrs gs)"
  proof
    fix x
    assume "x \<in> dom (feats s)"
    then obtain g where "g \<in> set gs" "x = fst g" using R(4) by (auto simp: holds_only_def)
    with fst_in [of g] show "x \<in> set (all_addrs gs)" by auto
  qed
  then have "dom (feats s) \<subseteq> {..<?e}" using R(5) by (rule order_trans)
  then have e: "?e \<notin> dom (feats s)" by auto
  have nx: "ft_next ?m = None" by simp
  obtain h where h: "insert_after ft_next (\<lambda>p n. n\<lparr>ft_next := p\<rparr>) (if map fst gs = [] then None else Some (last (map fst gs))) ?e ?m (feats s) = Inr h"
    "lpath ft_next h (if st_head s = None then Some ?e else st_head s) (map fst gs @ [?e])"
    "contents feat_val h (map fst gs @ [?e]) = contents feat_val (feats s) (map fst gs) @ [feat_val ?m]"
    "\<And>x. x \<notin> set (map fst gs) \<Longrightarrow> x \<noteq> ?e \<Longrightarrow> h x = feats s x" "dom h = insert ?e (dom (feats s))"
    by (rule ftl.insert_last_contents [OF R(1) e nx]) (rule that)
  define hd where hd: "hd = (if st_head s = None then Some ?e else st_head s)"
  let ?s = "s\<lparr>st_brk := Suc ?e, feats := h, st_head := hd\<rparr>"
  have run: "on_feature_key env l s = Some (Inr (Some (l\<lparr>st_state := FEATURE, st_feat := Some ?e,
      st_sub := None, st_cli := None, st_table := None, st_col := None\<rparr>), ?s))"
    using h(1) [folded last_opt_def] v l
    by (cases s) (simp add: on_feature_key_def add_feature_def st_alloc_def hd)
  have "list_all2 (feat_at ?s) gs fs"
    using R(2)
  proof (rule list.rel_mono_strong)
    fix g y
    assume g: "g \<in> set gs" "feat_at s g y"
    obtain a ss where as: "g = (a, ss)" by (cases g)
    have "a \<in> dom h" using g(2) as h(5) by auto
    then obtain n where n: "h a = Some n" by auto
    have "feat_val (the (h a)) = feat_val (the (feats s a))"
      using h(3) g(1) as by (force simp: contents_def)
    with n g(2) as show "feat_at ?s g y"
      by (intro feat_at_val [of s a ss y ?s n, folded as]) (simp_all add: same_at_def)
  qed
  moreover obtain k where "h ?e = Some k" using h(5) by blast
  then have "feat_at ?s (?e, []) blank_feature" using h(3) by (auto simp: feat_val_def)
  ultimately have "st_rep ?s (gs @ [(?e, [])]) (fs @ [blank_feature])"
    using R h(2,5) [folded hd] by (auto simp: st_rep_def holds_only_def list_all2_appendI)
  with run show thesis by (rule that)
qed

definition empty_heap :: "sts \<Rightarrow> bool" where
  "empty_heap s \<longleftrightarrow> st_head s = None \<and> feats s = Map.empty \<and> subs s = Map.empty \<and> clis s = Map.empty \<and>
     tables s = Map.empty \<and> cols s = Map.empty"

lemma feats_same_stores:
  assumes "list_all2 (feat_at s) gs fs" "feats s' = feats s" "subs s' = subs s" "clis s' = clis s"
    "tables s' = tables s" "cols s' = cols s"
  shows "list_all2 (feat_at s') gs fs"
  using assms(1)
proof (rule list.rel_mono_strong)
  fix g y
  assume "feat_at s g y"
  then show "feat_at s' g y" by (rule feat_at_same) (simp_all add: same_at_def assms)
qed

lemma free_rep:
  assumes "st_rep s gs fs"
  obtains s' where "free_show_tech_config s = Some (Inr s')" "empty_heap s'" "st_brk s' = st_brk s"
proof -
  let ?s = "s\<lparr>st_head := None\<rparr>"
  have l: "list_all2 (feat_at ?s) gs fs"
    by (rule feats_same_stores [of s]) (use assms in \<open>simp_all add: st_rep_def\<close>)
  have p: "lpath ft_next (feats ?s) (st_head s) (map fst gs)" and d: "distinct (all_addrs gs)"
    using assms by (simp_all add: st_rep_def)
  note path = free_features_path [OF p l d]
  obtain s' where s': "free_features (st_head s) ?s = Some (Inr s')" "st_head s' = st_head ?s"
    "st_brk s' = st_brk ?s"
    "dom (feats s') = dom (feats ?s) - set (map fst gs)"
    "dom (subs s') = dom (subs ?s) - set (concat (map (\<lambda>g. map fst (snd g)) gs))"
    "dom (clis s') = dom (clis ?s) - (\<Union>g\<in>set gs. clis_s (snd g))"
    "dom (tables s') = dom (tables ?s) - (\<Union>g\<in>set gs. tabs_s (snd g))"
    "dom (cols s') = dom (cols ?s) - (\<Union>g\<in>set gs. cols_s (snd g))"
    using path by (elim exE conjE) (rule that)
  have H: "holds_only s gs" using assms by (simp add: st_rep_def)
  have "dom (feats s') = {}" "dom (subs s') = {}" "dom (clis s') = {}" "dom (tables s') = {}" "dom (cols s') = {}"
    unfolding s'(4-8) using H unfolding holds_only_def by (simp_all del: set_map set_concat)
  then have "empty_heap s'" using s'(2) unfolding empty_heap_def dom_eq_empty_conv by simp
  with s' show ?thesis
    by (intro that [of s']) (simp_all add: free_show_tech_config_def free_feature_data_def)
qed

lemma clean_up_rep:
  assumes "st_rep s gs fs"
  shows "\<exists>s'. clean_up s = Some (Inr (None, s')) \<and> empty_heap s'"
proof -
  obtain s' where "free_show_tech_config s = Some (Inr s')" "empty_heap s'" by (rule free_rep [OF assms])
  then show ?thesis by (simp add: clean_up_def)
qed

lemma rep_brk:
  assumes "st_rep s gs fs"
  shows "st_rep (s\<lparr>st_brk := Suc (st_brk s)\<rparr>) gs fs"
proof -
  let ?s = "s\<lparr>st_brk := Suc (st_brk s)\<rparr>"
  have "list_all2 (feat_at ?s) gs fs"
    by (rule feats_same_stores [of s]) (use assms in \<open>simp_all add: st_rep_def\<close>)
  moreover have "set (all_addrs gs) \<subseteq> {..<st_brk ?s}"
  proof (rule order_trans)
    show "set (all_addrs gs) \<subseteq> {..<st_brk s}" using assms by (simp add: st_rep_def)
    show "{..<st_brk s} \<subseteq> {..<st_brk ?s}" by auto
  qed
  ultimately show ?thesis using assms by (simp add: st_rep_def holds_only_def)
qed

end
