(* ===== verification/Show_Tech_Parse.thy ===== *)
theory Show_Tech_Parse
  imports Show_Tech_Heap
begin

text \<open>
  The show tech parser on values, \<open>cfg_parse\<close>, and the simulation: every case of
  \<open>parse_showtech_config\<close> either does to the tree on the heap what the value parser does, or
  cleans up and leaves nothing.
\<close>

section \<open>The abstract parser\<close>

text \<open>Everything happens at the end of the list: the last feature, its last sub feature, the last
  table of that.\<close>

definition in_sub :: "(sub_spec \<Rightarrow> sub_spec) \<Rightarrow> config_spec list \<Rightarrow> config_spec list" where
  "in_sub g fs = upd_last (\<lambda>f. f\<lparr>cs_subs := upd_last g (cs_subs f)\<rparr>) fs"

definition in_info ::
    "(string option \<times> string option \<times> bool \<times> bool \<times> bool \<Rightarrow> string option \<times> string option \<times> bool \<times> bool \<times> bool) \<Rightarrow>
     config_spec list \<Rightarrow> config_spec list" where
  "in_info h = in_sub (\<lambda>x. x\<lparr>ss_info := h (ss_info x)\<rparr>)"

definition in_table :: "(table_spec \<Rightarrow> table_spec) \<Rightarrow> config_spec list \<Rightarrow> config_spec list" where
  "in_table g = in_sub (\<lambda>x. x\<lparr>ss_tables := upd_last g (ss_tables x)\<rparr>)"

definition add_sub :: "sub_spec \<Rightarrow> config_spec list \<Rightarrow> config_spec list" where
  "add_sub x = upd_last (\<lambda>f. f\<lparr>cs_subs := cs_subs f @ [x]\<rparr>)"

definition cur_subs :: "config_spec list \<Rightarrow> sub_spec list" where
  "cur_subs fs = (if fs = [] then [] else cs_subs (last fs))"

definition cur_tables :: "config_spec list \<Rightarrow> table_spec list" where
  "cur_tables fs = (if cur_subs fs = [] then [] else ss_tables (last (cur_subs fs)))"

abbreviation dummy_sub :: sub_spec where
  "dummy_sub \<equiv> \<lparr>ss_info = (None, None, False, False, True), ss_cmds = [], ss_tables = []\<rparr>"

definition with_dummy :: "config_spec list \<Rightarrow> config_spec list" where
  "with_dummy fs = (if cur_subs fs = [] then add_sub dummy_sub fs else fs)"

definition cfg_value :: "int \<Rightarrow> string \<Rightarrow> config_spec list \<Rightarrow> config_spec list option" where
  "cfg_value st v fs =
     (if st = FEATURE_NAME then Some (upd_last (\<lambda>f. f\<lparr>cs_name := Some v\<rparr>) fs)
      else if st = FEATURE_DESC then Some (upd_last (\<lambda>f. f\<lparr>cs_desc := Some v\<rparr>) fs)
      else if st = SUB_FEATURE_NAME then
        if cur_subs fs = [] then None else Some (in_info (\<lambda>(n, r). (Some v, r)) fs)
      else if st = SUB_FEATURE_DESC then
        if cur_subs fs = [] then None else Some (in_info (\<lambda>(n, d, r). (n, Some v, r)) fs)
      else if st = SUPPORT_SHOWTECH_ALL then
        Some (in_info (\<lambda>(n, d, a, r). (n, d, v \<noteq> ''yes'' \<and> v \<noteq> ''true'', r)) (with_dummy fs))
      else if st = SUPPORT_SHOWTECH_FEATURE then
        Some (in_info (\<lambda>(n, d, a, b, c). (n, d, a, v = ''yes'' \<or> v = ''true'', c)) (with_dummy fs))
      else if st = CLI_CMDS then
        if regexec showtech_pattern v then None
        else Some (in_sub (\<lambda>x. x\<lparr>ss_cmds := ss_cmds x @ [Some v]\<rparr>) (with_dummy fs))
      else if st = TABLE_NAME then
        if cur_tables fs = [] then None else Some (in_table (\<lambda>t. t\<lparr>ts_name := Some v\<rparr>) fs)
      else if st = COLNAMES then
        if cur_tables fs = [] then None else Some (in_table (\<lambda>t. t\<lparr>ts_cols := ts_cols t @ [Some v]\<rparr>) fs)
      else Some fs)"

definition cfg_scalar :: "string \<Rightarrow> int \<times> config_spec list \<Rightarrow> (int \<times> config_spec list) option" where
  "cfg_scalar v = (\<lambda>(st, fs).
     (let k = getValueType (Some v) in
      if k = VALUE then map_option (Pair st) (cfg_value st v fs)
      else if k = FEATURE then Some (FEATURE, fs @ [blank_feature])
      else if k = SUB_FEATURE then Some (SUB_FEATURE, add_sub blank_sub fs)
      else if k = TABLE then
        Some (TABLE, in_sub (\<lambda>x. x\<lparr>ss_tables := ss_tables x @ [\<lparr>ts_name = None, ts_cols = []\<rparr>]\<rparr>) (with_dummy fs))
      else Some (k, fs)))"

fun cfg_parse :: "string list \<Rightarrow> int \<times> config_spec list \<Rightarrow> (int \<times> config_spec list) option" where
  "cfg_parse [] x = Some x"
| "cfg_parse (v # vs) x = (case cfg_scalar v x of None \<Rightarrow> None | Some y \<Rightarrow> cfg_parse vs y)"

section \<open>One scalar\<close>

definition locs_at :: "st_locals \<Rightarrow> addr \<Rightarrow> sshape list \<Rightarrow> bool" where
  "locs_at l a ss \<longleftrightarrow> st_feat l = Some a \<and> st_sub l = last_opt (map fst ss) \<and>
     (case last_opt ss of
        None \<Rightarrow> st_cli l = None \<and> st_table l = None \<and> st_col l = None
      | Some (b, cs, ts) \<Rightarrow> st_cli l = last_opt cs \<and> st_table l = last_opt (map fst ts) \<and>
          st_col l = (case last_opt ts of None \<Rightarrow> None | Some (t, ks) \<Rightarrow> last_opt ks))"

lemma locs_at_snoc [simp]:
  "locs_at l a (ss @ [(b, cs, ts)]) \<longleftrightarrow> st_feat l = Some a \<and> st_sub l = Some b \<and>
     st_cli l = last_opt cs \<and> st_table l = last_opt (map fst ts) \<and>
     st_col l = (case last_opt ts of None \<Rightarrow> None | Some (t, ks) \<Rightarrow> last_opt ks)"
  by (simp add: locs_at_def)

text \<open>What one case of the parser does: go on with the abstract result, or clean up with nothing
  left; the latter only when a \<open>calloc\<close> failed or the abstract parser fails.\<close>

definition step_ok :: "st_env \<Rightarrow> st_step \<Rightarrow> (int \<times> config_spec list) option \<Rightarrow> bool" where
  "step_ok env r res \<longleftrightarrow> (\<exists>lo s'. r = Some (Inr (lo, s')) \<and>
     (case lo of
        None \<Rightarrow> empty_heap s' \<and> ((\<forall>a. st_calloc env a) \<longrightarrow> res = None)
      | Some l' \<Rightarrow> \<exists>gs0 a ss fs. st_rep s' (gs0 @ [(a, ss)]) fs \<and> locs_at l' a ss \<and> res = Some (st_state l', fs)))"

lemma step_ok_go:
  "st_rep s' (gs0 @ [(a, ss)]) fs \<Longrightarrow> locs_at l' a ss \<Longrightarrow> res = Some (st_state l', fs) \<Longrightarrow>
   step_ok env (Some (Inr (Some l', s'))) res"
  by (auto simp: step_ok_def)

lemma step_ok_clean:
  "st_rep s gs fs \<Longrightarrow> (\<forall>a. st_calloc env a) \<longrightarrow> res = None \<Longrightarrow> step_ok env (clean_up s) res"
  using clean_up_rep [of s gs fs] by (auto simp: step_ok_def)

lemma rep_snoc_spec:
  assumes "st_rep s (gs0 @ [(a, ss)]) fs"
  obtains fs0 f where "fs = fs0 @ [f]" "length ss = length (cs_subs f)"
  by (rule rep_split [OF assms]) (auto dest: list_all2_lengthD intro: that)

lemma rep_at_sub:
  assumes "st_rep s (gs0 @ [(a, ss0 @ [g])]) (fs0 @ [f])"
  obtains xs0 x where "cs_subs f = xs0 @ [x]" "at_sub s gs0 a ss0 g fs0 f xs0 x"
proof -
  have "length (ss0 @ [g]) = length (cs_subs f)"
    using rep_snoc_spec [OF assms] by auto
  then obtain xs0 x where x: "cs_subs f = xs0 @ [x]" by (cases "cs_subs f" rule: rev_cases) auto
  then have eq: "f\<lparr>cs_subs := xs0 @ [x]\<rparr> = f" by (cases f) simp
  have "at_sub s gs0 a ss0 g fs0 f xs0 x" unfolding at_sub_def eq by (rule assms)
  with x show ?thesis by (rule that)
qed

lemma link_sub_subs:
  "link_sub p q s = Inr (s\<lparr>feats := fe\<rparr>) \<Longrightarrow> link_sub p q (s\<lparr>subs := h\<rparr>) = Inr (s\<lparr>feats := fe, subs := h\<rparr>)"
  by (cases s) (auto simp: link_sub_def update_node_def bind_res_eq_Inr split: if_splits)

lemma dummy_ok:
  assumes rep: "st_rep s (gs0 @ [(a, ss)]) (fs0 @ [f])" and l: "locs_at l a ss"
  obtains (clean) s' where "dummy_subfeature env l s = Some (Inr (None, s'))" "empty_heap s'" "\<not> st_calloc env (st_brk s)"
    | (go) l1 s1 ss1 b cs ts xs1 x where "dummy_subfeature env l s = Some (Inr (Some l1, s1))"
        "at_sub s1 gs0 a ss1 (b, cs, ts) fs0 f xs1 x" "locs_at l1 a (ss1 @ [(b, cs, ts)])"
        "st_state l1 = st_state l" "with_dummy (fs0 @ [f]) = fs0 @ [f\<lparr>cs_subs := xs1 @ [x]\<rparr>]"
proof (cases ss rule: rev_cases)
  case (snoc ss0 g)
  obtain b cs ts where g: "g = (b, cs, ts)" by (cases g)
  obtain xs0 x where x: "cs_subs f = xs0 @ [x]" "at_sub s gs0 a ss0 (b, cs, ts) fs0 f xs0 x"
    using rep unfolding snoc g by (rule rep_at_sub)
  have "f\<lparr>cs_subs := xs0 @ [x]\<rparr> = f" using x(1) by (cases f) simp
  with x l snoc g show ?thesis
    by (intro go [of l s ss0 b cs ts xs0 x]) (auto simp: dummy_subfeature_def with_dummy_def cur_subs_def)
next
  case Nil
  have f: "cs_subs f = []" using rep_snoc_spec [OF rep] Nil by auto
  have l0: "st_sub l = None" "st_feat l = Some a" using l Nil by (simp_all add: locs_at_def)
  show ?thesis
  proof (cases "st_calloc env (st_brk s)")
    case False
    obtain s' where "clean_up (s\<lparr>st_brk := Suc (st_brk s)\<rparr>) = Some (Inr (None, s'))" "empty_heap s'"
      using clean_up_rep [OF rep_brk [OF rep]] by blast
    with False l0 show ?thesis
      by (intro clean [of s']) (simp_all add: dummy_subfeature_def add_subfeature_def st_alloc_def)
  next
    case True
    let ?e = "st_brk s"
    obtain s1 s2 where s12: "add_subfeature env (last_opt (map fst ss)) s = Inr (Some ?e, s1)"
      "link_sub (Some a) (Some ?e) s1 = Inr s2" "s2 = s1\<lparr>feats := feats s2\<rparr>"
      "at_sub s2 gs0 a ss (?e, [], []) fs0 f (cs_subs f) blank_sub"
      by (rule step_append_sub [OF rep True])
    obtain s3 where s3: "set_sub (\<lambda>n. n\<lparr>is_dummy := True\<rparr>) (Some ?e) s2 = Inr (0, s3)"
      "at_sub s3 gs0 a ss (?e, [], []) fs0 f (cs_subs f) (blank_sub\<lparr>ss_info := (\<lambda>(n, d, a, b, c). (n, d, a, b, True)) (ss_info blank_sub)\<rparr>)"
      by (rule step_set_sub [OF s12(4), of "\<lambda>n. n\<lparr>is_dummy := True\<rparr>"  "\<lambda>(n, d, a, b, c). (n, d, a, b, True)"])
        (auto simp: sub_val_def)
    obtain fe where s2: "s2 = s1\<lparr>feats := fe\<rparr>" using s12(3) by blast
    obtain n where n: "subs s1 ?e = Some n" "s3 = s1\<lparr>feats := fe, subs := (subs s1)(?e \<mapsto> n\<lparr>is_dummy := True\<rparr>)\<rparr>"
      using s3(1) by (auto simp: s2 set_sub_def update_node_def deref_def bind_res_eq_Inr split: option.splits)
    let ?h = "(subs s1)(?e \<mapsto> n\<lparr>is_dummy := True\<rparr>)"
    let ?l = "l\<lparr>st_sub := Some ?e, st_cli := None, st_table := None, st_col := None\<rparr>"
    have link: "link_sub (Some a) (Some ?e) (s1\<lparr>subs := ?h\<rparr>) = Inr s3"
      using link_sub_subs [OF s12(2) [unfolded s2]] n(2) by simp
    have add: "add_subfeature env None s = Inr (Some ?e, s1)" using s12(1) Nil by simp
    have "dummy_subfeature env l s = Some (Inr (Some ?l, s3))"
      using link add n(1) l0 by (simp add: dummy_subfeature_def set_subfeature_as_dummy_def set_sub_def)
    moreover have "at_sub s3 gs0 a [] (?e, [], []) fs0 f [] dummy_sub" using s3(2) Nil f by simp
    moreover have "locs_at ?l a ([] @ [(?e, [], [])])" unfolding locs_at_snoc using l0 by simp
    moreover have "st_state ?l = st_state l" by simp
    moreover have "with_dummy (fs0 @ [f]) = fs0 @ [f\<lparr>cs_subs := [] @ [dummy_sub]\<rparr>]"
      using f by (simp add: with_dummy_def cur_subs_def add_sub_def)
    ultimately show ?thesis by (rule go)
  qed
qed

lemma go_on_simps [simp]:
  "go_on (Some (Inr (None, s))) k = Some (Inr (None, s))" "go_on (Some (Inr (Some l, s))) k = k l s"
  by (simp_all add: go_on_def)

lemma in_sub_snoc [simp]:
  "in_sub g (fs0 @ [f\<lparr>cs_subs := xs0 @ [x]\<rparr>]) = fs0 @ [f\<lparr>cs_subs := xs0 @ [g x]\<rparr>]"
  by (simp add: in_sub_def)

lemma cur_snoc [simp]: "cur_subs (fs0 @ [f]) = cs_subs f"
  "cur_tables (fs0 @ [f\<lparr>cs_subs := xs0 @ [x]\<rparr>]) = ss_tables x"
  by (simp_all add: cur_subs_def cur_tables_def)

text \<open>After the dummy block, an operation on the last sub feature.\<close>

lemma after_dummy:
  assumes rep: "st_rep s (gs0 @ [(a, ss)]) (fs0 @ [f])" and l: "locs_at l a ss"
    and k: "\<And>l1 s1 ss1 b cs ts xs1 x.
      at_sub s1 gs0 a ss1 (b, cs, ts) fs0 f xs1 x \<Longrightarrow> locs_at l1 a (ss1 @ [(b, cs, ts)]) \<Longrightarrow>
      st_state l1 = st_state l \<Longrightarrow> step_ok env (k l1 s1) (map_option (Pair (st_state l)) (h (fs0 @ [f\<lparr>cs_subs := xs1 @ [x]\<rparr>])))"
  shows "step_ok env (go_on (dummy_subfeature env l s) k) (map_option (Pair (st_state l)) (h (with_dummy (fs0 @ [f]))))"
proof (rule dummy_ok [OF rep l, of env])
  fix s'
  assume "dummy_subfeature env l s = Some (Inr (None, s'))" "empty_heap s'" "\<not> st_calloc env (st_brk s)"
  then show ?thesis by (auto simp: step_ok_def)
next
  fix l1 s1 ss1 b cs ts xs1 x
  assume d: "dummy_subfeature env l s = Some (Inr (Some l1, s1))"
    "at_sub s1 gs0 a ss1 (b, cs, ts) fs0 f xs1 x" "locs_at l1 a (ss1 @ [(b, cs, ts)])" "st_state l1 = st_state l"
    "with_dummy (fs0 @ [f]) = fs0 @ [f\<lparr>cs_subs := xs1 @ [x]\<rparr>]"
  show ?thesis unfolding d(1,5) go_on_simps by (rule k [OF d(2-4)])
qed

lemma info_ok:
  assumes at: "at_sub s gs0 a ss (b, cs, ts) fs0 f xs x" and l: "locs_at l a (ss @ [(b, cs, ts)])"
    and g: "\<And>m. sub_next (g m) = sub_next m" "\<And>m. sub_val (g m) = (h (fst (sub_val m)), snd (sub_val m))"
  shows "step_ok env (and_then (Some (set_sub g (st_sub l) s)) (\<lambda>(_, s2). Some (Inr (Some l, s2))))
    (Some (st_state l, in_info h (fs0 @ [f\<lparr>cs_subs := xs @ [x]\<rparr>])))"
proof (rule step_set_sub [OF at, of g h, OF g])
  fix s'
  assume s': "set_sub g (Some b) s = Inr (0, s')"
    "at_sub s' gs0 a ss (b, cs, ts) fs0 f xs (x\<lparr>ss_info := h (ss_info x)\<rparr>)"
  have b: "st_sub l = Some b" using l by simp
  show ?thesis
    using s' l unfolding b at_sub_def by (auto simp: in_info_def intro: step_ok_go simp del: locs_at_snoc)
qed

lemma cli_ok:
  assumes at: "at_sub s gs0 a ss (b, cs, ts) fs0 f xs x" and l: "locs_at l a (ss @ [(b, cs, ts)])"
  shows "step_ok env (append_cli env v l s)
    (if regexec showtech_pattern v then None
     else Some (st_state l, in_sub (\<lambda>x. x\<lparr>ss_cmds := ss_cmds x @ [Some v]\<rparr>) (fs0 @ [f\<lparr>cs_subs := xs @ [x]\<rparr>])))"
proof -
  have ls: "st_cli l = last_opt cs" "st_sub l = Some b" using l by simp_all
  note rep = at [unfolded at_sub_def]
  consider (tech) "regexec showtech_pattern v"
    | (full) "\<not> regexec showtech_pattern v" "\<not> st_calloc env (st_brk s)"
    | (ok) "\<not> regexec showtech_pattern v" "st_calloc env (st_brk s)" by blast
  then show ?thesis
  proof cases
    case tech
    then have "append_cli env v l s = clean_up s" by (simp add: append_cli_def add_clicmds_def)
    with tech rep show ?thesis by (auto intro: step_ok_clean)
  next
    case full
    then have "append_cli env v l s = clean_up (s\<lparr>st_brk := Suc (st_brk s)\<rparr>)"
      by (simp add: append_cli_def add_clicmds_def st_alloc_def)
    with full show ?thesis using step_ok_clean [OF rep_brk [OF rep], of env] by auto
  next
    case ok
    from step_append_cli [OF at ls ok] obtain s' where
      "append_cli env v l s = Some (Inr (Some (l\<lparr>st_cli := Some (st_brk s)\<rparr>), s'))"
      "at_sub s' gs0 a ss (b, cs @ [st_brk s], ts) fs0 f xs (x\<lparr>ss_cmds := ss_cmds x @ [Some v]\<rparr>)" by blast
    with ok l show ?thesis
      unfolding at_sub_def by (auto intro!: step_ok_go [where ss = "ss @ [(b, cs @ [st_brk s], ts)]"])
  qed
qed

lemma table_ok:
  assumes at: "at_sub s gs0 a ss (b, cs, ts) fs0 f xs x"
    and l: "st_feat l = Some a" "st_sub l = Some b" "st_cli l = last_opt cs" "st_table l = last_opt (map fst ts)"
      "st_col l = None"
  shows "step_ok env (append_table env l s)
    (Some (st_state l, in_sub (\<lambda>x. x\<lparr>ss_tables := ss_tables x @ [\<lparr>ts_name = None, ts_cols = []\<rparr>]\<rparr>)
       (fs0 @ [f\<lparr>cs_subs := xs @ [x]\<rparr>])))"
proof (cases "st_calloc env (st_brk s)")
  case False
  note rep = at [unfolded at_sub_def]
  from False have "append_table env l s = clean_up (s\<lparr>st_brk := Suc (st_brk s)\<rparr>)"
    by (simp add: append_table_def add_ovstable_def st_alloc_def)
  with False show ?thesis using step_ok_clean [OF rep_brk [OF rep], of env] by auto
next
  case True
  from step_append_table [OF at l(4,2) True] obtain s' where
    "append_table env l s = Some (Inr (Some (l\<lparr>st_table := Some (st_brk s)\<rparr>), s'))"
    "at_sub s' gs0 a ss (b, cs, ts @ [(st_brk s, [])]) fs0 f xs
       (x\<lparr>ss_tables := ss_tables x @ [\<lparr>ts_name = None, ts_cols = []\<rparr>]\<rparr>)" by blast
  with l show ?thesis
    unfolding at_sub_def by (auto intro!: step_ok_go [where ss = "ss @ [(b, cs, ts @ [(st_brk s, [])])]"])
qed

lemma sub_cases:
  assumes rep: "st_rep s (gs0 @ [(a, ss)]) (fs0 @ [f])" and l: "locs_at l a ss"
  obtains (nosub) "cs_subs f = []" "st_sub l = None" "st_table l = None"
    | (sub) ss0 b cs ts xs0 x where "ss = ss0 @ [(b, cs, ts)]" "f = f\<lparr>cs_subs := xs0 @ [x]\<rparr>"
        "at_sub s gs0 a ss0 (b, cs, ts) fs0 f xs0 x" "cs_subs f = xs0 @ [x]"
proof (cases ss rule: rev_cases)
  case Nil
  with rep_snoc_spec [OF rep] l show ?thesis by (intro nosub) (auto simp: locs_at_def)
next
  case (snoc ss0 g)
  obtain b cs ts where g: "g = (b, cs, ts)" by (cases g)
  obtain xs0 x where x: "cs_subs f = xs0 @ [x]" "at_sub s gs0 a ss0 (b, cs, ts) fs0 f xs0 x"
    using rep unfolding snoc g by (rule rep_at_sub)
  then have "f = f\<lparr>cs_subs := xs0 @ [x]\<rparr>" by (cases f) simp
  with x snoc g show ?thesis by (intro sub) auto
qed

lemma feat_setter_ok:
  assumes rep: "st_rep s (gs0 @ [(a, ss)]) (fs0 @ [f])" and l: "locs_at l a ss"
  shows "step_ok env (on_setter (st_feat l) (add_feature_name (st_feat l) (Some v) s) l s)
      (Some (st_state l, upd_last (\<lambda>f. f\<lparr>cs_name := Some v\<rparr>) (fs0 @ [f])))"
    and "step_ok env (on_setter (st_feat l) (add_feature_desc (st_feat l) (Some v) s) l s)
      (Some (st_state l, upd_last (\<lambda>f. f\<lparr>cs_desc := Some v\<rparr>) (fs0 @ [f])))"
proof -
  have feat: "st_feat l = Some a" using l by (simp add: locs_at_def)
  obtain s1 where s1: "add_feature_name (Some a) (Some v) s = Inr (0, s1)"
    "st_rep s1 (gs0 @ [(a, ss)]) (fs0 @ [f\<lparr>cs_name := Some v\<rparr>])"
    using step_set_feat(1) [OF rep] by blast
  obtain s2 where s2: "add_feature_desc (Some a) (Some v) s = Inr (0, s2)"
    "st_rep s2 (gs0 @ [(a, ss)]) (fs0 @ [f\<lparr>cs_desc := Some v\<rparr>])"
    using step_set_feat(2) [OF rep] by blast
  show "step_ok env (on_setter (st_feat l) (add_feature_name (st_feat l) (Some v) s) l s)
      (Some (st_state l, upd_last (\<lambda>f. f\<lparr>cs_name := Some v\<rparr>) (fs0 @ [f])))"
    using feat s1 l by (auto simp: on_setter_def intro: step_ok_go)
  show "step_ok env (on_setter (st_feat l) (add_feature_desc (st_feat l) (Some v) s) l s)
      (Some (st_state l, upd_last (\<lambda>f. f\<lparr>cs_desc := Some v\<rparr>) (fs0 @ [f])))"
    using feat s2 l by (auto simp: on_setter_def intro: step_ok_go)
qed

lemma sub_setter_ok:
  assumes rep: "st_rep s (gs0 @ [(a, ss)]) (fs0 @ [f])" and l: "locs_at l a ss"
    and g: "\<And>m. sub_next (g m) = sub_next m" "\<And>m. sub_val (g m) = (h (fst (sub_val m)), snd (sub_val m))"
  shows "step_ok env (on_setter (st_sub l) (set_sub g (st_sub l) s) l s)
    (if cs_subs f = [] then None else Some (st_state l, in_info h (fs0 @ [f])))"
  using rep l
proof (cases rule: sub_cases)
  case nosub
  then show ?thesis using step_ok_clean [OF rep, of env] by (simp add: on_setter_def)
next
  case (sub ss0 b cs ts xs0 x)
  have "st_sub l = Some b" using l sub(1) by simp
  moreover have "step_ok env (and_then (Some (set_sub g (st_sub l) s)) (\<lambda>(_, s2). Some (Inr (Some l, s2))))
      (Some (st_state l, in_info h (fs0 @ [f])))"
    using info_ok [OF sub(3) l [unfolded sub(1)] g, of env] unfolding sub(2) [symmetric] .
  ultimately show ?thesis using sub(4) by (simp add: on_setter_def)
qed

lemma table_setter_ok:
  assumes rep: "st_rep s (gs0 @ [(a, ss)]) (fs0 @ [f])" and l: "locs_at l a ss"
  shows "step_ok env (on_setter (st_table l) (add_ovstable_name (st_table l) (Some v) s) l s)
    (if cur_tables (fs0 @ [f]) = [] then None else Some (st_state l, in_table (\<lambda>t. t\<lparr>ts_name := Some v\<rparr>) (fs0 @ [f])))"
  using rep l
proof (cases rule: sub_cases)
  case nosub
  then show ?thesis using step_ok_clean [OF rep, of env] by (simp add: on_setter_def cur_tables_def)
next
  case (sub ss0 b cs ts xs0 x)
  have tabs: "length ts = length (ss_tables x)"
    by (rule at_sub_split [OF sub(3)]) (auto dest: list_all2_lengthD)
  have cur: "cur_tables (fs0 @ [f]) = ss_tables x"
    using cur_snoc(2) [where ?fs0.0 = fs0 and f = f and ?xs0.0 = xs0 and x = x] unfolding sub(2) [symmetric] .
  show ?thesis
  proof (cases ts rule: rev_cases)
    case Nil
    then have "st_table l = None" using l sub(1) by simp
    with Nil tabs cur show ?thesis using step_ok_clean [OF rep, of env] by (simp add: on_setter_def)
  next
    case (snoc ts0 g)
    obtain t ks where g: "g = (t, ks)" by (cases g)
    obtain ys0 y where y: "ss_tables x = ys0 @ [y]" using tabs snoc by (cases "ss_tables x" rule: rev_cases) auto
    have lt: "st_table l = Some t" using l sub(1) snoc g by simp
    from step_table_name [OF sub(3) [unfolded snoc g] y, of v] obtain s' where s':
      "add_ovstable_name (Some t) (Some v) s = Inr (0, s')"
      "at_sub s' gs0 a ss0 (b, cs, ts0 @ [(t, ks)]) fs0 f xs0 (x\<lparr>ss_tables := ys0 @ [y\<lparr>ts_name := Some v\<rparr>]\<rparr>)" by blast
    have "in_table (\<lambda>t. t\<lparr>ts_name := Some v\<rparr>) (fs0 @ [f]) =
        fs0 @ [f\<lparr>cs_subs := xs0 @ [x\<lparr>ss_tables := ys0 @ [y\<lparr>ts_name := Some v\<rparr>]\<rparr>]\<rparr>]"
      using in_sub_snoc [where ?fs0.0 = fs0 and f = f and ?xs0.0 = xs0 and x = x] y unfolding in_table_def sub(2) [symmetric] by simp
    with s' lt y cur l sub(1) snoc g show ?thesis
      unfolding at_sub_def by (auto simp: on_setter_def intro!: step_ok_go [where ss = ss])
  qed
qed

lemma col_ok:
  assumes rep: "st_rep s (gs0 @ [(a, ss)]) (fs0 @ [f])" and l: "locs_at l a ss"
  shows "step_ok env (on_col_name env v l s)
    (if cur_tables (fs0 @ [f]) = [] then None
     else Some (st_state l, in_table (\<lambda>t. t\<lparr>ts_cols := ts_cols t @ [Some v]\<rparr>) (fs0 @ [f])))"
  using rep l
proof (cases rule: sub_cases)
  case nosub
  then show ?thesis using step_ok_clean [OF rep, of env] by (simp add: on_col_name_def cur_tables_def)
next
  case (sub ss0 b cs ts xs0 x)
  have tabs: "length ts = length (ss_tables x)"
    by (rule at_sub_split [OF sub(3)]) (auto dest: list_all2_lengthD)
  have cur: "cur_tables (fs0 @ [f]) = ss_tables x"
    using cur_snoc(2) [where ?fs0.0 = fs0 and f = f and ?xs0.0 = xs0 and x = x] unfolding sub(2) [symmetric] .
  show ?thesis
  proof (cases ts rule: rev_cases)
    case Nil
    then have "st_table l = None" using l sub(1) by simp
    with Nil tabs cur show ?thesis using step_ok_clean [OF rep, of env] by (simp add: on_col_name_def)
  next
    case (snoc ts0 g)
    obtain t ks where g: "g = (t, ks)" by (cases g)
    obtain ys0 y where y: "ss_tables x = ys0 @ [y]" using tabs snoc by (cases "ss_tables x" rule: rev_cases) auto
    have lt: "st_table l = Some t" "st_col l = last_opt ks" using l sub(1) snoc g by simp_all
    show ?thesis
    proof (cases "st_calloc env (st_brk s)")
      case False
      from False lt have "on_col_name env v l s = clean_up (s\<lparr>st_brk := Suc (st_brk s)\<rparr>)"
        by (simp add: on_col_name_def add_ovscolumn_def st_alloc_def)
      with False show ?thesis using step_ok_clean [OF rep_brk [OF rep], of env] by auto
    next
      case True
      from step_col_name [OF sub(3) [unfolded snoc g] y lt True, of v] obtain s' where s':
        "on_col_name env v l s = Some (Inr (Some (l\<lparr>st_col := Some (st_brk s)\<rparr>), s'))"
        "at_sub s' gs0 a ss0 (b, cs, ts0 @ [(t, ks @ [st_brk s])]) fs0 f xs0
          (x\<lparr>ss_tables := ys0 @ [y\<lparr>ts_cols := ts_cols y @ [Some v]\<rparr>]\<rparr>)" by blast
      have "in_table (\<lambda>t. t\<lparr>ts_cols := ts_cols t @ [Some v]\<rparr>) (fs0 @ [f]) =
          fs0 @ [f\<lparr>cs_subs := xs0 @ [x\<lparr>ss_tables := ys0 @ [y\<lparr>ts_cols := ts_cols y @ [Some v]\<rparr>]\<rparr>]\<rparr>]"
        using in_sub_snoc [where ?fs0.0 = fs0 and f = f and ?xs0.0 = xs0 and x = x] y unfolding in_table_def sub(2) [symmetric] by simp
      with s' lt y cur l sub(1) snoc g show ?thesis
        unfolding at_sub_def
        by (auto intro!: step_ok_go [where ss = "ss0 @ [(b, cs, ts0 @ [(t, ks @ [st_brk s])])]"])
    qed
  qed
qed

lemma yes_or_true_iff: "yes_or_true (Some v) \<longleftrightarrow> v = ''yes'' \<or> v = ''true''"
  by (auto simp: yes_or_true_def)

lemma dummy_locals:
  "dummy_subfeature env (l\<lparr>st_state := k, st_col := None\<rparr>) s =
   go_on (dummy_subfeature env l s) (\<lambda>l1 s1. Some (Inr (Some (l1\<lparr>st_state := k, st_col := None\<rparr>), s1)))"
proof -
  have c: "go_on (clean_up s1) f = clean_up s1" for s1 f
    by (auto simp: go_on_def clean_up_def and_then_def split: option.splits sum.splits)
  have l: "go_on (and_then (Some r) g) f = and_then (Some r) (\<lambda>y. go_on (g y) f)" for r :: "'x cres" and g f
    by (cases r) (simp_all add: go_on_def)
  show ?thesis
    by (auto simp: dummy_subfeature_def c l intro!: arg_cong2 [where f = and_then] ext split: prod.splits)
qed

lemma st_value_ok:
  assumes rep: "st_rep s (gs0 @ [(a, ss)]) (fs0 @ [f])" and l: "locs_at l a ss"
  shows "step_ok env (st_value env v l s) (map_option (Pair (st_state l)) (cfg_value (st_state l) v (fs0 @ [f])))"
proof -
  let ?st = "st_state l" and ?fs = "fs0 @ [f]"
  let ?all = "\<lambda>(n, d, a, r). (n, d, v \<noteq> ''yes'' \<and> v \<noteq> ''true'', r)"
  let ?one = "\<lambda>(n, d, a, b, c). (n, d, a, v = ''yes'' \<or> v = ''true'', c)"
  let ?cmd = "in_sub (\<lambda>x. x\<lparr>ss_cmds := ss_cmds x @ [Some v]\<rparr>)"
  have all: "step_ok env (go_on (dummy_subfeature env l s) (\<lambda>l1 s1.
          and_then (Some (add_subfeature_showtechall (st_sub l1) (Some v) s1)) (\<lambda>(_, s2). Some (Inr (Some l1, s2)))))
      (map_option (Pair ?st) (Some (in_info ?all (with_dummy ?fs))))"
  proof (rule after_dummy [OF rep l, where h = "\<lambda>fs. Some (in_info ?all fs)"])
    fix l1 s1 ss1 b cs ts xs1 x
    assume at: "at_sub s1 gs0 a ss1 (b, cs, ts) fs0 f xs1 x" "locs_at l1 a (ss1 @ [(b, cs, ts)])" "st_state l1 = ?st"
    show "step_ok env (and_then (Some (add_subfeature_showtechall (st_sub l1) (Some v) s1)) (\<lambda>(_, s2). Some (Inr (Some l1, s2))))
        (map_option (Pair ?st) (Some (in_info ?all (fs0 @ [f\<lparr>cs_subs := xs1 @ [x]\<rparr>]))))"
      unfolding add_subfeature_showtechall_def option.map at(3) [symmetric]
      by (rule info_ok [OF at(1,2)]) (auto simp: sub_val_def yes_or_true_iff)
  qed
  have one: "step_ok env (go_on (dummy_subfeature env l s) (\<lambda>l1 s1.
          and_then (Some (add_subfeature_showtechfeature (st_sub l1) (Some v) s1)) (\<lambda>(_, s2). Some (Inr (Some l1, s2)))))
      (map_option (Pair ?st) (Some (in_info ?one (with_dummy ?fs))))"
  proof (rule after_dummy [OF rep l, where h = "\<lambda>fs. Some (in_info ?one fs)"])
    fix l1 s1 ss1 b cs ts xs1 x
    assume at: "at_sub s1 gs0 a ss1 (b, cs, ts) fs0 f xs1 x" "locs_at l1 a (ss1 @ [(b, cs, ts)])" "st_state l1 = ?st"
    show "step_ok env (and_then (Some (add_subfeature_showtechfeature (st_sub l1) (Some v) s1)) (\<lambda>(_, s2). Some (Inr (Some l1, s2))))
        (map_option (Pair ?st) (Some (in_info ?one (fs0 @ [f\<lparr>cs_subs := xs1 @ [x]\<rparr>]))))"
      unfolding add_subfeature_showtechfeature_def option.map at(3) [symmetric]
      by (rule info_ok [OF at(1,2)]) (auto simp: sub_val_def yes_or_true_iff)
  qed
  have cmd: "step_ok env (on_cli_cmd env v l s)
      (map_option (Pair ?st) (if regexec showtech_pattern v then None else Some (?cmd (with_dummy ?fs))))"
    unfolding on_cli_cmd_def
  proof (rule after_dummy [OF rep l, where h = "\<lambda>fs. if regexec showtech_pattern v then None else Some (?cmd fs)"])
    fix l1 s1 ss1 b cs ts xs1 x
    assume at: "at_sub s1 gs0 a ss1 (b, cs, ts) fs0 f xs1 x" "locs_at l1 a (ss1 @ [(b, cs, ts)])" "st_state l1 = ?st"
    show "step_ok env (append_cli env v l1 s1) (map_option (Pair ?st)
        (if regexec showtech_pattern v then None else Some (?cmd (fs0 @ [f\<lparr>cs_subs := xs1 @ [x]\<rparr>]))))"
      using cli_ok [OF at(1,2), of env v] at(3) by (simp split: if_splits)
  qed
  have name: "step_ok env (on_setter (st_sub l) (add_subfeature_name (st_sub l) (Some v) s) l s)
      (if cs_subs f = [] then None else Some (?st, in_info (\<lambda>(n, r). (Some v, r)) ?fs))"
    unfolding add_subfeature_name_def by (rule sub_setter_ok [OF rep l]) (auto simp: sub_val_def)
  have desc: "step_ok env (on_setter (st_sub l) (add_subfeature_desc (st_sub l) (Some v) s) l s)
      (if cs_subs f = [] then None else Some (?st, in_info (\<lambda>(n, d, r). (n, Some v, r)) ?fs))"
    unfolding add_subfeature_desc_def by (rule sub_setter_ok [OF rep l]) (auto simp: sub_val_def)
  have rest: "step_ok env (Some (Inr (Some l, s))) (Some (?st, ?fs))"
    using rep l by (rule step_ok_go) simp
  consider "?st = FEATURE_NAME" | "?st = FEATURE_DESC" | "?st = SUB_FEATURE_NAME" | "?st = SUB_FEATURE_DESC"
    | "?st = SUPPORT_SHOWTECH_ALL" | "?st = SUPPORT_SHOWTECH_FEATURE" | "?st = CLI_CMDS" | "?st = TABLE_NAME"
    | "?st = COLNAMES" | "?st \<notin> {1, 2, 4, 5, 6, 7, 8, 11, 12}" by blast
  then show ?thesis
  proof cases
    case 1 with feat_setter_ok(1) [OF rep l, of env v] show ?thesis by (simp add: st_value_def cfg_value_def)
  next
    case 2 with feat_setter_ok(2) [OF rep l, of env v] show ?thesis by (simp add: st_value_def cfg_value_def)
  next
    case 3 with name show ?thesis by (simp add: st_value_def cfg_value_def split: if_splits)
  next
    case 4 with desc show ?thesis by (simp add: st_value_def cfg_value_def split: if_splits)
  next
    case 5 with all show ?thesis by (simp add: st_value_def cfg_value_def)
  next
    case 6 with one show ?thesis by (simp add: st_value_def cfg_value_def)
  next
    case 7 with cmd show ?thesis by (simp add: st_value_def cfg_value_def)
  next
    case 8 with table_setter_ok [OF rep l, of env v] show ?thesis
      by (simp add: st_value_def cfg_value_def split: if_splits)
  next
    case 9 with col_ok [OF rep l, of env v] show ?thesis
      by (simp add: st_value_def cfg_value_def split: if_splits)
  next
    case 10 with rest show ?thesis by (simp add: st_value_def cfg_value_def)
  qed
qed

lemma rep_feat_opt: "locs_at l a ss \<Longrightarrow> st_feat l = last_opt (map fst (gs0 @ [(a, ss)]))"
  by (simp add: locs_at_def)

lemma on_feature_key_ok:
  assumes rep: "st_rep s gs fs" and l: "st_feat l = last_opt (map fst gs)"
  shows "step_ok env (on_feature_key env l s) (Some (FEATURE, fs @ [blank_feature]))"
proof (cases "st_calloc env (st_brk s)")
  case False
  then have "on_feature_key env l s = clean_up (s\<lparr>st_brk := Suc (st_brk s)\<rparr>)"
    by (simp add: on_feature_key_def add_feature_def st_alloc_def)
  with False show ?thesis using step_ok_clean [OF rep_brk [OF rep], of env] by auto
next
  case True
  show ?thesis
  proof (rule step_append_feature [OF rep True l])
    fix s'
    assume s': "on_feature_key env l s = Some (Inr (Some (l\<lparr>st_state := FEATURE, st_feat := Some (st_brk s),
        st_sub := None, st_cli := None, st_table := None, st_col := None\<rparr>), s'))"
      "st_rep s' (gs @ [(st_brk s, [])]) (fs @ [blank_feature])"
    show ?thesis unfolding s'(1) by (rule step_ok_go [OF s'(2)]) (simp_all add: locs_at_def)
  qed
qed

lemma on_sub_key_ok:
  assumes rep: "st_rep s (gs0 @ [(a, ss)]) (fs0 @ [f])" and l: "locs_at l a ss"
  shows "step_ok env (on_sub_key env l s) (Some (SUB_FEATURE, add_sub blank_sub (fs0 @ [f])))"
proof (cases "st_calloc env (st_brk s)")
  case False
  then have "on_sub_key env l s = clean_up (s\<lparr>st_brk := Suc (st_brk s)\<rparr>)"
    using l by (simp add: on_sub_key_def add_subfeature_def st_alloc_def locs_at_def)
  with False show ?thesis using step_ok_clean [OF rep_brk [OF rep], of env] by auto
next
  case True
  have ls: "st_feat l = Some a" "st_sub l = last_opt (map fst ss)" using l by (simp_all add: locs_at_def)
  show ?thesis
  proof (rule step_append_sub [OF rep True])
    fix s1 s'
    assume s': "add_subfeature env (last_opt (map fst ss)) s = Inr (Some (st_brk s), s1)"
      "link_sub (Some a) (Some (st_brk s)) s1 = Inr s'"
      "at_sub s' gs0 a ss (st_brk s, [], []) fs0 f (cs_subs f) blank_sub"
    have run: "on_sub_key env l s = Some (Inr (Some (l\<lparr>st_state := SUB_FEATURE, st_sub := Some (st_brk s),
        st_cli := None, st_table := None, st_col := None\<rparr>), s'))"
      using s'(1,2) ls by (simp add: on_sub_key_def)
    show ?thesis unfolding run
      by (rule step_ok_go [OF s'(3) [unfolded at_sub_def]]) (use ls in \<open>simp_all add: add_sub_def\<close>)
  qed
qed

lemma on_table_key_ok:
  assumes rep: "st_rep s (gs0 @ [(a, ss)]) (fs0 @ [f])" and l: "locs_at l a ss"
  shows "step_ok env (on_table_key env l s)
    (Some (TABLE, in_sub (\<lambda>x. x\<lparr>ss_tables := ss_tables x @ [\<lparr>ts_name = None, ts_cols = []\<rparr>]\<rparr>) (with_dummy (fs0 @ [f]))))"
proof -
  have ls: "st_feat l = Some a" using l by (simp add: locs_at_def)
  show ?thesis
  proof (rule dummy_ok [OF rep l, of env])
    fix s'
    assume "dummy_subfeature env l s = Some (Inr (None, s'))" "empty_heap s'" "\<not> st_calloc env (st_brk s)"
    with ls show ?thesis by (auto simp: on_table_key_def dummy_locals step_ok_def)
  next
    fix l1 s1 ss1 b cs ts xs1 x
    assume d: "dummy_subfeature env l s = Some (Inr (Some l1, s1))"
      "at_sub s1 gs0 a ss1 (b, cs, ts) fs0 f xs1 x" "locs_at l1 a (ss1 @ [(b, cs, ts)])"
      "with_dummy (fs0 @ [f]) = fs0 @ [f\<lparr>cs_subs := xs1 @ [x]\<rparr>]"
    let ?l = "l1\<lparr>st_state := TABLE, st_col := None\<rparr>"
    have "on_table_key env l s = append_table env ?l s1"
      using ls d(1) by (simp add: on_table_key_def dummy_locals)
    moreover have "st_state ?l = TABLE" by simp
    moreover have "step_ok env (append_table env ?l s1)
        (Some (st_state ?l, in_sub (\<lambda>x. x\<lparr>ss_tables := ss_tables x @ [\<lparr>ts_name = None, ts_cols = []\<rparr>]\<rparr>)
           (fs0 @ [f\<lparr>cs_subs := xs1 @ [x]\<rparr>])))"
      using d(3) by (intro table_ok [OF d(2)]) simp_all
    ultimately show ?thesis unfolding d(4) by simp
  qed
qed

lemma st_scalar_ok:
  assumes rep: "st_rep s (gs0 @ [(a, ss)]) fs" and l: "locs_at l a ss"
  shows "step_ok env (st_scalar env v l s) (cfg_scalar v (st_state l, fs))"
proof -
  obtain fs0 f where fs: "fs = fs0 @ [f]" by (rule rep_snoc_spec [OF rep])
  note rep' = rep [unfolded fs]
  have key: "step_ok env (Some (Inr (Some (l\<lparr>st_state := k\<rparr>), s))) (Some (k, fs))" for k
    using rep l by (intro step_ok_go) (auto simp: locs_at_def split: option.splits)
  show ?thesis
    using st_value_ok [OF rep' l, of env v] on_feature_key_ok [OF rep rep_feat_opt [OF l], of env]
      on_sub_key_ok [OF rep' l, of env] on_table_key_ok [OF rep' l, of env] key
    unfolding st_scalar_def cfg_scalar_def fs by (simp add: Let_def)
qed

section \<open>The whole file\<close>

text \<open>How a parse may end: nothing is left on the heap, or the heap holds the parsed tree.\<close>

definition parsed :: "st_env \<Rightarrow> yevent list \<Rightarrow> (int \<times> config_spec list) option \<Rightarrow> sts \<Rightarrow> bool" where
  "parsed env es res s \<longleftrightarrow>
     (empty_heap s \<and> ((\<forall>a. st_calloc env a) \<longrightarrow> ycomplete es \<longrightarrow> res = None)) \<or>
     (ycomplete es \<and> (\<exists>gs fs st. res = Some (st, fs) \<and> st_rep s gs fs))"

lemma st_events_ok:
  assumes "st_rep s (gs0 @ [(a, ss)]) fs" "locs_at l a ss"
  shows "\<exists>s'. st_events env es l s = Some (Inr s') \<and> parsed env es (cfg_parse (yscalars es) (st_state l, fs)) s'"
  using assms
proof (induction es arbitrary: s gs0 a ss fs l)
  case Nil
  obtain s' where "free_show_tech_config s = Some (Inr s')" "empty_heap s'" by (rule free_rep [OF Nil(1)])
  then show ?case by (simp add: parsed_def)
next
  case (Cons e es)
  show ?case
  proof (cases e)
    case (SCALAR_EVENT v)
    from st_scalar_ok [OF Cons.prems, of env v] obtain lo s' where s': "st_scalar env v l s = Some (Inr (lo, s'))"
      "case lo of None \<Rightarrow> empty_heap s' \<and> ((\<forall>a. st_calloc env a) \<longrightarrow> cfg_scalar v (st_state l, fs) = None)
       | Some l' \<Rightarrow> \<exists>gs0 a ss fs'. st_rep s' (gs0 @ [(a, ss)]) fs' \<and> locs_at l' a ss \<and>
           cfg_scalar v (st_state l, fs) = Some (st_state l', fs')"
      by (auto simp: step_ok_def)
    show ?thesis
    proof (cases lo)
      case None
      with s' SCALAR_EVENT show ?thesis by (auto simp: parsed_def)
    next
      case (Some l')
      with s'(2) obtain gs1 a1 ss1 fs1 where n: "st_rep s' (gs1 @ [(a1, ss1)]) fs1" "locs_at l' a1 ss1"
        "cfg_scalar v (st_state l, fs) = Some (st_state l', fs1)" by auto
      from Cons.IH [OF n(1,2)] show ?thesis
        using s'(1) Some SCALAR_EVENT n(3) by (simp add: parsed_def)
    qed
  next
    case STREAM_END_EVENT
    with Cons.prems show ?thesis by (auto simp: parsed_def)
  next
    case OTHER_EVENT
    with Cons.IH [OF Cons.prems] show ?thesis by (simp add: parsed_def)
  qed
qed

lemma sts0_rep: "st_rep sts0 [] []" "empty_heap sts0"
  by (simp_all add: st_rep_def holds_only_def sts0_def empty_heap_def)

lemma empty_rep: "empty_heap s \<Longrightarrow> st_rep s [] []"
  by (simp add: st_rep_def holds_only_def empty_heap_def)

lemma st_events_feature:
  assumes "empty_heap s" "yscalars es = ''feature'' # vs"
  shows "\<exists>s'. st_events env es st_locals0 s = Some (Inr s') \<and> parsed env es (cfg_parse (yscalars es) (0, [])) s'"
  using assms(2)
proof (induction es)
  case (Cons e es)
  show ?case
  proof (cases e)
    case (SCALAR_EVENT v)
    have v: "v = ''feature''" using SCALAR_EVENT Cons.prems by simp
    have k: "getValueType (Some ''feature'') = FEATURE"
      using st_key.look_hit [of 0] by (simp add: st_keystr_def)
    have step: "st_scalar env v st_locals0 s = on_feature_key env st_locals0 s"
      "cfg_scalar v (0, []) = Some (FEATURE, [blank_feature])"
      using k v by (simp_all add: st_scalar_def cfg_scalar_def)
    have "step_ok env (on_feature_key env st_locals0 s) (Some (FEATURE, [] @ [blank_feature]))"
      by (rule on_feature_key_ok [OF empty_rep [OF assms(1)]]) (simp add: st_locals0_def)
    then obtain lo s' where s': "st_scalar env v st_locals0 s = Some (Inr (lo, s'))"
      "case lo of None \<Rightarrow> empty_heap s' \<and> ((\<forall>a. st_calloc env a) \<longrightarrow> Some (FEATURE, [] @ [blank_feature]) = None)
       | Some l' \<Rightarrow> \<exists>gs0 a ss fs'. st_rep s' (gs0 @ [(a, ss)]) fs' \<and> locs_at l' a ss \<and>
           Some (FEATURE, [] @ [blank_feature]) = Some (st_state l', fs')"
      unfolding step step_ok_def by blast
    show ?thesis
    proof (cases lo)
      case None
      with s' SCALAR_EVENT show ?thesis by (auto simp: parsed_def)
    next
      case (Some l')
      with s'(2) obtain gs1 a1 ss1 where n: "st_rep s' (gs1 @ [(a1, ss1)]) [blank_feature]" "locs_at l' a1 ss1"
        "st_state l' = FEATURE" by auto
      from st_events_ok [OF n(1,2), of env es] show ?thesis
        using s'(1) Some SCALAR_EVENT n(3) step(2) by (simp add: parsed_def)
    qed
  qed (use Cons in \<open>auto simp: parsed_def\<close>)
qed simp

end
