(* ===== verification/Show_Tech_Spec.thy ===== *)
theory Show_Tech_Spec
  imports Show_Tech_Parse
begin

text \<open>
  What the show tech loader promises: a load is all or nothing, the loaded commands never
  run show tech themselves, a written configuration is read back, and freeing returns every
  node.
\<close>

section \<open>The words show tech\<close>

lemma lpow_space: "w \<in> lpow (lang space_class) k \<longleftrightarrow> length w = k \<and> (\<forall>c\<in>set w. isspace c)"
  unfolding space_class_def lpow_Cls by (auto simp: isspace_def)

lemma lang_space: "w \<in> lang space_class \<longleftrightarrow> (\<exists>c. w = [c] \<and> isspace c)"
  by (auto simp: space_class_def isspace_def)

lemma lang_spaces: "w \<in> lang (Star space_class) \<longleftrightarrow> (\<forall>c\<in>set w. isspace c)"
  by (simp add: lpow_space)

lemma concI: "u \<in> A \<Longrightarrow> v \<in> B \<Longrightarrow> u @ v \<in> conc A B"
  by (auto simp: conc_def)

lemma cat_spaces: "\<forall>x\<in>set a. isspace x \<Longrightarrow> y \<in> lang r \<Longrightarrow> a @ y \<in> lang (Cat (Star space_class) r)"
  unfolding lang.simps(5) by (rule concI) (simp only: lang_spaces)

lemma cat_lit: "y \<in> lang r \<Longrightarrow> l @ y \<in> lang (Cat (lit l) r)"
  unfolding lang.simps(5) by (rule concI) simp

lemma cat_space: "isspace c \<Longrightarrow> y \<in> lang r \<Longrightarrow> [c] @ y \<in> lang (Cat space_class r)"
  unfolding lang.simps(5) by (rule concI) (simp only: lang_space, blast)

text \<open>What the expression matches in a command of one line.\<close>

definition says_show_tech :: "string \<Rightarrow> bool" where
  "says_show_tech s \<longleftrightarrow> (\<exists>a b c. s = a @ ''show'' @ b @ ''tech'' @ c \<and> b \<noteq> [] \<and>
     (\<forall>x\<in>set a. isspace x) \<and> (\<forall>x\<in>set b. isspace x))"

lemma showtech_body:
  "w \<in> lang (ere_body showtech_pattern) \<longleftrightarrow> (\<exists>a b c. w = a @ ''show'' @ b @ ''tech'' @ c \<and> b \<noteq> [] \<and>
     (\<forall>x\<in>set a. isspace x) \<and> (\<forall>x\<in>set b. isspace x) \<and> (\<forall>x\<in>set c. isspace x))"
proof
  assume "w \<in> lang (ere_body showtech_pattern)"
  then obtain a s1 b t1 c where w: "w = a @ ''show'' @ [s1] @ b @ ''tech'' @ c" "isspace s1"
    "\<forall>x\<in>set a. isspace x" "\<forall>x\<in>set b. isspace x" "\<forall>x\<in>set c. isspace x"
    unfolding showtech_pattern_def ere.simps lang.simps(5) lang_lit conc_def mem_Collect_eq lang_spaces lang_space
    by auto
  then show "\<exists>a b c. w = a @ ''show'' @ b @ ''tech'' @ c \<and> b \<noteq> [] \<and>
     (\<forall>x\<in>set a. isspace x) \<and> (\<forall>x\<in>set b. isspace x) \<and> (\<forall>x\<in>set c. isspace x)"
    by (intro exI [of _ a] exI [of _ "s1 # b"] exI [of _ c]) simp
next
  assume "\<exists>a b c. w = a @ ''show'' @ b @ ''tech'' @ c \<and> b \<noteq> [] \<and>
     (\<forall>x\<in>set a. isspace x) \<and> (\<forall>x\<in>set b. isspace x) \<and> (\<forall>x\<in>set c. isspace x)"
  then obtain a b0 c where w0: "w = a @ ''show'' @ b0 @ ''tech'' @ c" "b0 \<noteq> []"
    "\<forall>x\<in>set a. isspace x" "\<forall>x\<in>set b0. isspace x" "\<forall>x\<in>set c. isspace x" by blast
  obtain s1 b where b0: "b0 = s1 # b" using w0(2) by (cases b0) auto
  have w: "w = a @ ''show'' @ [s1] @ b @ ''tech'' @ c" "isspace s1"
    "\<forall>x\<in>set a. isspace x" "\<forall>x\<in>set b. isspace x" "\<forall>x\<in>set c. isspace x"
    using w0 b0 by simp_all
  show "w \<in> lang (ere_body showtech_pattern)"
    unfolding showtech_pattern_def ere.simps w(1)
    by (intro cat_spaces cat_lit cat_space w(2-4)) (unfold lang_spaces, rule w(5))
qed

lemma regexec_showtech:
  assumes "newline \<notin> set s"
  shows "regexec showtech_pattern s \<longleftrightarrow> says_show_tech s"
proof
  assume "regexec showtech_pattern s"
  then obtain i j where ij: "i \<le> j" "j \<le> length s" "at_bol s i" "take (j - i) (drop i s) \<in> lang (ere_body showtech_pattern)"
    by (auto simp: regexec_iff showtech_pattern_def)
  have "i = 0" using ij(1-3) assms nth_mem [of "i - 1" s] by (cases i) (auto simp: at_bol_def)
  with ij(4) obtain a b c where "take j s = a @ ''show'' @ b @ ''tech'' @ c" "b \<noteq> []"
     "\<forall>x\<in>set a. isspace x" "\<forall>x\<in>set b. isspace x"
    by (auto simp: showtech_body)
  moreover have "s = take j s @ drop j s" by simp
  ultimately show "says_show_tech s"
    unfolding says_show_tech_def by (metis append_assoc)
next
  assume "says_show_tech s"
  then obtain a b c where s: "s = a @ ''show'' @ b @ ''tech'' @ c" "b \<noteq> []"
    "\<forall>x\<in>set a. isspace x" "\<forall>x\<in>set b. isspace x"
    unfolding says_show_tech_def by blast
  define w where "w = a @ ''show'' @ b @ ''tech''"
  have "w \<in> lang (ere_body showtech_pattern)"
    unfolding showtech_body w_def using s(2-4) by (intro exI [of _ a] exI [of _ b] exI [of _ "[]"]) simp
  moreover have "s = w @ c" using s(1) by (simp add: w_def)
  ultimately show "regexec showtech_pattern s"
    unfolding regexec_iff
    by (intro exI [of _ 0] exI [of _ "length w"]) (simp add: at_bol_def showtech_pattern_def)
qed

section \<open>No show tech in a loaded configuration\<close>

definition cmds_ok :: "config_spec list \<Rightarrow> bool" where
  "cmds_ok fs \<longleftrightarrow> (\<forall>f\<in>set fs. \<forall>x\<in>set (cs_subs f). \<forall>c\<in>set (ss_cmds x).
     \<exists>v. c = Some v \<and> \<not> regexec showtech_pattern v)"

lemma upd_last_cases:
  obtains "xs = []" "upd_last f xs = []" | ys y where "xs = ys @ [y]" "upd_last f xs = ys @ [f y]"
  by (cases xs rule: rev_cases) auto

lemma cmds_ok_in_sub:
  assumes "cmds_ok fs" "\<And>x. set (ss_cmds (g x)) \<subseteq> set (ss_cmds x) \<union> {Some v |v. \<not> regexec showtech_pattern v}"
  shows "cmds_ok (in_sub g fs)"
proof (cases fs rule: rev_cases)
  case Nil
  then show ?thesis by (simp add: in_sub_def cmds_ok_def)
next
  case (snoc fs0 f)
  have "\<exists>v. c = Some v \<and> \<not> regexec showtech_pattern v"
    if x: "x \<in> set (upd_last g (cs_subs f))" and c: "c \<in> set (ss_cmds x)" for x c
  proof (cases "cs_subs f" rule: rev_cases)
    case Nil
    with x show ?thesis by simp
  next
    case (snoc xs y)
    note sub = this
    show ?thesis
    proof (cases "x \<in> set xs")
      case True
      with c assms(1) sub \<open>fs = fs0 @ [f]\<close> show ?thesis by (auto simp: cmds_ok_def)
    next
      case False
      with x sub have "x = g y" by auto
      with c assms(2) [of y] have "c \<in> set (ss_cmds y) \<or> (\<exists>v. c = Some v \<and> \<not> regexec showtech_pattern v)" by blast
      with assms(1) sub \<open>fs = fs0 @ [f]\<close> show ?thesis by (auto simp: cmds_ok_def)
    qed
  qed
  with assms(1) snoc show ?thesis by (auto simp: in_sub_def cmds_ok_def)
qed

lemma cmds_ok_add:
  assumes "cmds_ok fs" "ss_cmds x = []"
  shows "cmds_ok (add_sub x fs)" "cmds_ok (with_dummy fs)"
proof -
  have "cmds_ok (add_sub y fs)" if "ss_cmds y = []" for y
    using assms(1) that by (cases fs rule: rev_cases) (auto simp: add_sub_def cmds_ok_def)
  with assms show "cmds_ok (add_sub x fs)" "cmds_ok (with_dummy fs)"
    by (simp_all add: with_dummy_def)
qed

lemma cmds_ok_upd:
  assumes "cmds_ok fs" "\<And>f. cs_subs (g f) = cs_subs f"
  shows "cmds_ok (upd_last g fs)"
  using assms by (cases fs rule: rev_cases) (auto simp: cmds_ok_def)

lemma cmds_ok_value:
  assumes "cmds_ok fs" "cfg_value st v fs = Some fs'"
  shows "cmds_ok fs'"
proof -
  note dum = cmds_ok_add(2) [OF assms(1), of blank_sub]
  have "cmds_ok (in_info h fs)" "cmds_ok (in_info h (with_dummy fs))" "cmds_ok (in_table k fs)" for h k
    unfolding in_info_def in_table_def using assms(1) dum by (auto intro!: cmds_ok_in_sub)
  moreover have "cmds_ok (in_sub (\<lambda>x. x\<lparr>ss_cmds := ss_cmds x @ [Some v]\<rparr>) (with_dummy fs))"
    if "\<not> regexec showtech_pattern v"
    using dum that by (auto intro!: cmds_ok_in_sub)
  ultimately show ?thesis
    using assms cmds_ok_upd [OF assms(1)] unfolding cfg_value_def by (auto split: if_splits)
qed

lemma cmds_ok_scalar:
  assumes "cmds_ok fs" "cfg_scalar v (st, fs) = Some (st', fs')"
  shows "cmds_ok fs'"
proof -
  note dum = cmds_ok_add(2) [OF assms(1), of blank_sub]
  have "cmds_ok (in_sub (\<lambda>x. x\<lparr>ss_tables := ss_tables x @ [y]\<rparr>) (with_dummy fs))" for y
    using dum by (auto intro!: cmds_ok_in_sub)
  moreover have "cmds_ok (fs @ [blank_feature])" using assms(1) by (auto simp: cmds_ok_def)
  ultimately show ?thesis
    using assms cmds_ok_value [OF assms(1)] cmds_ok_add(1) [OF assms(1), of blank_sub]
    unfolding cfg_scalar_def by (auto simp: Let_def split: if_splits)
qed

lemma cmds_ok_parse:
  "cmds_ok (snd x) \<Longrightarrow> cfg_parse vs x = Some y \<Longrightarrow> cmds_ok (snd y)"
proof (induction vs x rule: cfg_parse.induct)
  case (2 v vs x)
  then show ?case
    using cmds_ok_scalar [of "snd x" v "fst x"] by (auto split: option.splits)
qed simp

section \<open>A written configuration\<close>

definition plain_text :: "string \<Rightarrow> bool" where
  "plain_text v \<longleftrightarrow> v \<notin> set st_keystr"

definition table_scalars :: "table_spec \<Rightarrow> string list" where
  "table_scalars t = [''table'', ''table_name'', the (ts_name t), ''col_names''] @ map the (ts_cols t)"

definition body_scalars :: "sub_spec \<Rightarrow> string list" where
  "body_scalars x = ''cli_cmds'' # map the (ss_cmds x) @ concat (map table_scalars (ss_tables x))"

definition sub_scalars :: "sub_spec \<Rightarrow> string list" where
  "sub_scalars x = (case ss_info x of (n, d, a, b, c) \<Rightarrow>
     [''sub_feature'', ''sub_feature_name'', the n, ''sub_feature_desc'', the d,
      ''support_showtech_all'', if a then ''no'' else ''yes'',
      ''support_showtech_feature'', if b then ''yes'' else ''no''] @ body_scalars x)"

text \<open>A feature has sub features, or its commands stand directly under it, in a dummy one.\<close>

definition config_scalars :: "config_spec \<Rightarrow> string list" where
  "config_scalars f = [''feature'', ''feature_desc'', the (cs_desc f), ''feature_name'', the (cs_name f)] @
     (case cs_subs f of
        [] \<Rightarrow> []
      | x # xs \<Rightarrow> if ss_info x = (None, None, False, False, True) then body_scalars x
                  else concat (map sub_scalars (cs_subs f)))"

definition wf_table :: "table_spec \<Rightarrow> bool" where
  "wf_table t \<longleftrightarrow> (\<exists>v. ts_name t = Some v \<and> plain_text v) \<and> (\<forall>c\<in>set (ts_cols t). \<exists>v. c = Some v \<and> plain_text v)"

definition wf_body :: "sub_spec \<Rightarrow> bool" where
  "wf_body x \<longleftrightarrow> (\<forall>c\<in>set (ss_cmds x). \<exists>v. c = Some v \<and> plain_text v \<and> \<not> regexec showtech_pattern v) \<and>
     (\<forall>t\<in>set (ss_tables x). wf_table t)"

definition wf_config :: "config_spec \<Rightarrow> bool" where
  "wf_config f \<longleftrightarrow> (\<exists>v. cs_name f = Some v \<and> plain_text v) \<and> (\<exists>v. cs_desc f = Some v \<and> plain_text v) \<and>
     (\<forall>x\<in>set (cs_subs f). wf_body x) \<and>
     ((\<exists>x. cs_subs f = [x] \<and> ss_info x = (None, None, False, False, True) \<and> ss_cmds x \<noteq> []) \<or>
      (\<forall>x\<in>set (cs_subs f). \<exists>n d a b. ss_info x = (Some n, Some d, a, b, False) \<and> plain_text n \<and> plain_text d))"

lemma type_plain [simp]: "plain_text v \<Longrightarrow> getValueType (Some v) = VALUE"
  by (rule st_key.look_miss) (auto simp: plain_text_def)

lemma type_keys [simp]:
  "getValueType (Some ''feature'') = FEATURE" "getValueType (Some ''feature_name'') = FEATURE_NAME"
  "getValueType (Some ''feature_desc'') = FEATURE_DESC" "getValueType (Some ''sub_feature'') = SUB_FEATURE"
  "getValueType (Some ''sub_feature_name'') = SUB_FEATURE_NAME" "getValueType (Some ''sub_feature_desc'') = SUB_FEATURE_DESC"
  "getValueType (Some ''support_showtech_all'') = SUPPORT_SHOWTECH_ALL"
  "getValueType (Some ''support_showtech_feature'') = SUPPORT_SHOWTECH_FEATURE"
  "getValueType (Some ''cli_cmds'') = CLI_CMDS" "getValueType (Some ''table'') = TABLE"
  "getValueType (Some ''table_name'') = TABLE_NAME" "getValueType (Some ''col_names'') = COLNAMES"
  using st_key.look_hit [of 0] st_key.look_hit [of 1] st_key.look_hit [of 2] st_key.look_hit [of 3]
    st_key.look_hit [of 4] st_key.look_hit [of 5] st_key.look_hit [of 6] st_key.look_hit [of 7]
    st_key.look_hit [of 8] st_key.look_hit [of 10] st_key.look_hit [of 11] st_key.look_hit [of 12]
  by (simp_all add: st_keystr_def)

lemma plain_words [simp]: "plain_text ''yes''" "plain_text ''no''"
  by (simp_all add: plain_text_def st_keystr_def)

lemma cfg_parse_append:
  "cfg_parse (vs @ ws) x = (case cfg_parse vs x of None \<Rightarrow> None | Some y \<Rightarrow> cfg_parse ws y)"
  by (induction vs x rule: cfg_parse.induct) (auto split: option.splits)

text \<open>What the pieces of a written file do to the last feature.\<close>

lemma with_dummy_snoc [simp]:
  "with_dummy (fs0 @ [f\<lparr>cs_subs := xs @ [x]\<rparr>]) = fs0 @ [f\<lparr>cs_subs := xs @ [x]\<rparr>]"
  "cs_subs f = [] \<Longrightarrow> with_dummy (fs0 @ [f]) = fs0 @ [f\<lparr>cs_subs := [dummy_sub]\<rparr>]"
  by (simp_all add: with_dummy_def add_sub_def)

lemma parse_cmds:
  assumes "\<forall>c\<in>set cs. \<exists>v. c = Some v \<and> plain_text v \<and> \<not> regexec showtech_pattern v"
  shows "cfg_parse (map the cs) (CLI_CMDS, fs0 @ [f\<lparr>cs_subs := xs @ [x]\<rparr>]) =
    Some (CLI_CMDS, fs0 @ [f\<lparr>cs_subs := xs @ [x\<lparr>ss_cmds := ss_cmds x @ cs\<rparr>]\<rparr>])"
  using assms
proof (induction cs arbitrary: x)
  case (Cons c cs)
  then obtain v where v: "c = Some v" "plain_text v" "\<not> regexec showtech_pattern v" by auto
  then have "cfg_scalar (the c) (CLI_CMDS, fs0 @ [f\<lparr>cs_subs := xs @ [x]\<rparr>]) =
    Some (CLI_CMDS, fs0 @ [f\<lparr>cs_subs := xs @ [x\<lparr>ss_cmds := ss_cmds x @ [c]\<rparr>]\<rparr>])"
    by (simp add: cfg_scalar_def cfg_value_def)
  with Cons show ?case by simp
qed simp

lemma parse_cols:
  assumes "\<forall>c\<in>set cs. \<exists>v. c = Some v \<and> plain_text v" "ss_tables x = ts @ [t]"
  shows "cfg_parse (map the cs) (COLNAMES, fs0 @ [f\<lparr>cs_subs := xs @ [x]\<rparr>]) =
    Some (COLNAMES, fs0 @ [f\<lparr>cs_subs := xs @ [x\<lparr>ss_tables := ts @ [t\<lparr>ts_cols := ts_cols t @ cs\<rparr>]\<rparr>]\<rparr>])"
  using assms
proof (induction cs arbitrary: x t)
  case (Cons c cs)
  then obtain v where v: "c = Some v" "plain_text v" by auto
  let ?x = "x\<lparr>ss_tables := ts @ [t\<lparr>ts_cols := ts_cols t @ [c]\<rparr>]\<rparr>"
  have "cfg_scalar (the c) (COLNAMES, fs0 @ [f\<lparr>cs_subs := xs @ [x]\<rparr>]) =
    Some (COLNAMES, fs0 @ [f\<lparr>cs_subs := xs @ [?x]\<rparr>])"
    using v Cons.prems(2) by (simp add: cfg_scalar_def cfg_value_def in_table_def)
  moreover have "cfg_parse (map the cs) (COLNAMES, fs0 @ [f\<lparr>cs_subs := xs @ [?x]\<rparr>]) =
    Some (COLNAMES, fs0 @ [f\<lparr>cs_subs := xs @ [?x\<lparr>ss_tables := ts @ [t\<lparr>ts_cols := (ts_cols t @ [c]) @ cs\<rparr>]\<rparr>]\<rparr>])"
    using Cons.IH [of ?x "t\<lparr>ts_cols := ts_cols t @ [c]\<rparr>"] Cons.prems(1) by simp
  ultimately show ?case by simp
qed simp

lemma parse_table:
  assumes "wf_table t"
  shows "\<exists>st'. cfg_parse (table_scalars t) (st, fs0 @ [f\<lparr>cs_subs := xs @ [x]\<rparr>]) =
    Some (st', fs0 @ [f\<lparr>cs_subs := xs @ [x\<lparr>ss_tables := ss_tables x @ [t]\<rparr>]\<rparr>])"
proof -
  obtain n where n: "ts_name t = Some n" "plain_text n" and c: "\<forall>c\<in>set (ts_cols t). \<exists>v. c = Some v \<and> plain_text v"
    using assms by (auto simp: wf_table_def)
  show ?thesis
    using n parse_cols [OF c, of "x\<lparr>ss_tables := ss_tables x @ [\<lparr>ts_name = Some n, ts_cols = []\<rparr>]\<rparr>"
        "ss_tables x" "\<lparr>ts_name = Some n, ts_cols = []\<rparr>" fs0 xs f]
    by (cases t) (simp add: table_scalars_def cfg_scalar_def cfg_value_def in_table_def)
qed

lemma parse_tables:
  assumes "\<forall>t\<in>set ts. wf_table t"
  shows "\<exists>st'. cfg_parse (concat (map table_scalars ts)) (st, fs0 @ [f\<lparr>cs_subs := xs @ [x]\<rparr>]) =
    Some (st', fs0 @ [f\<lparr>cs_subs := xs @ [x\<lparr>ss_tables := ss_tables x @ ts\<rparr>]\<rparr>])"
  using assms
proof (induction ts arbitrary: st x)
  case (Cons t ts)
  let ?x = "x\<lparr>ss_tables := ss_tables x @ [t]\<rparr>"
  obtain st1 where s1: "cfg_parse (table_scalars t) (st, fs0 @ [f\<lparr>cs_subs := xs @ [x]\<rparr>]) =
      Some (st1, fs0 @ [f\<lparr>cs_subs := xs @ [?x]\<rparr>])"
    using parse_table [of t] Cons.prems by fastforce
  with Cons.IH [of st1 ?x] Cons.prems show ?case by (simp add: cfg_parse_append)
qed simp

lemma parse_body:
  assumes "wf_body x" "ss_cmds y = []" "ss_tables y = []" "ss_info y = ss_info x"
  shows "\<exists>st'. cfg_parse (body_scalars x) (st, fs0 @ [f\<lparr>cs_subs := xs @ [y]\<rparr>]) =
    Some (st', fs0 @ [f\<lparr>cs_subs := xs @ [x]\<rparr>])"
proof -
  have c: "\<forall>c\<in>set (ss_cmds x). \<exists>v. c = Some v \<and> plain_text v \<and> \<not> regexec showtech_pattern v"
    and t: "\<forall>t\<in>set (ss_tables x). wf_table t" using assms(1) by (simp_all add: wf_body_def)
  have k: "cfg_scalar ''cli_cmds'' (st, g) = Some (CLI_CMDS, g)" for g by (simp add: cfg_scalar_def)
  have "y\<lparr>ss_cmds := ss_cmds x, ss_tables := ss_tables x\<rparr> = x" using assms(2-4) by simp
  with parse_tables [OF t, of CLI_CMDS fs0 xs "y\<lparr>ss_cmds := ss_cmds x\<rparr>" f] assms(2,3) show ?thesis
    by (simp add: body_scalars_def k cfg_parse_append parse_cmds [OF c])
qed

lemma parse_sub:
  assumes "wf_body x" "ss_info x = (Some n, Some d, a, b, False)" "plain_text n" "plain_text d"
  shows "\<exists>st'. cfg_parse (sub_scalars x) (st, fs0 @ [f]) = Some (st', fs0 @ [f\<lparr>cs_subs := cs_subs f @ [x]\<rparr>])"
proof -
  let ?y = "\<lparr>ss_info = (Some n, Some d, a, b, False), ss_cmds = [], ss_tables = []\<rparr>"
  let ?h = "[''sub_feature'', ''sub_feature_name'', n, ''sub_feature_desc'', d,
      ''support_showtech_all'', if a then ''no'' else ''yes'', ''support_showtech_feature'', if b then ''yes'' else ''no'']"
  have "cfg_parse ?h (st, fs0 @ [f]) = Some (SUPPORT_SHOWTECH_FEATURE, fs0 @ [f\<lparr>cs_subs := cs_subs f @ [?y]\<rparr>])"
    using assms(3,4) by (cases a; cases b) (simp_all add: cfg_scalar_def cfg_value_def in_info_def add_sub_def)
  moreover obtain st' where "cfg_parse (body_scalars x) (SUPPORT_SHOWTECH_FEATURE, fs0 @ [f\<lparr>cs_subs := cs_subs f @ [?y]\<rparr>]) =
      Some (st', fs0 @ [f\<lparr>cs_subs := cs_subs f @ [x]\<rparr>])"
    using parse_body [OF assms(1), of ?y] assms(2) by fastforce
  moreover have "sub_scalars x = ?h @ body_scalars x" using assms(2) by (simp add: sub_scalars_def)
  ultimately show ?thesis by (simp only: cfg_parse_append) simp
qed

lemma parse_subs:
  assumes "\<forall>x\<in>set ys. wf_body x"
    "\<forall>x\<in>set ys. \<exists>n d a b. ss_info x = (Some n, Some d, a, b, False) \<and> plain_text n \<and> plain_text d"
  shows "\<exists>st'. cfg_parse (concat (map sub_scalars ys)) (st, fs0 @ [f]) = Some (st', fs0 @ [f\<lparr>cs_subs := cs_subs f @ ys\<rparr>])"
  using assms
proof (induction ys arbitrary: st f)
  case (Cons x ys)
  obtain st1 where s1: "cfg_parse (sub_scalars x) (st, fs0 @ [f]) = Some (st1, fs0 @ [f\<lparr>cs_subs := cs_subs f @ [x]\<rparr>])"
    using parse_sub [of x] Cons.prems by fastforce
  with Cons.IH [of st1 "f\<lparr>cs_subs := cs_subs f @ [x]\<rparr>"] Cons.prems show ?case by (simp add: cfg_parse_append)
qed simp

lemma parse_config:
  assumes "wf_config f"
  shows "\<exists>st'. cfg_parse (config_scalars f) (st, fs0) = Some (st', fs0 @ [f])"
proof -
  obtain n d where nd: "cs_name f = Some n" "plain_text n" "cs_desc f = Some d" "plain_text d"
    and b: "\<forall>x\<in>set (cs_subs f). wf_body x" using assms by (auto simp: wf_config_def)
  let ?f = "\<lparr>cs_name = Some n, cs_desc = Some d, cs_subs = []\<rparr>"
  let ?h = "[''feature'', ''feature_desc'', d, ''feature_name'', n]"
  have h: "cfg_parse ?h (st, fs0) = Some (FEATURE_NAME, fs0 @ [?f])"
    using nd by (simp add: cfg_scalar_def cfg_value_def)
  have f: "?f\<lparr>cs_subs := cs_subs f\<rparr> = f" using nd by (cases f) simp
  show ?thesis
  proof (cases "\<exists>x. cs_subs f = [x] \<and> ss_info x = (None, None, False, False, True) \<and> ss_cmds x \<noteq> []")
    case True
    then obtain x where x: "cs_subs f = [x]" "ss_info x = (None, None, False, False, True)" "ss_cmds x \<noteq> []" by blast
    then obtain c cs where c: "ss_cmds x = c # cs" by (cases "ss_cmds x") auto
    obtain v where v: "c = Some v" "plain_text v" "\<not> regexec showtech_pattern v" using b c x(1) by (auto simp: wf_body_def)
    have w: "wf_body x" using b x by simp
    obtain st' where st': "cfg_parse (body_scalars x) (FEATURE_NAME, fs0 @ [?f\<lparr>cs_subs := [] @ [dummy_sub]\<rparr>]) =
        Some (st', fs0 @ [?f\<lparr>cs_subs := [] @ [x]\<rparr>])"
      using parse_body [OF w, of dummy_sub FEATURE_NAME fs0 "[]" ?f] x(2) by auto
    have "cfg_parse (body_scalars x) (FEATURE_NAME, fs0 @ [?f]) =
        cfg_parse (body_scalars x) (FEATURE_NAME, fs0 @ [?f\<lparr>cs_subs := [dummy_sub]\<rparr>])"
      using v with_dummy_snoc(1) [of fs0 "[]" dummy_sub ?f] with_dummy_snoc(2) [of ?f fs0]
      by (simp add: body_scalars_def c cfg_scalar_def cfg_value_def del: with_dummy_snoc)
    with st' h f x nd show ?thesis
      unfolding config_scalars_def by (simp only: cfg_parse_append) simp
  next
    case False
    with assms have s: "\<forall>x\<in>set (cs_subs f). \<exists>n d a b. ss_info x = (Some n, Some d, a, b, False) \<and> plain_text n \<and> plain_text d"
      by (auto simp: wf_config_def)
    obtain st' where st': "cfg_parse (concat (map sub_scalars (cs_subs f))) (FEATURE_NAME, fs0 @ [?f]) =
        Some (st', fs0 @ [?f\<lparr>cs_subs := cs_subs f\<rparr>])"
      using parse_subs [OF b s, of FEATURE_NAME fs0 ?f] by auto
    have "config_scalars f = ?h @ concat (map sub_scalars (cs_subs f))"
      using s nd by (cases "cs_subs f") (auto simp: config_scalars_def)
    with h st' f show ?thesis by (simp only: cfg_parse_append) simp
  qed
qed

lemma parse_configs:
  assumes "\<forall>f\<in>set fs. wf_config f"
  shows "\<exists>st'. cfg_parse (concat (map config_scalars fs)) (st, fs0) = Some (st', fs0 @ fs)"
  using assms
proof (induction fs arbitrary: st fs0)
  case (Cons f fs)
  obtain st1 where s1: "cfg_parse (config_scalars f) (st, fs0) = Some (st1, fs0 @ [f])"
    using parse_config [of f] Cons.prems by fastforce
  with Cons.IH [of st1 "fs0 @ [f]"] Cons.prems show ?case by (simp add: cfg_parse_append)
qed simp

section \<open>What the loader promises\<close>

abbreviation config_path :: "string option \<Rightarrow> string" where
  "config_path c \<equiv> (case c of None \<Rightarrow> default_config_file | Some f \<Rightarrow> f)"

lemma free_empty:
  assumes "empty_heap s"
  shows "free_show_tech_config s = Some (Inr s)"
  using assms
  by (cases s) (simp add: free_show_tech_config_def free_feature_data_def empty_heap_def free_features.simps)

lemma get_config_run:
  assumes "empty_heap s" "st_yaml_init env" "st_file env (config_path c) = Some es" "yscalars es = ''feature'' # vs"
  shows "\<exists>s'. get_showtech_config env c s = Some (Inr (st_head s', s')) \<and>
     parsed env es (cfg_parse (yscalars es) (0, [])) s'"
proof -
  obtain s' where s': "st_events env es st_locals0 s = Some (Inr s')" "parsed env es (cfg_parse (yscalars es) (0, [])) s'"
    using st_events_feature [OF assms(1,4), of env] by blast
  have "st_head s = None" using assms(1) by (simp add: empty_heap_def)
  moreover have "s'\<lparr>st_head := st_head s'\<rparr> = s'" by simp
  ultimately show ?thesis
    using s' assms(2,3)
    by (intro exI [of _ s']) (simp add: get_showtech_config_def parse_showtech_config_def free_empty [OF assms(1)])
qed

text \<open>C12: loading the show tech configuration is all or nothing, whatever \<open>calloc\<close> does and however the file is
  wrong: from an empty heap, a file whose first scalar is \<open>feature\<close> makes \<open>get_showtech_config\<close> return the
  head of a heap that holds exactly the tree the file describes, or \<open>NULL\<close> with every node given back.\<close>

theorem get_showtech_config_all_or_nothing:
  assumes "empty_heap s" "st_yaml_init env" "st_file env (config_path c) = Some es" "yscalars es = ''feature'' # vs"
  shows "\<exists>p s'. get_showtech_config env c s = Some (Inr (p, s')) \<and> p = st_head s' \<and>
     ((p = None \<and> empty_heap s') \<or>
      (ycomplete es \<and> (\<exists>gs fs st. cfg_parse (yscalars es) (0, []) = Some (st, fs) \<and> st_rep s' gs fs)))"
proof -
  obtain s' where "get_showtech_config env c s = Some (Inr (st_head s', s'))"
    "parsed env es (cfg_parse (yscalars es) (0, [])) s'"
    using get_config_run [OF assms] by blast
  then show ?thesis
    unfolding parsed_def by (intro exI [of _ "st_head s'"] exI [of _ s']) (auto simp: empty_heap_def)
qed

lemma config_roundtrip_run:
  assumes "fs \<noteq> []" "\<forall>f\<in>set fs. wf_config f" "empty_heap s" "\<forall>a. st_calloc env a" "st_yaml_init env"
    "st_file env (config_path c) = Some (ystream (concat (map config_scalars fs)))"
  shows "\<exists>p s' gs. get_showtech_config env c s = Some (Inr (p, s')) \<and> p = st_head s' \<and> st_rep s' gs fs"
proof -
  let ?es = "ystream (concat (map config_scalars fs))"
  obtain st where st: "cfg_parse (concat (map config_scalars fs)) (0, []) = Some (st, fs)"
    using parse_configs [OF assms(2), of 0 "[]"] by auto
  obtain vs where vs: "yscalars ?es = ''feature'' # vs"
    using assms(1) by (cases fs) (auto simp: config_scalars_def)
  obtain s' where s': "get_showtech_config env c s = Some (Inr (st_head s', s'))"
    "parsed env ?es (cfg_parse (yscalars ?es) (0, [])) s'"
    using get_config_run [OF assms(3,5,6) vs] by blast
  then show ?thesis using st assms(4) by (auto simp: parsed_def)
qed

text \<open>C5: a configuration with well-formed features (names, descriptions, flags, commands that do not run show
  tech, tables with columns; commands either in named sub features or directly under the feature), written as
  the scalars of a complete file and read back, is the configuration on the heap.\<close>

theorem showtech_config_roundtrip:
  assumes "fs \<noteq> []" "\<forall>f\<in>set fs. wf_config f" "empty_heap s" "\<forall>a. st_calloc env a" "st_yaml_init env"
    "st_file env (config_path c) = Some (ystream (concat (map config_scalars fs)))"
  shows "\<exists>p s' gs. get_showtech_config env c s = Some (Inr (p, s')) \<and> p = st_head s' \<and> st_rep s' gs fs"
  by (rule config_roundtrip_run [OF assms])

text \<open>No loaded configuration makes show tech run itself: a command of one line that is on the heap after a
  load does not begin with the words \<open>show\<close> and \<open>tech\<close> separated by white space.\<close>

theorem loaded_commands_not_show_tech:
  assumes "empty_heap s" "st_yaml_init env" "st_file env (config_path c) = Some es" "yscalars es = ''feature'' # vs"
    and "get_showtech_config env c s = Some (Inr (p, s'))" "p \<noteq> None"
  shows "\<exists>gs fs. st_rep s' gs fs \<and> (\<forall>f\<in>set fs. \<forall>x\<in>set (cs_subs f). \<forall>cmd\<in>set (ss_cmds x).
     \<exists>v. cmd = Some v \<and> (newline \<notin> set v \<longrightarrow> \<not> says_show_tech v))"
proof -
  obtain s'' where s'': "get_showtech_config env c s = Some (Inr (st_head s'', s''))"
    "parsed env es (cfg_parse (yscalars es) (0, [])) s''"
    using get_config_run [OF assms(1-4)] by blast
  then have eq: "s'' = s'" "p = st_head s'" using assms(5) by simp_all
  with s''(2) assms(6) obtain gs fs st where p: "cfg_parse (yscalars es) (0, []) = Some (st, fs)" "st_rep s' gs fs"
    by (auto simp: parsed_def empty_heap_def)
  have ok: "cmds_ok fs" using cmds_ok_parse [OF _ p(1)] by (simp add: cmds_ok_def)
  have "\<forall>f\<in>set fs. \<forall>x\<in>set (cs_subs f). \<forall>cmd\<in>set (ss_cmds x). \<exists>v. cmd = Some v \<and> (newline \<notin> set v \<longrightarrow> \<not> says_show_tech v)"
    using ok regexec_showtech unfolding cmds_ok_def by blast
  with p(2) show ?thesis by blast
qed

text \<open>A loaded configuration is kept: the second call returns the same head and touches nothing.\<close>

theorem get_showtech_config_once:
  assumes "get_showtech_config env c s = Some (Inr (Some p, s'))"
  shows "get_showtech_config env' c' s' = Some (Inr (Some p, s'))"
proof (cases "st_head s")
  case None
  with assms have "and_then (parse_showtech_config env c s) (\<lambda>(p, s1). Some (Inr (p, s1\<lparr>st_head := p\<rparr>))) = Some (Inr (Some p, s'))"
    by (simp add: get_showtech_config_def)
  then obtain s1 where "s' = s1\<lparr>st_head := Some p\<rparr>" unfolding and_then_Inr by auto
  then show ?thesis by (simp add: get_showtech_config_def)
next
  case (Some q)
  with assms show ?thesis by (simp add: get_showtech_config_def)
qed

text \<open>C20: freeing a configuration releases every node of its tree, faults on none (no use after free, no double
  free), resets the head, and does so again harmlessly: the second call finds nothing to free.\<close>

theorem free_show_tech_config_frees_all:
  assumes "st_rep s gs fs"
  shows "\<exists>s'. free_show_tech_config s = Some (Inr s') \<and> empty_heap s' \<and> free_show_tech_config s' = Some (Inr s')"
proof -
  obtain s' where "free_show_tech_config s = Some (Inr s')" "empty_heap s'" by (rule free_rep [OF assms])
  with free_empty [of s'] show ?thesis by blast
qed

text \<open>Commands before the first feature are lost: the dummy sub feature that is made for them hangs below no
  feature, so the load returns \<open>NULL\<close> and the nodes stay allocated with nothing to free them by.\<close>

theorem commands_before_feature_leak:
  assumes "st_yaml_init env" "\<forall>a. st_calloc env a" "st_file env (config_path c) = Some (ystream [''cli_cmds'', v])"
    "plain_text v" "\<not> regexec showtech_pattern v"
  shows "\<exists>s' q. get_showtech_config env c sts0 = Some (Inr (None, s')) \<and>
     subs s' q \<noteq> None \<and> clis s' \<noteq> Map.empty \<and> free_show_tech_config s' = Some (Inr s')"
proof -
  define s2 where "s2 = sts0\<lparr>st_brk := 2, subs := [0 \<mapsto> \<lparr>sub_name = None, sub_desc = None, no_sta_support = False,
    support_stb = False, is_dummy = True, p_clicmds = Some 1, p_ovstable = None, sub_next = None\<rparr>],
    clis := [1 \<mapsto> \<lparr>command = Some v, command_failed = False, cli_next = None\<rparr>]\<rparr>"
  have parsed_cmd: "st_scalar env v (st_locals0\<lparr>st_state := CLI_CMDS\<rparr>) sts0 =
      Some (Inr (Some (st_locals0\<lparr>st_state := CLI_CMDS, st_sub := Some 0, st_cli := Some 1\<rparr>), s2))"
    using assms(2,4,5)
    by (simp add: st_scalar_def st_value_def on_cli_cmd_def dummy_subfeature_def append_cli_def add_clicmds_def
        add_subfeature_def set_subfeature_as_dummy_def set_sub_def link_sub_def st_alloc_def st_locals0_def
        sts0_def s2_def update_node_def deref_def cong: if_cong)
  have "st_scalar env ''cli_cmds'' st_locals0 sts0 = Some (Inr (Some (st_locals0\<lparr>st_state := CLI_CMDS\<rparr>), sts0))"
    by (simp add: st_scalar_def)
  with parsed_cmd have "st_events env (ystream [''cli_cmds'', v]) st_locals0 sts0 = Some (Inr s2)"
    by (simp add: ystream_def)
  then have "get_showtech_config env c sts0 = Some (Inr (None, s2))"
    using assms(1,3) by (simp add: get_showtech_config_def parse_showtech_config_def free_empty sts0_rep s2_def)
      (simp add: sts0_def)
  moreover have "free_show_tech_config s2 = Some (Inr s2)"
    by (simp add: free_show_tech_config_def free_feature_data_def free_features.simps s2_def sts0_def)
  moreover have "subs s2 0 \<noteq> None" "clis s2 1 \<noteq> None" by (simp_all add: s2_def)
  ultimately show ?thesis by (intro exI [of _ s2] exI [of _ 0]) auto
qed

section \<open>A file\<close>

definition lldp_config :: "config_spec list" where
  "lldp_config =
    [\<lparr>cs_name = Some ''lldp'', cs_desc = Some ''Link Layer Discovery'',
      cs_subs = [\<lparr>ss_info = (None, None, False, False, True), ss_cmds = [Some ''show lldp neighbor''], ss_tables = []\<rparr>]\<rparr>,
     \<lparr>cs_name = Some ''lacp'', cs_desc = Some ''Link Aggregation'',
      cs_subs = [\<lparr>ss_info = (Some ''state'', Some ''State of the LAGs'', True, True, False),
                  ss_cmds = [Some ''show lacp aggregates''],
                  ss_tables = [\<lparr>ts_name = Some ''Port'', ts_cols = [Some ''name'', Some ''lacp'']\<rparr>]\<rparr>]\<rparr>]"

definition disk :: "yevent list \<Rightarrow> (addr \<Rightarrow> bool) \<Rightarrow> st_env" where
  "disk es heap = \<lparr>st_calloc = heap, st_yaml_init = True, st_file = \<lambda>f. if f = default_config_file then Some es else None\<rparr>"

lemma disk_simps [simp]: "st_calloc (disk es h) = h" "st_yaml_init (disk es h)"
  "st_file (disk es h) default_config_file = Some es"
  by (simp_all add: disk_def)

lemma lldp_cmds: "\<not> regexec showtech_pattern ''show lldp neighbor''" "\<not> regexec showtech_pattern ''show lacp aggregates''"
  by code_simp+

lemma lldp_plain: "plain_text ''lldp''" "plain_text ''show lldp neighbor''"
  by (simp_all add: plain_text_def st_keystr_def)

lemma lldp_config_wf: "\<forall>f\<in>set lldp_config. wf_config f"
  by (simp add: lldp_config_def wf_config_def wf_body_def wf_table_def lldp_cmds plain_text_def st_keystr_def ex_bool_eq)

lemma lldp_feature: "\<exists>vs. concat (map config_scalars lldp_config) = ''feature'' # vs"
  by (simp add: lldp_config_def config_scalars_def)

theorem get_showtech_config_all_or_nothing_witness:
  "\<exists>p s'. get_showtech_config (disk (ystream [''feature'', ''sub_feature_name'', ''a'']) (\<lambda>a. a < 5)) None sts0 =
       Some (Inr (p, s')) \<and> p = st_head s' \<and>
     ((p = None \<and> empty_heap s') \<or>
      (ycomplete (ystream [''feature'', ''sub_feature_name'', ''a'']) \<and>
       (\<exists>gs fs st. cfg_parse (yscalars (ystream [''feature'', ''sub_feature_name'', ''a''])) (0, []) = Some (st, fs) \<and>
          st_rep s' gs fs)))"
  by (rule get_showtech_config_all_or_nothing [of _ _ _ _ "[''sub_feature_name'', ''a'']"]) (simp_all add: sts0_rep)

theorem showtech_config_roundtrip_witness:
  "\<exists>p s' gs. get_showtech_config (disk (ystream (concat (map config_scalars lldp_config))) (\<lambda>_. True)) None sts0 =
     Some (Inr (p, s')) \<and> p = st_head s' \<and> st_rep s' gs lldp_config"
  by (rule showtech_config_roundtrip [OF _ lldp_config_wf]) (use sts0_rep in \<open>auto simp: lldp_config_def\<close>)

theorem commands_before_feature_leak_witness:
  "\<exists>s' q. get_showtech_config (disk (ystream [''cli_cmds'', ''show lldp neighbor'']) (\<lambda>_. True)) None sts0 =
     Some (Inr (None, s')) \<and>
     subs s' q \<noteq> None \<and> clis s' \<noteq> Map.empty \<and> free_show_tech_config s' = Some (Inr s')"
  by (rule commands_before_feature_leak [where v = "''show lldp neighbor''"]) (simp_all add: lldp_cmds lldp_plain)

text \<open>The heap after a load, read off an execution of the parser.\<close>

definition lldp_heap :: sts where
  "lldp_heap = sts0\<lparr>st_head := Some 0, st_brk := 3,
     feats := [0 \<mapsto> \<lparr>ft_name = Some ''lldp'', ft_desc = None, p_subfeature = Some 1, ft_next = None\<rparr>],
     subs := [1 \<mapsto> \<lparr>sub_name = None, sub_desc = None, no_sta_support = False, support_stb = False, is_dummy = True,
                p_clicmds = Some 2, p_ovstable = None, sub_next = None\<rparr>],
     clis := [2 \<mapsto> \<lparr>command = Some ''show lldp neighbor'', command_failed = False, cli_next = None\<rparr>]\<rparr>"

definition lldp_file :: "yevent list" where
  "lldp_file = ystream [''feature'', ''feature_name'', ''lldp'', ''cli_cmds'', ''show lldp neighbor'']"

lemma lldp_heap_rep:
  "st_rep lldp_heap [(0, [(1, [2], [])])]
     [\<lparr>cs_name = Some ''lldp'', cs_desc = None,
       cs_subs = [\<lparr>ss_info = (None, None, False, False, True), ss_cmds = [Some ''show lldp neighbor''], ss_tables = []\<rparr>]\<rparr>]"
  by (auto simp: st_rep_def lldp_heap_def sts0_def holds_only_def sub_val_def contents_def clis_s_def tabs_s_def cols_s_def)

lemma lldp_load: "get_showtech_config (disk lldp_file (\<lambda>_. True)) None sts0 = Some (Inr (Some 0, lldp_heap))"
proof -
  have p: "getValueType (Some ''lldp'') = VALUE" "getValueType (Some ''show lldp neighbor'') = VALUE"
    by (simp_all add: lldp_plain)
  have "st_events (disk lldp_file (\<lambda>_. True)) lldp_file st_locals0 sts0 = Some (Inr lldp_heap)"
    unfolding lldp_file_def ystream_def
    by (simp add: p st_scalar_def st_value_def on_feature_key_def add_feature_def on_setter_def add_feature_name_def
        on_cli_cmd_def dummy_subfeature_def append_cli_def add_clicmds_def lldp_cmds
        add_subfeature_def set_subfeature_as_dummy_def set_sub_def link_sub_def st_alloc_def st_locals0_def
        sts0_def lldp_heap_def update_node_def deref_def strdup_with_nullcheck_def numeral_2_eq_2 cong: if_cong)
  then show ?thesis
    by (simp add: get_showtech_config_def parse_showtech_config_def free_empty sts0_rep)
      (simp add: sts0_def lldp_heap_def)
qed

theorem loaded_commands_not_show_tech_witness:
  "\<exists>gs fs. st_rep lldp_heap gs fs \<and> (\<forall>f\<in>set fs. \<forall>x\<in>set (cs_subs f). \<forall>cmd\<in>set (ss_cmds x).
     \<exists>v. cmd = Some v \<and> (newline \<notin> set v \<longrightarrow> \<not> says_show_tech v))"
  by (rule loaded_commands_not_show_tech [OF _ _ _ _ lldp_load, of lldp_file])
    (simp_all add: sts0_rep lldp_file_def)

theorem get_showtech_config_once_witness:
  "get_showtech_config (disk [] (\<lambda>_. False)) (Some ''other.yaml'') lldp_heap = Some (Inr (Some 0, lldp_heap))"
  by (rule get_showtech_config_once [OF lldp_load])

theorem free_show_tech_config_frees_all_witness:
  "\<exists>s'. free_show_tech_config lldp_heap = Some (Inr s') \<and> empty_heap s' \<and> free_show_tech_config s' = Some (Inr s')"
  by (rule free_show_tech_config_frees_all [OF lldp_heap_rep])

end
