(* ===== verification/Show_Tech_Vty.thy ===== *)
theory Show_Tech_Vty
  imports Show_Tech_Spec Vtysh
begin

text \<open>
  \<open>src/src/cli/show_tech_vty.c\<close>: the show tech command. It walks the configuration of
  \<open>Show_Tech_Config\<close> on the heap, hands every command to \<open>exec_showtech_cmd\<close>, marks the
  ones that fail in their nodes, and lists them at the end. What happens while the i-th
  command runs (did it fail, had the user interrupted before and after) is the
  observation \<open>cmd_obs env i\<close>; the threads and signals behind it are in
  \<open>Show_Tech_Thread\<close>.
\<close>

section \<open>State and environment\<close>

record tech_obs =
  ob_int_before :: bool      \<comment> \<open>\<open>gUserInterrupt\<close> when the loop tests it first\<close>
  ob_skip_before :: bool     \<comment> \<open>\<open>skip_further_execution\<close>\<close>
  ob_failed :: bool          \<comment> \<open>\<open>exec_showtech_cmd\<close> does not return \<open>CMD_SUCCESS\<close>\<close>
  ob_int_after :: bool
  ob_skip_after :: bool

record tech_env =
  cmd_obs :: "nat \<Rightarrow> tech_obs"
  int_end :: bool                \<comment> \<open>\<open>gUserInterrupt\<close> at the label \<open>USER_INTERRUPT\<close>\<close>
  sig_ok :: "nat \<Rightarrow> bool"        \<comment> \<open>the i-th call of \<open>sigaction\<close> succeeds\<close>
  start_text :: string           \<comment> \<open>\<open>ctime_r\<close>\<close>
  elapsed :: "string option"     \<comment> \<open>the run time, when it is over 0\<close>
  vty_nl :: string               \<comment> \<open>\<open>VTY_NEWLINE\<close>\<close>
  st_conf :: st_env

text \<open>\<open>sigs\<close> are the signals whose handler is the one of show tech.\<close>

record st_run =
  heap :: sts
  out :: "string list"
  execs :: "string option list"
  fails :: nat
  sigs :: "sig set"

datatype mode = ShowAll | ShowFeature | ShowSub

section \<open>Text\<close>

definition eq_rule :: string where "eq_rule = replicate 52 (CHR ''='')"
definition star_rule :: string where "star_rule = replicate 33 (CHR ''*'')"
definition dash_rule :: string where "dash_rule = replicate 60 (CHR ''-'')"
definition sub_rule :: string where "sub_rule = concat (replicate 26 ''= '') @ ''=''"

definition put :: "string list \<Rightarrow> st_run \<Rightarrow> st_run" where
  "put ts s = s\<lparr>out := out s @ ts\<rparr>"

definition feature_text :: "tech_env \<Rightarrow> string \<Rightarrow> string option \<Rightarrow> string list" where
  "feature_text env w name = [eq_rule @ vty_nl env, w @ '' Feature '' @ fmt_s name @ vty_nl env,
     eq_rule @ vty_nl env @ vty_nl env]"

definition sub_text :: "tech_env \<Rightarrow> string \<Rightarrow> string option \<Rightarrow> string list" where
  "sub_text env w name = [sub_rule @ vty_nl env, w @ '' Sub Feature '' @ fmt_s name @ vty_nl env,
     sub_rule @ vty_nl env @ vty_nl env]"

definition cmd_text :: "tech_env \<Rightarrow> string option \<Rightarrow> string list" where
  "cmd_text env c = [vty_nl env @ star_rule @ vty_nl env, ''Command : '' @ fmt_s c @ vty_nl env, star_rule @ vty_nl env]"

definition cmd_failed_text :: "tech_env \<Rightarrow> string option \<Rightarrow> string list" where
  "cmd_failed_text env c = [vty_nl env @ star_rule @ vty_nl env,
     ''Command '' @ fmt_s c @ '' failed to execute'' @ vty_nl env, star_rule @ vty_nl env]"

section \<open>Running commands\<close>

definition set_flag :: "addr \<Rightarrow> st_clicmds \<Rightarrow> bool \<Rightarrow> st_run \<Rightarrow> st_run" where
  "set_flag a n b s = s\<lparr>heap := (heap s)\<lparr>clis := (clis (heap s))(a \<mapsto> n\<lparr>command_failed := b\<rparr>)\<rparr>\<rparr>"

text \<open>Where the three copies of the loop look for an interrupt.\<close>

definition stop_before :: "tech_env \<Rightarrow> mode \<Rightarrow> nat \<Rightarrow> bool" where
  "stop_before env m i = (case m of
     ShowAll \<Rightarrow> False
   | ShowFeature \<Rightarrow> ob_int_before (cmd_obs env i) \<or> ob_skip_before (cmd_obs env i)
   | ShowSub \<Rightarrow> ob_int_before (cmd_obs env i))"

definition stop_after :: "tech_env \<Rightarrow> mode \<Rightarrow> nat \<Rightarrow> bool" where
  "stop_after env m i = (case m of
     ShowSub \<Rightarrow> ob_int_after (cmd_obs env i)
   | _ \<Rightarrow> ob_int_after (cmd_obs env i) \<or> ob_skip_after (cmd_obs env i))"

text \<open>The body of the loop for the node \<open>n\<close> at \<open>a\<close>; \<open>True\<close> is \<open>goto USER_INTERRUPT\<close>.\<close>

definition one_cli :: "tech_env \<Rightarrow> mode \<Rightarrow> addr \<Rightarrow> st_clicmds \<Rightarrow> st_run \<Rightarrow> bool \<times> st_run" where
  "one_cli env m a n s =
     (let i = length (execs s) in
      if stop_before env m i then (True, s)
      else
        (let s1 = put (cmd_text env (command n)) s;
             s2 = s1\<lparr>execs := execs s1 @ [command n]\<rparr>;
             s3 = (if ob_failed (cmd_obs env i)
                   then put (cmd_failed_text env (command n)) (set_flag a n True (s2\<lparr>fails := fails s2 + 1\<rparr>))
                   else s2)
         in if stop_after env m i then (True, set_flag a n False s3) else (False, s3)))"

partial_function (option) run_clis ::
    "tech_env \<Rightarrow> mode \<Rightarrow> addr option \<Rightarrow> st_run \<Rightarrow> (bool \<times> st_run) cres option" where
  "run_clis env m p s = (case p of
     None \<Rightarrow> Some (Inr (False, s))
   | Some a \<Rightarrow> (case clis (heap s) a of
         None \<Rightarrow> Some (Inl UseAfterFree)
       | Some n \<Rightarrow>
           (if fst (one_cli env m a n s) then Some (Inr (True, snd (one_cli env m a n s)))
            else run_clis env m (cli_next n) (snd (one_cli env m a n s)))))"

text \<open>The sub features of a feature, for \<open>show tech\<close> and \<open>show tech FEATURE\<close>.\<close>

partial_function (option) run_subs ::
    "tech_env \<Rightarrow> mode \<Rightarrow> addr option \<Rightarrow> st_run \<Rightarrow> (bool \<times> st_run) cres option" where
  "run_subs env m p s = (case p of
     None \<Rightarrow> Some (Inr (False, s))
   | Some a \<Rightarrow> (case subs (heap s) a of
         None \<Rightarrow> Some (Inl UseAfterFree)
       | Some n \<Rightarrow>
           (case run_clis env m (p_clicmds n) (if is_dummy n then s else put (sub_text env ''[Begin]'' (sub_name n)) s) of
              None \<Rightarrow> None
            | Some (Inl e) \<Rightarrow> Some (Inl e)
            | Some (Inr (stop, s1)) \<Rightarrow>
                (if stop then Some (Inr (True, s1))
                 else run_subs env m (sub_next n)
                        (if is_dummy n then s1 else put (sub_text env ''[End]'' (sub_name n)) s1)))))"

partial_function (option) run_features ::
    "tech_env \<Rightarrow> addr option \<Rightarrow> st_run \<Rightarrow> (bool \<times> st_run) cres option" where
  "run_features env p s = (case p of
     None \<Rightarrow> Some (Inr (False, s))
   | Some a \<Rightarrow> (case feats (heap s) a of
         None \<Rightarrow> Some (Inl UseAfterFree)
       | Some n \<Rightarrow>
           (case run_subs env ShowAll (p_subfeature n) (put (feature_text env ''[Begin]'' (ft_name n)) s) of
              None \<Rightarrow> None
            | Some (Inl e) \<Rightarrow> Some (Inl e)
            | Some (Inr (stop, s1)) \<Rightarrow>
                (if stop then Some (Inr (True, s1))
                 else run_features env (ft_next n) (put (feature_text env ''[End]'' (ft_name n)) s1)))))"

text \<open>\<open>show tech FEATURE\<close> runs to the first feature of that name. The result says whether the
  run was interrupted and whether there is such a feature.\<close>

partial_function (option) run_feature ::
    "tech_env \<Rightarrow> string \<Rightarrow> addr option \<Rightarrow> st_run \<Rightarrow> (bool \<times> bool \<times> st_run) cres option" where
  "run_feature env feature p s = (case p of
     None \<Rightarrow> Some (Inr (False, False, s))
   | Some a \<Rightarrow> (case feats (heap s) a of
         None \<Rightarrow> Some (Inl UseAfterFree)
       | Some n \<Rightarrow>
           (if strcmp_with_nullcheck (ft_name n) (Some feature) \<noteq> 0 then run_feature env feature (ft_next n) s
            else
              (case run_subs env ShowFeature (p_subfeature n) (put (feature_text env ''[Begin]'' (ft_name n)) s) of
                 None \<Rightarrow> None
               | Some (Inl e) \<Rightarrow> Some (Inl e)
               | Some (Inr (stop, s1)) \<Rightarrow>
                   Some (Inr (stop, True, if stop then s1 else put (feature_text env ''[End]'' (ft_name n)) s1))))))"

text \<open>The sub feature asked for, in one feature.\<close>

partial_function (option) run_sub_in ::
    "tech_env \<Rightarrow> string \<Rightarrow> addr option \<Rightarrow> st_run \<Rightarrow> (bool \<times> bool \<times> st_run) cres option" where
  "run_sub_in env sub p s = (case p of
     None \<Rightarrow> Some (Inr (False, False, s))
   | Some a \<Rightarrow> (case subs (heap s) a of
         None \<Rightarrow> Some (Inl UseAfterFree)
       | Some n \<Rightarrow>
           (if is_dummy n \<or> strcmp_with_nullcheck (sub_name n) (Some sub) \<noteq> 0 then run_sub_in env sub (sub_next n) s
            else
              (case run_clis env ShowSub (p_clicmds n) (put (sub_text env ''[Begin]'' (sub_name n)) s) of
                 None \<Rightarrow> None
               | Some (Inl e) \<Rightarrow> Some (Inl e)
               | Some (Inr (stop, s1)) \<Rightarrow>
                   Some (Inr (stop, True, if stop then s1 else put (sub_text env ''[End]'' (sub_name n)) s1))))))"

partial_function (option) run_sub_feature ::
    "tech_env \<Rightarrow> string \<Rightarrow> string \<Rightarrow> addr option \<Rightarrow> st_run \<Rightarrow> (bool \<times> bool \<times> st_run) cres option" where
  "run_sub_feature env feature sub p s = (case p of
     None \<Rightarrow> Some (Inr (False, False, s))
   | Some a \<Rightarrow> (case feats (heap s) a of
         None \<Rightarrow> Some (Inl UseAfterFree)
       | Some n \<Rightarrow>
           (if strcmp_with_nullcheck (ft_name n) (Some feature) \<noteq> 0
            then run_sub_feature env feature sub (ft_next n) s
            else
              (case run_sub_in env sub (p_subfeature n) s of
                 None \<Rightarrow> None
               | Some (Inl e) \<Rightarrow> Some (Inl e)
               | Some (Inr (stop, valid, s1)) \<Rightarrow>
                   (if stop \<or> valid then Some (Inr (stop, valid, s1))
                    else run_sub_feature env feature sub (ft_next n) s1)))))"

section \<open>The list of failed commands\<close>

partial_function (option) print_clis ::
    "tech_env \<Rightarrow> addr option \<Rightarrow> nat \<Rightarrow> st_run \<Rightarrow> (nat \<times> st_run) cres option" where
  "print_clis env p count s = (case p of
     None \<Rightarrow> Some (Inr (count, s))
   | Some a \<Rightarrow> (case clis (heap s) a of
         None \<Rightarrow> Some (Inl UseAfterFree)
       | Some n \<Rightarrow>
           (if command_failed n
            then print_clis env (cli_next n) (count + 1)
                   (set_flag a n False
                     (put [''  '' @ show_nat count @ ''. '' @ fmt_s (command n) @ vty_nl env] s))
            else print_clis env (cli_next n) count s)))"

partial_function (option) print_subs ::
    "tech_env \<Rightarrow> addr option \<Rightarrow> nat \<Rightarrow> st_run \<Rightarrow> (nat \<times> st_run) cres option" where
  "print_subs env p count s = (case p of
     None \<Rightarrow> Some (Inr (count, s))
   | Some a \<Rightarrow> (case subs (heap s) a of
         None \<Rightarrow> Some (Inl UseAfterFree)
       | Some n \<Rightarrow>
           (case print_clis env (p_clicmds n) count s of
              None \<Rightarrow> None
            | Some (Inl e) \<Rightarrow> Some (Inl e)
            | Some (Inr (count', s1)) \<Rightarrow> print_subs env (sub_next n) count' s1)))"

partial_function (option) print_features ::
    "tech_env \<Rightarrow> addr option \<Rightarrow> nat \<Rightarrow> st_run \<Rightarrow> (nat \<times> st_run) cres option" where
  "print_features env p count s = (case p of
     None \<Rightarrow> Some (Inr (count, s))
   | Some a \<Rightarrow> (case feats (heap s) a of
         None \<Rightarrow> Some (Inl UseAfterFree)
       | Some n \<Rightarrow>
           (case print_subs env (p_subfeature n) count s of
              None \<Rightarrow> None
            | Some (Inl e) \<Rightarrow> Some (Inl e)
            | Some (Inr (count', s1)) \<Rightarrow> print_features env (ft_next n) count' s1)))"

definition print_failed_commands :: "tech_env \<Rightarrow> addr option \<Rightarrow> st_run \<Rightarrow> st_run cres option" where
  "print_failed_commands env head s =
     and_then (print_features env head 1 s) (\<lambda>(_, s1). Some (Inr s1))"

section \<open>The command\<close>

text \<open>Changing a handler is a call of \<open>sigaction\<close>; when a handler cannot be changed back the
  process exits.\<close>

definition new_handler :: "sig \<Rightarrow> st_run \<Rightarrow> st_run" where
  "new_handler g s = s\<lparr>sigs := insert g (sigs s)\<rparr>"

definition old_handler :: "sig \<Rightarrow> st_run \<Rightarrow> st_run" where
  "old_handler g s = s\<lparr>sigs := sigs s - {g}\<rparr>"

fun restore :: "tech_env \<Rightarrow> nat \<Rightarrow> sig list \<Rightarrow> cmd_ret \<Rightarrow> st_run \<Rightarrow> ending \<times> st_run" where
  "restore env k [] rc s = (Returned rc, s)"
| "restore env k (g # gs) rc s =
     (if sig_ok env k then restore env (k + 1) gs rc (old_handler g s) else (Exited, s))"

definition init_failed :: "tech_env \<Rightarrow> nat \<Rightarrow> sig list \<Rightarrow> st_run \<Rightarrow> ending \<times> st_run" where
  "init_failed env k gs s = restore env k gs CMD_WARNING (put [''show tech init failed '' @ vty_nl env] s)"

text \<open>The label \<open>EXIT_FUN\<close>, and \<open>USER_INTERRUPT\<close> before it.\<close>

definition exit_fun :: "tech_env \<Rightarrow> cmd_ret \<Rightarrow> st_run \<Rightarrow> ending \<times> st_run" where
  "exit_fun env rc s = restore env 3 [SIGINT, SIGTSTP, SIGALRM] rc s"

definition user_interrupt :: "tech_env \<Rightarrow> st_run \<Rightarrow> ending \<times> st_run" where
  "user_interrupt env s = exit_fun env CMD_SUCCESS
     (if int_end env then put [''USER INTERRUPT:Show tech terminated'' @ vty_nl env] s else s)"

definition failure_text :: "tech_env \<Rightarrow> nat \<Rightarrow> string list" where
  "failure_text env k =
     (vty_nl env @ eq_rule @ vty_nl env) #
     (if k = 1
      then [show_nat k @ '' show tech command failed to execute'' @ vty_nl env, eq_rule @ vty_nl env,
            ''Failed command:'' @ vty_nl env]
      else [show_nat k @ '' show tech commands failed to execute'' @ vty_nl env, eq_rule @ vty_nl env,
            ''Failed commands:'' @ vty_nl env])"

definition success_text :: "tech_env \<Rightarrow> string list" where
  "success_text env = [vty_nl env @ eq_rule @ vty_nl env, ''Show Tech commands executed successfully'' @ vty_nl env,
     eq_rule @ vty_nl env]"

definition report :: "tech_env \<Rightarrow> addr option \<Rightarrow> st_run \<Rightarrow> (ending \<times> st_run) cres option" where
  "report env head s =
     and_then (if fails s \<noteq> 0 then print_failed_commands env head (put (failure_text env (fails s)) s)
               else Some (Inr (put (success_text env) s)))
       (\<lambda>s1. Some (Inr (user_interrupt env
          (case elapsed env of None \<Rightarrow> s1
           | Some t \<Rightarrow> put [''Show Tech took '' @ t @ '' seconds for execution'' @ vty_nl env] s1))))"

definition unsupported_text :: "tech_env \<Rightarrow> string option \<Rightarrow> string option \<Rightarrow> string list" where
  "unsupported_text env feature sub = (case sub of
     None \<Rightarrow> [''Feature '' @ fmt_s feature @ '' is not supported'' @ vty_nl env]
   | Some _ \<Rightarrow> [''Sub Feature '' @ fmt_s sub @ '' is not supported'' @ vty_nl env])"

definition run_selected ::
    "tech_env \<Rightarrow> string option \<Rightarrow> string option \<Rightarrow> addr option \<Rightarrow> st_run \<Rightarrow> (bool \<times> bool \<times> st_run) cres option" where
  "run_selected env feature sub head s = (case feature of
     None \<Rightarrow> and_then (run_features env head s) (\<lambda>(stop, s1). Some (Inr (stop, True, s1)))
   | Some f \<Rightarrow> (case sub of
         None \<Rightarrow> run_feature env f head s
       | Some b \<Rightarrow> run_sub_feature env f b head s))"

definition no_config_text :: "tech_env \<Rightarrow> string list" where
  "no_config_text env = [''Failed to obtain show tech configuration, please restore the configuration file using default file.''
     @ vty_nl env @ ''These files are located in /etc/openswitch/supportability/ '' @ vty_nl env]"

text \<open>From the point where the handlers are in place; \<open>failure_count\<close> starts at 0.\<close>

definition show_tech_body ::
    "tech_env \<Rightarrow> string option \<Rightarrow> string option \<Rightarrow> st_run \<Rightarrow> (ending \<times> st_run) cres option" where
  "show_tech_body env feature sub s0 =
     and_then (get_showtech_config (st_conf env) None (heap s0)) (\<lambda>(head, h).
       (let s = s0\<lparr>heap := h, fails := 0\<rparr> in
        if head = None then Some (Inr (exit_fun env CMD_WARNING (put (no_config_text env) s)))
        else and_then (run_selected env feature sub head
               (put [eq_rule @ vty_nl env, ''Show Tech executed on '' @ start_text env, eq_rule @ vty_nl env] s))
          (\<lambda>(stop, valid, s1).
             if stop then Some (Inr (user_interrupt env s1))
             else if \<not> valid then Some (Inr (exit_fun env CMD_SUCCESS (put (unsupported_text env feature sub) s1)))
             else report env head s1)))"

definition cli_show_tech ::
    "tech_env \<Rightarrow> string option \<Rightarrow> string option \<Rightarrow> st_run \<Rightarrow> (ending \<times> st_run) cres option" where
  "cli_show_tech env feature sub s =
     (if \<not> sig_ok env 0 then Some (Inr (init_failed env 1 [] s))
      else if \<not> sig_ok env 1 then Some (Inr (init_failed env 2 [SIGINT] (new_handler SIGINT s)))
      else if \<not> sig_ok env 2
        then Some (Inr (init_failed env 3 [SIGINT, SIGALRM] (new_handler SIGALRM (new_handler SIGINT s))))
      else show_tech_body env feature sub (new_handler SIGTSTP (new_handler SIGALRM (new_handler SIGINT s))))"

section \<open>The list of features\<close>

text \<open>\<open>%-27.26s\<close>: at most 26 characters, padded to 27. The build does not define
  \<open>_ST_SUBFEATURE_ENABLED\<close>.\<close>

definition pad27 :: "string \<Rightarrow> string" where
  "pad27 v = (let t = take 26 v in t @ replicate (27 - length t) (CHR '' ''))"

partial_function (option) list_features_from :: "tech_env \<Rightarrow> addr option \<Rightarrow> st_run \<Rightarrow> st_run cres option" where
  "list_features_from env p s = (case p of
     None \<Rightarrow> Some (Inr s)
   | Some a \<Rightarrow> (case feats (heap s) a of
         None \<Rightarrow> Some (Inl UseAfterFree)
       | Some n \<Rightarrow> list_features_from env (ft_next n)
           (put [pad27 (fmt_s (ft_name n)) @ fmt_s (ft_desc n) @ vty_nl env] s)))"

definition cli_show_tech_list :: "tech_env \<Rightarrow> st_run \<Rightarrow> (cmd_ret \<times> st_run) cres option" where
  "cli_show_tech_list env s0 =
     and_then (get_showtech_config (st_conf env) None (heap s0)) (\<lambda>(head, h).
       (let s = s0\<lparr>heap := h\<rparr> in
        if head = None then Some (Inr (CMD_SUCCESS, put (no_config_text env) s))
        else and_then (list_features_from env head
               (put [''Show Tech Supported Features List '' @ vty_nl env, dash_rule @ vty_nl env,
                 ''Feature                    Desc'' @ vty_nl env, dash_rule @ vty_nl env] s))
          (\<lambda>s1. Some (Inr (CMD_SUCCESS, s1)))))"

section \<open>Into a file\<close>

datatype errno = EEXIST | ENOENT | EACCES | Other_errno nat

text \<open>Opening for writing: \<open>open_excl\<close> is the result of \<open>O_EXCL\<close>, \<open>open_trunc\<close> of
  \<open>O_TRUNC\<close>. While show tech runs the text goes to \<open>vty->obuf\<close>, here the part of
  \<open>out\<close> that the run adds to the text that was there. The result holds the text written
  to the file, if it is.\<close>

record file_env =
  open_excl :: "string \<Rightarrow> errno option"      \<comment> \<open>None: opened\<close>
  open_trunc :: "string \<Rightarrow> errno option"
  obuf_ok :: bool                              \<comment> \<open>\<open>vty->obuf\<close> is not NULL\<close>
  getstr_ok :: bool                            \<comment> \<open>\<open>buffer_getstr\<close> is not NULL\<close>
  write_ok :: bool
  errno_text :: "nat \<Rightarrow> string"

abbreviation CHARBUF :: nat where "CHARBUF \<equiv> 160"

definition open_error_text :: "tech_env \<Rightarrow> file_env \<Rightarrow> string \<Rightarrow> errno \<Rightarrow> string" where
  "open_error_text env fe filename e = (case e of
     EEXIST \<Rightarrow> filename @ '' already exists, please give different name or use force option to overwrite existing file''
       @ vty_nl env
   | Other_errno k \<Rightarrow> ''File creation error('' @ show_nat k @ '') : '' @ errno_text fe k @ vty_nl env
   | _ \<Rightarrow> ''Permission denied: can't create file '' @ filename @ vty_nl env)"

definition cli_show_tech_file ::
    "tech_env \<Rightarrow> file_env \<Rightarrow> string option \<Rightarrow> string option \<Rightarrow> bool \<Rightarrow> st_run \<Rightarrow>
     (ending \<times> (string \<times> string) option \<times> st_run) cres option" where
  "cli_show_tech_file env fe fname feature force s = (case fname of
     None \<Rightarrow> Some (Inr (Returned CMD_WARNING, None, put [''Output file name not found'' @ vty_nl env] s))
   | Some f \<Rightarrow>
       if CHARBUF - 11 < length f
       then Some (Inr (Returned CMD_WARNING, None, put [''File name should be less then 150 characters'' @ vty_nl env] s))
       else
         (let filename = ''/tmp/'' @ f in
          case (if force then open_trunc fe filename else open_excl fe filename) of
            Some e \<Rightarrow> Some (Inr (Returned CMD_WARNING, None, put [open_error_text env fe filename e] s))
          | None \<Rightarrow>
              and_then (cli_show_tech env feature None s) (\<lambda>(r, s1).
                case r of Exited \<Rightarrow> Some (Inr (Exited, None, s1))
                | Returned _ \<Rightarrow>
                    if \<not> obuf_ok fe
                    then Some (Inr (Returned CMD_WARNING, None, put [''Show Tech execution failed'' @ vty_nl env] s1))
                    else
                      (let text = concat (out s1);
                           s2 = s1\<lparr>out := []\<rparr> in
                       if \<not> getstr_ok fe
                       then Some (Inr (Returned CMD_SUCCESS, None, put [''Show Tech execution failed'' @ vty_nl env] s2))
                       else if \<not> write_ok fe
                       then Some (Inr (Returned CMD_SUCCESS, None,
                         put [''Show Tech execution failed to store in file'' @ vty_nl env] s2))
                       else Some (Inr (Returned CMD_SUCCESS, Some (filename, text),
                         put [''Show Tech output stored in file '' @ filename @ vty_nl env] s2))))))"

section \<open>The action routines\<close>

definition cli_platform_show_tech :: "tech_env \<Rightarrow> st_run \<Rightarrow> (ending \<times> st_run) cres option" where
  "cli_platform_show_tech env s = cli_show_tech env None None s"

definition cli_platform_show_tech_list :: "tech_env \<Rightarrow> st_run \<Rightarrow> (cmd_ret \<times> st_run) cres option" where
  "cli_platform_show_tech_list env s = cli_show_tech_list env s"

type_synonym tech_file_handler =
  "tech_env \<Rightarrow> file_env \<Rightarrow> string option list \<Rightarrow> st_run \<Rightarrow> (ending \<times> (string \<times> string) option \<times> st_run) cres option"

definition cli_platform_show_tech_file :: tech_file_handler where
  "cli_platform_show_tech_file env fe argv s =
     and_then (Some (arg argv 0)) (\<lambda>f. cli_show_tech_file env fe f None False s)"

definition cli_platform_show_tech_feature_file :: tech_file_handler where
  "cli_platform_show_tech_feature_file env fe argv s =
     and_then (Some (arg argv 1)) (\<lambda>f. and_then (Some (arg argv 0)) (\<lambda>g. cli_show_tech_file env fe f g False s))"

definition cli_platform_show_tech_file_force :: tech_file_handler where
  "cli_platform_show_tech_file_force env fe argv s =
     and_then (Some (arg argv 0)) (\<lambda>f. cli_show_tech_file env fe f None True s)"

definition cli_platform_show_tech_feature_file_force :: tech_file_handler where
  "cli_platform_show_tech_feature_file_force env fe argv s =
     and_then (Some (arg argv 1)) (\<lambda>f. and_then (Some (arg argv 0)) (\<lambda>g. cli_show_tech_file env fe f g True s))"

definition cli_platform_show_tech_feature :: tech_file_handler where
  "cli_platform_show_tech_feature env fe argv s =
     and_then (Some (arg argv 1)) (\<lambda>f. and_then (Some (arg argv 0)) (\<lambda>g.
       if f \<noteq> None then cli_show_tech_file env fe f g False s
       else and_then (cli_show_tech env g None s) (\<lambda>(r, s1). Some (Inr (r, None, s1)))))"

end
