(* ===== verification/Show_Tech_Run.thy ===== *)
theory Show_Tech_Run
  imports Show_Tech_Vty
begin

text \<open>
  The show tech command on a loaded configuration: the loops over the heap as runs over the
  addresses of the command nodes in order. \<open>went\<close> is what a run of commands does,
  \<open>printed\<close> what the list of failed commands does; both compose along the tree.
\<close>

section \<open>Marks\<close>

definition unmark :: "st_clicmds \<Rightarrow> st_clicmds" where
  "unmark n = n\<lparr>command_failed := False\<rparr>"

text \<open>Two heaps with the same tree, up to the marks.\<close>

definition same_links :: "sts \<Rightarrow> sts \<Rightarrow> bool" where
  "same_links h h' \<longleftrightarrow> st_head h' = st_head h \<and> feats h' = feats h \<and> subs h' = subs h \<and> tables h' = tables h \<and>
     cols h' = cols h \<and> st_brk h' = st_brk h \<and> (\<forall>a. map_option unmark (clis h' a) = map_option unmark (clis h a))"

lemma same_links_refl [simp]: "same_links h h"
  by (simp add: same_links_def)

lemma same_links_trans: "same_links h h1 \<Longrightarrow> same_links h1 h2 \<Longrightarrow> same_links h h2"
  by (simp add: same_links_def)

lemma same_links_node:
  assumes "same_links h h'"
  shows "clis h a = None \<longleftrightarrow> clis h' a = None"
    "clis h a = Some n \<Longrightarrow> \<exists>n'. clis h' a = Some n' \<and> cli_next n' = cli_next n \<and> command n' = command n"
proof -
  have eq: "map_option unmark (clis h' a) = map_option unmark (clis h a)" using assms by (simp add: same_links_def)
  then show "clis h a = None \<longleftrightarrow> clis h' a = None" by (cases "clis h a"; cases "clis h' a") simp_all
  assume "clis h a = Some n"
  with eq obtain n' where n': "clis h' a = Some n'" "unmark n' = unmark n" by (cases "clis h' a") auto
  have "cli_next (unmark x) = cli_next x" "command (unmark x) = command x" for x by (simp_all add: unmark_def)
  with n' have "cli_next n' = cli_next n" "command n' = command n" by metis+
  with n'(1) show "\<exists>n'. clis h' a = Some n' \<and> cli_next n' = cli_next n \<and> command n' = command n" by blast
qed

lemma same_links_lpath:
  assumes "same_links h h'"
  shows "lpath cli_next (clis h) p as \<Longrightarrow> lpath cli_next (clis h') p as"
proof (induction as arbitrary: p)
  case (Cons a as)
  then obtain n where "clis h a = Some n" "p = Some a" "lpath cli_next (clis h) (cli_next n) as"
    by (auto split: option.splits)
  with same_links_node(2) [OF assms] Cons.IH show ?case by fastforce
qed simp

definition names :: "sts \<Rightarrow> addr list \<Rightarrow> string option list" where
  "names h as = contents command (clis h) as"

lemma names_simps [simp]: "names h [] = []" "names h (a # as) = command (the (clis h a)) # names h as"
  "names h (as @ bs) = names h as @ names h bs" "length (names h as) = length as"
  by (simp_all add: names_def)

lemma same_links_names:
  assumes "same_links h h'"
  shows "names h' as = names h as"
proof -
  have "command (the (clis h' a)) = command (the (clis h a))" for a
    using same_links_node [OF assms, of a] by (cases "clis h a") auto
  then show ?thesis by (simp add: names_def contents_def)
qed

lemma same_links_sub_at:
  assumes "same_links h h'" "sub_at h g x"
  shows "sub_at h' g x"
proof -
  obtain b cs ts where g: "g = (b, cs, ts)" by (cases g)
  have tab: "table_at h' t y" if "table_at h t y" for t y
    using that assms(1) by (cases t) (simp add: same_links_def)
  have "list_all2 (table_at h') ts ys" if "list_all2 (table_at h) ts ys" for ys
    using that by (rule list_all2_mono) (rule tab)
  moreover have "contents command (clis h') cs = contents command (clis h) cs"
    using same_links_names [OF assms(1), of cs] by (simp add: names_def)
  moreover have "subs h' = subs h" "tables h' = tables h" using assms(1) by (simp_all add: same_links_def)
  ultimately show ?thesis
    using assms(2) same_links_lpath [OF assms(1)] unfolding g by auto
qed

lemma same_links_rep:
  assumes "same_links h h'" "st_rep h gs fs"
  shows "st_rep h' gs fs"
proof -
  have feat: "feat_at h' g f" if "feat_at h g f" for g f
  proof -
    obtain a ss where g: "g = (a, ss)" by (cases g)
    have eq: "feats h' = feats h" "subs h' = subs h" using assms(1) by (simp_all add: same_links_def)
    from that obtain n where "feats h a = Some n" "ft_name n = cs_name f" "ft_desc n = cs_desc f"
      "lpath sub_next (subs h) (p_subfeature n) (map fst ss)" "list_all2 (sub_at h) ss (cs_subs f)"
      unfolding g by auto
    moreover from this(5) have "list_all2 (sub_at h') ss (cs_subs f)"
      by (rule list_all2_mono) (rule same_links_sub_at [OF assms(1)])
    ultimately show ?thesis unfolding g by (simp add: eq)
  qed
  have "list_all2 (feat_at h') gs fs" if "list_all2 (feat_at h) gs fs"
    using that by (rule list_all2_mono) (rule feat)
  moreover have "dom (clis h') = dom (clis h)" using same_links_node(1) [OF assms(1)] by (auto simp: dom_def)
  ultimately show ?thesis using assms by (simp add: st_rep_def holds_only_def same_links_def)
qed

lemma put_fields [simp]: "heap (put ts s) = heap s" "execs (put ts s) = execs s" "fails (put ts s) = fails s"
  "sigs (put ts s) = sigs s" "out (put ts s) = out s @ ts"
  by (simp_all add: put_def)

lemma set_flag_fields [simp]: "execs (set_flag a n b s) = execs s" "fails (set_flag a n b s) = fails s"
  "sigs (set_flag a n b s) = sigs s" "out (set_flag a n b s) = out s"
  "clis (heap (set_flag a n b s)) = (clis (heap s))(a \<mapsto> n\<lparr>command_failed := b\<rparr>)"
  by (simp_all add: set_flag_def)

lemma set_flag_links: "clis (heap s) a = Some n \<or> (\<exists>b. clis (heap s) a = Some (n\<lparr>command_failed := b\<rparr>)) \<Longrightarrow>
    same_links (heap s) (heap (set_flag a n c s))"
  by (auto simp: same_links_def set_flag_def unmark_def)

text \<open>The marked nodes.\<close>

definition marked :: "st_run \<Rightarrow> addr set" where
  "marked s = {a. \<exists>n. clis (heap s) a = Some n \<and> command_failed n}"

lemma marked_put [simp]: "marked (put ts s) = marked s"
  by (simp add: marked_def)

lemma marked_set_flag [simp]: "marked (set_flag a n b s) = (if b then insert a (marked s) else marked s - {a})"
  by (auto simp: marked_def)

section \<open>A run of commands\<close>

definition failed_at :: "tech_env \<Rightarrow> nat \<Rightarrow> addr list \<Rightarrow> addr list" where
  "failed_at env i as = map snd (filter (\<lambda>(j, a). ob_failed (cmd_obs env j)) (enumerate i as))"

lemma failed_at_simps [simp]:
  "failed_at env i [] = []"
  "failed_at env i (a # as) = (if ob_failed (cmd_obs env i) then a # failed_at env (Suc i) as else failed_at env (Suc i) as)"
  "failed_at env i (as @ bs) = failed_at env i as @ failed_at env (i + length as) bs"
  by (simp_all add: failed_at_def enumerate_append_eq)

lemma failed_at_set: "set (failed_at env i as) \<subseteq> set as"
  by (induction as arbitrary: i) (auto split: if_splits)

text \<open>How far a run got: \<open>k\<close> commands of \<open>as\<close>, the first of them number \<open>i\<close>.\<close>

definition got :: "tech_env \<Rightarrow> mode \<Rightarrow> nat \<Rightarrow> nat \<Rightarrow> nat \<Rightarrow> bool \<Rightarrow> bool" where
  "got env m i n k stop \<longleftrightarrow> k \<le> n \<and> (\<forall>j. Suc j < k \<longrightarrow> \<not> stop_after env m (i + j)) \<and>
     (if stop then 0 < k \<and> stop_after env m (i + k - 1) \<or> k < n \<and> stop_before env m (i + k)
      else k = n \<and> (\<forall>j<k. \<not> stop_after env m (i + j)))"

text \<open>A run over the nodes \<open>as\<close>: it stops early or not, and the commands it hands out are a
  prefix.\<close>

definition went :: "tech_env \<Rightarrow> mode \<Rightarrow> addr list \<Rightarrow> bool \<Rightarrow> st_run \<Rightarrow> st_run \<Rightarrow> bool" where
  "went env m as stop s s' \<longleftrightarrow>
     same_links (heap s) (heap s') \<and> sigs s' = sigs s \<and>
     (\<exists>k. got env m (length (execs s)) (length as) k stop \<and> execs s' = execs s @ take k (names (heap s) as) \<and>
        set (failed_at env (length (execs s)) (take (k - 1) as)) \<subseteq> marked s') \<and>
     marked s - set as \<subseteq> marked s' \<and> marked s' \<subseteq> marked s \<union> set as \<and>
     (stop \<or> fails s' = fails s + length (failed_at env (length (execs s)) as) \<and>
        marked s' = marked s \<union> set (failed_at env (length (execs s)) as))"

lemma went_nil [simp]: "went env m [] False s s"
  by (simp add: went_def got_def)

lemma went_put [simp]: "went env m as stop (put ts s) s' = went env m as stop s s'"
  "went env m as stop s (put ts s') = went env m as stop s s'"
  by (simp_all add: went_def)

lemma went_stop:
  assumes "went env m as True s s'"
  shows "went env m (as @ bs) True s s'"
proof -
  obtain k where "got env m (length (execs s)) (length as) k True" "execs s' = execs s @ take k (names (heap s) as)"
    "set (failed_at env (length (execs s)) (take (k - 1) as)) \<subseteq> marked s'"
    using assms unfolding went_def by blast
  then have "got env m (length (execs s)) (length (as @ bs)) k True \<and>
      execs s' = execs s @ take k (names (heap s) (as @ bs)) \<and>
      set (failed_at env (length (execs s)) (take (k - 1) (as @ bs))) \<subseteq> marked s'"
    by (auto simp: got_def)
  then have "\<exists>k. got env m (length (execs s)) (length (as @ bs)) k True \<and>
      execs s' = execs s @ take k (names (heap s) (as @ bs)) \<and>
      set (failed_at env (length (execs s)) (take (k - 1) (as @ bs))) \<subseteq> marked s'" by blast
  with assms show ?thesis unfolding went_def by auto
qed

lemma got_trans:
  assumes "got env m i n n False" "got env m (i + n) n' k stop"
  shows "got env m i (n + n') (n + k) stop"
proof -
  have "\<not> stop_after env m (i + j)" if "Suc j < n + k" for j
  proof (cases "j < n")
    case True
    with assms(1) show ?thesis by (simp add: got_def)
  next
    case False
    with that have "Suc (j - n) < k" by auto
    with assms(2) have "\<not> stop_after env m (i + n + (j - n))" unfolding got_def by blast
    with False show ?thesis by simp
  qed
  moreover have "\<not> stop_after env m (i + j)" if "\<not> stop" "j < n + k" for j
  proof (cases "j < n")
    case True
    with assms(1) show ?thesis by (simp add: got_def)
  next
    case False
    with that have "j - n < k" by auto
    with assms(2) that(1) have "\<not> stop_after env m (i + n + (j - n))" unfolding got_def by auto
    with False show ?thesis by simp
  qed
  ultimately show ?thesis using assms(2) unfolding got_def by (cases stop) (auto simp: add.assoc)
qed

lemma went_trans:
  assumes 1: "went env m as False s s1" and 2: "went env m bs stop s1 s2" and d: "distinct (as @ bs)"
  shows "went env m (as @ bs) stop s s2"
proof -
  let ?i = "length (execs s)"
  from 1 have w1: "same_links (heap s) (heap s1)" "sigs s1 = sigs s" "execs s1 = execs s @ names (heap s) as"
    "marked s - set as \<subseteq> marked s1" "marked s1 \<subseteq> marked s \<union> set as" "fails s1 = fails s + length (failed_at env ?i as)"
    "marked s1 = marked s \<union> set (failed_at env ?i as)" "got env m ?i (length as) (length as) False"
    by (auto simp: went_def got_def)
  from 2 obtain k where w2: "same_links (heap s1) (heap s2)" "sigs s2 = sigs s1"
    "got env m (length (execs s1)) (length bs) k stop"
    "execs s2 = execs s1 @ take k (names (heap s1) bs)"
    "set (failed_at env (length (execs s1)) (take (k - 1) bs)) \<subseteq> marked s2" "marked s1 - set bs \<subseteq> marked s2"
    "marked s2 \<subseteq> marked s1 \<union> set bs"
    "stop \<or> fails s2 = fails s1 + length (failed_at env (length (execs s1)) bs) \<and>
       marked s2 = marked s1 \<union> set (failed_at env (length (execs s1)) bs)"
    unfolding went_def by blast
  have len: "length (execs s1) = ?i + length as" using w1(3) by simp
  have nm: "names (heap s1) bs = names (heap s) bs" by (rule same_links_names [OF w1(1)])
  have early: "set (failed_at env ?i (take (length as - 1) as)) \<subseteq> set (failed_at env ?i as)"
    by (metis append_take_drop_id failed_at_simps(3) set_append Un_upper1)
  have keep: "set (failed_at env ?i as) \<subseteq> marked s2"
    using w1(7) w2(6) d failed_at_set [of env ?i as] by auto
  have "set (failed_at env ?i (take (length as + k - 1) (as @ bs))) \<subseteq> marked s2"
  proof (cases k)
    case 0
    with early keep show ?thesis by auto
  next
    case (Suc j)
    with keep w2(5) len show ?thesis by simp
  qed
  moreover have "got env m ?i (length (as @ bs)) (length as + k) stop"
    using got_trans [OF w1(8)] w2(3) len by simp
  moreover have "execs s2 = execs s @ take (length as + k) (names (heap s) (as @ bs))"
    using w1(3) w2(4) nm by simp
  ultimately have "\<exists>k. got env m ?i (length (as @ bs)) k stop \<and>
      execs s2 = execs s @ take k (names (heap s) (as @ bs)) \<and>
      set (failed_at env ?i (take (k - 1) (as @ bs))) \<subseteq> marked s2" by blast
  moreover have "marked s - set (as @ bs) \<subseteq> marked s2" "marked s2 \<subseteq> marked s \<union> set (as @ bs)"
    using w1(4,5) w2(6,7) by auto
  moreover have "stop \<or> fails s2 = fails s + length (failed_at env ?i (as @ bs)) \<and>
      marked s2 = marked s \<union> set (failed_at env ?i (as @ bs))"
    using w1(6,7) w2(8) len by auto
  ultimately show ?thesis
    using w1(2) w2(2) same_links_trans [OF w1(1) w2(1)] unfolding went_def by (intro conjI) simp_all
qed

lemma one_cli_effect:
  assumes n: "clis (heap s) a = Some n" and b: "\<not> stop_before env m (length (execs s))"
  defines "s' \<equiv> snd (one_cli env m a n s)"
  shows "fst (one_cli env m a n s) = stop_after env m (length (execs s))"
    "same_links (heap s) (heap s')" "sigs s' = sigs s" "execs s' = execs s @ [command n]"
    "fails s' = fails s + (if ob_failed (cmd_obs env (length (execs s))) then 1 else 0)"
    "marked s' = (if stop_after env m (length (execs s)) then marked s - {a}
       else if ob_failed (cmd_obs env (length (execs s))) then insert a (marked s) else marked s)"
proof -
  define s1 where "s1 = (put (cmd_text env (command n)) s)\<lparr>execs := execs s @ [command n]\<rparr>"
  define s2 where "s2 = (if ob_failed (cmd_obs env (length (execs s)))
      then put (cmd_failed_text env (command n)) (set_flag a n True (s1\<lparr>fails := fails s + 1\<rparr>)) else s1)"
  have run: "one_cli env m a n s = (if stop_after env m (length (execs s)) then (True, set_flag a n False s2) else (False, s2))"
    using b by (simp add: one_cli_def Let_def s1_def s2_def)
  have h1: "heap s1 = heap s" "sigs s1 = sigs s" "execs s1 = execs s @ [command n]" "fails s1 = fails s" "marked s1 = marked s"
    by (simp_all add: s1_def marked_def)
  have link: "same_links (heap s) (heap s2)"
    using set_flag_links [of "s1\<lparr>fails := fails s + 1\<rparr>" a n True] n h1(1) by (simp add: s2_def)
  have node: "clis (heap s2) a = Some n \<or> (\<exists>b. clis (heap s2) a = Some (n\<lparr>command_failed := b\<rparr>))"
    using n h1(1) by (auto simp: s2_def)
  have m1: "marked (s1\<lparr>fails := x\<rparr>) = marked s" for x using h1(1) by (simp add: marked_def)
  have s2: "sigs s2 = sigs s" "execs s2 = execs s @ [command n]"
    "fails s2 = fails s + (if ob_failed (cmd_obs env (length (execs s))) then 1 else 0)"
    "marked s2 = (if ob_failed (cmd_obs env (length (execs s))) then insert a (marked s) else marked s)"
    using h1 m1 by (simp_all add: s2_def)
  show "same_links (heap s) (heap s')"
    using link same_links_trans [OF link set_flag_links [OF node]] by (simp add: s'_def run)
  show "fst (one_cli env m a n s) = stop_after env m (length (execs s))" "sigs s' = sigs s"
    "execs s' = execs s @ [command n]"
    "fails s' = fails s + (if ob_failed (cmd_obs env (length (execs s))) then 1 else 0)"
    "marked s' = (if stop_after env m (length (execs s)) then marked s - {a}
       else if ob_failed (cmd_obs env (length (execs s))) then insert a (marked s) else marked s)"
    using s2 by (auto simp: s'_def run)
qed

lemma one_cli_went:
  assumes n: "clis (heap s) a = Some n"
  shows "went env m [a] (fst (one_cli env m a n s)) s (snd (one_cli env m a n s))"
proof (cases "stop_before env m (length (execs s))")
  case True
  then have "got env m (length (execs s)) 1 0 True" by (simp add: got_def)
  with True show ?thesis by (auto simp: one_cli_def went_def intro!: exI [of _ 0])
next
  case False
  note eff = one_cli_effect [OF n False]
  have "got env m (length (execs s)) 1 1 (stop_after env m (length (execs s)))" by (simp add: got_def)
  then show ?thesis
    unfolding went_def using eff n
    by (intro conjI exI [of _ 1]) auto
qed

lemma put_if [simp]: "heap (if c then s else put ts s) = heap s"
  "went env m as stop (if c then s else put ts s) s' = went env m as stop s s'"
  by simp_all

section \<open>The loops\<close>

lemma run_clis_path:
  assumes "lpath cli_next (clis (heap s)) p as" "distinct as"
  shows "\<exists>stop s'. run_clis env m p s = Some (Inr (stop, s')) \<and> went env m as stop s s'"
  using assms
proof (induction as arbitrary: p s)
  case Nil
  then show ?case by (intro exI [of _ False] exI [of _ s]) (simp add: run_clis.simps)
next
  case (Cons a as)
  then obtain n where n: "clis (heap s) a = Some n" "p = Some a" "lpath cli_next (clis (heap s)) (cli_next n) as"
    by (auto split: option.splits)
  define r where "r = one_cli env m a n s"
  have run: "run_clis env m p s = (if fst r then Some (Inr (True, snd r)) else run_clis env m (cli_next n) (snd r))"
    using n by (subst run_clis.simps) (simp add: r_def)
  have w: "went env m [a] (fst r) s (snd r)" unfolding r_def by (rule one_cli_went [OF n(1)])
  show ?case
  proof (cases "fst r")
    case True
    with w run went_stop [of env m "[a]" s "snd r" as] show ?thesis
      by (intro exI [of _ True] exI [of _ "snd r"]) simp
  next
    case False
    have "same_links (heap s) (heap (snd r))" using w by (simp add: went_def)
    then have l: "lpath cli_next (clis (heap (snd r))) (cli_next n) as" using n(3) by (rule same_links_lpath)
    have "distinct as" using Cons.prems(2) by simp
    from Cons.IH [OF l this] obtain stop s' where
      s': "run_clis env m (cli_next n) (snd r) = Some (Inr (stop, s'))" "went env m as stop (snd r) s'"
      by blast
    have "went env m ([a] @ as) stop s s'"
      by (rule went_trans [OF _ s'(2)]) (use w False Cons.prems(2) in simp_all)
    with s'(1) run False show ?thesis by simp
  qed
qed

definition clis_of_subs :: "sshape list \<Rightarrow> addr list" where
  "clis_of_subs ss = concat (map (\<lambda>(b, cs, ts). cs) ss)"

definition clis_of :: "fshape list \<Rightarrow> addr list" where
  "clis_of gs = concat (map (clis_of_subs \<circ> snd) gs)"

lemma clis_of_simps [simp]:
  "clis_of_subs [] = []" "clis_of_subs ((b, cs, ts) # ss) = cs @ clis_of_subs ss"
  "clis_of [] = []" "clis_of ((a, ss) # gs) = clis_of_subs ss @ clis_of gs"
  "clis_of (gs @ gs') = clis_of gs @ clis_of gs'"
  by (simp_all add: clis_of_subs_def clis_of_def)

lemma same_links_subs:
  "same_links h h' \<Longrightarrow> list_all2 (sub_at h) ss xs \<Longrightarrow> list_all2 (sub_at h') ss xs"
  by (erule list_all2_mono) (rule same_links_sub_at)

lemma run_subs_path:
  assumes "lpath sub_next (subs (heap s)) p (map fst ss)" "list_all2 (sub_at (heap s)) ss xs" "distinct (clis_of_subs ss)"
  shows "\<exists>stop s'. run_subs env m p s = Some (Inr (stop, s')) \<and> went env m (clis_of_subs ss) stop s s'"
  using assms
proof (induction ss arbitrary: p s xs)
  case Nil
  then show ?case by (intro exI [of _ False] exI [of _ s]) (simp add: run_subs.simps)
next
  case (Cons g ss)
  obtain b cs ts where g: "g = (b, cs, ts)" by (cases g)
  obtain x xs' where xs: "xs = x # xs'" "sub_at (heap s) g x" "list_all2 (sub_at (heap s)) ss xs'"
    using Cons.prems(2) by (auto simp: list_all2_Cons1)
  obtain n where n: "subs (heap s) b = Some n" "lpath cli_next (clis (heap s)) (p_clicmds n) cs"
    using xs(2) g by auto
  have p: "p = Some b" "lpath sub_next (subs (heap s)) (sub_next n) (map fst ss)"
    using Cons.prems(1) g n(1) by simp_all
  let ?s = "if is_dummy n then s else put (sub_text env ''[Begin]'' (sub_name n)) s"
  obtain stop s1 where s1: "run_clis env m (p_clicmds n) ?s = Some (Inr (stop, s1))" "went env m cs stop ?s s1"
    using run_clis_path [of ?s "p_clicmds n" cs env m] n(2) Cons.prems(3) g by auto
  have w: "went env m cs stop s s1" using s1(2) by simp
  show ?case
  proof (cases stop)
    case True
    have "run_subs env m p s = Some (Inr (True, s1))"
      using s1(1) True p(1) n(1) by (subst run_subs.simps) simp
    moreover have "went env m (cs @ clis_of_subs ss) True s s1" using w True by (intro went_stop) simp
    ultimately show ?thesis using g by auto
  next
    case False
    let ?t = "if is_dummy n then s1 else put (sub_text env ''[End]'' (sub_name n)) s1"
    have links: "same_links (heap s) (heap s1)" using w by (simp add: went_def)
    then have h: "subs (heap s1) = subs (heap s)" by (simp add: same_links_def)
    have "\<exists>stop' s2. run_subs env m (sub_next n) ?t = Some (Inr (stop', s2)) \<and> went env m (clis_of_subs ss) stop' ?t s2"
      using Cons.prems(3) g p(2) h same_links_subs [OF links xs(3)]
      by (intro Cons.IH [of ?t "sub_next n" xs']) simp_all
    then obtain stop' s2 where s2: "run_subs env m (sub_next n) ?t = Some (Inr (stop', s2))"
      "went env m (clis_of_subs ss) stop' ?t s2" by blast
    have "went env m (clis_of_subs ss) stop' s1 s2" using s2(2) by simp
    with w False have "went env m (cs @ clis_of_subs ss) stop' s s2"
      using Cons.prems(3) g by (intro went_trans [of env m cs s s1]) simp_all
    moreover have "run_subs env m p s = Some (Inr (stop', s2))"
      using s1(1) s2(1) False p(1) n(1) by (subst run_subs.simps) simp
    ultimately show ?thesis using g by auto
  qed
qed

lemma same_links_feats:
  assumes "same_links h h'" "list_all2 (feat_at h) gs fs"
  shows "list_all2 (feat_at h') gs fs"
  using assms(2)
proof (rule list_all2_mono)
  fix g f
  assume at: "feat_at h g f"
  obtain a ss where g: "g = (a, ss)" by (cases g)
  with at same_links_subs [OF assms(1)] assms(1) show "feat_at h' g f" by (auto simp: same_links_def)
qed

lemma run_features_path:
  assumes "lpath ft_next (feats (heap s)) p (map fst gs)" "list_all2 (feat_at (heap s)) gs fs" "distinct (clis_of gs)"
  shows "\<exists>stop s'. run_features env p s = Some (Inr (stop, s')) \<and> went env ShowAll (clis_of gs) stop s s'"
  using assms
proof (induction gs arbitrary: p s fs)
  case Nil
  then show ?case by (intro exI [of _ False] exI [of _ s]) (simp add: run_features.simps)
next
  case (Cons g gs)
  obtain a ss where g: "g = (a, ss)" by (cases g)
  obtain f fs' where fs: "fs = f # fs'" "feat_at (heap s) g f" "list_all2 (feat_at (heap s)) gs fs'"
    using Cons.prems(2) by (auto simp: list_all2_Cons1)
  obtain n where n: "feats (heap s) a = Some n" "lpath sub_next (subs (heap s)) (p_subfeature n) (map fst ss)"
    "list_all2 (sub_at (heap s)) ss (cs_subs f)"
    using fs(2) g by auto
  have p: "p = Some a" "lpath ft_next (feats (heap s)) (ft_next n) (map fst gs)"
    using Cons.prems(1) g n(1) by simp_all
  let ?s = "put (feature_text env ''[Begin]'' (ft_name n)) s"
  have "\<exists>stop s1. run_subs env ShowAll (p_subfeature n) ?s = Some (Inr (stop, s1)) \<and>
      went env ShowAll (clis_of_subs ss) stop ?s s1"
    using n(2,3) Cons.prems(3) g by (intro run_subs_path [of ?s _ ss "cs_subs f"]) simp_all
  then obtain stop s1 where s1: "run_subs env ShowAll (p_subfeature n) ?s = Some (Inr (stop, s1))"
    "went env ShowAll (clis_of_subs ss) stop s s1" by auto
  show ?case
  proof (cases stop)
    case True
    have "run_features env p s = Some (Inr (True, s1))"
      using s1(1) True p(1) n(1) by (subst run_features.simps) simp
    moreover have "went env ShowAll (clis_of_subs ss @ clis_of gs) True s s1" using s1(2) True by (intro went_stop) simp
    ultimately show ?thesis using g by auto
  next
    case False
    let ?t = "put (feature_text env ''[End]'' (ft_name n)) s1"
    have links: "same_links (heap s) (heap s1)" using s1(2) by (simp add: went_def)
    then have h: "feats (heap s1) = feats (heap s)" by (simp add: same_links_def)
    have "\<exists>stop' s2. run_features env (ft_next n) ?t = Some (Inr (stop', s2)) \<and> went env ShowAll (clis_of gs) stop' ?t s2"
      using Cons.prems(3) g p(2) h same_links_feats [OF links fs(3)]
      by (intro Cons.IH [of ?t "ft_next n" fs']) simp_all
    then obtain stop' s2 where s2: "run_features env (ft_next n) ?t = Some (Inr (stop', s2))"
      "went env ShowAll (clis_of gs) stop' s1 s2" by auto
    have "went env ShowAll (clis_of_subs ss @ clis_of gs) stop' s s2"
      using s1(2) False Cons.prems(3) g s2(2) by (intro went_trans [of env ShowAll _ s s1]) simp_all
    moreover have "run_features env p s = Some (Inr (stop', s2))"
      using s1(1) s2(1) False p(1) n(1) by (subst run_features.simps) simp
    ultimately show ?thesis using g by auto
  qed
qed

text \<open>The first feature of a name.\<close>

fun pick_feature :: "string \<Rightarrow> fshape list \<Rightarrow> config_spec list \<Rightarrow> (fshape \<times> config_spec) option" where
  "pick_feature v (g # gs) (f # fs) = (if cs_name f = Some v then Some (g, f) else pick_feature v gs fs)"
| "pick_feature v _ _ = None"

lemma run_feature_path:
  assumes "lpath ft_next (feats (heap s)) p (map fst gs)" "list_all2 (feat_at (heap s)) gs fs" "distinct (clis_of gs)"
  shows "case pick_feature v gs fs of
      None \<Rightarrow> run_feature env v p s = Some (Inr (False, False, s))
    | Some (g, f) \<Rightarrow> \<exists>stop s'. run_feature env v p s = Some (Inr (stop, True, s')) \<and>
        went env ShowFeature (clis_of_subs (snd g)) stop s s'"
  using assms
proof (induction gs arbitrary: p fs)
  case Nil
  then show ?case by (simp add: run_feature.simps)
next
  case (Cons g gs)
  obtain a ss where g: "g = (a, ss)" by (cases g)
  obtain f fs' where fs: "fs = f # fs'" "feat_at (heap s) g f" "list_all2 (feat_at (heap s)) gs fs'"
    using Cons.prems(2) by (auto simp: list_all2_Cons1)
  obtain n where n: "feats (heap s) a = Some n" "lpath sub_next (subs (heap s)) (p_subfeature n) (map fst ss)"
    "list_all2 (sub_at (heap s)) ss (cs_subs f)" "ft_name n = cs_name f"
    using fs(2) g by auto
  have p: "p = Some a" "lpath ft_next (feats (heap s)) (ft_next n) (map fst gs)"
    using Cons.prems(1) g n(1) by simp_all
  show ?case
  proof (cases "cs_name f = Some v")
    case False
    then have "strcmp_with_nullcheck (ft_name n) (Some v) \<noteq> 0" using n(4) by simp
    then have "run_feature env v p s = run_feature env v (ft_next n) s"
      using p(1) n(1) by (subst run_feature.simps) simp
    moreover have "pick_feature v (g # gs) fs = pick_feature v gs fs'" using False fs(1) by simp
    moreover have "distinct (clis_of gs)" using Cons.prems(3) g by simp
    ultimately show ?thesis using Cons.IH [OF p(2) fs(3)] by (simp only:)
  next
    case True
    let ?s = "put (feature_text env ''[Begin]'' (ft_name n)) s"
    have "\<exists>stop s1. run_subs env ShowFeature (p_subfeature n) ?s = Some (Inr (stop, s1)) \<and>
        went env ShowFeature (clis_of_subs ss) stop ?s s1"
      using n(2,3) Cons.prems(3) g by (intro run_subs_path [of ?s _ ss "cs_subs f"]) simp_all
    then obtain stop s1 where s1: "run_subs env ShowFeature (p_subfeature n) ?s = Some (Inr (stop, s1))"
      "went env ShowFeature (clis_of_subs ss) stop s s1" by auto
    have "run_feature env v p s = Some (Inr (stop, True, if stop then s1 else put (feature_text env ''[End]'' (ft_name n)) s1))"
      using s1(1) p(1) n(1,4) True by (subst run_feature.simps) simp
    with s1(2) fs(1) True g show ?thesis by (cases stop) (simp_all add: ex_bool_eq)
  qed
qed

text \<open>The first sub feature of a name that is not a dummy, in the features of a name.\<close>

fun pick_sub :: "string \<Rightarrow> sshape list \<Rightarrow> sub_spec list \<Rightarrow> addr list option" where
  "pick_sub v ((b, cs, ts) # ss) (x # xs) =
     (case ss_info x of (n, d, nosta, stb, dummy) \<Rightarrow>
        if \<not> dummy \<and> n = Some v then Some cs else pick_sub v ss xs)"
| "pick_sub v _ _ = None"

fun pick_sub_feature :: "string \<Rightarrow> string \<Rightarrow> fshape list \<Rightarrow> config_spec list \<Rightarrow> addr list option" where
  "pick_sub_feature u v ((a, ss) # gs) (f # fs) =
     (case (if cs_name f = Some u then pick_sub v ss (cs_subs f) else None) of
        Some cs \<Rightarrow> Some cs
      | None \<Rightarrow> pick_sub_feature u v gs fs)"
| "pick_sub_feature u v _ _ = None"

lemma run_sub_in_path:
  assumes "lpath sub_next (subs (heap s)) p (map fst ss)" "list_all2 (sub_at (heap s)) ss xs" "distinct (clis_of_subs ss)"
  shows "case pick_sub v ss xs of
      None \<Rightarrow> run_sub_in env v p s = Some (Inr (False, False, s))
    | Some cs \<Rightarrow> \<exists>stop s'. run_sub_in env v p s = Some (Inr (stop, True, s')) \<and> went env ShowSub cs stop s s'"
  using assms
proof (induction ss arbitrary: p xs)
  case Nil
  then show ?case by (simp add: run_sub_in.simps)
next
  case (Cons g ss)
  obtain b cs ts where g: "g = (b, cs, ts)" by (cases g)
  obtain x xs' where xs: "xs = x # xs'" "sub_at (heap s) g x" "list_all2 (sub_at (heap s)) ss xs'"
    using Cons.prems(2) by (auto simp: list_all2_Cons1)
  obtain n where n: "subs (heap s) b = Some n" "lpath cli_next (clis (heap s)) (p_clicmds n) cs"
    "ss_info x = (sub_name n, sub_desc n, no_sta_support n, support_stb n, is_dummy n)"
    using xs(2) g by (auto simp: sub_val_def)
  have p: "p = Some b" "lpath sub_next (subs (heap s)) (sub_next n) (map fst ss)"
    using Cons.prems(1) g n(1) by simp_all
  have d: "distinct cs" "distinct (clis_of_subs ss)" using Cons.prems(3) g by simp_all
  show ?case
  proof (cases "\<not> is_dummy n \<and> sub_name n = Some v")
    case False
    then have "is_dummy n \<or> strcmp_with_nullcheck (sub_name n) (Some v) \<noteq> 0" by auto
    then have "run_sub_in env v p s = run_sub_in env v (sub_next n) s"
      using p(1) n(1) by (subst run_sub_in.simps) simp
    moreover have "pick_sub v (g # ss) xs = pick_sub v ss xs'" using False xs(1) n(3) g by auto
    ultimately show ?thesis using Cons.IH [OF p(2) xs(3) d(2)] by (simp only:)
  next
    case True
    let ?s = "put (sub_text env ''[Begin]'' (sub_name n)) s"
    have "\<exists>stop s1. run_clis env ShowSub (p_clicmds n) ?s = Some (Inr (stop, s1)) \<and> went env ShowSub cs stop ?s s1"
      using n(2) d(1) by (intro run_clis_path) simp_all
    then obtain stop s1 where s1: "run_clis env ShowSub (p_clicmds n) ?s = Some (Inr (stop, s1))" "went env ShowSub cs stop s s1"
      by auto
    have "run_sub_in env v p s = Some (Inr (stop, True, if stop then s1 else put (sub_text env ''[End]'' (sub_name n)) s1))"
      using s1(1) p(1) n(1) True by (subst run_sub_in.simps) simp
    with s1(2) xs(1) n(3) True g show ?thesis by (cases stop) (simp_all add: ex_bool_eq)
  qed
qed

lemma run_sub_feature_path:
  assumes "lpath ft_next (feats (heap s)) p (map fst gs)" "list_all2 (feat_at (heap s)) gs fs" "distinct (clis_of gs)"
  shows "case pick_sub_feature u v gs fs of
      None \<Rightarrow> run_sub_feature env u v p s = Some (Inr (False, False, s))
    | Some cs \<Rightarrow> \<exists>stop s'. run_sub_feature env u v p s = Some (Inr (stop, True, s')) \<and> went env ShowSub cs stop s s'"
  using assms
proof (induction gs arbitrary: p fs)
  case Nil
  then show ?case by (simp add: run_sub_feature.simps)
next
  case (Cons g gs)
  obtain a ss where g: "g = (a, ss)" by (cases g)
  obtain f fs' where fs: "fs = f # fs'" "feat_at (heap s) g f" "list_all2 (feat_at (heap s)) gs fs'"
    using Cons.prems(2) by (auto simp: list_all2_Cons1)
  obtain n where n: "feats (heap s) a = Some n" "lpath sub_next (subs (heap s)) (p_subfeature n) (map fst ss)"
    "list_all2 (sub_at (heap s)) ss (cs_subs f)" "ft_name n = cs_name f"
    using fs(2) g by auto
  have p: "p = Some a" "lpath ft_next (feats (heap s)) (ft_next n) (map fst gs)"
    using Cons.prems(1) g n(1) by simp_all
  have d: "distinct (clis_of_subs ss)" "distinct (clis_of gs)" using Cons.prems(3) g by simp_all
  note IH = Cons.IH [OF p(2) fs(3) d(2)]
  note inner = run_sub_in_path [OF n(2,3) d(1), where v = v and env = env]
  show ?case
  proof (cases "if cs_name f = Some u then pick_sub v ss (cs_subs f) else None")
    case None
    then have "pick_sub_feature u v (g # gs) fs = pick_sub_feature u v gs fs'" using fs(1) g by simp
    moreover have "run_sub_feature env u v p s = run_sub_feature env u v (ft_next n) s"
      using p(1) n(1,4) None inner by (subst run_sub_feature.simps) (simp split: if_splits)
    ultimately show ?thesis using IH by (simp only:)
  next
    case (Some cs)
    then have u: "cs_name f = Some u" "pick_sub v ss (cs_subs f) = Some cs" by (simp_all split: if_splits)
    with inner obtain stop s' where s': "run_sub_in env v (p_subfeature n) s = Some (Inr (stop, True, s'))"
      "went env ShowSub cs stop s s'" by auto
    have "run_sub_feature env u v p s = Some (Inr (stop, True, s'))"
      using p(1) n(1,4) u(1) s'(1) by (subst run_sub_feature.simps) simp
    with s'(2) u fs(1) g show ?thesis by simp
  qed
qed

section \<open>What a command selects\<close>

definition mode_of :: "string option \<Rightarrow> string option \<Rightarrow> mode" where
  "mode_of feature sub = (case feature of None \<Rightarrow> ShowAll | Some _ \<Rightarrow> (case sub of None \<Rightarrow> ShowFeature | Some _ \<Rightarrow> ShowSub))"

definition selected :: "string option \<Rightarrow> string option \<Rightarrow> fshape list \<Rightarrow> config_spec list \<Rightarrow> addr list option" where
  "selected feature sub gs fs = (case feature of
     None \<Rightarrow> Some (clis_of gs)
   | Some u \<Rightarrow> (case sub of
         None \<Rightarrow> map_option (\<lambda>(g, f). clis_of_subs (snd g)) (pick_feature u gs fs)
       | Some v \<Rightarrow> pick_sub_feature u v gs fs))"

text \<open>The same selection on the configuration as a value.\<close>

definition feature_cmds :: "config_spec \<Rightarrow> string option list" where
  "feature_cmds f = concat (map ss_cmds (cs_subs f))"

definition named_sub :: "string \<Rightarrow> sub_spec \<Rightarrow> bool" where
  "named_sub v x \<longleftrightarrow> (case ss_info x of (n, d, nosta, stb, dummy) \<Rightarrow> \<not> dummy \<and> n = Some v)"

definition commands_of :: "string option \<Rightarrow> string option \<Rightarrow> config_spec list \<Rightarrow> string option list option" where
  "commands_of feature sub fs = (case feature of
     None \<Rightarrow> Some (concat (map feature_cmds fs))
   | Some u \<Rightarrow> (case sub of
         None \<Rightarrow> map_option feature_cmds (find (\<lambda>f. cs_name f = Some u) fs)
       | Some v \<Rightarrow> map_option ss_cmds
           (find (named_sub v) (concat (map cs_subs (filter (\<lambda>f. cs_name f = Some u) fs))))))"

lemma names_subs: "list_all2 (sub_at h) ss xs \<Longrightarrow> names h (clis_of_subs ss) = concat (map ss_cmds xs)"
proof (induction ss arbitrary: xs)
  case (Cons g ss)
  then show ?case by (cases g) (auto simp: list_all2_Cons1 names_def)
qed simp

lemma names_feature: "feat_at h g f \<Longrightarrow> names h (clis_of_subs (snd g)) = feature_cmds f"
  by (cases g) (auto simp: feature_cmds_def dest: names_subs)

lemma names_features: "list_all2 (feat_at h) gs fs \<Longrightarrow> names h (clis_of gs) = concat (map feature_cmds fs)"
proof (induction gs arbitrary: fs)
  case (Cons g gs)
  then obtain f fs' where "fs = f # fs'" "feat_at h g f" "list_all2 (feat_at h) gs fs'" by (auto simp: list_all2_Cons1)
  with Cons.IH [of fs'] names_feature [of h g f] show ?case by (cases g) simp
qed simp

lemma find_append: "find P (xs @ ys) = (case find P xs of None \<Rightarrow> find P ys | Some x \<Rightarrow> Some x)"
  by (induction xs) simp_all

lemma names_pick_sub: "list_all2 (sub_at h) ss xs \<Longrightarrow> map_option (names h) (pick_sub v ss xs) = map_option ss_cmds (find (named_sub v) xs)"
proof (induction ss arbitrary: xs)
  case (Cons g ss)
  then obtain x xs' where xs: "xs = x # xs'" "sub_at h g x" "list_all2 (sub_at h) ss xs'" by (auto simp: list_all2_Cons1)
  obtain b cs ts where g: "g = (b, cs, ts)" by (cases g)
  have "names h cs = ss_cmds x" using xs(2) g by (auto simp: names_def)
  with Cons.IH [OF xs(3)] xs(1) g show ?case by (simp add: named_sub_def split: prod.split)
qed simp

lemma names_selected:
  assumes at: "list_all2 (feat_at h) gs fs"
  shows "map_option (names h) (selected feature sub gs fs) = commands_of feature sub fs"
proof -
  have pick: "map_option (\<lambda>(g, f). names h (clis_of_subs (snd g))) (pick_feature u gs fs) =
      map_option feature_cmds (find (\<lambda>f. cs_name f = Some u) fs)" for u
    using at by (induction gs fs rule: list_all2_induct) (auto simp: names_feature)
  have sub: "map_option (names h) (pick_sub_feature u v gs fs) =
      map_option ss_cmds (find (named_sub v) (concat (map cs_subs (filter (\<lambda>f. cs_name f = Some u) fs))))" for u v
    using at
  proof (induction gs fs rule: list_all2_induct)
    case (Cons g gs f fs)
    obtain a ss where g: "g = (a, ss)" by (cases g)
    have ss: "list_all2 (sub_at h) ss (cs_subs f)" using Cons(1) g by auto
    note ps = names_pick_sub [OF ss, of v]
    show ?case
    proof (cases "cs_name f = Some u \<and> pick_sub v ss (cs_subs f) \<noteq> None")
      case True
      with ps g show ?thesis by (cases "find (named_sub v) (cs_subs f)") (auto simp: find_append)
    next
      case False
      with ps g Cons.IH show ?thesis by (auto simp: find_append split: option.splits)
    qed
  qed simp
  show ?thesis
    using names_features [OF at] pick sub
    by (auto simp: selected_def commands_of_def option.map_comp o_def case_prod_unfold split: option.split)
qed

section \<open>The list of failed commands\<close>

definition listing :: "tech_env \<Rightarrow> nat \<Rightarrow> string option list \<Rightarrow> string list" where
  "listing env k cs = map (\<lambda>(j, c). ''  '' @ show_nat j @ ''. '' @ fmt_s c @ vty_nl env) (enumerate k cs)"

lemma listing_simps [simp]:
  "listing env k [] = []"
  "listing env k (c # cs) = (''  '' @ show_nat k @ ''. '' @ fmt_s c @ vty_nl env) # listing env (Suc k) cs"
  "listing env k (cs @ ds) = listing env k cs @ listing env (k + length cs) ds"
  by (simp_all add: listing_def enumerate_append_eq)

abbreviation bad :: "st_run \<Rightarrow> addr list \<Rightarrow> addr list" where
  "bad s as \<equiv> filter (\<lambda>a. a \<in> marked s) as"

definition printed :: "tech_env \<Rightarrow> addr list \<Rightarrow> nat \<Rightarrow> st_run \<Rightarrow> nat \<Rightarrow> st_run \<Rightarrow> bool" where
  "printed env as k s k' s' \<longleftrightarrow> same_links (heap s) (heap s') \<and> sigs s' = sigs s \<and> execs s' = execs s \<and>
     fails s' = fails s \<and> k' = k + length (bad s as) \<and> out s' = out s @ listing env k (names (heap s) (bad s as)) \<and>
     marked s' = marked s - set as"

lemma printed_nil [simp]: "printed env [] k s k s"
  by (simp add: printed_def)

lemma printed_trans:
  assumes 1: "printed env as k s k1 s1" and 2: "printed env bs k1 s1 k2 s2" and d: "distinct (as @ bs)"
  shows "printed env (as @ bs) k s k2 s2"
proof -
  have "bad s1 bs = bad s bs"
    by (rule filter_cong) (use 1 d in \<open>auto simp: printed_def\<close>)
  moreover have "names (heap s1) xs = names (heap s) xs" for xs
    by (rule same_links_names) (use 1 in \<open>simp add: printed_def\<close>)
  moreover have "same_links (heap s) (heap s2)"
    using 1 2 same_links_trans unfolding printed_def by blast
  ultimately show ?thesis using 1 2 by (simp add: printed_def) blast
qed

lemma print_clis_path:
  assumes "lpath cli_next (clis (heap s)) p as" "distinct as"
  shows "\<exists>k' s'. print_clis env p k s = Some (Inr (k', s')) \<and> printed env as k s k' s'"
  using assms
proof (induction as arbitrary: p k s)
  case Nil
  then show ?case by (simp add: print_clis.simps)
next
  case (Cons a as)
  then obtain n where n: "clis (heap s) a = Some n" "p = Some a" "lpath cli_next (clis (heap s)) (cli_next n) as"
    by (auto split: option.splits)
  let ?s = "if command_failed n then set_flag a n False
      (put [''  '' @ show_nat k @ ''. '' @ fmt_s (command n) @ vty_nl env] s) else s"
  let ?k = "if command_failed n then k + 1 else k"
  have run: "print_clis env p k s = print_clis env (cli_next n) ?k ?s"
    using n by (subst print_clis.simps) simp
  have m: "a \<in> marked s \<longleftrightarrow> command_failed n" using n(1) by (simp add: marked_def)
  have links: "same_links (heap s) (heap ?s)"
    using n(1) set_flag_links [of "put [''  '' @ show_nat k @ ''. '' @ fmt_s (command n) @ vty_nl env] s" a n False] by simp
  have w: "printed env [a] k s ?k ?s"
    using m n(1) links by (auto simp: printed_def)
  have l: "lpath cli_next (clis (heap ?s)) (cli_next n) as" by (rule same_links_lpath [OF links n(3)])
  have "distinct as" using Cons.prems(2) by simp
  from Cons.IH [OF l this] obtain k' s' where s': "print_clis env (cli_next n) ?k ?s = Some (Inr (k', s'))"
    "printed env as ?k ?s k' s'" by blast
  have "printed env ([a] @ as) k s k' s'"
    by (rule printed_trans [OF w s'(2)]) (use Cons.prems(2) in simp)
  with s'(1) run show ?case by auto
qed

lemma print_subs_path:
  assumes "lpath sub_next (subs (heap s)) p (map fst ss)" "list_all2 (sub_at (heap s)) ss xs" "distinct (clis_of_subs ss)"
  shows "\<exists>k' s'. print_subs env p k s = Some (Inr (k', s')) \<and> printed env (clis_of_subs ss) k s k' s'"
  using assms
proof (induction ss arbitrary: p k s xs)
  case Nil
  then show ?case by (simp add: print_subs.simps)
next
  case (Cons g ss)
  obtain b cs ts where g: "g = (b, cs, ts)" by (cases g)
  obtain x xs' where xs: "xs = x # xs'" "sub_at (heap s) g x" "list_all2 (sub_at (heap s)) ss xs'"
    using Cons.prems(2) by (auto simp: list_all2_Cons1)
  obtain n where n: "subs (heap s) b = Some n" "lpath cli_next (clis (heap s)) (p_clicmds n) cs"
    using xs(2) g by auto
  have p: "p = Some b" "lpath sub_next (subs (heap s)) (sub_next n) (map fst ss)"
    using Cons.prems(1) g n(1) by simp_all
  have d: "distinct cs" "distinct (clis_of_subs ss)" "distinct (cs @ clis_of_subs ss)" using Cons.prems(3) g by simp_all
  obtain k1 s1 where s1: "print_clis env (p_clicmds n) k s = Some (Inr (k1, s1))" "printed env cs k s k1 s1"
    using print_clis_path [OF n(2) d(1)] by blast
  have links: "same_links (heap s) (heap s1)" using s1(2) by (simp add: printed_def)
  then have "lpath sub_next (subs (heap s1)) (sub_next n) (map fst ss)" using p(2) by (simp add: same_links_def)
  from Cons.IH [OF this same_links_subs [OF links xs(3)] d(2)] obtain k2 s2 where
    s2: "print_subs env (sub_next n) k1 s1 = Some (Inr (k2, s2))" "printed env (clis_of_subs ss) k1 s1 k2 s2" by blast
  have "print_subs env p k s = Some (Inr (k2, s2))"
    using s1(1) s2(1) p(1) n(1) by (subst print_subs.simps) simp
  with printed_trans [OF s1(2) s2(2) d(3)] g show ?case by auto
qed

lemma print_features_path:
  assumes "lpath ft_next (feats (heap s)) p (map fst gs)" "list_all2 (feat_at (heap s)) gs fs" "distinct (clis_of gs)"
  shows "\<exists>k' s'. print_features env p k s = Some (Inr (k', s')) \<and> printed env (clis_of gs) k s k' s'"
  using assms
proof (induction gs arbitrary: p k s fs)
  case Nil
  then show ?case by (simp add: print_features.simps)
next
  case (Cons g gs)
  obtain a ss where g: "g = (a, ss)" by (cases g)
  obtain f fs' where fs: "fs = f # fs'" "feat_at (heap s) g f" "list_all2 (feat_at (heap s)) gs fs'"
    using Cons.prems(2) by (auto simp: list_all2_Cons1)
  obtain n where n: "feats (heap s) a = Some n" "lpath sub_next (subs (heap s)) (p_subfeature n) (map fst ss)"
    "list_all2 (sub_at (heap s)) ss (cs_subs f)"
    using fs(2) g by auto
  have p: "p = Some a" "lpath ft_next (feats (heap s)) (ft_next n) (map fst gs)"
    using Cons.prems(1) g n(1) by simp_all
  have d: "distinct (clis_of_subs ss)" "distinct (clis_of gs)" "distinct (clis_of_subs ss @ clis_of gs)"
    using Cons.prems(3) g by simp_all
  obtain k1 s1 where s1: "print_subs env (p_subfeature n) k s = Some (Inr (k1, s1))" "printed env (clis_of_subs ss) k s k1 s1"
    using print_subs_path [OF n(2,3) d(1)] by blast
  have links: "same_links (heap s) (heap s1)" using s1(2) by (simp add: printed_def)
  then have "lpath ft_next (feats (heap s1)) (ft_next n) (map fst gs)" using p(2) by (simp add: same_links_def)
  from Cons.IH [OF this same_links_feats [OF links fs(3)] d(2)] obtain k2 s2 where
    s2: "print_features env (ft_next n) k1 s1 = Some (Inr (k2, s2))" "printed env (clis_of gs) k1 s1 k2 s2" by blast
  have "print_features env p k s = Some (Inr (k2, s2))"
    using s1(1) s2(1) p(1) n(1) by (subst print_features.simps) simp
  with printed_trans [OF s1(2) s2(2) d(3)] g show ?case by auto
qed

section \<open>The whole command\<close>

lemma clis_of_subs_addrs: "set (clis_of_subs ss) \<subseteq> set (concat (map sub_addrs ss))"
  "distinct (concat (map sub_addrs ss)) \<Longrightarrow> distinct (clis_of_subs ss)"
proof -
  show sub: "set (clis_of_subs ss) \<subseteq> set (concat (map sub_addrs ss))" for ss
  proof (induction ss)
    case (Cons g ss)
    then show ?case by (cases g) auto
  qed simp
  show "distinct (concat (map sub_addrs ss)) \<Longrightarrow> distinct (clis_of_subs ss)"
  proof (induction ss)
    case (Cons g ss)
    then show ?case using sub [of ss] by (cases g) auto
  qed simp
qed

lemma clis_of_addrs: "set (clis_of gs) \<subseteq> set (all_addrs gs)" "distinct (all_addrs gs) \<Longrightarrow> distinct (clis_of gs)"
proof -
  show sub: "set (clis_of gs) \<subseteq> set (all_addrs gs)" for gs
  proof (induction gs)
    case (Cons g gs)
    then show ?case using clis_of_subs_addrs(1) [of "snd g"] by (cases g) auto
  qed simp
  show "distinct (all_addrs gs) \<Longrightarrow> distinct (clis_of gs)"
  proof (induction gs)
    case (Cons g gs)
    then show ?case using sub [of gs] clis_of_subs_addrs [of "snd g"] by (cases g) auto
  qed simp
qed

lemma run_selected_path:
  assumes rep: "st_rep (heap s) gs fs"
  shows "case selected feature sub gs fs of
      None \<Rightarrow> run_selected env feature sub (st_head (heap s)) s = Some (Inr (False, False, s))
    | Some as \<Rightarrow> \<exists>stop s'. run_selected env feature sub (st_head (heap s)) s = Some (Inr (stop, True, s')) \<and>
        went env (mode_of feature sub) as stop s s'"
proof -
  have l: "lpath ft_next (feats (heap s)) (st_head (heap s)) (map fst gs)" "list_all2 (feat_at (heap s)) gs fs"
    "distinct (clis_of gs)"
    using rep clis_of_addrs(2) by (simp_all add: st_rep_def)
  show ?thesis
    using run_features_path [OF l, where env = env] run_feature_path [OF l, where env = env]
      run_sub_feature_path [OF l, where env = env]
    by (cases feature; cases sub) (fastforce simp: run_selected_def selected_def mode_of_def split: option.splits)+
qed

text \<open>What a command selects is a stretch of the commands of the tree.\<close>

lemma pick_sub_stretch: "pick_sub v ss xs = Some cs \<Longrightarrow> \<exists>us vs. clis_of_subs ss = us @ cs @ vs"
proof (induction ss arbitrary: xs)
  case (Cons g ss)
  obtain b cs' ts where g: "g = (b, cs', ts)" by (cases g)
  obtain x xs' where xs: "xs = x # xs'" using Cons.prems g by (cases xs) auto
  have "cs' = cs \<or> pick_sub v ss xs' = Some cs"
    using Cons.prems g xs by (auto split: prod.splits if_splits)
  then show ?case
  proof
    assume "cs' = cs"
    with g show ?thesis by (intro exI [of _ "[]"] exI [of _ "clis_of_subs ss"]) simp
  next
    assume "pick_sub v ss xs' = Some cs"
    with Cons.IH obtain us vs where "clis_of_subs ss = us @ cs @ vs" by blast
    then have "clis_of_subs (g # ss) = (cs' @ us) @ cs @ vs" using g by simp
    then show ?thesis by blast
  qed
qed simp

lemma selected_stretch: "selected feature sub gs fs = Some as \<Longrightarrow> \<exists>us vs. clis_of gs = us @ as @ vs"
proof -
  have 1: "\<exists>us vs. clis_of gs = us @ clis_of_subs (snd g) @ vs" if "pick_feature u gs fs = Some (g, f)" for u g f
    using that
  proof (induction u gs fs rule: pick_feature.induct)
    case (1 v h gs f' fs)
    show ?case
    proof (cases "cs_name f' = Some v")
      case True
      with 1 show ?thesis by (cases h) (auto intro: exI [of _ "[]"])
    next
      case False
      with 1 obtain us vs where "clis_of gs = us @ clis_of_subs (snd g) @ vs" by auto
      then have "clis_of (h # gs) = (clis_of_subs (snd h) @ us) @ clis_of_subs (snd g) @ vs" by (cases h) simp
      then show ?thesis by blast
    qed
  qed simp_all
  have 2: "\<exists>us vs. clis_of gs = us @ cs @ vs" if "pick_sub_feature u v gs fs = Some cs" for u v cs
    using that
  proof (induction u v gs fs rule: pick_sub_feature.induct)
    case (1 u v a ss gs f fs)
    show ?case
    proof (cases "if cs_name f = Some u then pick_sub v ss (cs_subs f) else None")
      case None
      with 1 obtain us vs where "clis_of gs = us @ cs @ vs" by auto
      then have "clis_of ((a, ss) # gs) = (clis_of_subs ss @ us) @ cs @ vs" by simp
      then show ?thesis by blast
    next
      case (Some cs')
      with 1 have "cs' = cs" by simp
      with Some pick_sub_stretch obtain us vs where "clis_of_subs ss = us @ cs @ vs" by (metis option.distinct(1))
      then have "clis_of ((a, ss) # gs) = us @ cs @ (vs @ clis_of gs)" by simp
      then show ?thesis by blast
    qed
  qed simp_all
  assume "selected feature sub gs fs = Some as"
  then show ?thesis using 1 2
    by (auto simp: selected_def split: option.splits intro: exI [of _ "[]"])
qed

section \<open>Handlers\<close>

lemma restore_ok:
  "restore env k gs rc s = (e, s') \<Longrightarrow> heap s' = heap s \<and> execs s' = execs s \<and> fails s' = fails s \<and> out s' = out s \<and>
     (e = Exited \<or> e = Returned rc \<and> sigs s' = sigs s - set gs)"
  by (induction env k gs rc s rule: restore.induct) (auto simp: old_handler_def split: if_splits)

lemma restore_all:
  assumes "\<forall>i. sig_ok env i"
  obtains s' where "restore env k gs rc s = (Returned rc, s')"
proof -
  have "fst (restore env k gs rc s) = Returned rc"
    using assms by (induction env k gs rc s rule: restore.induct) simp_all
  then show ?thesis by (cases "restore env k gs rc s") (auto intro: that)
qed

lemma marked_heap: "heap s' = heap s \<Longrightarrow> marked s' = marked s"
  by (simp add: marked_def)

definition selected_cmds :: "string option \<Rightarrow> string option \<Rightarrow> config_spec list \<Rightarrow> string option list" where
  "selected_cmds feature sub fs = (case commands_of feature sub fs of None \<Rightarrow> [] | Some cs \<Rightarrow> cs)"

text \<open>A loaded configuration is used as it is.\<close>

lemma loaded_config: "st_head h \<noteq> None \<Longrightarrow> get_showtech_config env c h = Some (Inr (st_head h, h))"
  by (auto simp: get_showtech_config_def)

text \<open>The report: the failed commands are listed when there are any.\<close>

definition report_text :: "tech_env \<Rightarrow> nat \<Rightarrow> string option list \<Rightarrow> string list" where
  "report_text env k cs = (if k = 0 then success_text env else failure_text env k @ listing env 1 cs)"

lemma report_path:
  assumes rep: "st_rep (heap s) gs fs"
  shows "\<exists>e s' post. report env (st_head (heap s)) s = Some (Inr (e, s')) \<and> same_links (heap s) (heap s') \<and>
     execs s' = execs s \<and> (e = Exited \<or> e = Returned CMD_SUCCESS \<and> sigs s' = sigs s - {SIGINT, SIGTSTP, SIGALRM}) \<and>
     out s' = out s @ report_text env (fails s) (names (heap s) (bad s (clis_of gs))) @ post \<and>
     ((\<forall>i. sig_ok env i) \<longrightarrow> e = Returned CMD_SUCCESS) \<and>
     (fails s \<noteq> 0 \<longrightarrow> marked s' = marked s - set (clis_of gs)) \<and> (fails s = 0 \<longrightarrow> marked s' = marked s)"
proof -
  define head where "head = st_head (heap s)"
  have l: "lpath ft_next (feats (heap s)) head (map fst gs)" "list_all2 (feat_at (heap s)) gs fs"
    "distinct (clis_of gs)"
    using rep clis_of_addrs(2) by (simp_all add: st_rep_def head_def)
  let ?b = "bad s (clis_of gs)"
  have "\<exists>s1. (if fails s \<noteq> 0 then print_failed_commands env head (put (failure_text env (fails s)) s)
       else Some (Inr (put (success_text env) s))) = Some (Inr s1) \<and> same_links (heap s) (heap s1) \<and> execs s1 = execs s \<and>
       sigs s1 = sigs s \<and> out s1 = out s @ report_text env (fails s) (names (heap s) ?b) \<and>
       (fails s \<noteq> 0 \<longrightarrow> marked s1 = marked s - set (clis_of gs)) \<and> (fails s = 0 \<longrightarrow> marked s1 = marked s)"
  proof (cases "fails s = 0")
    case True
    then show ?thesis by (simp add: report_text_def)
  next
    case False
    let ?s = "put (failure_text env (fails s)) s"
    obtain k' s1 where s1: "print_features env head 1 ?s = Some (Inr (k', s1))" "printed env (clis_of gs) 1 ?s k' s1"
      using print_features_path [of ?s head gs fs env 1] l by auto
    then show ?thesis
      using False by (intro exI [of _ s1]) (auto simp: print_failed_commands_def printed_def report_text_def)
  qed
  then obtain s1 where s1: "(if fails s \<noteq> 0 then print_failed_commands env head (put (failure_text env (fails s)) s)
       else Some (Inr (put (success_text env) s))) = Some (Inr s1)" "same_links (heap s) (heap s1)" "execs s1 = execs s"
    "sigs s1 = sigs s" "out s1 = out s @ report_text env (fails s) (names (heap s) ?b)"
    "fails s \<noteq> 0 \<longrightarrow> marked s1 = marked s - set (clis_of gs)" "fails s = 0 \<longrightarrow> marked s1 = marked s"
    by (elim exE conjE) (rule that; assumption)
  define s2 where "s2 = (case elapsed env of None \<Rightarrow> s1
     | Some t \<Rightarrow> put [''Show Tech took '' @ t @ '' seconds for execution'' @ vty_nl env] s1)"
  define s3 where "s3 = (if int_end env then put [''USER INTERRUPT:Show tech terminated'' @ vty_nl env] s2 else s2)"
  have s2: "heap s2 = heap s1" "execs s2 = execs s1" "sigs s2 = sigs s1" "\<exists>u. out s2 = out s1 @ u"
    by (simp_all add: s2_def split: option.split)
  have s3: "heap s3 = heap s2" "execs s3 = execs s2" "sigs s3 = sigs s2" "\<exists>u. out s3 = out s2 @ u"
    by (simp_all add: s3_def)
  obtain u v where uv: "out s2 = out s1 @ u" "out s3 = out s2 @ v" using s2(4) s3(4) by blast
  then obtain t where t: "out s3 = out s1 @ t" "heap s3 = heap s1" "execs s3 = execs s1" "sigs s3 = sigs s1"
    using s2 s3 that [of "u @ v"] by simp
  obtain e s' where r: "restore env 3 [SIGINT, SIGTSTP, SIGALRM] CMD_SUCCESS s3 = (e, s')"
    by (cases "restore env 3 [SIGINT, SIGTSTP, SIGALRM] CMD_SUCCESS s3")
  have run: "report env head s = Some (Inr (e, s'))"
    unfolding report_def s1(1) and_then_simps user_interrupt_def exit_fun_def s2_def [symmetric] s3_def [symmetric] r
    by (rule refl)
  have "e = Returned CMD_SUCCESS" if "\<forall>i. sig_ok env i"
    using restore_all [OF that, of 3 "[SIGINT, SIGTSTP, SIGALRM]" CMD_SUCCESS s3] r by auto
  note ok = restore_ok [OF r]
  have h: "heap s' = heap s1" using ok t(2) by simp
  have "report env head s = Some (Inr (e, s')) \<and> same_links (heap s) (heap s') \<and>
     execs s' = execs s \<and> (e = Exited \<or> e = Returned CMD_SUCCESS \<and> sigs s' = sigs s - {SIGINT, SIGTSTP, SIGALRM}) \<and>
     out s' = out s @ report_text env (fails s) (names (heap s) ?b) @ t \<and>
     ((\<forall>i. sig_ok env i) \<longrightarrow> e = Returned CMD_SUCCESS) \<and>
     (fails s \<noteq> 0 \<longrightarrow> marked s' = marked s - set (clis_of gs)) \<and> (fails s = 0 \<longrightarrow> marked s' = marked s)"
  proof (intro conjI)
    show "report env head s = Some (Inr (e, s'))" by (rule run)
    show "same_links (heap s) (heap s')" using s1(2) h by simp
    show "execs s' = execs s" using ok t(3) s1(3) by simp
    show "e = Exited \<or> e = Returned CMD_SUCCESS \<and> sigs s' = sigs s - {SIGINT, SIGTSTP, SIGALRM}"
      using ok t(4) s1(4) by simp
    show "out s' = out s @ report_text env (fails s) (names (heap s) ?b) @ t" using ok t(1) s1(5) by simp
    show "(\<forall>i. sig_ok env i) \<longrightarrow> e = Returned CMD_SUCCESS" by (intro impI) fact
    show "fails s \<noteq> 0 \<longrightarrow> marked s' = marked s - set (clis_of gs)" "fails s = 0 \<longrightarrow> marked s' = marked s"
      using s1(6,7) marked_heap [OF h] by simp_all
  qed
  then show ?thesis unfolding head_def by (intro exI)
qed

text \<open>The state in which the commands start.\<close>

definition start_banner :: "tech_env \<Rightarrow> string list" where
  "start_banner env = [eq_rule @ vty_nl env, ''Show Tech executed on '' @ start_text env, eq_rule @ vty_nl env]"

lemma show_tech_start:
  assumes "st_head (heap s) \<noteq> None" "sig_ok env 0" "sig_ok env 1" "sig_ok env 2"
  obtains s0 where "heap s0 = heap s" "execs s0 = execs s" "fails s0 = 0" "out s0 = out s @ start_banner env"
    "sigs s0 = insert SIGTSTP (insert SIGALRM (insert SIGINT (sigs s)))"
    "cli_show_tech env feature sub s =
       and_then (run_selected env feature sub (st_head (heap s)) s0) (\<lambda>(stop, valid, s1).
          if stop then Some (Inr (user_interrupt env s1))
          else if \<not> valid then Some (Inr (exit_fun env CMD_SUCCESS (put (unsupported_text env feature sub) s1)))
          else report env (st_head (heap s)) s1)"
proof -
  define s1 where "s1 = new_handler SIGTSTP (new_handler SIGALRM (new_handler SIGINT s))"
  have s1: "heap s1 = heap s" "execs s1 = execs s" "out s1 = out s" "sigs s1 = insert SIGTSTP (insert SIGALRM (insert SIGINT (sigs s)))"
    by (simp_all add: s1_def new_handler_def)
  define s0 where "s0 = put (start_banner env) (s1\<lparr>fails := 0\<rparr>)"
  have e: "s1\<lparr>heap := heap s, fails := 0\<rparr> = s1\<lparr>fails := 0\<rparr>" using s1(1) by (cases s1) simp
  have "get_showtech_config (st_conf env) None (heap s1) = Some (Inr (st_head (heap s), heap s))"
    using assms(1) s1(1) by (simp add: loaded_config)
  then have "show_tech_body env feature sub s1 = and_then (run_selected env feature sub (st_head (heap s)) s0) (\<lambda>(stop, valid, s1).
          if stop then Some (Inr (user_interrupt env s1))
          else if \<not> valid then Some (Inr (exit_fun env CMD_SUCCESS (put (unsupported_text env feature sub) s1)))
          else report env (st_head (heap s)) s1)"
    unfolding show_tech_body_def start_banner_def [symmetric] Let_def
    by (simp only: and_then_simps prod.case assms(1) if_False e s0_def)
  moreover have "cli_show_tech env feature sub s = show_tech_body env feature sub s1"
    using assms(2-4) by (simp add: cli_show_tech_def s1_def)
  ultimately show ?thesis using s1 by (intro that [of s0]) (simp_all add: s0_def)
qed

end
