(* ===== verification/Show_Tech_Correct.thy ===== *)
theory Show_Tech_Correct
  imports Show_Tech_Run
begin

text \<open>
  What the show tech command promises on a loaded configuration: it returns whatever the
  commands do and whenever the user interrupts, it runs a prefix of the commands it selects,
  and an undisturbed run executes them all and lists exactly the failed ones. An interrupted
  run leaves marks behind that the next run lists.
\<close>

section \<open>Failed commands\<close>

definition failed_cmds :: "tech_env \<Rightarrow> nat \<Rightarrow> string option list \<Rightarrow> string option list" where
  "failed_cmds env i cs = map snd (filter (\<lambda>(j, c). ob_failed (cmd_obs env j)) (enumerate i cs))"

lemma failed_cmds_simps [simp]:
  "failed_cmds env i [] = []"
  "failed_cmds env i (c # cs) = (if ob_failed (cmd_obs env i) then c # failed_cmds env (Suc i) cs else failed_cmds env (Suc i) cs)"
  by (simp_all add: failed_cmds_def)

lemma names_failed: "names h (failed_at env i as) = failed_cmds env i (names h as)"
  by (induction as arbitrary: i) simp_all

lemma filter_failed: "distinct as \<Longrightarrow> filter (\<lambda>a. a \<in> set (failed_at env i as)) as = failed_at env i as"
proof (induction as arbitrary: i)
  case (Cons a as)
  have "a \<notin> set (failed_at env (Suc i) as)" using Cons.prems failed_at_set [of env "Suc i" as] by auto
  moreover have "filter (\<lambda>b. b = a \<or> b \<in> set (failed_at env (Suc i) as)) as = filter (\<lambda>b. b \<in> set (failed_at env (Suc i) as)) as"
    by (rule filter_cong) (use Cons.prems in auto)
  ultimately show ?case using Cons by simp
qed simp

lemma filter_stretch:
  assumes "distinct (us @ as @ vs)" "X \<subseteq> set as"
  shows "filter (\<lambda>a. a \<in> X) (us @ as @ vs) = filter (\<lambda>a. a \<in> X) as"
proof -
  have "filter (\<lambda>a. a \<in> X) us = []" "filter (\<lambda>a. a \<in> X) vs = []"
    using assms by (auto simp: filter_empty_conv)
  then show ?thesis by simp
qed

lemma selected_distinct: "selected feature sub gs fs = Some as \<Longrightarrow> distinct (clis_of gs) \<Longrightarrow> distinct as"
  using selected_stretch by fastforce

lemma selected_names:
  assumes "st_rep h gs fs"
  shows "map_option (names h) (selected feature sub gs fs) = commands_of feature sub fs"
  using assms by (intro names_selected) (simp add: st_rep_def)

lemma rep_head: "st_rep h gs fs \<Longrightarrow> st_head h \<noteq> None \<longleftrightarrow> fs \<noteq> []"
  by (cases gs; cases fs) (auto simp: st_rep_def)

section \<open>One run\<close>

lemma user_interrupt_ok:
  "user_interrupt env s = (e, s') \<Longrightarrow> heap s' = heap s \<and> execs s' = execs s \<and>
     (e = Exited \<or> e = Returned CMD_SUCCESS \<and> sigs s' = sigs s - {SIGINT, SIGTSTP, SIGALRM})"
  unfolding user_interrupt_def exit_fun_def by (drule restore_ok) (cases "int_end env"; simp)

lemma user_interrupt_returns:
  assumes "\<forall>i. sig_ok env i" "user_interrupt env s = (e, s')"
  shows "e = Returned CMD_SUCCESS"
proof -
  obtain s2 where "user_interrupt env s = (Returned CMD_SUCCESS, s2)"
    unfolding user_interrupt_def exit_fun_def by (rule restore_all [OF assms(1)])
  with assms(2) show ?thesis by simp
qed

text \<open>The three ways through the command once the handlers are in place.\<close>

lemma init_failed_ok:
  "init_failed env k gs s = (e, s') \<Longrightarrow> heap s' = heap s \<and> execs s' = execs s \<and>
     (e = Exited \<or> e = Returned CMD_WARNING \<and> sigs s' = sigs s - set gs)"
  unfolding init_failed_def by (drule restore_ok) simp

lemma handlers_fail:
  assumes "\<not> (sig_ok env 0 \<and> sig_ok env 1 \<and> sig_ok env 2)" "sigs s = {}"
  obtains e s' where "cli_show_tech env feature sub s = Some (Inr (e, s'))" "heap s' = heap s" "execs s' = execs s"
    "e = Exited \<or> e = Returned CMD_WARNING \<and> sigs s' = {}"
proof -
  note found = that
  have step: thesis if c: "cli_show_tech env feature sub s = Some (Inr (init_failed env k gs s0))" and
    h: "heap s0 = heap s" "execs s0 = execs s" "sigs s0 = set gs" for k gs s0
  proof -
    obtain e s' where i: "init_failed env k gs s0 = (e, s')" by (cases "init_failed env k gs s0")
    show thesis by (rule found [of e s']) (use c i h init_failed_ok [OF i] in auto)
  qed
  consider "\<not> sig_ok env 0" | "sig_ok env 0" "\<not> sig_ok env 1" | "sig_ok env 0" "sig_ok env 1" "\<not> sig_ok env 2"
    using assms(1) by blast
  then show thesis
  proof cases
    case 1
    then show thesis by (intro step [of 1 "[]" s]) (simp_all add: cli_show_tech_def assms(2))
  next
    case 2
    then show thesis
      by (intro step [of 2 "[SIGINT]" "new_handler SIGINT s"]) (simp_all add: cli_show_tech_def new_handler_def assms(2))
  next
    case 3
    then show thesis
      by (intro step [of 3 "[SIGINT, SIGALRM]" "new_handler SIGALRM (new_handler SIGINT s)"])
        (auto simp: cli_show_tech_def new_handler_def assms(2))
  qed
qed

text \<open>A run that is not interrupted, over the nodes \<open>as\<close>: the count in the report is the
  number of failures of this run, its list is the marked nodes of the whole configuration.\<close>

definition no_stop :: "tech_env \<Rightarrow> mode \<Rightarrow> bool" where
  "no_stop env m \<longleftrightarrow> (\<forall>i. \<not> stop_before env m i \<and> \<not> stop_after env m i)"

lemma no_stop_got: "no_stop env m \<Longrightarrow> got env m i n k stop \<Longrightarrow> \<not> stop"
  by (auto simp: no_stop_def got_def split: if_splits)

lemma no_stop_went:
  assumes "no_stop env m" "went env m as stop s s'"
  shows "\<not> stop" "execs s' = execs s @ names (heap s) as" "same_links (heap s) (heap s')" "sigs s' = sigs s"
    "fails s' = fails s + length (failed_at env (length (execs s)) as)"
    "marked s' = marked s \<union> set (failed_at env (length (execs s)) as)"
proof -
  show ns: "\<not> stop" using assms no_stop_got unfolding went_def by blast
  with assms(2) show "execs s' = execs s @ names (heap s) as" "same_links (heap s) (heap s')" "sigs s' = sigs s"
    "fails s' = fails s + length (failed_at env (length (execs s)) as)"
    "marked s' = marked s \<union> set (failed_at env (length (execs s)) as)"
    by (auto simp: went_def got_def)
qed

lemma same_links_head: "same_links h h' \<Longrightarrow> st_head h' = st_head h"
  by (simp add: same_links_def)

lemma complete_run:
  assumes rep: "st_rep (heap s) gs fs" and ne: "fs \<noteq> []" and sigs: "sigs s = {}" and ok: "\<forall>i. sig_ok env i"
    and ns: "no_stop env (mode_of feature sub)" and sel: "selected feature sub gs fs = Some as"
  defines "F \<equiv> failed_at env (length (execs s)) as"
  obtains s' pre post where "cli_show_tech env feature sub s = Some (Inr (Returned CMD_SUCCESS, s'))"
    "st_rep (heap s') gs fs" "names (heap s') = names (heap s)" "sigs s' = {}" "execs s' = execs s @ names (heap s) as"
    "out s' = pre @ report_text env (length F)
       (names (heap s) (filter (\<lambda>a. a \<in> marked s \<union> set F) (clis_of gs))) @ post"
    "marked s' = (if F = [] then marked s else marked s - set (clis_of gs))"
proof -
  have oks: "sig_ok env 0" "sig_ok env 1" "sig_ok env 2" using ok by simp_all
  have head: "st_head (heap s) \<noteq> None" using rep_head [OF rep] ne by simp
  obtain s0 where s0: "heap s0 = heap s" "execs s0 = execs s" "fails s0 = 0"
    "sigs s0 = insert SIGTSTP (insert SIGALRM (insert SIGINT (sigs s)))"
    and run: "cli_show_tech env feature sub s =
       and_then (run_selected env feature sub (st_head (heap s)) s0) (\<lambda>(stop, valid, s1).
          if stop then Some (Inr (user_interrupt env s1))
          else if \<not> valid then Some (Inr (exit_fun env CMD_SUCCESS (put (unsupported_text env feature sub) s1)))
          else report env (st_head (heap s)) s1)"
    by (rule show_tech_start [OF head oks, of feature sub])
  have m0: "marked s0 = marked s" by (rule marked_heap [OF s0(1)])
  have rep0: "st_rep (heap s0) gs fs" using rep s0(1) by simp
  obtain stop s1 where sel1: "run_selected env feature sub (st_head (heap s)) s0 = Some (Inr (stop, True, s1))"
    and w: "went env (mode_of feature sub) as stop s0 s1"
    using run_selected_path [OF rep0, where feature = feature and sub = sub and env = env] sel s0(1) by auto
  note n = no_stop_went [OF ns w]
  have link: "same_links (heap s) (heap s1)" using n(3) s0(1) by simp
  have rep1: "st_rep (heap s1) gs fs" by (rule same_links_rep [OF link rep])
  obtain e s' post where r: "report env (st_head (heap s1)) s1 = Some (Inr (e, s'))" "same_links (heap s1) (heap s')"
    "execs s' = execs s1" "e = Exited \<or> e = Returned CMD_SUCCESS \<and> sigs s' = sigs s1 - {SIGINT, SIGTSTP, SIGALRM}"
    "out s' = out s1 @ report_text env (fails s1) (names (heap s1) (bad s1 (clis_of gs))) @ post"
    "(\<forall>i. sig_ok env i) \<longrightarrow> e = Returned CMD_SUCCESS"
    "fails s1 \<noteq> 0 \<longrightarrow> marked s' = marked s1 - set (clis_of gs)" "fails s1 = 0 \<longrightarrow> marked s' = marked s1"
    using report_path [OF rep1, of env] by (elim exE conjE) (rule that; assumption)
  have e: "e = Returned CMD_SUCCESS" using r(6) ok by simp
  have F: "fails s1 = length F" "marked s1 = marked s \<union> set F"
    using n(5,6) s0 m0 by (simp_all add: F_def)
  have nm: "names (heap s1) = names (heap s)" "names (heap s') = names (heap s)"
    using same_links_names [OF link] same_links_names [OF r(2)] by auto
  have "set F \<subseteq> set (clis_of gs)"
    using selected_stretch [OF sel] failed_at_set [of env "length (execs s)" as] unfolding F_def by fastforce
  then have m: "marked s' = (if F = [] then marked s else marked s - set (clis_of gs))"
    using r(7,8) F by (cases "F = []") auto
  show thesis
  proof (rule that [of s' "out s1" post])
    show "cli_show_tech env feature sub s = Some (Inr (Returned CMD_SUCCESS, s'))"
      using run n(1) r(1) e same_links_head [OF link] by (simp add: sel1)
    show "st_rep (heap s') gs fs" by (rule same_links_rep [OF r(2) rep1])
    show "names (heap s') = names (heap s)" by (rule nm(2))
    show "sigs s' = {}" using r(4) e n(4) s0(4) sigs by auto
    show "execs s' = execs s @ names (heap s) as" using r(3) n(2) s0 by simp
    show "out s' = out s1 @ report_text env (length F)
       (names (heap s) (filter (\<lambda>a. a \<in> marked s \<union> set F) (clis_of gs))) @ post"
      using r(5) nm(1) F by simp
    show "marked s' = (if F = [] then marked s else marked s - set (clis_of gs))" by (rule m)
  qed
qed

section \<open>Properties\<close>

text \<open>C6: On a loaded configuration with no mark set, an undisturbed \<open>show tech\<close>, \<open>show tech
  FEATURE\<close> or \<open>show tech FEATURE SUB\<close> returns success, executes exactly the commands it
  selects in the order of the configuration, reports exactly the ones that failed (their number
  and their list), resets every mark, and puts the old signal handlers back.\<close>

theorem show_tech_complete:
  assumes rep: "st_rep (heap s) gs fs" and ne: "fs \<noteq> []" and sigs: "sigs s = {}" and unmarked: "marked s = {}"
    and ok: "\<forall>i. sig_ok env i" and ns: "no_stop env (mode_of feature sub)" and cs: "commands_of feature sub fs = Some cs"
  shows "\<exists>s' pre post. cli_show_tech env feature sub s = Some (Inr (Returned CMD_SUCCESS, s')) \<and>
    st_rep (heap s') gs fs \<and> sigs s' = {} \<and> marked s' = {} \<and> execs s' = execs s @ cs \<and>
    out s' = pre @ report_text env (length (failed_cmds env (length (execs s)) cs))
      (failed_cmds env (length (execs s)) cs) @ post"
proof -
  obtain as where as: "selected feature sub gs fs = Some as" "names (heap s) as = cs"
    using selected_names [OF rep, of feature sub] cs by auto
  have d: "distinct (clis_of gs)" using rep clis_of_addrs(2) by (simp add: st_rep_def)
  let ?F = "failed_at env (length (execs s)) as"
  obtain us vs where st: "clis_of gs = us @ as @ vs" using selected_stretch [OF as(1)] by blast
  have "filter (\<lambda>a. a \<in> marked s \<union> set ?F) (clis_of gs) = ?F"
    using filter_stretch [of us as vs "set ?F"] filter_failed [OF selected_distinct [OF as(1) d]] d failed_at_set
    by (simp add: st unmarked)
  moreover have "length ?F = length (failed_cmds env (length (execs s)) cs)"
    using as(2) names_failed by (metis names_simps(4))
  moreover have "names (heap s) ?F = failed_cmds env (length (execs s)) cs"
    using as(2) by (simp add: names_failed)
  moreover obtain s' pre post where "cli_show_tech env feature sub s = Some (Inr (Returned CMD_SUCCESS, s'))"
    "st_rep (heap s') gs fs" "sigs s' = {}" "execs s' = execs s @ names (heap s) as"
    "out s' = pre @ report_text env (length ?F) (names (heap s) (filter (\<lambda>a. a \<in> marked s \<union> set ?F) (clis_of gs))) @ post"
    "marked s' = (if ?F = [] then marked s else marked s - set (clis_of gs))"
    by (rule complete_run [OF rep ne sigs ok ns as(1)])
  ultimately show ?thesis using as(2) unmarked by (intro exI [of _ s'] exI [of _ pre] exI [of _ post]) simp
qed


text \<open>A feature or sub feature that the configuration does not have is reported as not
  supported: no command is executed, nothing is marked, the handlers are put back.\<close>

theorem unknown_feature_runs_nothing:
  assumes rep: "st_rep (heap s) gs fs" and ne: "fs \<noteq> []" and sigs: "sigs s = {}"
    and ok: "\<forall>i. sig_ok env i" and cs: "commands_of feature sub fs = None"
  shows "\<exists>s'. cli_show_tech env feature sub s = Some (Inr (Returned CMD_SUCCESS, s')) \<and> heap s' = heap s \<and>
    execs s' = execs s \<and> sigs s' = {} \<and> out s' = out s @ start_banner env @ unsupported_text env feature sub"
proof -
  have oks: "sig_ok env 0" "sig_ok env 1" "sig_ok env 2" using ok by simp_all
  have head: "st_head (heap s) \<noteq> None" using rep_head [OF rep] ne by simp
  obtain s0 where s0: "heap s0 = heap s" "execs s0 = execs s" "fails s0 = 0" "out s0 = out s @ start_banner env"
    "sigs s0 = insert SIGTSTP (insert SIGALRM (insert SIGINT (sigs s)))"
    and run: "cli_show_tech env feature sub s =
       and_then (run_selected env feature sub (st_head (heap s)) s0) (\<lambda>(stop, valid, s1).
          if stop then Some (Inr (user_interrupt env s1))
          else if \<not> valid then Some (Inr (exit_fun env CMD_SUCCESS (put (unsupported_text env feature sub) s1)))
          else report env (st_head (heap s)) s1)"
    by (rule show_tech_start [OF head oks, of feature sub])
  have rep0: "st_rep (heap s0) gs fs" using rep s0(1) by simp
  have "selected feature sub gs fs = None" using selected_names [OF rep, of feature sub] cs by simp
  then have "run_selected env feature sub (st_head (heap s)) s0 = Some (Inr (False, False, s0))"
    using run_selected_path [OF rep0, where feature = feature and sub = sub and env = env] s0(1) by simp
  moreover obtain s' where s': "exit_fun env CMD_SUCCESS (put (unsupported_text env feature sub) s0) = (Returned CMD_SUCCESS, s')"
    unfolding exit_fun_def by (rule restore_all [OF ok])
  ultimately have "cli_show_tech env feature sub s = Some (Inr (Returned CMD_SUCCESS, s'))" using run by simp
  with restore_ok [OF s' [unfolded exit_fun_def]] s0 sigs show ?thesis by auto
qed

text \<open>A run of \<open>show tech\<close> interrupted while the second command runs, after the first has failed.\<close>

lemma interrupted_second:
  assumes rep: "st_rep (heap s) gs fs" and ne: "fs \<noteq> []" and sigs: "sigs s = {}" and unmarked: "marked s = {}"
    and none: "execs s = []" and two: "concat (map feature_cmds fs) = c # c2 # cs" and ok: "\<forall>i. sig_ok env1 i"
    and first: "ob_failed (cmd_obs env1 0)" "\<not> stop_after env1 ShowAll 0" "stop_after env1 ShowAll 1"
  obtains s1 a b as where "cli_show_tech env1 None None s = Some (Inr (Returned CMD_SUCCESS, s1))"
    "st_rep (heap s1) gs fs" "sigs s1 = {}" "length (execs s1) = 2" "clis_of gs = a # b # as" "a \<in> marked s1"
    "command (the (clis (heap s1) a)) = c" "names (heap s1) (b # as) = c2 # cs" "distinct (a # b # as)"
proof -
  have oks: "sig_ok env1 0" "sig_ok env1 1" "sig_ok env1 2" using ok by simp_all
  have head: "st_head (heap s) \<noteq> None" using rep_head [OF rep] ne by simp
  obtain s0 where s0: "heap s0 = heap s" "execs s0 = execs s" "fails s0 = 0"
    "sigs s0 = insert SIGTSTP (insert SIGALRM (insert SIGINT (sigs s)))"
    and run: "cli_show_tech env1 None None s =
       and_then (run_selected env1 None None (st_head (heap s)) s0) (\<lambda>(stop, valid, s1).
          if stop then Some (Inr (user_interrupt env1 s1))
          else if \<not> valid then Some (Inr (exit_fun env1 CMD_SUCCESS (put (unsupported_text env1 None None) s1)))
          else report env1 (st_head (heap s)) s1)"
    by (rule show_tech_start [OF head oks, of None None])
  have rep0: "st_rep (heap s0) gs fs" using rep s0(1) by simp
  have m0: "marked s0 = {}" using marked_heap [OF s0(1)] unmarked by simp
  obtain stop s1 where sel1: "run_selected env1 None None (st_head (heap s)) s0 = Some (Inr (stop, True, s1))"
    and w: "went env1 ShowAll (clis_of gs) stop s0 s1"
    using run_selected_path [OF rep0, where feature = None and sub = None and env = env1] s0(1)
    by (auto simp: selected_def mode_of_def)
  have nm: "names (heap s) (clis_of gs) = c # c2 # cs"
    using selected_names [OF rep, of None None] two by (simp add: selected_def commands_of_def)
  then obtain a b as where as: "clis_of gs = a # b # as"
    "command (the (clis (heap s) a)) = c" "names (heap s) (b # as) = c2 # cs"
    by (cases "clis_of gs"; cases "tl (clis_of gs)") auto
  have d: "distinct (a # b # as)" using rep clis_of_addrs(2) by (simp add: st_rep_def as(1) [symmetric])
  obtain k where k: "got env1 ShowAll 0 (length (a # b # as)) k stop" "execs s1 = take k (names (heap s) (a # b # as))"
    "set (failed_at env1 0 (take (k - 1) (a # b # as))) \<subseteq> marked s1"
    using w s0(1,2) none as(1) unfolding went_def by auto
  have c: "\<forall>j. Suc j < k \<longrightarrow> \<not> stop_after env1 ShowAll j" "k = 0 \<or> stop_after env1 ShowAll (k - 1)" "stop"
    using k(1) first(3) by (auto simp: got_def stop_before_def split: if_splits)
  have "k \<noteq> 0" using k(1) c(3) by (auto simp: got_def stop_before_def)
  moreover have "k \<noteq> 1" using c(2) first(2) by auto
  ultimately have "{a} \<subseteq> marked s1" using k(3) first(1) by (cases "k - 1") (auto simp: numeral_2_eq_2)
  moreover have "\<not> Suc 1 < k" using c(1) first(3) by auto
  with \<open>k \<noteq> 0\<close> \<open>k \<noteq> 1\<close> have "k = 2" by linarith
  then have len1: "length (execs s1) = 2" using k(2) nm as(1) by simp
  have link: "same_links (heap s) (heap s1)" and sig1: "sigs s1 = sigs s0" using w s0(1) by (simp_all add: went_def)
  obtain e s1' where u: "user_interrupt env1 s1 = (e, s1')" by (cases "user_interrupt env1 s1")
  note e = user_interrupt_returns [OF ok u]
  have u': "heap s1' = heap s1" "execs s1' = execs s1" "sigs s1' = {}"
    using user_interrupt_ok [OF u] e sig1 s0(4) sigs by auto
  have run1: "cli_show_tech env1 None None s = Some (Inr (Returned CMD_SUCCESS, s1'))"
    using run sel1 c(3) u e by simp
  have rep1: "st_rep (heap s1') gs fs" using same_links_rep [OF link rep] u'(1) by simp
  have nm1: "names (heap s1') = names (heap s)" using same_links_names [OF link] u'(1) by auto
  have "command (the (clis (heap s1') a)) = c" using fun_cong [OF nm1, of "[a]"] as(2) by simp
  moreover have "names (heap s1') (b # as) = c2 # cs" using nm1 as(3) by (simp del: names_simps)
  moreover have "a \<in> marked s1'" using \<open>{a} \<subseteq> marked s1\<close> marked_heap [OF u'(1)] by simp
  ultimately show thesis using that [of s1' a b as] run1 rep1 u'(2,3) len1 as(1) d by simp
qed

text \<open>A run that the user interrupts leaves its marks in the loaded configuration, and
  the next run lists them: when the first command of an interrupted \<open>show tech\<close> failed, a later
  complete run in which that command succeeds and others fail counts its own failures only, but
  lists the first command on top of them: more lines than it counted.\<close>

theorem interrupted_run_spoils_next:
  assumes rep: "st_rep (heap s) gs fs" and ne: "fs \<noteq> []" and sigs: "sigs s = {}" and unmarked: "marked s = {}"
    and none: "execs s = []" and two: "concat (map feature_cmds fs) = c # c2 # cs"
    and ok: "\<forall>i. sig_ok env1 i" "\<forall>i. sig_ok env2 i"
    and first: "ob_failed (cmd_obs env1 0)" "\<not> stop_after env1 ShowAll 0" "stop_after env1 ShowAll 1"
    and second: "no_stop env2 ShowAll" "\<not> ob_failed (cmd_obs env2 2)"
    and F: "failed_cmds env2 3 (c2 # cs) = F" "F \<noteq> []"
  shows "\<exists>s1 s2 L pre post. cli_show_tech env1 None None s = Some (Inr (Returned CMD_SUCCESS, s1)) \<and>
    cli_show_tech env2 None None s1 = Some (Inr (Returned CMD_SUCCESS, s2)) \<and>
    out s2 = pre @ failure_text env2 (length F) @ listing env2 1 (c # L) @ post \<and>
    length F \<le> length L \<and> set F \<subseteq> set L"
proof -
  obtain s1 a b as where s1: "cli_show_tech env1 None None s = Some (Inr (Returned CMD_SUCCESS, s1))"
    "st_rep (heap s1) gs fs" "sigs s1 = {}" "length (execs s1) = 2" "clis_of gs = a # b # as" "a \<in> marked s1"
    "command (the (clis (heap s1) a)) = c" "names (heap s1) (b # as) = c2 # cs" "distinct (a # b # as)"
    by (rule interrupted_second [OF rep ne sigs unmarked none two ok(1) first])
  let ?F = "failed_at env2 2 (clis_of gs)"
  let ?b = "filter (\<lambda>x. x \<in> marked s1 \<union> set ?F)"
  have sel: "selected None None gs fs = Some (clis_of gs)" by (simp add: selected_def)
  have m: "mode_of None None = ShowAll" by (simp add: mode_of_def)
  obtain s2 pre post where s2: "cli_show_tech env2 None None s1 = Some (Inr (Returned CMD_SUCCESS, s2))"
    "out s2 = pre @ report_text env2 (length ?F) (names (heap s1) (?b (clis_of gs))) @ post"
    by (rule complete_run [OF s1(2) ne s1(3) ok(2), of None None, unfolded m s1(4), OF second(1) sel])
  have F': "?F = failed_at env2 3 (b # as)" using second(2) s1(5) by (simp add: eval_nat_numeral)
  then have nF: "names (heap s1) ?F = F" using F(1) s1(8) by (simp only: names_failed)
  then have lF: "length F = length ?F" by (metis names_simps(4))
  have ff: "filter (\<lambda>x. x \<in> set ?F) (b # as) = ?F"
    unfolding F' by (rule filter_failed) (use s1(9) in simp)
  have sub: "?F = filter (\<lambda>x. x \<in> set ?F) (?b (b # as))"
    unfolding filter_filter by (subst (1) ff [symmetric]) (rule filter_cong, auto)
  have L: "names (heap s1) (?b (clis_of gs)) = c # names (heap s1) (?b (b # as))"
    using s1(6,7) by (simp add: s1(5))
  have "length F \<le> length (names (heap s1) (?b (b # as)))"
    unfolding lF names_simps by (subst (1) sub) (rule length_filter_le)
  moreover have "set F \<subseteq> set (names (heap s1) (?b (b # as)))"
    unfolding nF [symmetric] by (subst (1) sub) (auto simp: names_def contents_def)
  ultimately show ?thesis
    using s1(1) s2 L lF F(2) by (intro exI [of _ s1] exI [of _ s2] exI [of _ "names (heap s1) (?b (b # as))"]) (auto simp: report_text_def)
qed

section \<open>The list and the file\<close>

definition list_header :: "tech_env \<Rightarrow> string list" where
  "list_header env = [''Show Tech Supported Features List '' @ vty_nl env, dash_rule @ vty_nl env,
     ''Feature                    Desc'' @ vty_nl env, dash_rule @ vty_nl env]"

definition feature_line :: "tech_env \<Rightarrow> config_spec \<Rightarrow> string" where
  "feature_line env f = pad27 (fmt_s (cs_name f)) @ fmt_s (cs_desc f) @ vty_nl env"

lemma put_put: "put xs (put ys s) = put (ys @ xs) s"
  by (simp add: put_def)

lemma list_features_path:
  assumes "lpath ft_next (feats (heap s)) p (map fst gs)" "list_all2 (feat_at (heap s)) gs fs"
  shows "list_features_from env p s = Some (Inr (put (map (feature_line env) fs) s))"
  using assms
proof (induction gs arbitrary: p s fs)
  case Nil
  then show ?case by (simp add: list_features_from.simps put_def)
next
  case (Cons g gs)
  obtain a ss where g: "g = (a, ss)" by (cases g)
  from Cons.prems(1) g obtain n where n: "feats (heap s) a = Some n" "p = Some a"
    "lpath ft_next (feats (heap s)) (ft_next n) (map fst gs)" by (auto split: option.splits)
  from Cons.prems(2) obtain f fs' where fs: "fs = f # fs'" "feat_at (heap s) g f" "list_all2 (feat_at (heap s)) gs fs'"
    by (auto simp: list_all2_Cons1)
  have nm: "ft_name n = cs_name f" "ft_desc n = cs_desc f" using fs(2) g n(1) by auto
  let ?s = "put [feature_line env f] s"
  have "list_features_from env (ft_next n) ?s = Some (Inr (put (map (feature_line env) fs') ?s))"
    by (rule Cons.IH) (use n(3) fs(3) in simp_all)
  with n(1,2) nm fs(1) show ?case by (subst list_features_from.simps) (simp add: put_put feature_line_def)
qed

text \<open>On a loaded configuration \<open>show tech list\<close> prints the header and then one line for
  every feature in the order of the file, and changes nothing else.\<close>

theorem cli_show_tech_list_all:
  assumes rep: "st_rep (heap s) gs fs" and ne: "fs \<noteq> []"
  shows "cli_show_tech_list env s = Some (Inr (CMD_SUCCESS, put (list_header env @ map (feature_line env) fs) s))"
proof -
  have head: "st_head (heap s) \<noteq> None" using rep_head [OF rep] ne by simp
  let ?s = "put (list_header env) s"
  have "list_features_from env (st_head (heap ?s)) ?s = Some (Inr (put (map (feature_line env) fs) ?s))"
    by (rule list_features_path [of _ _ gs]) (use rep in \<open>simp_all add: st_rep_def\<close>)
  then have l: "list_features_from env (st_head (heap s)) ?s = Some (Inr (put (list_header env @ map (feature_line env) fs) s))"
    by (simp add: put_put)
  have "s\<lparr>heap := heap s\<rparr> = s" by simp
  then show ?thesis
    using loaded_config [OF head]
    unfolding cli_show_tech_list_def list_header_def [symmetric] Let_def
    by (simp only: and_then_simps prod.case head if_False l)
qed

text \<open>When \<open>cli_show_tech_file\<close> stores a file, its name is \<open>/tmp/\<close> and the name given, it
  fits the buffer of \<open>CHARBUF\<close> bytes with its NUL, the file was opened in the mode asked for,
  and it holds all the text of one run of show tech; the user sees only where it went.\<close>

theorem cli_show_tech_file_stores:
  assumes "cli_show_tech_file env fe fname feature force s = Some (Inr (r, Some (filename, t), s'))"
  shows "\<exists>f e s1. fname = Some f \<and> filename = ''/tmp/'' @ f \<and> length filename < CHARBUF \<and>
    (if force then open_trunc fe filename else open_excl fe filename) = None \<and>
    cli_show_tech env feature None s = Some (Inr (Returned e, s1)) \<and> t = concat (out s1) \<and>
    s' = s1\<lparr>out := [''Show Tech output stored in file '' @ filename @ vty_nl env]\<rparr> \<and> r = Returned CMD_SUCCESS"
proof (cases fname)
  case None
  with assms show ?thesis by (simp add: cli_show_tech_file_def)
next
  case (Some f)
  note run = assms [unfolded cli_show_tech_file_def Some, simplified]
  have len: "length f \<le> CHARBUF - 11" and
    op: "(if force then open_trunc fe (''/tmp/'' @ f) else open_excl fe (''/tmp/'' @ f)) = None"
    using run by (auto simp: Let_def split: if_splits option.splits)
  obtain e s1 where s1: "cli_show_tech env feature None s = Some (Inr (e, s1))"
    using run len op by (auto simp: Let_def and_then_def split: if_splits option.splits sum.splits)
  then obtain rc where rc: "e = Returned rc"
    using run len op by (cases e) (auto simp: Let_def split: if_splits option.splits)
  then have "filename = ''/tmp/'' @ f" "t = concat (out s1)" "r = Returned CMD_SUCCESS"
    "s' = put [''Show Tech output stored in file '' @ filename @ vty_nl env] (s1\<lparr>out := []\<rparr>)"
    using run len op s1 by (auto simp: Let_def split: if_splits)
  note res = this
  show ?thesis
  proof (intro exI conjI)
    show "fname = Some f" "filename = ''/tmp/'' @ f" "t = concat (out s1)" "r = Returned CMD_SUCCESS" by fact+
    show "length filename < CHARBUF" using len res(1) by simp
    show "(if force then open_trunc fe filename else open_excl fe filename) = None" unfolding res(1) by (rule op)
    show "cli_show_tech env feature None s = Some (Inr (Returned rc, s1))" using s1 rc by simp
    show "s' = s1\<lparr>out := [''Show Tech output stored in file '' @ filename @ vty_nl env]\<rparr>"
      unfolding res(4) put_def by simp
  qed
qed

text \<open>A file name that is too long or a file that cannot be opened ends \<open>cli_show_tech_file\<close>
  with a warning before any command is executed.\<close>

theorem cli_show_tech_file_refuses:
  assumes "CHARBUF - 11 < length f \<or> (if force then open_trunc fe (''/tmp/'' @ f) else open_excl fe (''/tmp/'' @ f)) \<noteq> None"
  shows "\<exists>t. cli_show_tech_file env fe (Some f) feature force s = Some (Inr (Returned CMD_WARNING, None, put [t] s))"
proof (cases "CHARBUF - 11 < length f")
  case False
  then obtain e where "(if force then open_trunc fe (''/tmp/'' @ f) else open_excl fe (''/tmp/'' @ f)) = Some e"
    using assms by auto
  then have "cli_show_tech_file env fe (Some f) feature force s =
      Some (Inr (Returned CMD_WARNING, None, put [open_error_text env fe (''/tmp/'' @ f) e] s))"
    using False by (simp only: cli_show_tech_file_def option.case if_False Let_def)
  then show ?thesis by blast
qed (auto simp: cli_show_tech_file_def)

section \<open>Witnesses\<close>

definition two_cmds_heap :: sts where
  "two_cmds_heap = sts0\<lparr>st_head := Some 0, st_brk := 4,
     feats := [0 \<mapsto> \<lparr>ft_name = Some ''lacp'', ft_desc = Some ''LACP'', p_subfeature = Some 1, ft_next = None\<rparr>],
     subs := [1 \<mapsto> \<lparr>sub_name = None, sub_desc = None, no_sta_support = False, support_stb = False, is_dummy = True,
                p_clicmds = Some 2, p_ovstable = None, sub_next = None\<rparr>],
     clis := [2 \<mapsto> \<lparr>command = Some ''show a'', command_failed = False, cli_next = Some 3\<rparr>,
              3 \<mapsto> \<lparr>command = Some ''show b'', command_failed = False, cli_next = None\<rparr>]\<rparr>"

definition two_cmds :: "config_spec list" where
  "two_cmds = [\<lparr>cs_name = Some ''lacp'', cs_desc = Some ''LACP'',
     cs_subs = [\<lparr>ss_info = (None, None, False, False, True), ss_cmds = [Some ''show a'', Some ''show b''], ss_tables = []\<rparr>]\<rparr>]"

definition two_cmds_run :: st_run where
  "two_cmds_run = \<lparr>heap = two_cmds_heap, out = [], execs = [], fails = 0, sigs = {}\<rparr>"

text \<open>The commands with a number in \<open>F\<close> fail, the user interrupts during command \<open>k\<close>.\<close>

definition quiet_env :: "nat list \<Rightarrow> nat option \<Rightarrow> tech_env" where
  "quiet_env F k = \<lparr>cmd_obs = (\<lambda>i. \<lparr>ob_int_before = False, ob_skip_before = False, ob_failed = i \<in> set F,
       ob_int_after = (Some i = k), ob_skip_after = False\<rparr>),
     int_end = False, sig_ok = (\<lambda>_. True), start_text = ''now'', elapsed = None, vty_nl = newline # [],
     st_conf = disk [] (\<lambda>_. True)\<rparr>"

lemma two_cmds_rep: "st_rep (heap two_cmds_run) [(0, [(1, [2, 3], [])])] two_cmds"
  by (auto simp: two_cmds_run_def st_rep_def two_cmds_heap_def two_cmds_def sts0_def holds_only_def sub_val_def
      contents_def clis_s_def tabs_s_def cols_s_def)

lemma two_cmds_facts: "two_cmds \<noteq> []" "sigs two_cmds_run = {}" "marked two_cmds_run = {}" "execs two_cmds_run = []"
  "out two_cmds_run = []" "concat (map feature_cmds two_cmds) = [Some ''show a'', Some ''show b'']"
  "commands_of None None two_cmds = Some [Some ''show a'', Some ''show b'']"
  "commands_of (Some ''lacp'') None two_cmds = Some [Some ''show a'', Some ''show b'']"
  "commands_of (Some ''ospf'') None two_cmds = None"
  by (auto simp: two_cmds_def two_cmds_run_def marked_def two_cmds_heap_def sts0_def commands_of_def feature_cmds_def
      split: if_splits)

lemma quiet_env_facts: "sig_ok (quiet_env F k) i" "no_stop (quiet_env F None) m"
  "ob_failed (cmd_obs (quiet_env F k) i) = (i \<in> set F)" "stop_after (quiet_env F k) m i = (Some i = k)"
  "stop_before (quiet_env F k) m i = False"
  by (cases m; simp add: quiet_env_def no_stop_def stop_before_def stop_after_def)+

theorem show_tech_complete_witness:
  "\<exists>s' pre post. cli_show_tech (quiet_env [1] None) (Some ''lacp'') None two_cmds_run = Some (Inr (Returned CMD_SUCCESS, s')) \<and>
    st_rep (heap s') [(0, [(1, [2, 3], [])])] two_cmds \<and> sigs s' = {} \<and> marked s' = {} \<and>
    execs s' = execs two_cmds_run @ [Some ''show a'', Some ''show b''] \<and>
    out s' = pre @ report_text (quiet_env [1] None)
      (length (failed_cmds (quiet_env [1] None) (length (execs two_cmds_run)) [Some ''show a'', Some ''show b'']))
      (failed_cmds (quiet_env [1] None) (length (execs two_cmds_run)) [Some ''show a'', Some ''show b'']) @ post"
  using show_tech_complete [OF two_cmds_rep two_cmds_facts(1,2,3) allI [OF quiet_env_facts(1)]
      quiet_env_facts(2) [where F = "[1]"] two_cmds_facts(8)] .


theorem unknown_feature_runs_nothing_witness:
  "\<exists>s'. cli_show_tech (quiet_env [] None) (Some ''ospf'') None two_cmds_run = Some (Inr (Returned CMD_SUCCESS, s')) \<and>
    heap s' = heap two_cmds_run \<and> execs s' = execs two_cmds_run \<and> sigs s' = {} \<and>
    out s' = out two_cmds_run @ start_banner (quiet_env [] None) @ unsupported_text (quiet_env [] None) (Some ''ospf'') None"
  by (rule unknown_feature_runs_nothing [OF two_cmds_rep two_cmds_facts(1,2) allI [OF quiet_env_facts(1)] two_cmds_facts(9)])

theorem interrupted_run_spoils_next_witness:
  "\<exists>s1 s2 L pre post. cli_show_tech (quiet_env [0] (Some 1)) None None two_cmds_run = Some (Inr (Returned CMD_SUCCESS, s1)) \<and>
    cli_show_tech (quiet_env [3] None) None None s1 = Some (Inr (Returned CMD_SUCCESS, s2)) \<and>
    out s2 = pre @ failure_text (quiet_env [3] None) (length [Some ''show b'']) @
      listing (quiet_env [3] None) 1 (Some ''show a'' # L) @ post \<and>
    length [Some ''show b''] \<le> length L \<and> set [Some ''show b''] \<subseteq> set L"
  by (rule interrupted_run_spoils_next [OF two_cmds_rep two_cmds_facts(1-4,6) allI [OF quiet_env_facts(1)]
      allI [OF quiet_env_facts(1)]]) (simp_all add: quiet_env_facts)

theorem cli_show_tech_list_all_witness:
  "cli_show_tech_list (quiet_env [] None) two_cmds_run = Some (Inr (CMD_SUCCESS,
     put (list_header (quiet_env [] None) @ map (feature_line (quiet_env [] None)) two_cmds) two_cmds_run))"
  by (rule cli_show_tech_list_all [OF two_cmds_rep two_cmds_facts(1)])

text \<open>A configuration that cannot be loaded gives a short run that still stores its text.\<close>

definition plain_files :: file_env where
  "plain_files = \<lparr>open_excl = (\<lambda>_. None), open_trunc = (\<lambda>_. None), obuf_ok = True, getstr_ok = True, write_ok = True,
     errno_text = (\<lambda>_. [])\<rparr>"

definition unloaded_env :: tech_env where
  "unloaded_env = (quiet_env [] None)\<lparr>st_conf := disk [] (\<lambda>_. True)\<lparr>st_file := \<lambda>_. None\<rparr>\<rparr>"

definition unloaded_run :: st_run where
  "unloaded_run = \<lparr>heap = sts0, out = [], execs = [], fails = 0, sigs = {}\<rparr>"

lemma unloaded_config: "get_showtech_config (st_conf unloaded_env) None sts0 = Some (Inr (None, sts0))"
proof -
  have "sts0\<lparr>st_head := None\<rparr> = sts0" by (simp add: sts0_def)
  then show ?thesis
    by (simp add: get_showtech_config_def parse_showtech_config_def free_empty sts0_rep unloaded_env_def)
      (simp add: sts0_def)
qed

lemma unloaded_show_tech:
  "\<exists>s1. cli_show_tech unloaded_env None None unloaded_run = Some (Inr (Returned CMD_WARNING, s1))"
proof -
  have ok: "\<forall>i. sig_ok unloaded_env i" by (simp add: unloaded_env_def quiet_env_facts)
  let ?s = "new_handler SIGTSTP (new_handler SIGALRM (new_handler SIGINT unloaded_run))"
  have "heap ?s = sts0" by (simp add: new_handler_def unloaded_run_def)
  then have "get_showtech_config (st_conf unloaded_env) None (heap ?s) = Some (Inr (None, sts0))"
    by (simp only: unloaded_config)
  moreover obtain s1 where "exit_fun unloaded_env CMD_WARNING (put (no_config_text unloaded_env) (?s\<lparr>heap := sts0, fails := 0\<rparr>)) =
      (Returned CMD_WARNING, s1)"
    unfolding exit_fun_def by (rule restore_all [OF ok])
  ultimately show ?thesis using ok by (auto simp: cli_show_tech_def show_tech_body_def)
qed

theorem cli_show_tech_file_stores_witness:
  "\<exists>e s1 s'. cli_show_tech_file unloaded_env plain_files (Some ''st.txt'') None False unloaded_run =
       Some (Inr (Returned CMD_SUCCESS, Some (''/tmp/st.txt'', concat (out s1)), s')) \<and>
     cli_show_tech unloaded_env None None unloaded_run = Some (Inr (Returned e, s1)) \<and>
     length ''/tmp/st.txt'' < CHARBUF"
proof -
  obtain s1 where "cli_show_tech unloaded_env None None unloaded_run = Some (Inr (Returned CMD_WARNING, s1))"
    using unloaded_show_tech by blast
  then have "cli_show_tech_file unloaded_env plain_files (Some ''st.txt'') None False unloaded_run =
      Some (Inr (Returned CMD_SUCCESS, Some (''/tmp/st.txt'', concat (out s1)),
        put [''Show Tech output stored in file '' @ ''/tmp/st.txt'' @ vty_nl unloaded_env] (s1\<lparr>out := []\<rparr>)))"
    by (simp add: cli_show_tech_file_def plain_files_def)
  note stored = this
  obtain e s2 where "cli_show_tech unloaded_env None None unloaded_run = Some (Inr (Returned e, s2))"
    "concat (out s1) = concat (out s2)" "length ''/tmp/st.txt'' < CHARBUF"
    using cli_show_tech_file_stores [OF stored] by (elim exE conjE) (rule that; assumption)
  with stored show ?thesis by (intro exI [of _ e] exI [of _ s2] exI conjI) simp_all
qed

theorem cli_show_tech_file_refuses_witness:
  "\<exists>t. cli_show_tech_file (quiet_env [] None) plain_files (Some (replicate 150 (CHR ''a''))) None False two_cmds_run =
     Some (Inr (Returned CMD_WARNING, None, put [t] two_cmds_run))"
  by (rule cli_show_tech_file_refuses) simp

end
