(* ===== verification/Show_Tech_Thread.thy ===== *)
theory Show_Tech_Thread
  imports Vtysh CLib
begin

text \<open>
  \<open>src/src/cli/show_tech_vty.c\<close>: how one show tech command is executed. The main thread
  (\<open>exec_showtech_cmd\<close>) starts a thread for the command (\<open>showtech_cmd_thread\<close>), waits on a
  condition variable for at most a minute, and cancels the thread on a timeout or on Ctrl-Z;
  the signal handlers of the command wake it as well. The steps of the three are inductive
  relations over one state, with a program point for each thread; properties are invariants of
  the reachable states. The command itself is a parameter: \<open>None\<close> when it does not end, otherwise
  whether it succeeds. What bashcat prints is at the end.
\<close>

section \<open>State\<close>

datatype owner = Main | Thr

text \<open>Program points of \<open>exec_showtech_cmd\<close>; the flag is \<open>error == ETIMEDOUT\<close>.\<close>

datatype main_pc =
    MCreate
  | MLockWait
  | MPrep                 \<comment> \<open>owns \<open>waitMutex\<close>, before \<open>pthread_cond_timedwait\<close>\<close>
  | MWaiting
  | MRelock bool          \<comment> \<open>woken, needs \<open>waitMutex\<close> to return\<close>
  | MUnlock bool
  | MAlarm bool
  | MBranch bool
  | MCancel bool
  | MLockClean bool
  | MUnlockClean bool
  | MJoin
  | MResult
  | MDone cmd_ret

text \<open>Program points of \<open>showtech_cmd_thread\<close>.\<close>

datatype thread_pc =
    TNone
  | TStart
  | TAsync                \<comment> \<open>can be cancelled at any point, no handler yet\<close>
  | TPushed               \<comment> \<open>after \<open>pthread_cleanup_push\<close>\<close>
  | TRun                  \<comment> \<open>owns \<open>cleanupMutex\<close>, the command runs\<close>
  | TAfter
  | THold                 \<comment> \<open>owns \<open>waitMutex\<close>\<close>
  | TSignalled
  | TUnwait
  | TPopped               \<comment> \<open>after \<open>pthread_cleanup_pop(0)\<close>\<close>
  | TExit
  | TKilled

record exec_state =
  mpc :: main_pc
  tpc :: thread_pc
  waitMutex :: "owner option"
  cleanupMutex :: "owner option"
  cancel_req :: bool              \<comment> \<open>\<open>pthread_cancel\<close> was called\<close>
  threadCancelled :: bool
  gCommandFailed :: bool
  gUserInterrupt :: bool
  gUserInterruptAlarm :: bool
  armed :: bool                   \<comment> \<open>an alarm is set\<close>
  z_pending :: bool               \<comment> \<open>the Ctrl-Z handler waits for \<open>waitMutex\<close>\<close>

definition exec0 :: exec_state where
  "exec0 = \<lparr>mpc = MCreate, tpc = TNone, waitMutex = None, cleanupMutex = None, cancel_req = False,
     threadCancelled = True, gCommandFailed = False, gUserInterrupt = False, gUserInterruptAlarm = False,
     armed = False, z_pending = False\<rparr>"

text \<open>\<open>pthread_cond_signal\<close> is lost when nobody waits.\<close>

definition wake :: "exec_state \<Rightarrow> exec_state" where
  "wake s = (if mpc s = MWaiting then s\<lparr>mpc := MRelock False\<rparr> else s)"

section \<open>Steps\<close>

text \<open>\<open>exec_showtech_cmd\<close>. A wait on a condition variable may also end without a signal.\<close>

inductive main_step :: "exec_state \<Rightarrow> exec_state \<Rightarrow> bool" where
  create_failed: "mpc s = MCreate \<Longrightarrow>
    main_step s (s\<lparr>gCommandFailed := False, mpc := MDone CMD_WARNING\<rparr>)"
| create: "mpc s = MCreate \<Longrightarrow> main_step s (s\<lparr>gCommandFailed := False, tpc := TStart, mpc := MLockWait\<rparr>)"
| lock_wait: "mpc s = MLockWait \<Longrightarrow> waitMutex s = None \<Longrightarrow> main_step s (s\<lparr>waitMutex := Some Main, mpc := MPrep\<rparr>)"
| start_wait: "mpc s = MPrep \<Longrightarrow> main_step s (s\<lparr>waitMutex := None, mpc := MWaiting\<rparr>)"
| spurious: "mpc s = MWaiting \<Longrightarrow> main_step s (s\<lparr>mpc := MRelock False\<rparr>)"
| timeout: "mpc s = MWaiting \<Longrightarrow> main_step s (s\<lparr>mpc := MRelock True\<rparr>)"
| relock: "mpc s = MRelock e \<Longrightarrow> waitMutex s = None \<Longrightarrow> main_step s (s\<lparr>waitMutex := Some Main, mpc := MUnlock e\<rparr>)"
| unlock_wait: "mpc s = MUnlock e \<Longrightarrow> main_step s (s\<lparr>waitMutex := None, mpc := MAlarm e\<rparr>)"
| alarm_off: "mpc s = MAlarm e \<Longrightarrow> gUserInterruptAlarm s \<Longrightarrow>
    main_step s (s\<lparr>armed := False, threadCancelled := False, gUserInterruptAlarm := False, mpc := MBranch e\<rparr>)"
| no_alarm: "mpc s = MAlarm e \<Longrightarrow> \<not> gUserInterruptAlarm s \<Longrightarrow> main_step s (s\<lparr>mpc := MBranch e\<rparr>)"
| timed_out: "mpc s = MBranch True \<Longrightarrow> main_step s (s\<lparr>mpc := MCancel True\<rparr>)"
| interrupted: "mpc s = MBranch False \<Longrightarrow> gUserInterrupt s \<Longrightarrow>
    main_step s (s\<lparr>mpc := (if threadCancelled s then MCancel False else MJoin)\<rparr>)"
| finished: "mpc s = MBranch False \<Longrightarrow> \<not> gUserInterrupt s \<Longrightarrow> main_step s (s\<lparr>mpc := MJoin\<rparr>)"
| cancel: "mpc s = MCancel e \<Longrightarrow> main_step s (s\<lparr>cancel_req := True, mpc := MLockClean e\<rparr>)"
| lock_clean: "mpc s = MLockClean e \<Longrightarrow> cleanupMutex s = None \<Longrightarrow>
    main_step s (s\<lparr>cleanupMutex := Some Main, mpc := MUnlockClean e\<rparr>)"
| unlock_clean: "mpc s = MUnlockClean e \<Longrightarrow>
    main_step s (s\<lparr>cleanupMutex := None, gCommandFailed := e \<or> gCommandFailed s, mpc := MJoin\<rparr>)"
| join: "mpc s = MJoin \<Longrightarrow> tpc s \<in> {TExit, TKilled} \<Longrightarrow> main_step s (s\<lparr>mpc := MResult\<rparr>)"
| result: "mpc s = MResult \<Longrightarrow>
    main_step s (s\<lparr>mpc := MDone (if gCommandFailed s \<or> gUserInterrupt s \<and> threadCancelled s
      then CMD_WARNING else CMD_SUCCESS)\<rparr>)"

text \<open>\<open>showtech_cmd_thread\<close> and \<open>cmd_thread_cleanup_handler\<close>. After \<open>PTHREAD_CANCEL_ASYNCHRONOUS\<close>
  a cancellation takes effect anywhere; between push and pop the handler runs, which unlocks
  \<open>cleanupMutex\<close> and no other mutex of this file.\<close>

inductive thread_step :: "bool option \<Rightarrow> exec_state \<Rightarrow> exec_state \<Rightarrow> bool" for cmd where
  t_async: "tpc s = TStart \<Longrightarrow> thread_step cmd s (s\<lparr>tpc := TAsync\<rparr>)"
| t_push: "tpc s = TAsync \<Longrightarrow> thread_step cmd s (s\<lparr>tpc := TPushed\<rparr>)"
| t_lock_clean: "tpc s = TPushed \<Longrightarrow> cleanupMutex s = None \<Longrightarrow>
    thread_step cmd s (s\<lparr>cleanupMutex := Some Thr, tpc := TRun\<rparr>)"
| t_command: "tpc s = TRun \<Longrightarrow> cmd = Some ok \<Longrightarrow>
    thread_step cmd s (s\<lparr>gCommandFailed := \<not> ok \<or> gCommandFailed s, tpc := TAfter\<rparr>)"
| t_lock_wait: "tpc s = TAfter \<Longrightarrow> waitMutex s = None \<Longrightarrow>
    thread_step cmd s (s\<lparr>waitMutex := Some Thr, tpc := THold\<rparr>)"
| t_signal: "tpc s = THold \<Longrightarrow> thread_step cmd s (wake s\<lparr>tpc := TSignalled\<rparr>)"
| t_unlock_wait: "tpc s = TSignalled \<Longrightarrow> thread_step cmd s (s\<lparr>waitMutex := None, tpc := TUnwait\<rparr>)"
| t_pop: "tpc s = TUnwait \<Longrightarrow> thread_step cmd s (s\<lparr>tpc := TPopped\<rparr>)"
| t_unlock_clean: "tpc s = TPopped \<Longrightarrow> thread_step cmd s (s\<lparr>cleanupMutex := None, tpc := TExit\<rparr>)"
| t_cancelled: "cancel_req s \<Longrightarrow> tpc s \<in> {TPushed, TRun, TAfter, THold, TSignalled, TUnwait} \<Longrightarrow>
    thread_step cmd s (s\<lparr>cleanupMutex := None, tpc := TKilled\<rparr>)"
| t_cancelled_bare: "cancel_req s \<Longrightarrow> tpc s \<in> {TAsync, TPopped} \<Longrightarrow> thread_step cmd s (s\<lparr>tpc := TKilled\<rparr>)"

text \<open>The handlers of Ctrl-C, of the alarm that it sets, and of Ctrl-Z.\<close>

inductive signal_step :: "exec_state \<Rightarrow> exec_state \<Rightarrow> bool" where
  ctrl_c: "\<not> gUserInterrupt s \<Longrightarrow>
    signal_step s (if gUserInterruptAlarm s then s\<lparr>gUserInterrupt := True\<rparr>
      else s\<lparr>gUserInterrupt := True, gUserInterruptAlarm := True, armed := True\<rparr>)"
| alarm_rings: "armed s \<Longrightarrow> waitMutex s = None \<Longrightarrow>
    signal_step s (wake (s\<lparr>armed := False\<rparr>)\<lparr>gUserInterruptAlarm := False\<rparr>)"
| ctrl_z: "\<not> gUserInterrupt s \<Longrightarrow> signal_step s (s\<lparr>gUserInterrupt := True, z_pending := True\<rparr>)"
| ctrl_z_wakes: "z_pending s \<Longrightarrow> waitMutex s = None \<Longrightarrow> signal_step s (wake (s\<lparr>z_pending := False\<rparr>))"

definition exec_step :: "bool option \<Rightarrow> exec_state \<Rightarrow> exec_state \<Rightarrow> bool" where
  "exec_step cmd s s' \<longleftrightarrow> main_step s s' \<or> thread_step cmd s s' \<or> signal_step s s'"

inductive reachable :: "bool option \<Rightarrow> exec_state \<Rightarrow> bool" for cmd where
  reach_start: "reachable cmd exec0"
| reach_step: "reachable cmd s \<Longrightarrow> exec_step cmd s s' \<Longrightarrow> reachable cmd s'"

section \<open>Mutexes\<close>

fun cancelling :: "main_pc \<Rightarrow> bool" where
  "cancelling (MLockClean e) = True"
| "cancelling (MUnlockClean e) = True"
| "cancelling MJoin = True"
| "cancelling MResult = True"
| "cancelling (MDone r) = True"
| "cancelling p = False"

fun owns_wait :: "main_pc \<Rightarrow> bool" where
  "owns_wait MPrep = True"
| "owns_wait (MUnlock e) = True"
| "owns_wait p = False"

fun owns_clean :: "main_pc \<Rightarrow> bool" where
  "owns_clean (MUnlockClean e) = True"
| "owns_clean p = False"

fun not_created :: "main_pc \<Rightarrow> bool" where
  "not_created MCreate = True"
| "not_created (MDone r) = True"
| "not_created p = False"

fun clean_up :: "main_pc \<Rightarrow> bool" where
  "clean_up (MLockClean e) = True"
| "clean_up (MUnlockClean e) = True"
| "clean_up p = False"

definition holds_wait :: "thread_pc \<Rightarrow> bool" where
  "holds_wait p \<longleftrightarrow> p = THold \<or> p = TSignalled"

definition holds_clean :: "thread_pc \<Rightarrow> bool" where
  "holds_clean p \<longleftrightarrow> p \<in> {TRun, TAfter, THold, TSignalled, TUnwait, TPopped}"

lemma holds_simps [simp]:
  "\<not> holds_wait TNone" "\<not> holds_wait TStart" "\<not> holds_wait TAsync" "\<not> holds_wait TPushed" "\<not> holds_wait TRun"
  "\<not> holds_wait TAfter" "holds_wait THold" "holds_wait TSignalled" "\<not> holds_wait TUnwait" "\<not> holds_wait TPopped"
  "\<not> holds_wait TExit" "\<not> holds_wait TKilled"
  "\<not> holds_clean TNone" "\<not> holds_clean TStart" "\<not> holds_clean TAsync" "\<not> holds_clean TPushed" "holds_clean TRun"
  "holds_clean TAfter" "holds_clean THold" "holds_clean TSignalled" "holds_clean TUnwait" "holds_clean TPopped"
  "\<not> holds_clean TExit" "\<not> holds_clean TKilled"
  by (simp_all add: holds_wait_def holds_clean_def)

text \<open>Who can own a mutex at which point. A killed thread may own one for ever.\<close>

definition wait_inv :: "exec_state \<Rightarrow> bool" where
  "wait_inv s \<longleftrightarrow> (waitMutex s = Some Main) = owns_wait (mpc s) \<and>
     (holds_wait (tpc s) \<longrightarrow> waitMutex s = Some Thr) \<and>
     (waitMutex s = Some Thr \<longrightarrow> holds_wait (tpc s) \<or> tpc s = TKilled)"

definition clean_inv :: "exec_state \<Rightarrow> bool" where
  "clean_inv s \<longleftrightarrow> (cleanupMutex s = Some Main \<longrightarrow> owns_clean (mpc s)) \<and>
     (owns_clean (mpc s) \<longrightarrow> cleanupMutex s = Some Main \<or> tpc s = TKilled) \<and>
     (holds_clean (tpc s) \<longrightarrow> cleanupMutex s = Some Thr) \<and>
     (cleanupMutex s = Some Thr \<longrightarrow> holds_clean (tpc s) \<or> tpc s = TKilled)"

definition cancel_inv :: "exec_state \<Rightarrow> bool" where
  "cancel_inv s \<longleftrightarrow> (cancel_req s \<longrightarrow> cancelling (mpc s)) \<and> (tpc s = TKilled \<longrightarrow> cancel_req s) \<and>
     (mpc s = MCreate \<longrightarrow> tpc s = TNone) \<and> (tpc s = TNone \<longrightarrow> not_created (mpc s)) \<and>
     (clean_up (mpc s) \<longrightarrow> cancel_req s)"

lemma wake_mpc [simp]: "owns_wait (mpc (wake s)) = owns_wait (mpc s)" "owns_clean (mpc (wake s)) = owns_clean (mpc s)"
  "cancelling (mpc (wake s)) = cancelling (mpc s)" "mpc (wake s) = MCreate \<longleftrightarrow> mpc s = MCreate"
  "not_created (mpc (wake s)) = not_created (mpc s)" "clean_up (mpc (wake s)) = clean_up (mpc s)"
  by (simp_all add: wake_def)

lemma wake_fields [simp]: "tpc (wake s) = tpc s" "waitMutex (wake s) = waitMutex s" "cleanupMutex (wake s) = cleanupMutex s"
  "cancel_req (wake s) = cancel_req s" "threadCancelled (wake s) = threadCancelled s"
  "gCommandFailed (wake s) = gCommandFailed s" "gUserInterrupt (wake s) = gUserInterrupt s"
  "armed (wake s) = armed s" "z_pending (wake s) = z_pending s" "gUserInterruptAlarm (wake s) = gUserInterruptAlarm s"
  by (simp_all add: wake_def)

lemma wait_main: "main_step s s' \<Longrightarrow> wait_inv s \<Longrightarrow> cancel_inv s \<Longrightarrow> wait_inv s'"
  by (induction rule: main_step.induct) (auto simp: wait_inv_def cancel_inv_def)

lemma clean_main: "main_step s s' \<Longrightarrow> clean_inv s \<Longrightarrow> cancel_inv s \<Longrightarrow> clean_inv s'"
  by (induction rule: main_step.induct) (auto simp: clean_inv_def cancel_inv_def)

lemma cancel_main: "main_step s s' \<Longrightarrow> cancel_inv s \<Longrightarrow> cancel_inv s'"
  by (induction rule: main_step.induct) (auto simp: cancel_inv_def)

lemma wait_thread: "thread_step cmd s s' \<Longrightarrow> wait_inv s \<Longrightarrow> wait_inv s'"
  by (induction rule: thread_step.induct) (auto simp: wait_inv_def)

lemma clean_thread: "thread_step cmd s s' \<Longrightarrow> clean_inv s \<Longrightarrow> clean_inv s'"
  by (induction rule: thread_step.induct) (auto simp: clean_inv_def)

lemma cancel_thread: "thread_step cmd s s' \<Longrightarrow> cancel_inv s \<Longrightarrow> cancel_inv s'"
  by (induction rule: thread_step.induct) (auto simp: cancel_inv_def)

lemma inv_signal: "signal_step s s' \<Longrightarrow> wait_inv s' = wait_inv s" "signal_step s s' \<Longrightarrow> clean_inv s' = clean_inv s"
  "signal_step s s' \<Longrightarrow> cancel_inv s' = cancel_inv s"
  by (induction rule: signal_step.induct) (simp_all add: wait_inv_def clean_inv_def cancel_inv_def)

lemma inv_reachable: "reachable cmd s \<Longrightarrow> wait_inv s \<and> clean_inv s \<and> cancel_inv s"
proof (induction rule: reachable.induct)
  case reach_start
  then show ?case by (simp add: exec0_def wait_inv_def clean_inv_def cancel_inv_def)
next
  case (reach_step s s')
  from reach_step(2) consider "main_step s s'" | "thread_step cmd s s'" | "signal_step s s'"
    unfolding exec_step_def by blast
  then show ?case
  proof cases
    case 1
    with reach_step.IH show ?thesis using wait_main clean_main cancel_main by blast
  next
    case 2
    with reach_step.IH show ?thesis using wait_thread clean_thread cancel_thread by blast
  next
    case 3
    with reach_step.IH show ?thesis using inv_signal by simp
  qed
qed

section \<open>Results\<close>

text \<open>The thread is past its command, the main thread has cancelled because of an interrupt,
  or it is past a cancellation: what is known then.\<close>

definition ran :: "thread_pc \<Rightarrow> bool" where
  "ran p \<longleftrightarrow> p \<in> {TAfter, THold, TSignalled, TUnwait, TPopped, TExit}"

lemma ran_simps [simp]: "\<not> ran TNone" "\<not> ran TStart" "\<not> ran TAsync" "\<not> ran TPushed" "\<not> ran TRun" "ran TAfter"
  "ran THold" "ran TSignalled" "ran TUnwait" "ran TPopped" "ran TExit" "\<not> ran TKilled"
  by (simp_all add: ran_def)

fun for_interrupt :: "main_pc \<Rightarrow> bool" where
  "for_interrupt (MCancel e) = (\<not> e)"
| "for_interrupt (MLockClean e) = (\<not> e)"
| "for_interrupt (MUnlockClean e) = (\<not> e)"
| "for_interrupt p = False"

fun joining :: "main_pc \<Rightarrow> bool" where
  "joining MJoin = True"
| "joining MResult = True"
| "joining p = False"

definition result_inv :: "bool option \<Rightarrow> exec_state \<Rightarrow> bool" where
  "result_inv cmd s \<longleftrightarrow> (ran (tpc s) \<longrightarrow> cmd \<noteq> None \<and> (cmd = Some True \<or> gCommandFailed s)) \<and>
     (for_interrupt (mpc s) \<longrightarrow> gUserInterrupt s \<and> threadCancelled s) \<and>
     (joining (mpc s) \<and> cancel_req s \<longrightarrow> gCommandFailed s \<or> gUserInterrupt s \<and> threadCancelled s) \<and>
     (mpc s = MResult \<longrightarrow> tpc s = TExit \<or> tpc s = TKilled) \<and>
     (mpc s = MDone CMD_SUCCESS \<longrightarrow> tpc s = TExit \<and> cmd = Some True \<and> \<not> cancel_req s)"

lemma wake_more [simp]: "for_interrupt (mpc (wake s)) = for_interrupt (mpc s)" "joining (mpc (wake s)) = joining (mpc s)"
  "mpc (wake s) = MResult \<longleftrightarrow> mpc s = MResult" "mpc (wake s) = MDone r \<longleftrightarrow> mpc s = MDone r"
  by (simp_all add: wake_def)

lemma result_main: "main_step s s' \<Longrightarrow> result_inv cmd s \<Longrightarrow> cancel_inv s \<Longrightarrow> result_inv cmd s'"
  by (induction rule: main_step.induct) (auto simp: result_inv_def cancel_inv_def)

lemma result_thread: "thread_step cmd s s' \<Longrightarrow> result_inv cmd s \<Longrightarrow> result_inv cmd s'"
  by (induction rule: thread_step.induct) (auto simp: result_inv_def)

lemma result_signal: "signal_step s s' \<Longrightarrow> result_inv cmd s \<Longrightarrow> result_inv cmd s'"
  by (induction rule: signal_step.induct) (auto simp: result_inv_def)

lemma result_reachable: "reachable cmd s \<Longrightarrow> result_inv cmd s"
proof (induction rule: reachable.induct)
  case reach_start
  then show ?case by (simp add: exec0_def result_inv_def)
next
  case (reach_step s s')
  then show ?case
    using result_main result_thread result_signal inv_reachable unfolding exec_step_def by blast
qed

section \<open>Deadlocks\<close>

lemma main_can_move:
  "mpc s = MCreate \<Longrightarrow> \<exists>s'. main_step s s'"
  "mpc s = MLockWait \<Longrightarrow> waitMutex s = None \<Longrightarrow> \<exists>s'. main_step s s'"
  "mpc s = MPrep \<Longrightarrow> \<exists>s'. main_step s s'"
  "mpc s = MWaiting \<Longrightarrow> \<exists>s'. main_step s s'"
  "mpc s = MRelock e \<Longrightarrow> waitMutex s = None \<Longrightarrow> \<exists>s'. main_step s s'"
  "mpc s = MUnlock e \<Longrightarrow> \<exists>s'. main_step s s'"
  "mpc s = MAlarm e \<Longrightarrow> \<exists>s'. main_step s s'"
  "mpc s = MBranch e \<Longrightarrow> \<exists>s'. main_step s s'"
  "mpc s = MCancel e \<Longrightarrow> \<exists>s'. main_step s s'"
  "mpc s = MLockClean e \<Longrightarrow> cleanupMutex s = None \<Longrightarrow> \<exists>s'. main_step s s'"
  "mpc s = MUnlockClean e \<Longrightarrow> \<exists>s'. main_step s s'"
  "mpc s = MJoin \<Longrightarrow> tpc s = TExit \<or> tpc s = TKilled \<Longrightarrow> \<exists>s'. main_step s s'"
  "mpc s = MResult \<Longrightarrow> \<exists>s'. main_step s s'"
  by (cases e; cases "gUserInterrupt s"; cases "gUserInterruptAlarm s"; auto intro: main_step.intros)+

lemma thread_can_move:
  "tpc s = TStart \<Longrightarrow> \<exists>s'. thread_step cmd s s'"
  "tpc s = TAsync \<Longrightarrow> \<exists>s'. thread_step cmd s s'"
  "tpc s = TPushed \<Longrightarrow> cleanupMutex s = None \<Longrightarrow> \<exists>s'. thread_step cmd s s'"
  "tpc s = TRun \<Longrightarrow> cmd \<noteq> None \<Longrightarrow> \<exists>s'. thread_step cmd s s'"
  "tpc s = TAfter \<Longrightarrow> waitMutex s = None \<Longrightarrow> \<exists>s'. thread_step cmd s s'"
  "tpc s = THold \<Longrightarrow> \<exists>s'. thread_step cmd s s'"
  "tpc s = TSignalled \<Longrightarrow> \<exists>s'. thread_step cmd s s'"
  "tpc s = TUnwait \<Longrightarrow> \<exists>s'. thread_step cmd s s'"
  "tpc s = TPopped \<Longrightarrow> \<exists>s'. thread_step cmd s s'"
  "cancel_req s \<Longrightarrow> tpc s \<in> {TPushed, TRun, TAfter} \<Longrightarrow> \<exists>s'. thread_step cmd s s'"
  by (auto intro: thread_step.intros)

lemma nobody: "x \<noteq> Some Main \<Longrightarrow> x \<noteq> Some Thr \<Longrightarrow> x = None"
  by (metis not_Some_eq owner.exhaust)

lemma stuck_wait:
  assumes inv: "wait_inv s" "cancel_inv s" and t: "\<not> (\<exists>s'. thread_step cmd s s')" and m: "mpc s = MLockWait \<or> mpc s = MRelock e"
  shows "waitMutex s = None"
proof (rule ccontr)
  assume "waitMutex s \<noteq> None"
  then obtain w where w: "waitMutex s = Some w" by blast
  have "w = Thr" using inv(1) m w by (cases w) (auto simp: wait_inv_def)
  then have "holds_wait (tpc s) \<or> tpc s = TKilled" using inv(1) w by (simp add: wait_inv_def)
  moreover have "tpc s \<noteq> TKilled" using inv(2) m by (auto simp: cancel_inv_def)
  ultimately show False using t thread_can_move(6,7) [of s cmd] by (auto simp: holds_wait_def)
qed

lemma stuck_thread:
  assumes inv: "wait_inv s" "clean_inv s" "cancel_inv s" and t: "\<not> (\<exists>s'. thread_step cmd s s')"
    and m: "\<not> owns_wait (mpc s)" "\<not> owns_clean (mpc s)" "\<not> not_created (mpc s)"
  shows "tpc s = TExit \<or> tpc s = TKilled \<or> tpc s = TRun \<and> cmd = None \<and> \<not> cancel_req s"
proof -
  have "cleanupMutex s = None" if "tpc s = TPushed"
    using inv(2) m(2) that by (intro nobody) (auto simp: clean_inv_def)
  moreover have "waitMutex s = None" if "tpc s = TAfter"
    using inv(1) m(1) that by (intro nobody) (auto simp: wait_inv_def)
  moreover have "tpc s \<noteq> TNone" using inv(3) m(3) by (auto simp: cancel_inv_def)
  ultimately show ?thesis using t thread_can_move [of s cmd] by (cases "tpc s"; cases cmd) auto
qed

lemma stuck_clean:
  assumes inv: "wait_inv s" "clean_inv s" "cancel_inv s" and m: "\<not> (\<exists>s'. main_step s s')"
    and t: "\<not> (\<exists>s'. thread_step cmd s s')" and p: "mpc s = MLockClean e"
  shows "tpc s = TKilled \<and> cleanupMutex s = Some Thr"
proof -
  have "cancel_req s" using inv(3) p by (simp add: cancel_inv_def)
  then have "tpc s = TExit \<or> tpc s = TKilled" using stuck_thread [OF inv t] p by auto
  moreover have "cleanupMutex s \<noteq> None" using main_can_move(10) [OF p] m by blast
  then obtain w where w: "cleanupMutex s = Some w" by blast
  moreover have "w = Thr" using inv(2) w p by (cases w) (auto simp: clean_inv_def)
  ultimately show ?thesis using inv(2) by (auto simp: clean_inv_def)
qed

section \<open>Properties\<close>

text \<open>C14: When \<open>exec_showtech_cmd\<close> returns \<open>CMD_SUCCESS\<close>, in whatever order the two threads and the
  signal handlers take their steps, the command has run and succeeded, its thread has come to
  its end and was not cancelled, and both mutexes are free for the next command.\<close>

theorem exec_success_is_real:
  assumes "reachable cmd s" "mpc s = MDone CMD_SUCCESS"
  shows "cmd = Some True \<and> tpc s = TExit \<and> \<not> cancel_req s \<and> waitMutex s = None \<and> cleanupMutex s = None"
proof -
  have r: "result_inv cmd s" by (rule result_reachable [OF assms(1)])
  then have t: "tpc s = TExit" "cmd = Some True" "\<not> cancel_req s" using assms(2) by (simp_all add: result_inv_def)
  have "waitMutex s = None" "cleanupMutex s = None"
    using inv_reachable [OF assms(1)] t(1) assms(2)
    by (auto intro!: nobody simp: wait_inv_def clean_inv_def)
  with t show ?thesis by simp
qed


text \<open>A run in which nothing wakes the main thread but the command's thread and the timeout.\<close>

definition quiet_step :: "bool option \<Rightarrow> exec_state \<Rightarrow> exec_state \<Rightarrow> bool" where
  "quiet_step cmd s s' \<longleftrightarrow> thread_step cmd s s' \<or> main_step s s' \<and> (mpc s = MWaiting \<longrightarrow> mpc s' = MRelock True)"

fun too_late :: "main_pc \<Rightarrow> bool" where
  "too_late MCreate = False"
| "too_late (MRelock e) = e"
| "too_late (MUnlock e) = e"
| "too_late (MAlarm e) = e"
| "too_late (MBranch e) = e"
| "too_late (MCancel e) = e"
| "too_late (MLockClean e) = e"
| "too_late (MUnlockClean e) = e"
| "too_late (MDone r) = (r = CMD_WARNING)"
| "too_late p = True"

definition lost :: "exec_state \<Rightarrow> bool" where
  "lost s \<longleftrightarrow> tpc s \<in> {TSignalled, TUnwait, TPopped, TExit, TKilled} \<and> too_late (mpc s) \<and>
     (joining (mpc s) \<longrightarrow> gCommandFailed s)"

lemma lost_main: "main_step s s' \<Longrightarrow> lost s \<Longrightarrow> (mpc s = MWaiting \<longrightarrow> mpc s' = MRelock True) \<Longrightarrow> lost s'"
  by (induction rule: main_step.induct) (simp_all add: lost_def)

lemma lost_thread: "thread_step cmd s s' \<Longrightarrow> lost s \<Longrightarrow> lost s'"
  by (induction rule: thread_step.induct) (auto simp: lost_def)

lemma lost_run: "(quiet_step cmd)\<^sup>*\<^sup>* s s' \<Longrightarrow> lost s \<Longrightarrow> lost s'"
  by (induction rule: rtranclp_induct) (auto simp: quiet_step_def intro: lost_main lost_thread)

text \<open>A lost wakeup: when the command's thread has signalled before the main thread waits, the
  signal is lost. Unless something else wakes the main thread it waits for the whole minute,
  and every run that comes to its end returns \<open>CMD_WARNING\<close> and reports a timeout, although the
  command has succeeded.\<close>

theorem lost_wakeup:
  assumes "reachable (Some True) s" "mpc s = MLockWait" "tpc s \<in> {TSignalled, TUnwait, TPopped, TExit}"
    and "(quiet_step (Some True))\<^sup>*\<^sup>* s s'" "mpc s' = MDone r"
  shows "r = CMD_WARNING"
proof -
  have "lost s" using assms(2,3) by (auto simp: lost_def)
  then have "lost s'" by (rule lost_run [OF assms(4)])
  with assms(5) show ?thesis by (simp add: lost_def)
qed

lemma hang_step:
  assumes "exec_step cmd s s'" "mpc s = MLockClean e" "cleanupMutex s = Some Thr" "tpc s = TKilled"
  shows "mpc s' = MLockClean e \<and> cleanupMutex s' = Some Thr \<and> tpc s' = TKilled"
  using assms unfolding exec_step_def
  by (auto elim!: main_step.cases thread_step.cases signal_step.cases simp: wake_def)

lemma hang_run: "(exec_step cmd)\<^sup>*\<^sup>* s s' \<Longrightarrow> mpc s = MLockClean e \<Longrightarrow> cleanupMutex s = Some Thr \<Longrightarrow> tpc s = TKilled \<Longrightarrow>
    mpc s' = MLockClean e \<and> cleanupMutex s' = Some Thr \<and> tpc s' = TKilled"
  by (induction rule: rtranclp_induct) (auto dest: hang_step)

text \<open>A command that is cancelled in the moment between \<open>pthread_cleanup_pop(0)\<close> and the unlock of
  \<open>cleanupMutex\<close> leaves that mutex locked for ever, and the main thread never returns from its
  wait for it, whatever happens then.\<close>

theorem cancel_after_pop_hangs:
  assumes "reachable cmd s" "tpc s = TPopped" "mpc s = MCancel e"
  shows "\<exists>s1 s2. main_step s s1 \<and> thread_step cmd s1 s2 \<and> (\<forall>s'. (exec_step cmd)\<^sup>*\<^sup>* s2 s' \<longrightarrow> mpc s' = MLockClean e)"
proof -
  have c: "cleanupMutex s = Some Thr" using inv_reachable [OF assms(1)] assms(2) by (simp add: clean_inv_def)
  let ?s1 = "s\<lparr>cancel_req := True, mpc := MLockClean e\<rparr>"
  let ?s2 = "?s1\<lparr>tpc := TKilled\<rparr>"
  have "main_step s ?s1" by (rule main_step.cancel [OF assms(3)])
  moreover have "thread_step cmd ?s1 ?s2" by (rule t_cancelled_bare) (simp_all add: assms(2))
  moreover have "\<forall>s'. (exec_step cmd)\<^sup>*\<^sup>* ?s2 s' \<longrightarrow> mpc s' = MLockClean e" using hang_run [of cmd ?s2] c by auto
  ultimately show ?thesis by blast
qed

text \<open>The next call of \<open>exec_showtech_cmd\<close> finds the mutexes as they are.\<close>

definition next_call :: "exec_state \<Rightarrow> exec_state" where
  "next_call s = s\<lparr>mpc := MCreate, tpc := TNone, cancel_req := False, threadCancelled := True\<rparr>"

fun before_run :: "thread_pc \<Rightarrow> bool" where
  "before_run TNone = True"
| "before_run TStart = True"
| "before_run TAsync = True"
| "before_run TPushed = True"
| "before_run TRun = True"
| "before_run TAfter = True"
| "before_run p = False"

definition orphaned :: "exec_state \<Rightarrow> bool" where
  "orphaned s \<longleftrightarrow> waitMutex s = Some Thr \<and> \<not> cancel_req s \<and> before_run (tpc s) \<and>
     (mpc s = MCreate \<or> mpc s = MLockWait \<or> mpc s = MDone CMD_WARNING \<and> tpc s = TNone) \<and> (mpc s = MCreate \<longrightarrow> tpc s = TNone)"

lemma orphaned_main: "main_step s s' \<Longrightarrow> orphaned s \<Longrightarrow> orphaned s'"
  by (induction rule: main_step.induct) (auto simp: orphaned_def)

lemma orphaned_thread: "thread_step cmd s s' \<Longrightarrow> orphaned s \<Longrightarrow> orphaned s'"
  by (induction rule: thread_step.induct) (auto simp: orphaned_def)

lemma orphaned_signal: "signal_step s s' \<Longrightarrow> orphaned s \<Longrightarrow> orphaned s'"
  by (induction rule: signal_step.induct) (auto simp: orphaned_def wake_def)

lemma orphaned_run: "(exec_step cmd)\<^sup>*\<^sup>* s s' \<Longrightarrow> orphaned s \<Longrightarrow> orphaned s'"
  by (induction rule: rtranclp_induct) (auto simp: exec_step_def intro: orphaned_main orphaned_thread orphaned_signal)

text \<open>A command that is cancelled while its thread owns \<open>waitMutex\<close>, about to signal, leaves that
  mutex locked, since the cleanup handler unlocks the other one only: this call still returns,
  but every later call blocks on \<open>waitMutex\<close> for ever, once its thread is created.\<close>

theorem cancel_while_signalling_blocks_next:
  assumes "reachable cmd s" "mpc s = MDone r" "tpc s = TKilled" "waitMutex s = Some Thr"
    and "(exec_step cmd')\<^sup>*\<^sup>* (next_call s) s'" "tpc s' \<noteq> TNone"
  shows "mpc s' = MLockWait"
proof -
  have "orphaned (next_call s)" using assms(4) by (simp add: orphaned_def next_call_def)
  then have "orphaned s'" by (rule orphaned_run [OF assms(5)])
  with assms(6) show ?thesis by (auto simp: orphaned_def)
qed

section \<open>Concrete runs\<close>

text \<open>States without interrupts, by program points, owners of the mutexes, the request to cancel
  and \<open>gCommandFailed\<close>.\<close>

definition calm :: "main_pc \<Rightarrow> thread_pc \<Rightarrow> owner option \<Rightarrow> owner option \<Rightarrow> bool \<Rightarrow> bool \<Rightarrow> exec_state" where
  "calm m t w c q f = \<lparr>mpc = m, tpc = t, waitMutex = w, cleanupMutex = c, cancel_req = q, threadCancelled = True,
     gCommandFailed = f, gUserInterrupt = False, gUserInterruptAlarm = False, armed = False, z_pending = False\<rparr>"

lemma calm_fields [simp]: "mpc (calm m t w c q f) = m" "tpc (calm m t w c q f) = t" "waitMutex (calm m t w c q f) = w"
  by (simp_all add: calm_def)

lemma calm_main:
  "main_step (calm MCreate t w c q f) (calm MLockWait TStart w c q False)"
  "main_step (calm MLockWait t None c q f) (calm MPrep t (Some Main) c q f)"
  "main_step (calm MPrep t w c q f) (calm MWaiting t None c q f)"
  "main_step (calm MWaiting t w c q f) (calm (MRelock True) t w c q f)"
  "main_step (calm (MRelock e) t None c q f) (calm (MUnlock e) t (Some Main) c q f)"
  "main_step (calm (MUnlock e) t w c q f) (calm (MAlarm e) t None c q f)"
  "main_step (calm (MAlarm e) t w c q f) (calm (MBranch e) t w c q f)"
  "main_step (calm (MBranch True) t w c q f) (calm (MCancel True) t w c q f)"
  "main_step (calm (MBranch False) t w c q f) (calm MJoin t w c q f)"
  "main_step (calm (MCancel e) t w c q f) (calm (MLockClean e) t w c True f)"
  "main_step (calm (MLockClean e) t w None q f) (calm (MUnlockClean e) t w (Some Main) q f)"
  "main_step (calm (MUnlockClean True) t w c q f) (calm MJoin t w None q True)"
  "main_step (calm MJoin TExit w c q f) (calm MResult TExit w c q f)"
  "main_step (calm MJoin TKilled w c q f) (calm MResult TKilled w c q f)"
  "main_step (calm MResult t w c q f) (calm (MDone (if f then CMD_WARNING else CMD_SUCCESS)) t w c q f)"
  by (subst main_step.simps, simp add: calm_def ex_bool_eq)+

lemma calm_thread:
  "thread_step cmd (calm m TStart w c q f) (calm m TAsync w c q f)"
  "thread_step cmd (calm m TAsync w c q f) (calm m TPushed w c q f)"
  "thread_step cmd (calm m TPushed w None q f) (calm m TRun w (Some Thr) q f)"
  "thread_step (Some True) (calm m TRun w c q f) (calm m TAfter w c q f)"
  "thread_step cmd (calm m TAfter None c q f) (calm m THold (Some Thr) c q f)"
  "thread_step cmd (calm MWaiting THold w c q f) (calm (MRelock False) TSignalled w c q f)"
  "thread_step cmd (calm MLockWait THold w c q f) (calm MLockWait TSignalled w c q f)"
  "thread_step cmd (calm (MCancel e) THold w c q f) (calm (MCancel e) TSignalled w c q f)"
  "thread_step cmd (calm m TSignalled w c q f) (calm m TUnwait None c q f)"
  "thread_step cmd (calm m TUnwait w c q f) (calm m TPopped w c q f)"
  "thread_step cmd (calm m TPopped w c q f) (calm m TExit w None q f)"
  "thread_step cmd (calm m THold w c True f) (calm m TKilled w None True f)"
  by (subst thread_step.simps, simp add: calm_def wake_def ex_bool_eq)+

lemma exec0_calm: "exec0 = calm MCreate TNone None None False False"
  by (simp add: exec0_def calm_def)

lemma reach_main: "reachable cmd s \<Longrightarrow> main_step s s' \<Longrightarrow> reachable cmd s'"
  and reach_thread: "reachable cmd s \<Longrightarrow> thread_step cmd s s' \<Longrightarrow> reachable cmd s'"
  by (auto simp: exec_step_def intro: reach_step)

text \<open>The thread has run its command and the main thread has not come to wait yet.\<close>

lemma run_to_after: "reachable (Some True) (calm MLockWait TAfter None (Some Thr) False False)"
proof -
  have "reachable (Some True) (calm MLockWait TStart None None False False)"
    by (rule reach_main [OF reach_start]) (unfold exec0_calm, rule calm_main)
  from reach_thread [OF this calm_thread(1)] have "reachable (Some True) (calm MLockWait TAsync None None False False)" .
  from reach_thread [OF this calm_thread(2)] have "reachable (Some True) (calm MLockWait TPushed None None False False)" .
  from reach_thread [OF this calm_thread(3)] have "reachable (Some True) (calm MLockWait TRun None (Some Thr) False False)" .
  from reach_thread [OF this calm_thread(4)] show ?thesis .
qed

lemma run_to_wait: "reachable (Some True) (calm MWaiting TAfter None (Some Thr) False False)"
  by (rule reach_main [OF reach_main [OF run_to_after calm_main(2)] calm_main(3)])

lemma run_to_success: "reachable (Some True) (calm (MDone CMD_SUCCESS) TExit None None False False)"
proof -
  note r = reach_thread [OF reach_thread [OF reach_thread [OF run_to_wait calm_thread(5)] calm_thread(6)] calm_thread(9)]
  note r = reach_main [OF reach_main [OF r calm_main(5)] calm_main(6)]
  note r = reach_main [OF reach_main [OF r calm_main(7)] calm_main(9)]
  note r = reach_thread [OF reach_thread [OF r calm_thread(10)] calm_thread(11)]
  note r = reach_main [OF reach_main [OF r calm_main(13)] calm_main(15)]
  then show ?thesis by simp
qed

theorem exec_success_is_real_witness:
  "Some True = Some True \<and> tpc (calm (MDone CMD_SUCCESS) TExit None None False False) = TExit \<and>
   \<not> cancel_req (calm (MDone CMD_SUCCESS) TExit None None False False) \<and>
   waitMutex (calm (MDone CMD_SUCCESS) TExit None None False False) = None \<and>
   cleanupMutex (calm (MDone CMD_SUCCESS) TExit None None False False) = None"
  by (rule exec_success_is_real [OF run_to_success]) simp

text \<open>The minute is over while the thread, its command done, goes on to signal.\<close>

lemma run_to_timeout: "reachable (Some True) (calm (MCancel True) TAfter None (Some Thr) False False)"
proof -
  note r = reach_main [OF reach_main [OF run_to_wait calm_main(4)] calm_main(5)]
  note r = reach_main [OF reach_main [OF r calm_main(6)] calm_main(7)]
  show ?thesis by (rule reach_main [OF r calm_main(8)])
qed

lemma run_to_hold: "reachable (Some True) (calm (MCancel True) THold (Some Thr) (Some Thr) False False)"
  by (rule reach_thread [OF run_to_timeout calm_thread(5)])

lemma run_to_pop: "reachable (Some True) (calm (MCancel True) TPopped None (Some Thr) False False)"
  by (rule reach_thread [OF reach_thread [OF reach_thread [OF run_to_hold calm_thread(8)] calm_thread(9)] calm_thread(10)])

lemma run_to_orphan: "reachable (Some True) (calm (MDone CMD_WARNING) TKilled (Some Thr) None True True)"
proof -
  note r = reach_thread [OF reach_main [OF run_to_hold calm_main(10)] calm_thread(12)]
  note r = reach_main [OF reach_main [OF reach_main [OF r calm_main(11)] calm_main(12)] calm_main(14)]
  from reach_main [OF r calm_main(15)] show ?thesis by simp
qed

lemma run_to_hang: "reachable (Some True) (calm (MLockClean True) TKilled None (Some Thr) True False)"
proof -
  have "thread_step (Some True) (calm (MLockClean True) TPopped None (Some Thr) True False)
      (calm (MLockClean True) TKilled None (Some Thr) True False)"
    by (subst thread_step.simps) (simp add: calm_def)
  then show ?thesis by (rule reach_thread [OF reach_main [OF run_to_pop calm_main(10)]])
qed


lemma run_signalled_early: "reachable (Some True) (calm MLockWait TExit None None False False)"
proof -
  note r = reach_thread [OF reach_thread [OF run_to_after calm_thread(5)] calm_thread(7)]
  note r = reach_thread [OF reach_thread [OF r calm_thread(9)] calm_thread(10)]
  show ?thesis by (rule reach_thread [OF r calm_thread(11)])
qed

lemma quiet_main: "(quiet_step cmd)\<^sup>*\<^sup>* s s' \<Longrightarrow> main_step s' s'' \<Longrightarrow> mpc s' \<noteq> MWaiting \<or> mpc s'' = MRelock True \<Longrightarrow>
    (quiet_step cmd)\<^sup>*\<^sup>* s s''"
  by (auto simp: quiet_step_def intro: rtranclp.rtrancl_into_rtrancl)

lemma run_lost: "(quiet_step (Some True))\<^sup>*\<^sup>* (calm MLockWait TExit None None False False)
    (calm (MDone CMD_WARNING) TExit None None True True)"
proof -
  let ?Q = "\<lambda>s. (quiet_step (Some True))\<^sup>*\<^sup>* (calm MLockWait TExit None None False False) s"
  have "?Q (calm MPrep TExit (Some Main) None False False)"
    by (rule quiet_main [OF rtranclp.rtrancl_refl calm_main(2)]) simp
  from quiet_main [OF this calm_main(3)] have "?Q (calm MWaiting TExit None None False False)" by simp
  from quiet_main [OF this calm_main(4)] have "?Q (calm (MRelock True) TExit None None False False)" by simp
  from quiet_main [OF this calm_main(5)] have "?Q (calm (MUnlock True) TExit (Some Main) None False False)" by simp
  from quiet_main [OF this calm_main(6)] have "?Q (calm (MAlarm True) TExit None None False False)" by simp
  from quiet_main [OF this calm_main(7)] have "?Q (calm (MBranch True) TExit None None False False)" by simp
  from quiet_main [OF this calm_main(8)] have "?Q (calm (MCancel True) TExit None None False False)" by simp
  from quiet_main [OF this calm_main(10)] have "?Q (calm (MLockClean True) TExit None None True False)" by simp
  from quiet_main [OF this calm_main(11)] have "?Q (calm (MUnlockClean True) TExit None (Some Main) True False)" by simp
  from quiet_main [OF this calm_main(12)] have "?Q (calm MJoin TExit None None True True)" by simp
  from quiet_main [OF this calm_main(13)] have "?Q (calm MResult TExit None None True True)" by simp
  from quiet_main [OF this calm_main(15)] show ?thesis by simp
qed

theorem lost_wakeup_witness:
  "reachable (Some True) (calm MLockWait TExit None None False False) \<and>
   (\<exists>s'. (quiet_step (Some True))\<^sup>*\<^sup>* (calm MLockWait TExit None None False False) s' \<and> mpc s' = MDone CMD_WARNING)"
proof -
  obtain r where r: "mpc (calm (MDone CMD_WARNING) TExit None None True True) = MDone r" by simp
  have "r = CMD_WARNING" by (rule lost_wakeup [OF run_signalled_early _ _ run_lost r]) simp_all
  with r run_signalled_early run_lost show ?thesis by blast
qed

theorem cancel_after_pop_hangs_witness:
  "\<exists>s1 s2. main_step (calm (MCancel True) TPopped None (Some Thr) False False) s1 \<and> thread_step (Some True) s1 s2 \<and>
     (\<forall>s'. (exec_step (Some True))\<^sup>*\<^sup>* s2 s' \<longrightarrow> mpc s' = MLockClean True)"
  by (rule cancel_after_pop_hangs [OF run_to_pop]) simp_all

theorem cancel_while_signalling_blocks_next_witness:
  "\<exists>s'. (exec_step (Some True))\<^sup>*\<^sup>* (next_call (calm (MDone CMD_WARNING) TKilled (Some Thr) None True True)) s' \<and>
     mpc s' = MLockWait"
proof -
  have "next_call (calm (MDone CMD_WARNING) TKilled (Some Thr) None True True) = calm MCreate TNone (Some Thr) None False True"
    by (simp add: next_call_def calm_def)
  then have path: "(exec_step (Some True))\<^sup>*\<^sup>* (next_call (calm (MDone CMD_WARNING) TKilled (Some Thr) None True True))
      (calm MLockWait TStart (Some Thr) None False False)"
    using calm_main(1) by (auto simp: exec_step_def intro: r_into_rtranclp)
  have "mpc (calm MLockWait TStart (Some Thr) None False False) = MLockWait"
    by (rule cancel_while_signalling_blocks_next [OF run_to_orphan _ _ _ path]) simp_all
  with path show ?thesis by blast
qed

end
