(* ===== verification/Show_Tech_Cmd.thy ===== *)
theory Show_Tech_Cmd
  imports Supportability_Utils Vtysh
begin

text \<open>
  \<open>src/src/cli/show_tech_vty.c\<close>, \<open>exec_showtech_cmd_on_thread\<close>: one line of the configuration is
  either a command of the vtysh or \<open>bashcat FILE\<close>, which prints a file. The vtysh and the file
  system are parameters; the array \<open>line\<close> keeps what it held before, as the code tests one of
  its characters whether \<open>fgets\<close> has written it or not.
\<close>

section \<open>The model\<close>

abbreviation READ_LINE_SIZE :: nat where "READ_LINE_SIZE \<equiv> 256"

definition BASH_CAT_CMD :: string where "BASH_CAT_CMD = ''bashcat''"

record cmd_env =
  ce_fopen :: "string \<Rightarrow> string option"                   \<comment> \<open>the text of a readable file\<close>
  ce_execute :: "string \<Rightarrow> cmd_ret \<times> string list"           \<comment> \<open>\<open>vtysh_execute\<close> and what it prints\<close>
  ce_nl :: string                                           \<comment> \<open>\<open>VTY_NEWLINE\<close>\<close>
  ce_line :: string                                         \<comment> \<open>the array \<open>line\<close> at the start\<close>

abbreviation nl :: char where "nl \<equiv> CHR 0x0A"
abbreviation nul :: char where "nul \<equiv> CHR 0x00"

text \<open>\<open>fgets(line, READ_LINE_SIZE, f)\<close> at a text that is not at its end.\<close>

definition fgets :: "string \<Rightarrow> string \<times> string" where
  "fgets s = (let k = min (Suc (length (takeWhile (\<lambda>c. c \<noteq> nl) s))) (READ_LINE_SIZE - 1) in (take k s, drop k s))"

definition fill_line :: "string \<Rightarrow> string \<Rightarrow> string" where
  "fill_line c line = c @ nul # drop (Suc (length c)) line"

function cat_lines :: "string \<Rightarrow> string \<Rightarrow> string \<Rightarrow> string list" where
  "cat_lines vnl line s =
     (if s = [] then []
      else
        (let (c, r) = fgets s; line1 = fill_line c line in
         if line1 ! (READ_LINE_SIZE - 2) = nl
         then (let line2 = line1[READ_LINE_SIZE - 2 := nul] in
               (cstr line2 @ vnl) # cstr line2 # cat_lines vnl line2 r)
         else cstr line1 # cat_lines vnl line1 r))"
  by pat_completeness auto
termination
  by (relation "measure (\<lambda>(vnl, line, s). length s)") (auto simp: fgets_def Let_def)

declare cat_lines.simps [simp del]

definition exec_showtech_cmd_on_thread :: "cmd_env \<Rightarrow> string option \<Rightarrow> cmd_ret \<times> string list" where
  "exec_showtech_cmd_on_thread env cmd = (case cmd of
     None \<Rightarrow> (CMD_WARNING, [])
   | Some c \<Rightarrow>
       (let trim_cmd = dropWhile isspace c in
        if trim_cmd = [] then (CMD_WARNING, [''Invalid command'' @ ce_nl env])
        else if strncmp_with_nullcheck (Some BASH_CAT_CMD) (Some trim_cmd) (length BASH_CAT_CMD) = 0
        then
          (let name = dropWhile isspace (drop (length BASH_CAT_CMD) trim_cmd) in
           if name = [] then (CMD_WARNING, [''Invalid file name'' @ ce_nl env])
           else (case ce_fopen env name of
               None \<Rightarrow> (CMD_WARNING, [''File '' @ name @ '' is not readable'' @ ce_nl env])
             | Some text \<Rightarrow> (CMD_SUCCESS, cat_lines (ce_nl env) (ce_line env) text @ [ce_nl env])))
        else ce_execute env trim_cmd))"

section \<open>What bashcat prints\<close>

function chunks :: "string \<Rightarrow> string list" where
  "chunks s = (if s = [] then [] else fst (fgets s) # chunks (snd (fgets s)))"
  by pat_completeness auto
termination
  by (relation "measure length") (auto simp: fgets_def Let_def)

declare chunks.simps [simp del]

text \<open>A line that fills the array up to its last character.\<close>

definition full_line :: "string \<Rightarrow> bool" where
  "full_line c \<longleftrightarrow> length c = READ_LINE_SIZE - 1 \<and> last c = nl"

lemma concat_chunks: "concat (chunks s) = s"
proof (induction s rule: chunks.induct)
  case (1 s)
  have "fst (fgets s) @ snd (fgets s) = s" by (simp add: fgets_def Let_def)
  with 1 show ?case by (subst chunks.simps) simp
qed

lemma fgets_length: "s \<noteq> [] \<Longrightarrow> fst (fgets s) \<noteq> [] \<and> length (fst (fgets s)) \<le> READ_LINE_SIZE - 1"
  by (auto simp: fgets_def Let_def)

text \<open>Whether the tested character is a newline: either the line fills the array, or it was one
  before.\<close>

lemma fill_line_test:
  assumes "length line = READ_LINE_SIZE" "length c \<le> READ_LINE_SIZE - 1" "line ! (READ_LINE_SIZE - 2) \<noteq> nl"
  shows "fill_line c line ! (READ_LINE_SIZE - 2) = nl \<longleftrightarrow> full_line c" "length (fill_line c line) = READ_LINE_SIZE"
proof -
  consider "length c = 255" | "length c = 254" | "length c < 254" using assms(2) by linarith
  then show "fill_line c line ! (READ_LINE_SIZE - 2) = nl \<longleftrightarrow> full_line c"
  proof cases
    case 1
    then have "c \<noteq> []" by auto
    with 1 show ?thesis by (simp add: fill_line_def full_line_def nth_append last_conv_nth)
  next
    case 2
    then show ?thesis by (simp add: fill_line_def full_line_def nth_append)
  next
    case 3
    then have "fill_line c line ! 254 = drop (Suc (length c)) line ! (253 - length c)"
      by (simp add: fill_line_def nth_append nth_Cons')
    also have "\<dots> = line ! 254" using 3 assms(1) by (subst nth_drop) auto
    finally show ?thesis using 3 assms(3) by (simp add: full_line_def)
  qed
  show "length (fill_line c line) = READ_LINE_SIZE" using assms(1,2) by (simp add: fill_line_def)
qed

lemma cstr_fill: "nul \<notin> set c \<Longrightarrow> cstr (fill_line c line) = c"
  by (simp add: fill_line_def)

lemma cstr_cut:
  assumes "full_line c" "nul \<notin> set c"
  shows "cstr ((fill_line c line)[READ_LINE_SIZE - 2 := nul]) = butlast c"
proof -
  have "c \<noteq> []" "last c = nl" "length (butlast c) = 254" using assms(1) by (auto simp: full_line_def)
  then have "c = butlast c @ [nl]" by (metis append_butlast_last_id)
  moreover have "length (butlast c) = 254" by fact
  ultimately obtain d where d: "c = d @ [nl]" "length d = 254" by metis
  then have "(fill_line c line)[254 := nul] = d @ nul # nul # drop (Suc (length c)) line"
    by (simp add: fill_line_def list_update_append)
  moreover have "nul \<notin> set d" using assms(2) d(1) by auto
  ultimately show ?thesis using d(1) by simp
qed

definition line_out :: "string \<Rightarrow> string \<Rightarrow> string list" where
  "line_out vnl c = (if full_line c then [butlast c @ vnl, butlast c] else [c])"

lemma cat_lines_out:
  assumes "nul \<notin> set s" "length line = READ_LINE_SIZE" "line ! (READ_LINE_SIZE - 2) \<noteq> nl"
  shows "cat_lines vnl line s = concat (map (line_out vnl) (chunks s))"
  using assms
proof (induction s arbitrary: line rule: chunks.induct)
  case (1 s)
  show ?case
  proof (cases "s = []")
    case True
    then show ?thesis by (simp add: cat_lines.simps chunks.simps)
  next
    case False
    obtain c r where cr: "fgets s = (c, r)" by (cases "fgets s")
    have s: "s = c @ r" using cr by (auto simp: fgets_def Let_def)
    have nul: "nul \<notin> set c" "nul \<notin> set r" using 1(2) s by auto
    have len: "length c \<le> READ_LINE_SIZE - 1" using fgets_length [OF False] cr by simp
    note fl = fill_line_test [OF 1(3) len 1(4)]
    have step: "cat_lines vnl line s = (if full_line c
        then (butlast c @ vnl) # butlast c # cat_lines vnl ((fill_line c line)[READ_LINE_SIZE - 2 := nul]) r
        else c # cat_lines vnl (fill_line c line) r)"
      using False cr fl(1) cstr_cut [of c line] cstr_fill [of c line] nul(1)
      by (subst cat_lines.simps) (simp add: Let_def)
    have "cat_lines vnl line' r = concat (map (line_out vnl) (chunks r))"
      if "line' = (if full_line c then (fill_line c line)[READ_LINE_SIZE - 2 := nul] else fill_line c line)" for line'
      using 1(1) [OF False, of line'] cr nul(2) fl that by (auto split: if_splits)
    then have ih: "full_line c \<Longrightarrow> cat_lines vnl ((fill_line c line)[READ_LINE_SIZE - 2 := nul]) r = concat (map (line_out vnl) (chunks r))"
      "\<not> full_line c \<Longrightarrow> cat_lines vnl (fill_line c line) r = concat (map (line_out vnl) (chunks r))"
      by simp_all
    have "chunks s = c # chunks r" using False cr by (subst chunks.simps) simp
    moreover have "line_out vnl c = (if full_line c then [butlast c @ vnl, butlast c] else [c])"
      by (rule line_out_def)
    ultimately show ?thesis using step ih by simp
  qed
qed

lemma run_bashcat:
  assumes "dropWhile isspace cmd = BASH_CAT_CMD @ tail" "dropWhile isspace tail = name" "name \<noteq> []"
    and "ce_fopen env name = Some body"
  shows "exec_showtech_cmd_on_thread env (Some cmd) = (CMD_SUCCESS, cat_lines (ce_nl env) (ce_line env) body @ [ce_nl env])"
proof -
  have "strncmp_with_nullcheck (Some BASH_CAT_CMD) (Some (BASH_CAT_CMD @ tail)) (length BASH_CAT_CMD) = 0"
    by (simp add: strncmp_eq_0)
  moreover have "BASH_CAT_CMD @ tail \<noteq> []" by (simp add: BASH_CAT_CMD_def)
  ultimately show ?thesis
    unfolding exec_showtech_cmd_on_thread_def option.case Let_def assms(1)
    using assms(2-4) by simp
qed

text \<open>\<open>bashcat FILE\<close> prints the text of a readable file, whatever the length of its lines and
  whatever the array held, as long as it held no newline in its last place and the file has no
  line of exactly 254 characters: the lines come in pieces of at most 255 characters, and put
  together they are the file, followed by a newline.\<close>

theorem bashcat_prints_file:
  assumes "dropWhile isspace cmd = BASH_CAT_CMD @ tail" "dropWhile isspace tail = name" "name \<noteq> []"
    and "ce_fopen env name = Some body" "nul \<notin> set body" "\<forall>c\<in>set (chunks body). \<not> full_line c"
    and "length (ce_line env) = READ_LINE_SIZE" "ce_line env ! (READ_LINE_SIZE - 2) \<noteq> nl"
  shows "\<exists>out. exec_showtech_cmd_on_thread env (Some cmd) = (CMD_SUCCESS, out) \<and> concat out = body @ ce_nl env"
proof -
  have "map (line_out (ce_nl env)) (chunks body) = map (\<lambda>c. [c]) (chunks body)"
    using assms(6) by (intro map_cong refl) (simp add: line_out_def)
  moreover have "concat (concat (map (\<lambda>c. [c]) cs)) = concat cs" for cs :: "string list" by (induction cs) simp_all
  ultimately have "concat (cat_lines (ce_nl env) (ce_line env) body) = body"
    using cat_lines_out [OF assms(5,7,8), of "ce_nl env"] concat_chunks [of body] by (simp only:)
  then show ?thesis using run_bashcat [OF assms(1-4)] by simp
qed

text \<open>A file whose first line has exactly 254 characters: bashcat prints that line twice.\<close>

theorem bashcat_repeats_line:
  assumes "dropWhile isspace cmd = BASH_CAT_CMD @ tail" "dropWhile isspace tail = name" "name \<noteq> []"
    and "ce_fopen env name = Some (l @ [nl])" "length l = 254" "nul \<notin> set l" "nl \<notin> set l"
    and "length (ce_line env) = READ_LINE_SIZE" "ce_line env ! (READ_LINE_SIZE - 2) \<noteq> nl"
  shows "exec_showtech_cmd_on_thread env (Some cmd) = (CMD_SUCCESS, [l @ ce_nl env, l, ce_nl env])"
proof -
  have "takeWhile (\<lambda>c. c \<noteq> nl) (l @ [nl]) = l" using assms(7) by (auto simp: takeWhile_append)
  then have "fgets (l @ [nl]) = (l @ [nl], [])" using assms(5) by (simp add: fgets_def)
  then have "chunks (l @ [nl]) = [l @ [nl]]" by (simp add: chunks.simps)
  moreover have "full_line (l @ [nl])" using assms(5) by (simp add: full_line_def)
  ultimately have "cat_lines (ce_nl env) (ce_line env) (l @ [nl]) = [l @ ce_nl env, l]"
    using cat_lines_out [of "l @ [nl]" "ce_line env" "ce_nl env"] assms(6,8,9) by (simp add: line_out_def)
  then show ?thesis using run_bashcat [OF assms(1-4)] by simp
qed

definition cat_env :: "string \<Rightarrow> cmd_env" where
  "cat_env text = \<lparr>ce_fopen = (\<lambda>f. if f = ''/etc/os-release'' then Some text else None),
     ce_execute = (\<lambda>c. (CMD_SUCCESS, [])), ce_nl = [nl], ce_line = replicate READ_LINE_SIZE nul\<rparr>"

theorem bashcat_prints_file_witness:
  "\<exists>out. exec_showtech_cmd_on_thread (cat_env (''NAME=OpenSwitch'' @ [nl])) (Some ''  bashcat /etc/os-release'') = (CMD_SUCCESS, out) \<and>
     concat out = (''NAME=OpenSwitch'' @ [nl]) @ ce_nl (cat_env (''NAME=OpenSwitch'' @ [nl]))"
  by (rule bashcat_prints_file [where tail = "'' /etc/os-release''" and name = "''/etc/os-release''"])
    (simp_all add: BASH_CAT_CMD_def isspace_def cat_env_def chunks.simps fgets_def full_line_def)

theorem bashcat_repeats_line_witness:
  "exec_showtech_cmd_on_thread (cat_env (replicate 254 (CHR ''x'') @ [nl])) (Some ''bashcat /etc/os-release'') =
     (CMD_SUCCESS, [replicate 254 (CHR ''x'') @ ce_nl (cat_env (replicate 254 (CHR ''x'') @ [nl])), replicate 254 (CHR ''x''),
        ce_nl (cat_env (replicate 254 (CHR ''x'') @ [nl]))])"
  by (rule bashcat_repeats_line [where tail = "'' /etc/os-release''" and name = "''/etc/os-release''"])
    (simp_all add: BASH_CAT_CMD_def isspace_def cat_env_def)

end
