(* ===== verification/Show_Tech_Print.thy ===== *)
theory Show_Tech_Print
  imports Show_Tech_Spec Vtysh
begin

text \<open>
  \<open>src/src/showtech/showtech.c\<close>: \<open>list_features\<close> and \<open>list_config\<close>, which print the configuration
  for the tests of the parser. They change nothing; their result is the sequence of texts
  that they print. The loops walk the heap; the theorems say what they print as a function of
  the tree that the heap represents, and of the file from which it was read.
\<close>

section \<open>The loops\<close>

definition nl_c :: string where "nl_c = [CHR 0x0A]"
definition tabs_c :: "nat \<Rightarrow> string" where "tabs_c n = replicate n (CHR 0x09)"
definition flag_d :: "bool \<Rightarrow> string" where "flag_d b = (if b then ''1'' else ''0'')"

partial_function (option) names_from :: "addr option \<Rightarrow> sts \<Rightarrow> string list \<Rightarrow> string list cres option" where
  "names_from p s out = (case p of
     None \<Rightarrow> Some (Inr out)
   | Some a \<Rightarrow> (case feats s a of
         None \<Rightarrow> Some (Inl UseAfterFree)
       | Some n \<Rightarrow> names_from (ft_next n) s (out @ [fmt_s (ft_name n) @ tabs_c 3 @ fmt_s (ft_desc n) @ nl_c])))"

definition list_features :: "addr option \<Rightarrow> sts \<Rightarrow> string list cres option" where
  "list_features head s = names_from head s ['' List of Supported Features '' @ nl_c]"

text \<open>The loops of \<open>list_config\<close>, innermost first.\<close>

partial_function (option) list_cols_from :: "addr option \<Rightarrow> sts \<Rightarrow> string list \<Rightarrow> string list cres option" where
  "list_cols_from p s out = (case p of
     None \<Rightarrow> Some (Inr out)
   | Some a \<Rightarrow> (case cols s a of
         None \<Rightarrow> Some (Inl UseAfterFree)
       | Some n \<Rightarrow> list_cols_from (col_next n) s (out @ [fmt_s (col_name n) @ '','']) ))"

partial_function (option) list_tables_from :: "addr option \<Rightarrow> sts \<Rightarrow> string list \<Rightarrow> string list cres option" where
  "list_tables_from p s out = (case p of
     None \<Rightarrow> Some (Inr out)
   | Some a \<Rightarrow> (case tables s a of
         None \<Rightarrow> Some (Inl UseAfterFree)
       | Some n \<Rightarrow>
           (case list_cols_from (p_colmname n) s (out @ [nl_c @ tabs_c 2 @ fmt_s (tablename n) @ '':'' @ nl_c @ tabs_c 3]) of
              None \<Rightarrow> None
            | Some (Inl e) \<Rightarrow> Some (Inl e)
            | Some (Inr out1) \<Rightarrow> list_tables_from (tab_next n) s out1)))"

partial_function (option) list_clis_from :: "addr option \<Rightarrow> sts \<Rightarrow> string list \<Rightarrow> string list cres option" where
  "list_clis_from p s out = (case p of
     None \<Rightarrow> Some (Inr out)
   | Some a \<Rightarrow> (case clis s a of
         None \<Rightarrow> Some (Inl UseAfterFree)
       | Some n \<Rightarrow> list_clis_from (cli_next n) s (out @ [tabs_c 2 @ fmt_s (command n) @ nl_c])))"

partial_function (option) list_subs_from :: "addr option \<Rightarrow> sts \<Rightarrow> string list \<Rightarrow> string list cres option" where
  "list_subs_from p s out = (case p of
     None \<Rightarrow> Some (Inr out)
   | Some a \<Rightarrow> (case subs s a of
         None \<Rightarrow> Some (Inl UseAfterFree)
       | Some n \<Rightarrow>
           (case list_clis_from (p_clicmds n) s (out @ [nl_c @ ''Sub Feature '' @ nl_c,
                tabs_c 2 @ fmt_s (sub_name n) @ '':'' @ fmt_s (sub_desc n) @ '':'' @ flag_d (no_sta_support n) @ '':'' @
                  flag_d (support_stb n) @ nl_c,
                tabs_c 1 @ ''CLI Commands:'' @ nl_c]) of
              None \<Rightarrow> None
            | Some (Inl e) \<Rightarrow> Some (Inl e)
            | Some (Inr out1) \<Rightarrow>
                (case list_tables_from (p_ovstable n) s (out1 @ [nl_c @ nl_c @ tabs_c 1 @ ''OVS Tables:'' @ nl_c]) of
                   None \<Rightarrow> None
                 | Some (Inl e) \<Rightarrow> Some (Inl e)
                 | Some (Inr out2) \<Rightarrow> list_subs_from (sub_next n) s out2))))"

partial_function (option) list_config_from :: "addr option \<Rightarrow> sts \<Rightarrow> string list \<Rightarrow> string list cres option" where
  "list_config_from p s out = (case p of
     None \<Rightarrow> Some (Inr out)
   | Some a \<Rightarrow> (case feats s a of
         None \<Rightarrow> Some (Inl UseAfterFree)
       | Some n \<Rightarrow>
           (case list_subs_from (p_subfeature n) s
               (out @ [nl_c @ nl_c @ fmt_s (ft_name n) @ tabs_c 3 @ fmt_s (ft_desc n) @ nl_c]) of
              None \<Rightarrow> None
            | Some (Inl e) \<Rightarrow> Some (Inl e)
            | Some (Inr out1) \<Rightarrow> list_config_from (ft_next n) s out1)))"

definition list_config :: "addr option \<Rightarrow> sts \<Rightarrow> string list cres option" where
  "list_config head s = list_config_from head s ['' Show Tech Configuration '' @ nl_c]"

section \<open>What they print\<close>

definition name_line :: "config_spec \<Rightarrow> string" where
  "name_line f = fmt_s (cs_name f) @ tabs_c 3 @ fmt_s (cs_desc f) @ nl_c"

definition table_report :: "table_spec \<Rightarrow> string list" where
  "table_report t = (nl_c @ tabs_c 2 @ fmt_s (ts_name t) @ '':'' @ nl_c @ tabs_c 3) #
     map (\<lambda>c. fmt_s c @ '','') (ts_cols t)"

definition sub_report :: "sub_spec \<Rightarrow> string list" where
  "sub_report x = (case ss_info x of (name, desc, nosta, stb, dummy) \<Rightarrow>
     [nl_c @ ''Sub Feature '' @ nl_c,
      tabs_c 2 @ fmt_s name @ '':'' @ fmt_s desc @ '':'' @ flag_d nosta @ '':'' @ flag_d stb @ nl_c,
      tabs_c 1 @ ''CLI Commands:'' @ nl_c] @
     map (\<lambda>c. tabs_c 2 @ fmt_s c @ nl_c) (ss_cmds x) @
     [nl_c @ nl_c @ tabs_c 1 @ ''OVS Tables:'' @ nl_c] @ concat (map table_report (ss_tables x)))"

definition config_report :: "config_spec \<Rightarrow> string list" where
  "config_report f = (nl_c @ nl_c @ name_line f) # concat (map sub_report (cs_subs f))"

lemma lpath_ConsE:
  assumes "lpath nxt h p (a # as)"
  obtains n where "p = Some a" "h a = Some n" "lpath nxt h (nxt n) as"
  using assms by (auto split: option.splits)

lemma list_cols_path:
  "lpath col_next (cols s) p ks \<Longrightarrow>
     list_cols_from p s out = Some (Inr (out @ map (\<lambda>c. fmt_s c @ '','') (contents col_name (cols s) ks)))"
proof (induction ks arbitrary: p out)
  case Nil
  then show ?case by (subst list_cols_from.simps) simp
next
  case (Cons a ks)
  then obtain n where "p = Some a" "cols s a = Some n" "lpath col_next (cols s) (col_next n) ks" by (elim lpath_ConsE)
  with Cons.IH show ?case by (subst list_cols_from.simps) simp
qed

lemma list_clis_path:
  "lpath cli_next (clis s) p cs \<Longrightarrow>
     list_clis_from p s out = Some (Inr (out @ map (\<lambda>c. tabs_c 2 @ fmt_s c @ nl_c) (contents command (clis s) cs)))"
proof (induction cs arbitrary: p out)
  case Nil
  then show ?case by (subst list_clis_from.simps) simp
next
  case (Cons a cs)
  then obtain n where "p = Some a" "clis s a = Some n" "lpath cli_next (clis s) (cli_next n) cs" by (elim lpath_ConsE)
  with Cons.IH show ?case by (subst list_clis_from.simps) simp
qed

lemma list_tables_path:
  assumes "lpath tab_next (tables s) p (map fst ts)" "list_all2 (table_at s) ts xs"
  shows "list_tables_from p s out = Some (Inr (out @ concat (map table_report xs)))"
  using assms(2,1)
proof (induction ts xs arbitrary: p out rule: list_all2_induct)
  case Nil
  then show ?case by (subst list_tables_from.simps) simp
next
  case (Cons g ts x xs)
  obtain t ks where g: "g = (t, ks)" by (cases g)
  obtain n where n: "p = Some t" "tables s t = Some n" "lpath tab_next (tables s) (tab_next n) (map fst ts)"
    using Cons.prems g by (auto split: option.splits)
  then have x: "lpath col_next (cols s) (p_colmname n) ks" "tablename n = ts_name x" "contents col_name (cols s) ks = ts_cols x"
    using Cons.hyps(1) g by simp_all
  show ?case
    by (subst list_tables_from.simps) (simp add: n list_cols_path [OF x(1)] x(2,3) Cons.IH [OF n(3)] table_report_def [of x])
qed

lemma list_subs_path:
  assumes "lpath sub_next (subs s) p (map fst ss)" "list_all2 (sub_at s) ss xs"
  shows "list_subs_from p s out = Some (Inr (out @ concat (map sub_report xs)))"
  using assms(2,1)
proof (induction ss xs arbitrary: p out rule: list_all2_induct)
  case Nil
  then show ?case by (subst list_subs_from.simps) simp
next
  case (Cons g ss x xs)
  obtain b cs ts where g: "g = (b, cs, ts)" by (cases g)
  obtain n where n: "p = Some b" "subs s b = Some n" "lpath sub_next (subs s) (sub_next n) (map fst ss)"
    using Cons.prems g by (auto split: option.splits)
  then have x: "fst (sub_val n) = ss_info x" "lpath cli_next (clis s) (p_clicmds n) cs" "contents command (clis s) cs = ss_cmds x"
    "lpath tab_next (tables s) (p_ovstable n) (map fst ts)" "list_all2 (table_at s) ts (ss_tables x)"
    using Cons.hyps(1) g by simp_all
  have info: "ss_info x = (sub_name n, sub_desc n, no_sta_support n, support_stb n, is_dummy n)"
    using x(1) by (simp add: sub_val_def)
  show ?case
    by (subst list_subs_from.simps)
      (simp add: n list_clis_path [OF x(2)] x(3) list_tables_path [OF x(4,5)] Cons.IH [OF n(3)] sub_report_def [of x] info)
qed

lemma list_config_path:
  assumes "lpath ft_next (feats s) p (map fst gs)" "list_all2 (feat_at s) gs fs"
  shows "list_config_from p s out = Some (Inr (out @ concat (map config_report fs)))"
    and "names_from p s out = Some (Inr (out @ map name_line fs))"
  using assms(2,1)
proof (induction gs fs arbitrary: p out rule: list_all2_induct)
  case Nil
  {
    case 1
    then show ?case by (subst list_config_from.simps) simp
  next
    case 2
    then show ?case by (subst names_from.simps) simp
  }
next
  case (Cons g gs x xs)
  have node: "\<exists>n. q = Some (fst g) \<and> feats s (fst g) = Some n \<and> lpath ft_next (feats s) (ft_next n) (map fst gs)"
    if "lpath ft_next (feats s) q (map fst (g # gs))" for q
    using that by (auto split: option.splits)
  obtain a ss where g: "g = (a, ss)" by (cases g)
  {
    case 1
    with node obtain n where n: "p = Some a" "feats s a = Some n" "lpath ft_next (feats s) (ft_next n) (map fst gs)" using g by auto
    then have x: "ft_name n = cs_name x" "ft_desc n = cs_desc x" "lpath sub_next (subs s) (p_subfeature n) (map fst ss)"
      "list_all2 (sub_at s) ss (cs_subs x)" using Cons.hyps(1) g by simp_all
    show ?case
      by (subst list_config_from.simps)
        (simp add: n list_subs_path [OF x(3,4)] x(1,2) Cons.IH(1) [OF n(3)] config_report_def [of x] name_line_def)
  next
    case 2
    with node obtain n where n: "p = Some a" "feats s a = Some n" "lpath ft_next (feats s) (ft_next n) (map fst gs)" using g by auto
    then have x: "ft_name n = cs_name x" "ft_desc n = cs_desc x" using Cons.hyps(1) g by simp_all
    show ?case by (subst names_from.simps) (simp add: n x Cons.IH(2) [OF n(3)] name_line_def)
  }
qed

section \<open>Properties\<close>

text \<open>On a heap that represents a configuration both functions return, leave it as it is, and
  print it in the order of the tree.\<close>

theorem lists_print_tree:
  assumes "st_rep s gs fs"
  shows "list_config (st_head s) s = Some (Inr (('' Show Tech Configuration '' @ nl_c) # concat (map config_report fs)))"
    and "list_features (st_head s) s = Some (Inr (('' List of Supported Features '' @ nl_c) # map name_line fs))"
proof -
  have path: "lpath ft_next (feats s) (st_head s) (map fst gs)" "list_all2 (feat_at s) gs fs"
    using assms by (simp_all add: st_rep_def)
  show "list_config (st_head s) s = Some (Inr (('' Show Tech Configuration '' @ nl_c) # concat (map config_report fs)))"
    unfolding list_config_def list_config_path(1) [OF path] by simp
  show "list_features (st_head s) s = Some (Inr (('' List of Supported Features '' @ nl_c) # map name_line fs))"
    unfolding list_features_def list_config_path(2) [OF path] by simp
qed

text \<open>From the file to the print: what \<open>list_config\<close> prints after a complete file of well-formed
  features has been read is the content of the file.\<close>

theorem list_config_prints_file:
  assumes "fs \<noteq> []" "\<forall>f\<in>set fs. wf_config f" "empty_heap s" "\<forall>a. st_calloc env a" "st_yaml_init env"
    "st_file env (config_path c) = Some (ystream (concat (map config_scalars fs)))"
  shows "\<exists>p s'. get_showtech_config env c s = Some (Inr (p, s')) \<and>
    list_config p s' = Some (Inr (('' Show Tech Configuration '' @ nl_c) # concat (map config_report fs)))"
proof -
  obtain p s' gs where "get_showtech_config env c s = Some (Inr (p, s'))" "p = st_head s'" "st_rep s' gs fs"
    using config_roundtrip_run [OF assms] by blast
  with lists_print_tree(1) show ?thesis by blast
qed

theorem list_config_prints_file_witness:
  "\<exists>p s'. get_showtech_config (disk (ystream (concat (map config_scalars lldp_config))) (\<lambda>_. True)) None sts0 =
      Some (Inr (p, s')) \<and>
    list_config p s' = Some (Inr (('' Show Tech Configuration '' @ nl_c) # concat (map config_report lldp_config)))"
  by (rule list_config_prints_file [OF _ lldp_config_wf]) (use sts0_rep in \<open>auto simp: lldp_config_def\<close>)

end
