(* ===== verification/Feature_Walk.thy ===== *)
theory Feature_Walk
  imports Feature_Mapping
begin

text \<open>
  The loop over the features that \<open>diag-dump\<close>, \<open>show vlog\<close> and \<open>vlog\<close> share: the node with a
  name, and what it is in the list that the mapping stands for.
\<close>

partial_function (option) find_feature :: "string \<Rightarrow> addr option \<Rightarrow> fm \<Rightarrow> feature option cres option" where
  "find_feature name p h = (case p of
     None \<Rightarrow> Some (Inr None)
   | Some a \<Rightarrow> (case features h a of
         None \<Rightarrow> Some (Inl UseAfterFree)
       | Some n \<Rightarrow>
           (if strcmp_with_nullcheck (Some (f_name n)) (Some name) \<noteq> 0 then find_feature name (f_next n) h
            else Some (Inr (Some n)))))"

lemma find_feature_name:
  assumes "find_feature name p h = Some (Inr (Some n))"
  shows "f_name n = name"
proof -
  have "\<forall>n. r = Inr (Some n) \<longrightarrow> f_name n = name" if "find_feature name p h = Some r" for r
    using that
  proof (rule find_feature.raw_induct [where P = "\<lambda>name p h r. \<forall>n. r = Inr (Some n) \<longrightarrow> f_name n = name", rotated])
    fix walk name p h r
    assume ih: "\<And>name p h r. walk name p h = Some r \<Longrightarrow> \<forall>n. r = Inr (Some n) \<longrightarrow> f_name n = name"
      and step: "(case p of None \<Rightarrow> Some (Inr None)
        | Some a \<Rightarrow> (case features h a of None \<Rightarrow> Some (Inl UseAfterFree)
          | Some n \<Rightarrow> (if strcmp_with_nullcheck (Some (f_name n)) (Some name) \<noteq> 0 then walk name (f_next n) h
              else Some (Inr (Some n))))) = Some r"
    from step ih show "\<forall>n. r = Inr (Some n) \<longrightarrow> f_name n = name"
      by (auto split: option.splits if_splits)
  qed
  with assms show ?thesis by blast
qed

lemma find_feature_path:
  assumes "lpath f_next (features h) p (map fst gs)" "list_all2 (feature_at h) gs fs"
  shows "case find (\<lambda>f. fs_name f = name) fs of
      None \<Rightarrow> find_feature name p h = Some (Inr None)
    | Some f \<Rightarrow> \<exists>as n. find_feature name p h = Some (Inr (Some n)) \<and>
        lpath d_next (daemons h) (p_daemon n) as \<and> contents daemon_val (daemons h) as = fs_daemons f"
  using assms
proof (induction gs arbitrary: p fs)
  case Nil
  then show ?case by (simp add: find_feature.simps)
next
  case (Cons g gs)
  then obtain f fs' where fs: "fs = f # fs'" "feature_at h g f" "list_all2 (feature_at h) gs fs'" by (auto simp: list_all2_Cons1)
  from Cons.prems(1) obtain n where n: "p = Some (fst g)" "features h (fst g) = Some n"
    "lpath f_next (features h) (f_next n) (map fst gs)" by (auto split: option.splits)
  have at: "f_name n = fs_name f" "lpath d_next (daemons h) (p_daemon n) (snd g)"
    "contents daemon_val (daemons h) (snd g) = fs_daemons f"
    using fs(2) n(2) by (auto simp: feature_at_def feature_val_def)
  show ?case
  proof (cases "fs_name f = name")
    case True
    then have "find_feature name p h = Some (Inr (Some n))"
      using n at(1) by (subst find_feature.simps) simp
    with True fs(1) at(2,3) show ?thesis by auto
  next
    case False
    then have "find_feature name p h = find_feature name (f_next n) h"
      using n at(1) by (subst find_feature.simps) simp
    then show ?thesis using False fs(1) Cons.IH [OF n(3) fs(3)] by (simp only: find.simps if_False)
  qed
qed

lemma fm_rep_head: "fm_rep h gs fs \<Longrightarrow> feature_head h = None \<longleftrightarrow> fs = []"
  by (cases gs) (auto simp: fm_rep_def split: option.splits)

end
