(* ===== verification/Diag_Dump.thy ===== *)
theory Diag_Dump
  imports Feature_Walk Vtysh
begin

text \<open>
  \<open>src/src/cli/diag_dump_vty.c\<close>: \<open>diag-dump list\<close> and \<open>diag-dump FEATURE basic [FILE]\<close>. The
  second asks every daemon of the feature for its dump over its control socket and prints the
  answers, or writes them to a file below \<open>/tmp/ops-diag\<close>. It walks the feature mapping of
  \<open>Feature_Mapping\<close> on its heap. How the thread for one daemon ends, and whether the user had
  interrupted before and after it, are observations of the environment.
\<close>

section \<open>State and environment\<close>

text \<open>How \<open>vtysh_diag_dump_create_thread\<close> comes back. A thread that is cancelled may have
  printed and written a part of its output before.\<close>

datatype dd_thread =
    NotCreated
  | Ended bool                                        \<comment> \<open>\<open>gDiagDumpUserInterrupt && threadCancelled\<close> at the end\<close>
  | TimedOut "string list" "string list" nat          \<comment> \<open>printed, written, number of writes\<close>
  | Cancelled "string list" "string list" nat

datatype dir_stat = Is_Dir | Is_Reg | Is_Other | Stat_ENOENT | Stat_Error

record dd_env =
  dd_sig_ok :: "nat \<Rightarrow> bool"              \<comment> \<open>the i-th call of \<open>sigaction\<close> succeeds\<close>
  dd_fm :: fm_env
  dd_conn :: daemon_env
  dd_transact :: "string \<Rightarrow> string \<Rightarrow> string list \<Rightarrow> int \<times> string option \<times> string option"
    \<comment> \<open>\<open>unixctl_client_transact\<close>: its return value, \<open>cmd_result\<close>, \<open>cmd_error\<close>\<close>
  dd_threads :: "nat \<Rightarrow> dd_thread"
  dd_int_before :: "nat \<Rightarrow> bool"          \<comment> \<open>\<open>gDiagDumpUserInterrupt\<close>, before and after the i-th thread\<close>
  dd_int_after :: "nat \<Rightarrow> bool"
  dd_int_end :: bool                     \<comment> \<open>and from the label \<open>USER_INTERRUPT\<close> on\<close>
  dd_asctime :: "string option"          \<comment> \<open>the date as text, None: no time\<close>
  dd_stat :: dir_stat
  dd_unlink :: int
  dd_mkdir :: int
  dd_chmod :: int
  dd_open :: "string \<Rightarrow> string option"   \<comment> \<open>None: opened; Some: the text of the error\<close>
  dd_write_ok :: "nat \<Rightarrow> bool"            \<comment> \<open>the n-th write succeeds\<close>
  dd_write_err :: string
  dd_nl :: string

text \<open>\<open>asked\<close> are the daemons for which a thread was requested, \<open>dsigs\<close> the signals with the
  handlers of diag-dump.\<close>

record dd_run =
  dheap :: fm
  console :: "string list"
  written :: "string list"
  nwrites :: nat
  asked :: "string list"
  dsigs :: "sig set"

abbreviation MAX_TIME_STR_LEN :: nat where "MAX_TIME_STR_LEN \<equiv> 256"
abbreviation FILE_PATH_LEN_MAX :: nat where "FILE_PATH_LEN_MAX \<equiv> 256"
abbreviation MAX_STR_BUFF_LEN :: nat where "MAX_STR_BUFF_LEN \<equiv> 512"

definition DIAG_DUMP_DIR :: string where "DIAG_DUMP_DIR = ''/tmp/ops-diag''"
definition DIAG_BASIC :: string where "DIAG_BASIC = ''basic''"

definition file_char :: "char list" where
  "file_char = char_range CHR ''A'' CHR ''Z'' @ char_range CHR ''a'' CHR ''z'' @ char_range CHR ''0'' CHR ''9'' @ ''_.-''"

definition DIAG_FILE_NAME_REGEX :: ere where
  "DIAG_FILE_NAME_REGEX = \<lparr>ere_bol = True, ere_body = Rep (Cls file_char) 1 50, ere_eol = True\<rparr>"

definition dd_equal :: string where "dd_equal = replicate 73 (CHR ''='')"
definition dd_hyphen :: string where "dd_hyphen = replicate 73 (CHR ''-'')"

definition ERR_STR :: string where
  "ERR_STR = ''Feature to daemon mapping failed. Unable to retrieve the daemon name.''"

definition say :: "string list \<Rightarrow> dd_run \<Rightarrow> dd_run" where
  "say ts s = s\<lparr>console := console s @ ts\<rparr>"

section \<open>The list\<close>

definition list_line :: "dd_env \<Rightarrow> string \<Rightarrow> string \<Rightarrow> string" where
  "list_line env a b = column 40 a @ '' '' @ column 100 b @ '' '' @ dd_nl env"

partial_function (option) list_diag_features :: "dd_env \<Rightarrow> addr option \<Rightarrow> dd_run \<Rightarrow> dd_run cres option" where
  "list_diag_features env p s = (case p of
     None \<Rightarrow> Some (Inr s)
   | Some a \<Rightarrow> (case features (dheap s) a of
         None \<Rightarrow> Some (Inl UseAfterFree)
       | Some n \<Rightarrow>
           (if f_diag_flag n = DISABLE then list_diag_features env (f_next n) s
            else list_diag_features env (f_next n)
              (say [list_line env (f_name n) (case f_desc n of None \<Rightarrow> ''NULL'' | Some d \<Rightarrow> d)] s))))"

definition vtysh_diag_list_features :: "dd_env \<Rightarrow> addr option \<Rightarrow> dd_run \<Rightarrow> dd_run cres option" where
  "vtysh_diag_list_features env head s = list_diag_features env head
     (say [''Diagnostic Dump Supported Features List'' @ dd_nl env, dd_hyphen @ dd_nl env,
        list_line env ''Feature'' ''Description'', dd_hyphen @ dd_nl env] s)"

definition vtysh_diag_dump_list_show :: "dd_env \<Rightarrow> dd_run \<Rightarrow> (cmd_ret \<times> dd_run) cres option" where
  "vtysh_diag_dump_list_show env s =
     and_then (Some (get_feature_mapping (dd_fm env) (dheap s))) (\<lambda>(head, h).
       if head = None then Some (Inr (CMD_WARNING, say [ERR_STR @ dd_nl env] (s\<lparr>dheap := h\<rparr>)))
       else and_then (vtysh_diag_list_features env head (s\<lparr>dheap := h\<rparr>)) (\<lambda>s1. Some (Inr (CMD_SUCCESS, s1))))"

section \<open>Directory and time\<close>

definition make_dir :: "dd_env \<Rightarrow> int" where
  "make_dir env = (if dd_mkdir env = 0 then dd_chmod env else dd_mkdir env)"

definition vtysh_diag_check_crete_dir :: "dd_env \<Rightarrow> int" where
  "vtysh_diag_check_crete_dir env = (case dd_stat env of
     Is_Dir \<Rightarrow> 0
   | Is_Reg \<Rightarrow> if dd_unlink env \<noteq> 0 then 1 else make_dir env
   | Is_Other \<Rightarrow> 1
   | Stat_ENOENT \<Rightarrow> make_dir env
   | Stat_Error \<Rightarrow> - 1)"

text \<open>\<open>vty_diag_print_time\<close> and what its caller makes of a failure.\<close>

definition vty_diag_print_time :: "dd_env \<Rightarrow> string" where
  "vty_diag_print_time env = (case dd_asctime env of
     None \<Rightarrow> []
   | Some t \<Rightarrow> take (MAX_TIME_STR_LEN - 1) (''Time : '' @ t))"

section \<open>One daemon\<close>

definition write_failed :: string where
  "write_failed = ''Failed to write diagnostic dump into file due to reason : ''"

text \<open>The write macro on a list of texts: it stops at the first write that fails.\<close>

fun write_texts :: "dd_env \<Rightarrow> string list \<Rightarrow> dd_run \<Rightarrow> bool \<times> dd_run" where
  "write_texts env [] s = (True, s)"
| "write_texts env (t # ts) s =
     (if dd_write_ok env (nwrites s)
      then write_texts env ts (s\<lparr>written := written s @ [t], nwrites := nwrites s + 1\<rparr>)
      else (False, say [write_failed @ dd_write_err env @ dd_nl env] (s\<lparr>nwrites := nwrites s + 1\<rparr>)))"

text \<open>\<open>snprintf(write_buff, sizeof(write_buff), ...)\<close>.\<close>

definition buff :: "string \<Rightarrow> string" where
  "buff t = take (MAX_STR_BUFF_LEN - 1) t"

definition lf :: string where "lf = [CHR 0x0A]"

definition daemon_texts :: "string \<Rightarrow> string \<Rightarrow> string list" where
  "daemon_texts daemon result = [buff (dd_hyphen @ lf), buff (''[Start] Daemon '' @ daemon @ lf), buff (dd_hyphen @ lf),
     result, lf, buff (dd_hyphen @ lf), buff (''[End] Daemon '' @ daemon @ lf), buff (dd_hyphen @ lf)]"

definition daemon_console :: "dd_env \<Rightarrow> string \<Rightarrow> string \<Rightarrow> string list" where
  "daemon_console env daemon result =
     [dd_hyphen @ dd_nl env, ''[Start] Daemon '' @ daemon @ '' '' @ dd_nl env, dd_hyphen @ dd_nl env,
      result @ '' '' @ dd_nl env,
      dd_hyphen @ dd_nl env, ''[End] Daemon '' @ daemon @ '' '' @ dd_nl env, dd_hyphen @ dd_nl env]"

definition vtysh_diag_dump_daemon ::
    "dd_env \<Rightarrow> string \<Rightarrow> string list \<Rightarrow> bool \<Rightarrow> dd_run \<Rightarrow> cmd_ret \<times> dd_run" where
  "vtysh_diag_dump_daemon env daemon cmd_type fd s =
     (case connect_to_daemon (dd_conn env) (Some daemon) of
        None \<Rightarrow> (CMD_WARNING, say [''failed to connect daemon '' @ daemon @ '' '' @ dd_nl env] s)
      | Some client \<Rightarrow>
          (let basic = (strcmp_with_nullcheck (Some (hd cmd_type)) (Some DIAG_BASIC) = 0);
               (rc, cmd_result, cmd_error) =
                 dd_transact env client (if basic then ''dumpdiagbasic'' else ''dumpdiagadvanced'') cmd_type
           in if rc \<noteq> 0 then (CMD_WARNING, s)
              else
                (let (ok, s1) =
                   (case cmd_result of
                      None \<Rightarrow> (True, s)
                    | Some r \<Rightarrow>
                        if \<not> fd \<and> basic then (True, say (daemon_console env daemon r) s)
                        else if fd \<and> basic
                        then write_texts env (daemon_texts daemon r) s
                        else (True, s))
                 in if \<not> ok \<or> cmd_error \<noteq> None then (CMD_WARNING, s1) else (CMD_SUCCESS, s1))))"

definition partly :: "string list \<Rightarrow> string list \<Rightarrow> nat \<Rightarrow> dd_run \<Rightarrow> dd_run" where
  "partly out file n s = s\<lparr>console := console s @ out, written := written s @ file, nwrites := nwrites s + n\<rparr>"

definition vtysh_diag_dump_create_thread ::
    "dd_env \<Rightarrow> string \<Rightarrow> string list \<Rightarrow> bool \<Rightarrow> dd_run \<Rightarrow> bool \<times> dd_run" where
  "vtysh_diag_dump_create_thread env daemon cmd_type fd s =
     (let i = length (asked s); s0 = s\<lparr>asked := asked s @ [daemon]\<rparr> in
      case dd_threads env i of
        NotCreated \<Rightarrow> (False, s0)
      | Ended interrupted \<Rightarrow>
          (let (rc, s1) = vtysh_diag_dump_daemon env daemon cmd_type fd s0
           in (rc = CMD_SUCCESS \<and> \<not> interrupted, s1))
      | TimedOut out file n \<Rightarrow>
          (False, say [dd_hyphen @ dd_nl env, ''Deamon '' @ daemon @ '' Timed Out '' @ dd_nl env, dd_hyphen @ dd_nl env]
             (partly out file n s0))
      | Cancelled out file n \<Rightarrow>
          (False, say [dd_hyphen @ dd_nl env, ''Daemon '' @ daemon @ '' terminated due to user interrupt '' @ dd_nl env,
             dd_hyphen @ dd_nl env] (partly out file n s0)))"

section \<open>One feature\<close>

text \<open>The loop over the daemons. The result says whether it was left for \<open>USER_INTERRUPT\<close>, and
  holds \<open>daemon_count\<close> and \<open>daemon_resp\<close>.\<close>

partial_function (option) dump_daemons ::
    "dd_env \<Rightarrow> string list \<Rightarrow> bool \<Rightarrow> addr option \<Rightarrow> nat \<Rightarrow> nat \<Rightarrow> dd_run \<Rightarrow> (bool \<times> nat \<times> nat \<times> dd_run) cres option" where
  "dump_daemons env cmd_type fd p count resp s = (case p of
     None \<Rightarrow> Some (Inr (False, count, resp, s))
   | Some a \<Rightarrow> (case daemons (dheap s) a of
         None \<Rightarrow> Some (Inl UseAfterFree)
       | Some n \<Rightarrow>
           (if d_diag_flag n = DISABLE then dump_daemons env cmd_type fd (d_next n) count resp s
            else if dd_int_before env (length (asked s)) then Some (Inr (True, count + 1, resp, s))
            else
              (case vtysh_diag_dump_create_thread env (d_name n) cmd_type fd s of (ok, s1) \<Rightarrow>
                 (if dd_int_after env (length (asked s)) then Some (Inr (True, count + 1, if ok then resp + 1 else resp, s1))
                  else dump_daemons env cmd_type fd (d_next n) (count + 1) (if ok then resp + 1 else resp) s1)))))"

section \<open>The command\<close>

text \<open>The label \<open>EXIT_FUN\<close>.\<close>

fun dd_restore :: "dd_env \<Rightarrow> nat \<Rightarrow> sig list \<Rightarrow> cmd_ret \<Rightarrow> dd_run \<Rightarrow> ending \<times> dd_run" where
  "dd_restore env k [] rc s = (Returned rc, s)"
| "dd_restore env k (g # gs) rc s =
     (if dd_sig_ok env k then dd_restore env (k + 1) gs rc (s\<lparr>dsigs := dsigs s - {g}\<rparr>) else (Exited, s))"

definition dd_exit :: "dd_env \<Rightarrow> string \<Rightarrow> string option \<Rightarrow> cmd_ret \<Rightarrow> dd_run \<Rightarrow> ending \<times> dd_run" where
  "dd_exit env name file_path rc s =
     (case dd_restore env 3 [SIGINT, SIGTSTP, SIGALRM] rc s of
        (Exited, s1) \<Rightarrow> (Exited, s1)
      | (Returned rc1, s1) \<Rightarrow>
          (case file_path of
             Some path \<Rightarrow>
               if rc1 = CMD_SUCCESS
               then (Returned rc1, say [name @ '' diagnostic-dump is collected at '' @ path @ '' '' @ dd_nl env] s1)
               else (Returned rc1, s1)
           | None \<Rightarrow> (Returned rc1, s1)))"

text \<open>The label \<open>USER_INTERRUPT\<close>: a write that fails there jumps back to it.\<close>

partial_function (option) dd_user_interrupt :: "dd_env \<Rightarrow> bool \<Rightarrow> cmd_ret \<Rightarrow> dd_run \<Rightarrow> (cmd_ret \<times> dd_run) option" where
  "dd_user_interrupt env fd rc s =
     (if fd \<and> dd_int_end env
      then (case write_texts env
              [buff (dd_equal @ lf), buff (''USER INTERRUPT:Diag dump terminated'' @ lf), buff (dd_equal @ lf)] s of
              (ok, s1) \<Rightarrow> (if ok then Some (rc, s1) else dd_user_interrupt env fd CMD_WARNING s1))
      else Some (rc, s))"

definition dd_finish :: "dd_env \<Rightarrow> string \<Rightarrow> string option \<Rightarrow> cmd_ret \<Rightarrow> dd_run \<Rightarrow> (ending \<times> dd_run) cres option" where
  "dd_finish env name file_path rc s = (case dd_user_interrupt env (file_path \<noteq> None) rc s of
     None \<Rightarrow> None
   | Some (rc1, s1) \<Rightarrow>
       Some (Inr (dd_exit env name file_path rc1
         (if dd_int_end env then say [''USER INTERRUPT:Diag dump terminated'' @ dd_nl env] s1 else s1))))"

text \<open>The lines around the daemons, on the file or on the console.\<close>

definition frame :: "dd_env \<Rightarrow> string option \<Rightarrow> string \<Rightarrow> string \<Rightarrow> dd_run \<Rightarrow> bool \<times> dd_run" where
  "frame env file_path for_file for_console s = (case file_path of
     Some _ \<Rightarrow> write_texts env [buff (dd_equal @ lf), buff for_file, buff (dd_equal @ lf)] s
   | None \<Rightarrow> (True, say [dd_equal @ dd_nl env, for_console @ dd_nl env, dd_equal @ dd_nl env] s))"

definition dd_summary :: "dd_env \<Rightarrow> string \<Rightarrow> nat \<Rightarrow> nat \<Rightarrow> string" where
  "dd_summary env name count resp =
     (if count = resp then ''Diagnostic dump captured for feature '' @ name @ '' '' @ dd_nl env
      else ''Diagnostic dump '' @ name @ '' feature failed for '' @ show_nat (count - resp) @ '' '' @
        (if 1 < count - resp then ''daemons'' else ''daemon'') @ '' '' @ dd_nl env)"

definition dump_feature ::
    "dd_env \<Rightarrow> string \<Rightarrow> string option \<Rightarrow> feature \<Rightarrow> dd_run \<Rightarrow> (ending \<times> dd_run) cres option" where
  "dump_feature env name file_path n s =
     (let time_str = vty_diag_print_time env in
      case frame env file_path (''[Start] Feature '' @ name @ '' '' @ time_str)
             (''[Start] Feature '' @ name @ '' '' @ time_str @ '' '') s of (ok, s1) \<Rightarrow>
        (if \<not> ok then dd_finish env name file_path CMD_WARNING s1
         else and_then (dump_daemons env [DIAG_BASIC, name] (file_path \<noteq> None) (p_daemon n) 0 0 s1)
           (\<lambda>(interrupted, count, resp, s2).
              if interrupted then dd_finish env name file_path CMD_SUCCESS s2
              else (case frame env file_path (''[End] Feature '' @ name @ lf) (''[End] Feature '' @ name @ '' '') s2 of (ok, s3) \<Rightarrow>
                (if \<not> ok then dd_finish env name file_path CMD_WARNING s3
                 else dd_finish env name file_path CMD_SUCCESS (say [dd_summary env name count resp] s3))))))"

text \<open>From the point where the handlers are in place. \<open>open\<close> is called without a mode.\<close>

definition diag_dump_body ::
    "dd_env \<Rightarrow> string \<Rightarrow> string option option \<Rightarrow> dd_run \<Rightarrow> (ending \<times> dd_run) cres option" where
  "diag_dump_body env name file s0 =
     and_then (Some (get_feature_mapping (dd_fm env) (dheap s0))) (\<lambda>(head, h).
       (let s = s0\<lparr>dheap := h\<rparr>;
            stop = (\<lambda>msg. Some (Inr (dd_exit env name None CMD_WARNING (say [msg @ dd_nl env] s)))) in
        if head = None then stop ERR_STR
        else and_then (find_feature name head h) (\<lambda>iter. case iter of
            None \<Rightarrow> stop (name @ '' feature is not present '')
          | Some n \<Rightarrow>
             (case file of
                None \<Rightarrow> dump_feature env name None n s
              | Some arg1 \<Rightarrow>
                  if validate_cli_args arg1 (Some DIAG_FILE_NAME_REGEX) \<noteq> 0
                  then stop (''Failed to validate destination file name:'' @ fmt_s arg1)
                  else if vtysh_diag_check_crete_dir env \<noteq> 0
                  then stop (''failed to check or create dir:'' @ DIAG_DUMP_DIR)
                  else
                    (let file_path = take (FILE_PATH_LEN_MAX - 1) (DIAG_DUMP_DIR @ ''/'' @ fmt_s arg1) in
                     case dd_open env file_path of
                       Some err \<Rightarrow> stop (''failed to open file error:'' @ err @ '' file:'' @ file_path)
                     | None \<Rightarrow> dump_feature env name (Some file_path) n s)))))"

definition dd_init_failed :: "dd_env \<Rightarrow> nat \<Rightarrow> sig list \<Rightarrow> dd_run \<Rightarrow> ending \<times> dd_run" where
  "dd_init_failed env k gs s = dd_restore env k gs CMD_WARNING (say [''diag dump init failed '' @ dd_nl env] s)"

definition set_handler :: "sig \<Rightarrow> dd_run \<Rightarrow> dd_run" where
  "set_handler g s = s\<lparr>dsigs := insert g (dsigs s)\<rparr>"

text \<open>\<open>argv[0]\<close> is the feature, \<open>argv[1]\<close> the file when \<open>argc >= 2\<close>.\<close>

definition vtysh_diag_dump_show ::
    "dd_env \<Rightarrow> string \<Rightarrow> string option option \<Rightarrow> dd_run \<Rightarrow> (ending \<times> dd_run) cres option" where
  "vtysh_diag_dump_show env name file s =
     (if \<not> dd_sig_ok env 0 then Some (Inr (dd_init_failed env 1 [] s))
      else if \<not> dd_sig_ok env 1 then Some (Inr (dd_init_failed env 2 [SIGINT] (set_handler SIGINT s)))
      else if \<not> dd_sig_ok env 2
        then Some (Inr (dd_init_failed env 3 [SIGINT, SIGALRM] (set_handler SIGALRM (set_handler SIGINT s))))
      else diag_dump_body env name file (set_handler SIGTSTP (set_handler SIGALRM (set_handler SIGINT s))))"

end
