(* ===== verification/Diag_Dump_Run.thy ===== *)
theory Diag_Dump_Run
  imports Diag_Dump
begin

text \<open>
  The diag-dump commands on a loaded feature mapping: the loops over the heap as functions on
  the list of features that the heap represents, and what follows for the commands.
\<close>

section \<open>Loops over the mapping\<close>

fun dump_list ::
    "dd_env \<Rightarrow> string list \<Rightarrow> bool \<Rightarrow> (string \<times> diag_enable) list \<Rightarrow> nat \<Rightarrow> nat \<Rightarrow> dd_run \<Rightarrow> bool \<times> nat \<times> nat \<times> dd_run" where
  "dump_list env cmd_type fd [] count resp s = (False, count, resp, s)"
| "dump_list env cmd_type fd ((d, flag) # ds) count resp s =
     (if flag = DISABLE then dump_list env cmd_type fd ds count resp s
      else if dd_int_before env (length (asked s)) then (True, count + 1, resp, s)
      else
        (case vtysh_diag_dump_create_thread env d cmd_type fd s of (ok, s1) \<Rightarrow>
           (if dd_int_after env (length (asked s)) then (True, count + 1, if ok then resp + 1 else resp, s1)
            else dump_list env cmd_type fd ds (count + 1) (if ok then resp + 1 else resp) s1)))"

lemma say_fields [simp]: "dheap (say ts s) = dheap s" "written (say ts s) = written s" "nwrites (say ts s) = nwrites s"
  "asked (say ts s) = asked s" "dsigs (say ts s) = dsigs s" "console (say ts s) = console s @ ts"
  by (simp_all add: say_def)

lemma partly_fields [simp]: "dheap (partly u v n s) = dheap s" "asked (partly u v n s) = asked s" "dsigs (partly u v n s) = dsigs s"
  by (simp_all add: partly_def)

lemma write_texts_fields:
  "write_texts env ts s = (ok, s') \<Longrightarrow> dheap s' = dheap s \<and> asked s' = asked s \<and> dsigs s' = dsigs s"
  by (induction env ts s rule: write_texts.induct) (auto split: if_splits)

lemma daemon_fields:
  "vtysh_diag_dump_daemon env d ct fd s = (rc, s') \<Longrightarrow> dheap s' = dheap s \<and> asked s' = asked s \<and> dsigs s' = dsigs s"
  by (auto simp: vtysh_diag_dump_daemon_def Let_def split: option.splits prod.splits if_splits dest: write_texts_fields)

lemma thread_fields:
  assumes "vtysh_diag_dump_create_thread env d ct fd s = (ok, s')"
  shows "dheap s' = dheap s \<and> asked s' = asked s @ [d] \<and> dsigs s' = dsigs s"
proof (cases "dd_threads env (length (asked s))")
  case (Ended b)
  obtain rc s1 where r: "vtysh_diag_dump_daemon env d ct fd (s\<lparr>asked := asked s @ [d]\<rparr>) = (rc, s1)"
    by (cases "vtysh_diag_dump_daemon env d ct fd (s\<lparr>asked := asked s @ [d]\<rparr>)")
  with assms Ended have "s' = s1" by (simp add: vtysh_diag_dump_create_thread_def Let_def)
  with daemon_fields [OF r] show ?thesis by simp
qed (use assms in \<open>auto simp: vtysh_diag_dump_create_thread_def Let_def\<close>)

lemma dump_daemons_path:
  assumes "lpath d_next (daemons (dheap s)) p as" "contents daemon_val (daemons (dheap s)) as = ds"
  shows "dump_daemons env ct fd p count resp s = Some (Inr (dump_list env ct fd ds count resp s))"
  using assms
proof (induction as arbitrary: p ds count resp s)
  case Nil
  then show ?case by (simp add: dump_daemons.simps)
next
  case (Cons a as)
  from Cons.prems(1) obtain n where n: "p = Some a" "daemons (dheap s) a = Some n"
    "lpath d_next (daemons (dheap s)) (d_next n) as" by (auto split: option.splits)
  define ds' where "ds' = contents daemon_val (daemons (dheap s)) as"
  then have ds: "ds = (d_name n, d_diag_flag n) # ds'" "contents daemon_val (daemons (dheap s)) as = ds'"
    using Cons.prems(2) n(2) by (simp_all add: daemon_val_def [of n] flip: Cons.prems(2))
  obtain ok s1 where t: "vtysh_diag_dump_create_thread env (d_name n) ct fd s = (ok, s1)"
    by (cases "vtysh_diag_dump_create_thread env (d_name n) ct fd s")
  have "dheap s1 = dheap s" using thread_fields [OF t] by simp
  with Cons.IH [of s "d_next n" ds'] Cons.IH [of s1 "d_next n" ds'] n ds t show ?case
    by (subst dump_daemons.simps) simp
qed

section \<open>What a list of daemons does\<close>

definition enabled :: "(string \<times> diag_enable) list \<Rightarrow> string list" where
  "enabled ds = map fst (filter (\<lambda>(d, flag). flag = ENABLE) ds)"

lemma enabled_simps [simp]:
  "enabled [] = []" "enabled ((d, flag) # ds) = (if flag = DISABLE then enabled ds else d # enabled ds)"
  by (cases flag; simp add: enabled_def)+

lemma dump_list_fields:
  "dump_list env ct fd ds count resp s = (stop, c, r, s') \<Longrightarrow>
     dheap s' = dheap s \<and> dsigs s' = dsigs s \<and> (\<exists>k. asked s' = asked s @ take k (enabled ds))"
proof (induction ds arbitrary: count resp s)
  case Nil
  then show ?case by (auto intro: exI [of _ 0])
next
  case (Cons x ds)
  obtain d flag where x: "x = (d, flag)" by (cases x)
  show ?case
  proof (cases "flag = DISABLE \<or> dd_int_before env (length (asked s))")
    case True
    with Cons x show ?thesis by (auto split: if_splits intro: exI [of _ 0])
  next
    case False
    obtain ok s1 where t: "vtysh_diag_dump_create_thread env d ct fd s = (ok, s1)"
      by (cases "vtysh_diag_dump_create_thread env d ct fd s")
    note f = thread_fields [OF t]
    show ?thesis
    proof (cases "dd_int_after env (length (asked s))")
      case True
      with Cons.prems False x t f show ?thesis by (auto intro!: exI [of _ 1])
    next
      case nostop: False
      then have "dump_list env ct fd ds (count + 1) (if ok then resp + 1 else resp) s1 = (stop, c, r, s')"
        using Cons.prems False x t by simp
      from Cons.IH [OF this] obtain k where "dheap s' = dheap s1" "dsigs s' = dsigs s1" "asked s' = asked s1 @ take k (enabled ds)"
        by blast
      with f False x show ?thesis by (intro conjI exI [of _ "Suc k"]) simp_all
    qed
  qed
qed

text \<open>What one daemon answers, apart from where it goes: whether it counts as a response and the
  text of the dump.\<close>

definition daemon_answer :: "dd_env \<Rightarrow> string \<Rightarrow> string \<Rightarrow> (bool \<times> string option) option" where
  "daemon_answer env name d = (case connect_to_daemon (dd_conn env) (Some d) of
     None \<Rightarrow> None
   | Some client \<Rightarrow> (case dd_transact env client ''dumpdiagbasic'' [DIAG_BASIC, name] of (rc, result, err) \<Rightarrow>
       (if rc \<noteq> 0 then Some (False, None) else Some (err = None, result))))"

definition responds :: "dd_env \<Rightarrow> string \<Rightarrow> string \<Rightarrow> bool" where
  "responds env name d \<longleftrightarrow> (\<exists>t. daemon_answer env name d = Some (True, t))"

definition console_of :: "dd_env \<Rightarrow> string \<Rightarrow> string \<Rightarrow> string list" where
  "console_of env name d = (case daemon_answer env name d of
     None \<Rightarrow> [''failed to connect daemon '' @ d @ '' '' @ dd_nl env]
   | Some (_, None) \<Rightarrow> []
   | Some (_, Some t) \<Rightarrow> daemon_console env d t)"

definition file_of :: "dd_env \<Rightarrow> string \<Rightarrow> string \<Rightarrow> string list" where
  "file_of env name d = (case daemon_answer env name d of
     Some (_, Some t) \<Rightarrow> daemon_texts d t
   | _ \<Rightarrow> [])"

definition not_connected :: "dd_env \<Rightarrow> string \<Rightarrow> string \<Rightarrow> string list" where
  "not_connected env name d =
     (if daemon_answer env name d = None then [''failed to connect daemon '' @ d @ '' '' @ dd_nl env] else [])"

lemma daemon_on_console:
  "vtysh_diag_dump_daemon env d [DIAG_BASIC, name] False s =
     (if responds env name d then CMD_SUCCESS else CMD_WARNING, say (console_of env name d) s)"
  by (auto simp: vtysh_diag_dump_daemon_def daemon_answer_def responds_def console_of_def say_def Let_def
      split: option.splits prod.splits)

lemma write_texts_ok:
  "\<forall>n. dd_write_ok env n \<Longrightarrow> write_texts env ts s = (True, s\<lparr>written := written s @ ts, nwrites := nwrites s + length ts\<rparr>)"
  by (induction ts arbitrary: s) simp_all

lemma daemon_on_file:
  assumes "\<forall>n. dd_write_ok env n"
  shows "vtysh_diag_dump_daemon env d [DIAG_BASIC, name] True s =
     (if responds env name d then CMD_SUCCESS else CMD_WARNING,
      say (not_connected env name d)
        (s\<lparr>written := written s @ file_of env name d, nwrites := nwrites s + length (file_of env name d)\<rparr>))"
proof (cases "connect_to_daemon (dd_conn env) (Some d)")
  case None
  then show ?thesis
    by (simp add: vtysh_diag_dump_daemon_def daemon_answer_def responds_def file_of_def not_connected_def say_def)
next
  case (Some client)
  obtain rc res err where t: "dd_transact env client ''dumpdiagbasic'' [DIAG_BASIC, name] = (rc, res, err)"
    by (cases "dd_transact env client ''dumpdiagbasic'' [DIAG_BASIC, name]")
  have b: "(strcmp_with_nullcheck (Some (hd [DIAG_BASIC, name])) (Some DIAG_BASIC) = 0) = True" by simp
  have run: "vtysh_diag_dump_daemon env d [DIAG_BASIC, name] True s =
      (if rc \<noteq> 0 then (CMD_WARNING, s)
       else (case (case res of None \<Rightarrow> (True, s) | Some r \<Rightarrow> write_texts env (daemon_texts d r) s) of
          (ok, s1) \<Rightarrow> if \<not> ok \<or> err \<noteq> None then (CMD_WARNING, s1) else (CMD_SUCCESS, s1)))"
    unfolding vtysh_diag_dump_daemon_def Some option.case b Let_def if_True t prod.case
    by (simp split: option.split)
  have ans: "daemon_answer env name d = Some (if rc \<noteq> 0 then (False, None) else (err = None, res))"
    unfolding daemon_answer_def Some option.case t prod.case by simp
  show ?thesis
    unfolding run responds_def file_of_def not_connected_def ans
    by (cases "rc = 0"; cases res; cases err) (simp_all add: write_texts_ok [OF assms] say_def)
qed

text \<open>A run in which every thread ends by itself and nobody interrupts.\<close>

definition undisturbed :: "dd_env \<Rightarrow> bool" where
  "undisturbed env \<longleftrightarrow> (\<forall>i. dd_sig_ok env i \<and> \<not> dd_int_before env i \<and> \<not> dd_int_after env i \<and> dd_threads env i = Ended False) \<and>
     \<not> dd_int_end env"

definition dumped :: "dd_env \<Rightarrow> string \<Rightarrow> bool \<Rightarrow> string list \<Rightarrow> dd_run \<Rightarrow> dd_run" where
  "dumped env name fd ds s = s\<lparr>asked := asked s @ ds,
     console := console s @ concat (map (if fd then not_connected env name else console_of env name) ds),
     written := written s @ (if fd then concat (map (file_of env name) ds) else []),
     nwrites := nwrites s + (if fd then length (concat (map (file_of env name) ds)) else 0)\<rparr>"

lemma dump_list_undisturbed:
  assumes "undisturbed env" "fd \<longrightarrow> (\<forall>n. dd_write_ok env n)"
  shows "dump_list env [DIAG_BASIC, name] fd ds count resp s =
     (False, count + length (enabled ds), resp + length (filter (responds env name) (enabled ds)),
      dumped env name fd (enabled ds) s)"
proof (induction ds arbitrary: count resp s)
  case Nil
  then show ?case by (simp add: dumped_def)
next
  case (Cons x ds)
  obtain d flag where x: "x = (d, flag)" by (cases x)
  let ?s = "s\<lparr>asked := asked s @ [d]\<rparr>"
  have th: "dd_threads env i = Ended False" for i using assms(1) by (simp add: undisturbed_def)
  have dump: "vtysh_diag_dump_daemon env d [DIAG_BASIC, name] fd ?s =
      (if responds env name d then CMD_SUCCESS else CMD_WARNING, dumped env name fd [d] s)"
  proof (cases fd)
    case True
    with assms(2) have "\<forall>n. dd_write_ok env n" by simp
    then have "vtysh_diag_dump_daemon env d [DIAG_BASIC, name] True ?s =
        (if responds env name d then CMD_SUCCESS else CMD_WARNING, say (not_connected env name d)
          (?s\<lparr>written := written ?s @ file_of env name d, nwrites := nwrites ?s + length (file_of env name d)\<rparr>))"
      by (rule daemon_on_file)
    with True show ?thesis by (simp add: dumped_def say_def)
  next
    case False
    then show ?thesis by (simp only: daemon_on_console) (simp add: dumped_def say_def)
  qed
  have run: "vtysh_diag_dump_create_thread env d [DIAG_BASIC, name] fd s = (responds env name d, dumped env name fd [d] s)"
    unfolding vtysh_diag_dump_create_thread_def Let_def th dump dd_thread.case prod.case by simp
  have step: "dumped env name fd (d # es) s = dumped env name fd es (dumped env name fd [d] s)" for es
    by (simp add: dumped_def)
  show ?case using assms(1) run Cons.IH step [of "enabled ds"] by (simp add: x undisturbed_def)
qed

section \<open>Ends\<close>

definition all_sigs :: "sig set" where "all_sigs = {SIGINT, SIGTSTP, SIGALRM}"

lemma dd_restore_ok:
  "dd_restore env k gs rc s = (e, s') \<Longrightarrow> dheap s' = dheap s \<and> asked s' = asked s \<and>
     (e = Exited \<or> e = Returned rc \<and> dsigs s' = dsigs s - set gs)"
  by (induction env k gs rc s rule: dd_restore.induct) (auto split: if_splits)

lemma dd_restore_all:
  "\<forall>i. dd_sig_ok env i \<Longrightarrow> dd_restore env k gs rc s = (Returned rc, s\<lparr>dsigs := dsigs s - set gs\<rparr>)"
  by (induction gs arbitrary: k s) (simp_all add: Diff_insert2 [symmetric])

lemma dd_exit_ok:
  assumes "dd_exit env name path rc s = (e, s')"
  shows "dheap s' = dheap s \<and> asked s' = asked s \<and> (e = Exited \<or> e = Returned rc \<and> dsigs s' = dsigs s - all_sigs)"
proof -
  obtain e1 s1 where r: "dd_restore env 3 [SIGINT, SIGTSTP, SIGALRM] rc s = (e1, s1)"
    by (cases "dd_restore env 3 [SIGINT, SIGTSTP, SIGALRM] rc s")
  with assms have "e = e1 \<and> dheap s' = dheap s1 \<and> asked s' = asked s1 \<and> dsigs s' = dsigs s1"
    by (cases e1) (auto simp: dd_exit_def split: option.splits if_splits)
  with dd_restore_ok [OF r] show ?thesis by (auto simp: all_sigs_def)
qed

definition returns :: "dd_env \<Rightarrow> string option \<Rightarrow> bool" where
  "returns env path \<longleftrightarrow> path = None \<or> \<not> dd_int_end env \<or> (\<forall>n. dd_write_ok env n)"

lemma dd_user_interrupt_ok:
  assumes "returns env path"
  shows "\<exists>s'. dd_user_interrupt env (path \<noteq> None) rc s = Some (rc, s') \<and> dheap s' = dheap s \<and> asked s' = asked s \<and> dsigs s' = dsigs s"
proof (cases "path \<noteq> None \<and> dd_int_end env")
  case True
  with assms have "\<forall>n. dd_write_ok env n" by (auto simp: returns_def)
  then show ?thesis
    unfolding dd_user_interrupt.simps [of env "path \<noteq> None" rc s] write_texts_ok [OF \<open>\<forall>n. dd_write_ok env n\<close>]
    using True by simp
next
  case False
  then have "dd_user_interrupt env (path \<noteq> None) rc s = Some (rc, s)" by (subst dd_user_interrupt.simps) (simp only: if_False)
  then show ?thesis by simp
qed

lemma dd_finish_ok:
  assumes "returns env path"
  shows "\<exists>e s'. dd_finish env name path rc s = Some (Inr (e, s')) \<and> dheap s' = dheap s \<and> asked s' = asked s \<and>
    (e = Exited \<or> dsigs s' = dsigs s - all_sigs)"
proof -
  obtain s1 where s1: "dd_user_interrupt env (path \<noteq> None) rc s = Some (rc, s1)" "dheap s1 = dheap s" "asked s1 = asked s" "dsigs s1 = dsigs s"
    using dd_user_interrupt_ok [OF assms] by blast
  let ?s = "if dd_int_end env then say [''USER INTERRUPT:Diag dump terminated'' @ dd_nl env] s1 else s1"
  have f: "dheap ?s = dheap s1" "asked ?s = asked s1" "dsigs ?s = dsigs s1" by simp_all
  obtain e s' where e: "dd_exit env name path rc ?s = (e, s')" by (cases "dd_exit env name path rc ?s")
  have "dd_finish env name path rc s = Some (Inr (e, s'))"
    unfolding dd_finish_def s1(1) option.case prod.case e by (rule refl)
  with dd_exit_ok [OF e] s1 f show ?thesis by (intro exI [of _ e] exI [of _ s']) auto
qed

lemma frame_fields: "frame env path a b s = (ok, s') \<Longrightarrow> dheap s' = dheap s \<and> asked s' = asked s \<and> dsigs s' = dsigs s"
  by (cases path) (auto simp: frame_def simp del: write_texts.simps dest: write_texts_fields)

lemma dump_feature_ok:
  assumes "returns env path" "lpath d_next (daemons (dheap s)) (p_daemon n) as"
    "contents daemon_val (daemons (dheap s)) as = ds"
  shows "\<exists>e s' k. dump_feature env name path n s = Some (Inr (e, s')) \<and> dheap s' = dheap s \<and>
    asked s' = asked s @ take k (enabled ds) \<and> (e = Exited \<or> dsigs s' = dsigs s - all_sigs)"
proof -
  let ?t = "vty_diag_print_time env"
  obtain ok s1 where f1: "frame env path (''[Start] Feature '' @ name @ '' '' @ ?t) (''[Start] Feature '' @ name @ '' '' @ ?t @ '' '') s = (ok, s1)"
    by (cases "frame env path (''[Start] Feature '' @ name @ '' '' @ ?t) (''[Start] Feature '' @ name @ '' '' @ ?t @ '' '') s")
  note s1 = frame_fields [OF f1]
  note fin = dd_finish_ok [OF assms(1), of name]
  show ?thesis
  proof (cases ok)
    case False
    then have "dump_feature env name path n s = dd_finish env name path CMD_WARNING s1"
      unfolding dump_feature_def Let_def f1 prod.case by simp
    with fin [of CMD_WARNING s1] s1 show ?thesis by (metis append_Nil2 take_0)
  next
    case True
    obtain stop c r s2 where d: "dump_list env [DIAG_BASIC, name] (path \<noteq> None) ds 0 0 s1 = (stop, c, r, s2)"
      by (cases "dump_list env [DIAG_BASIC, name] (path \<noteq> None) ds 0 0 s1")
    have run: "dump_daemons env [DIAG_BASIC, name] (path \<noteq> None) (p_daemon n) 0 0 s1 = Some (Inr (stop, c, r, s2))"
      using dump_daemons_path [of s1 "p_daemon n" as ds] assms(2,3) s1 d by simp
    obtain k where s2: "dheap s2 = dheap s1" "dsigs s2 = dsigs s1" "asked s2 = asked s1 @ take k (enabled ds)"
      using dump_list_fields [OF d] by blast
    obtain ok2 s3 where f2: "frame env path (''[End] Feature '' @ name @ lf) (''[End] Feature '' @ name @ '' '') s2 = (ok2, s3)"
      by (cases "frame env path (''[End] Feature '' @ name @ lf) (''[End] Feature '' @ name @ '' '') s2")
    note s3 = frame_fields [OF f2]
    have eq: "dump_feature env name path n s =
        (if stop then dd_finish env name path CMD_SUCCESS s2
         else if \<not> ok2 then dd_finish env name path CMD_WARNING s3
         else dd_finish env name path CMD_SUCCESS (say [dd_summary env name c r] s3))"
      unfolding dump_feature_def Let_def f1 prod.case run and_then_simps f2 using True by simp
    consider "dump_feature env name path n s = dd_finish env name path CMD_SUCCESS s2"
      | rc s4 where "dump_feature env name path n s = dd_finish env name path rc s4" "dheap s4 = dheap s3" "asked s4 = asked s3" "dsigs s4 = dsigs s3"
      using eq say_fields by (cases stop; cases ok2; metis)
    then show ?thesis
    proof cases
      case 1
      with fin [of CMD_SUCCESS s2] s1 s2 show ?thesis by metis
    next
      case 2
      with fin [of rc s4] s1 s2 s3 show ?thesis by metis
    qed
  qed
qed

section \<open>The command on a loaded mapping\<close>

text \<open>The mapping as the command finds it: loaded before, or by this call.\<close>

definition loads :: "dd_env \<Rightarrow> fm \<Rightarrow> fm \<Rightarrow> feature_spec list \<Rightarrow> bool" where
  "loads env h0 h fs \<longleftrightarrow> get_feature_mapping (dd_fm env) h0 = Inr (feature_head h, h) \<and> (\<exists>gs. fm_rep h gs fs)"

definition selected :: "feature_spec list \<Rightarrow> string \<Rightarrow> string list" where
  "selected fs name = (case find (\<lambda>f. fs_name f = name) fs of None \<Rightarrow> [] | Some f \<Rightarrow> enabled (fs_daemons f))"

definition stopped :: "dd_env \<Rightarrow> string \<Rightarrow> string \<Rightarrow> dd_run \<Rightarrow> (ending \<times> dd_run) cres option" where
  "stopped env name msg s = Some (Inr (dd_exit env name None CMD_WARNING (say [msg @ dd_nl env] s)))"

definition file_step :: "dd_env \<Rightarrow> string \<Rightarrow> string option option \<Rightarrow> string + string option" where
  "file_step env name file = (case file of
     None \<Rightarrow> Inr None
   | Some arg1 \<Rightarrow>
       if validate_cli_args arg1 (Some DIAG_FILE_NAME_REGEX) \<noteq> 0
       then Inl (''Failed to validate destination file name:'' @ fmt_s arg1)
       else if vtysh_diag_check_crete_dir env \<noteq> 0 then Inl (''failed to check or create dir:'' @ DIAG_DUMP_DIR)
       else let file_path = take (FILE_PATH_LEN_MAX - 1) (DIAG_DUMP_DIR @ ''/'' @ fmt_s arg1) in
         (case dd_open env file_path of
            Some err \<Rightarrow> Inl (''failed to open file error:'' @ err @ '' file:'' @ file_path)
          | None \<Rightarrow> Inr (Some file_path)))"

lemma body_cases:
  assumes "loads env (dheap s0) h fs"
  shows "diag_dump_body env name file s0 = stopped env name ERR_STR (s0\<lparr>dheap := h\<rparr>) \<and> fs = [] \<or>
    diag_dump_body env name file s0 = stopped env name (name @ '' feature is not present '') (s0\<lparr>dheap := h\<rparr>) \<and>
      find (\<lambda>f. fs_name f = name) fs = None \<or>
    (\<exists>f n as. find (\<lambda>f. fs_name f = name) fs = Some f \<and> lpath d_next (daemons h) (p_daemon n) as \<and>
      contents daemon_val (daemons h) as = fs_daemons f \<and>
      diag_dump_body env name file s0 = (case file_step env name file of
          Inl msg \<Rightarrow> stopped env name msg (s0\<lparr>dheap := h\<rparr>)
        | Inr path \<Rightarrow> dump_feature env name path n (s0\<lparr>dheap := h\<rparr>)))"
proof -
  from assms obtain gs where g: "get_feature_mapping (dd_fm env) (dheap s0) = Inr (feature_head h, h)" and rep: "fm_rep h gs fs"
    by (auto simp: loads_def)
  from rep have path: "lpath f_next (features h) (feature_head h) (map fst gs)" "list_all2 (feature_at h) gs fs"
    by (simp_all add: fm_rep_def)
  note find = find_feature_path [OF path, of name]
  show ?thesis
  proof (cases "fs = []")
    case True
    with fm_rep_head [OF rep] have head: "(feature_head h = None) = True" by simp
    have "diag_dump_body env name file s0 = stopped env name ERR_STR (s0\<lparr>dheap := h\<rparr>)"
      unfolding diag_dump_body_def g and_then_simps prod.case Let_def head if_True stopped_def by (rule refl)
    with True show ?thesis by (intro disjI1 conjI)
  next
    case False
    with fm_rep_head [OF rep] have head: "(feature_head h = None) = False" by simp
    show ?thesis
    proof (cases "find (\<lambda>f. fs_name f = name) fs")
      case None
      with find have none: "find_feature name (feature_head h) h = Some (Inr None)" by simp
      have "diag_dump_body env name file s0 = stopped env name (name @ '' feature is not present '') (s0\<lparr>dheap := h\<rparr>)"
        unfolding diag_dump_body_def g and_then_simps prod.case Let_def head if_False none option.case stopped_def by (rule refl)
      with None show ?thesis by (intro disjI2 disjI1 conjI)
    next
      case (Some f)
      with find obtain as n where n: "find_feature name (feature_head h) h = Some (Inr (Some n))"
        "lpath d_next (daemons h) (p_daemon n) as" "contents daemon_val (daemons h) as = fs_daemons f" by auto
      have "diag_dump_body env name file s0 = (case file_step env name file of
          Inl msg \<Rightarrow> stopped env name msg (s0\<lparr>dheap := h\<rparr>)
        | Inr path \<Rightarrow> dump_feature env name path n (s0\<lparr>dheap := h\<rparr>))"
        unfolding diag_dump_body_def g and_then_simps prod.case Let_def head if_False n(1) option.case stopped_def file_step_def
        by (simp only: if_distrib [of "case_sum _ _"] option.case_distrib [of "case_sum _ _"] sum.case)
      with Some n(2,3) show ?thesis by (intro disjI2 exI [of _ f] exI [of _ n] exI [of _ as] conjI)
    qed
  qed
qed

text \<open>How every run ends: the mapping is \<open>h\<close>, some of \<open>ds\<close> were asked in order, and
  the handlers of diag-dump are off again or the process has exited.\<close>

definition ends :: "dd_run \<Rightarrow> fm \<Rightarrow> string list \<Rightarrow> (ending \<times> dd_run) cres option \<Rightarrow> bool" where
  "ends s h ds r \<longleftrightarrow> (\<exists>e s' k. r = Some (Inr (e, s')) \<and> dheap s' = h \<and> asked s' = asked s @ take k ds \<and>
     (e = Exited \<or> dsigs s' = dsigs s - all_sigs))"

lemma stopped_ends: "dheap s0 = h \<Longrightarrow> asked s0 = asked s \<Longrightarrow> dsigs s0 - all_sigs = dsigs s - all_sigs \<Longrightarrow>
  ends s h ds (stopped env name msg s0)"
proof -
  assume a: "dheap s0 = h" "asked s0 = asked s" "dsigs s0 - all_sigs = dsigs s - all_sigs"
  obtain e s' where x: "dd_exit env name None CMD_WARNING (say [msg @ dd_nl env] s0) = (e, s')"
    by (cases "dd_exit env name None CMD_WARNING (say [msg @ dd_nl env] s0)")
  with dd_exit_ok [OF x] a show ?thesis
    unfolding ends_def stopped_def x by (intro exI [of _ e] exI [of _ s'] exI [of _ 0]) auto
qed

lemma body_ends:
  assumes "loads env (dheap s0) h fs" "\<not> dd_int_end env \<or> (\<forall>n. dd_write_ok env n)"
    "asked s0 = asked s" "dsigs s0 - all_sigs = dsigs s - all_sigs"
  shows "ends s h (selected fs name) (diag_dump_body env name file s0)"
proof -
  have stop: "ends s h ds (stopped env name msg (s0\<lparr>dheap := h\<rparr>))" for msg ds
    using assms(3,4) by (intro stopped_ends) simp_all
  from body_cases [OF assms(1), of name "file"] show ?thesis
  proof (elim disjE exE conjE)
    fix f n as
    assume f: "find (\<lambda>f. fs_name f = name) fs = Some f" "lpath d_next (daemons h) (p_daemon n) as"
      "contents daemon_val (daemons h) as = fs_daemons f"
      and eq: "diag_dump_body env name file s0 = (case file_step env name file of
          Inl msg \<Rightarrow> stopped env name msg (s0\<lparr>dheap := h\<rparr>)
        | Inr path \<Rightarrow> dump_feature env name path n (s0\<lparr>dheap := h\<rparr>))"
    show ?thesis
    proof (cases "file_step env name file")
      case (Inl msg)
      with stop [of _ msg] eq show ?thesis by simp
    next
      case (Inr path)
      have "returns env path" using assms(2) by (auto simp: returns_def)
      from dump_feature_ok [OF this, of "s0\<lparr>dheap := h\<rparr>" n as "fs_daemons f" name] f
      obtain e s' k where "dump_feature env name path n (s0\<lparr>dheap := h\<rparr>) = Some (Inr (e, s'))" "dheap s' = h"
        "asked s' = asked s0 @ take k (enabled (fs_daemons f))" "e = Exited \<or> dsigs s' = dsigs s0 - all_sigs"
        by auto
      with f(1) Inr eq assms(3,4) show ?thesis by (auto simp: ends_def selected_def)
    qed
  qed (simp_all only: stop)
qed

lemma set_handler_fields [simp]: "dheap (set_handler g s) = dheap s" "asked (set_handler g s) = asked s"
  "dsigs (set_handler g s) = insert g (dsigs s)" "written (set_handler g s) = written s"
  "console (set_handler g s) = console s" "nwrites (set_handler g s) = nwrites s"
  by (simp_all add: set_handler_def)

lemma handlers_ends:
  assumes "dsigs s = {}" "loads env (dheap s) h fs" "\<not> dd_int_end env \<or> (\<forall>n. dd_write_ok env n)"
  shows "\<exists>e s' k. vtysh_diag_dump_show env name file s = Some (Inr (e, s')) \<and> dheap s' \<in> {dheap s, h} \<and>
    asked s' = asked s @ take k (selected fs name) \<and> (e = Exited \<or> dsigs s' = {})"
proof (cases "dd_sig_ok env 0 \<and> dd_sig_ok env 1 \<and> dd_sig_ok env 2")
  case True
  let ?s = "set_handler SIGTSTP (set_handler SIGALRM (set_handler SIGINT s))"
  have "ends s h (selected fs name) (diag_dump_body env name file ?s)"
    using assms by (intro body_ends) (auto simp: all_sigs_def)
  with True assms(1) show ?thesis by (auto simp: vtysh_diag_dump_show_def ends_def)
next
  case False
  then obtain k gs s0 where eq: "vtysh_diag_dump_show env name file s = Some (Inr (dd_init_failed env k gs s0))"
    and s0: "dheap s0 = dheap s" "asked s0 = asked s" "dsigs s0 - set gs = {}"
  proof -
    assume *: "\<And>k gs s0. vtysh_diag_dump_show env name file s = Some (Inr (dd_init_failed env k gs s0)) \<Longrightarrow>
      dheap s0 = dheap s \<Longrightarrow> asked s0 = asked s \<Longrightarrow> dsigs s0 - set gs = {} \<Longrightarrow> thesis"
    from False consider "\<not> dd_sig_ok env 0" | "dd_sig_ok env 0" "\<not> dd_sig_ok env 1"
      | "dd_sig_ok env 0" "dd_sig_ok env 1" "\<not> dd_sig_ok env 2" by blast
    then show thesis
    proof cases
      case 1 with assms(1) show thesis by (intro * [of 1 "[]" s]) (simp_all add: vtysh_diag_dump_show_def)
    next
      case 2 with assms(1) show thesis
        by (intro * [of 2 "[SIGINT]" "set_handler SIGINT s"]) (simp_all add: vtysh_diag_dump_show_def)
    next
      case 3 with assms(1) show thesis
        by (intro * [of 3 "[SIGINT, SIGALRM]" "set_handler SIGALRM (set_handler SIGINT s)"])
          (auto simp: vtysh_diag_dump_show_def)
    qed
  qed
  obtain e s' where r: "dd_init_failed env k gs s0 = (e, s')" by (cases "dd_init_failed env k gs s0")
  from dd_restore_ok [OF r [unfolded dd_init_failed_def]] s0 eq r show ?thesis
    by (intro exI [of _ e] exI [of _ s'] exI [of _ 0]) auto
qed

section \<open>Undisturbed runs\<close>

definition framed :: "dd_env \<Rightarrow> string option \<Rightarrow> string \<Rightarrow> string \<Rightarrow> dd_run \<Rightarrow> dd_run" where
  "framed env path a b s = (case path of
     Some _ \<Rightarrow> s\<lparr>written := written s @ [buff (dd_equal @ lf), buff a, buff (dd_equal @ lf)], nwrites := nwrites s + 3\<rparr>
   | None \<Rightarrow> say [dd_equal @ dd_nl env, b @ dd_nl env, dd_equal @ dd_nl env] s)"

lemma frame_ok:
  assumes "path \<noteq> None \<longrightarrow> (\<forall>n. dd_write_ok env n)"
  shows "frame env path a b s = (True, framed env path a b s)"
proof (cases path)
  case None
  then show ?thesis by (simp add: frame_def framed_def)
next
  case (Some f)
  with assms have "\<forall>n. dd_write_ok env n" by simp
  from write_texts_ok [OF this] Some show ?thesis
    unfolding frame_def framed_def Some option.case by (simp del: write_texts.simps)
qed

lemma framed_fields [simp]: "dheap (framed env path a b s) = dheap s" "asked (framed env path a b s) = asked s"
  by (simp_all add: framed_def split: option.split)

text \<open>The lines of a dump, on the console and in the file.\<close>

definition start_text :: "dd_env \<Rightarrow> string \<Rightarrow> string" where
  "start_text env name = ''[Start] Feature '' @ name @ '' '' @ vty_diag_print_time env"

definition console_report :: "dd_env \<Rightarrow> string \<Rightarrow> string list \<Rightarrow> string list" where
  "console_report env name ds =
     [dd_equal @ dd_nl env, (start_text env name @ '' '') @ dd_nl env, dd_equal @ dd_nl env] @
     concat (map (console_of env name) ds) @
     [dd_equal @ dd_nl env, (''[End] Feature '' @ name @ '' '') @ dd_nl env, dd_equal @ dd_nl env]"

definition file_report :: "dd_env \<Rightarrow> string \<Rightarrow> string list \<Rightarrow> string list" where
  "file_report env name ds =
     [buff (dd_equal @ lf), buff (start_text env name), buff (dd_equal @ lf)] @
     concat (map (file_of env name) ds) @
     [buff (dd_equal @ lf), buff (''[End] Feature '' @ name @ lf), buff (dd_equal @ lf)]"

definition dump_result :: "dd_env \<Rightarrow> string \<Rightarrow> string option \<Rightarrow> string list \<Rightarrow> dd_run \<Rightarrow> dd_run" where
  "dump_result env name path ds s =
     (let summary = [dd_summary env name (length ds) (length (filter (responds env name) ds))] in
      case path of
        None \<Rightarrow> s\<lparr>asked := asked s @ ds, console := console s @ console_report env name ds @ summary, dsigs := dsigs s - all_sigs\<rparr>
      | Some p \<Rightarrow> s\<lparr>asked := asked s @ ds, written := written s @ file_report env name ds,
          nwrites := nwrites s + length (file_report env name ds),
          console := console s @ concat (map (not_connected env name) ds) @ summary @
            [name @ '' diagnostic-dump is collected at '' @ p @ '' '' @ dd_nl env],
          dsigs := dsigs s - all_sigs\<rparr>)"

lemma dump_feature_undisturbed:
  assumes "undisturbed env" "path \<noteq> None \<longrightarrow> (\<forall>n. dd_write_ok env n)"
    and "lpath d_next (daemons (dheap s)) (p_daemon n) as" "contents daemon_val (daemons (dheap s)) as = ds"
  shows "dump_feature env name path n s = Some (Inr (Returned CMD_SUCCESS, dump_result env name path (enabled ds) s))"
proof -
  let ?t = "vty_diag_print_time env"
  let ?a = "''[Start] Feature '' @ name @ '' '' @ ?t" let ?b = "''[Start] Feature '' @ name @ '' '' @ ?t @ '' ''"
  let ?s1 = "framed env path ?a ?b s"
  let ?s2 = "dumped env name (path \<noteq> None) (enabled ds) ?s1"
  let ?s3 = "framed env path (''[End] Feature '' @ name @ lf) (''[End] Feature '' @ name @ '' '') ?s2"
  let ?c = "length (enabled ds)" let ?r = "length (filter (responds env name) (enabled ds))"
  let ?s4 = "say [dd_summary env name ?c ?r] ?s3"
  have fr: "frame env path u v x = (True, framed env path u v x)" for u v x using assms(2) by (rule frame_ok)
  have d: "dump_daemons env [DIAG_BASIC, name] (path \<noteq> None) (p_daemon n) 0 0 ?s1 = Some (Inr (False, ?c, ?r, ?s2))"
    using dump_daemons_path [of ?s1 "p_daemon n" as ds] assms(3,4)
      dump_list_undisturbed [OF assms(1), of "path \<noteq> None" name ds 0 0 ?s1] assms(2) by simp
  have run: "dump_feature env name path n s = dd_finish env name path CMD_SUCCESS ?s4"
    unfolding dump_feature_def Let_def fr prod.case d and_then_simps by simp
  have intr: "dd_user_interrupt env (path \<noteq> None) CMD_SUCCESS ?s4 = Some (CMD_SUCCESS, ?s4)" "\<not> dd_int_end env"
    using assms(1) by (simp_all add: dd_user_interrupt.simps undisturbed_def)
  have sigs: "\<forall>i. dd_sig_ok env i" using assms(1) by (simp add: undisturbed_def)
  have fin: "dd_finish env name path CMD_SUCCESS ?s4 = Some (Inr (dd_exit env name path CMD_SUCCESS ?s4))"
    unfolding dd_finish_def intr(1) option.case prod.case using intr(2) by (simp only: if_False)
  show ?thesis
    unfolding run fin dd_exit_def dd_restore_all [OF sigs] prod.case ending.case
    by (cases path) (simp_all add: dump_result_def say_def framed_def dumped_def console_report_def file_report_def
        start_text_def all_sigs_def)
qed

section \<open>Accepted file names\<close>

lemma validate_name:
  assumes "newline \<notin> set v"
  shows "validate_cli_args (Some v) (Some DIAG_FILE_NAME_REGEX) = 0 \<longleftrightarrow> 1 \<le> length v \<and> length v \<le> 50 \<and> set v \<subseteq> set file_char"
  using regexec_line [OF assms, of DIAG_FILE_NAME_REGEX]
  by (simp only: validate_cli_args_0 option.inject ex_simps DIAG_FILE_NAME_REGEX_def ere.simps lang_Rep_Cls) simp

lemma no_slash: "CHR ''/'' \<notin> set file_char"
  by (simp add: file_char_def char_range_def) code_simp

lemma dump_path:
  assumes "newline \<notin> set v" "validate_cli_args (Some v) (Some DIAG_FILE_NAME_REGEX) = 0"
  shows "take (FILE_PATH_LEN_MAX - 1) (DIAG_DUMP_DIR @ ''/'' @ v) = DIAG_DUMP_DIR @ ''/'' @ v"
proof -
  have "length (DIAG_DUMP_DIR @ ''/'' @ v) \<le> FILE_PATH_LEN_MAX - 1"
    using assms(2) validate_name [OF assms(1)] by (simp add: DIAG_DUMP_DIR_def)
  then show ?thesis by (rule take_all)
qed

section \<open>Properties\<close>

lemma show_after_handlers:
  assumes "undisturbed env"
  shows "vtysh_diag_dump_show env name file s =
    diag_dump_body env name file (set_handler SIGTSTP (set_handler SIGALRM (set_handler SIGINT s)))"
  using assms by (simp add: vtysh_diag_dump_show_def undisturbed_def)

lemma dump_result_handlers:
  "dump_result env name path ds (set_handler SIGTSTP (set_handler SIGALRM (set_handler SIGINT s))\<lparr>dheap := h\<rparr>) =
   dump_result env name path ds (s\<lparr>dheap := h\<rparr>)"
  by (auto simp: dump_result_def Let_def all_sigs_def split: option.split)

lemma show_undisturbed:
  assumes "undisturbed env" "loads env (dheap s) h fs" "find (\<lambda>f. fs_name f = name) fs = Some f"
    and "file_step env name file = Inr path" "path \<noteq> None \<longrightarrow> (\<forall>n. dd_write_ok env n)"
  shows "vtysh_diag_dump_show env name file s =
    Some (Inr (Returned CMD_SUCCESS, dump_result env name path (selected fs name) (s\<lparr>dheap := h\<rparr>)))"
proof -
  let ?s = "set_handler SIGTSTP (set_handler SIGALRM (set_handler SIGINT s))"
  have "loads env (dheap ?s) h fs" using assms(2) by simp
  from body_cases [OF this, of name "file"] assms(3) obtain n as where
    n: "lpath d_next (daemons h) (p_daemon n) as" "contents daemon_val (daemons h) as = fs_daemons f"
    and eq: "diag_dump_body env name file ?s = (case file_step env name file of
          Inl msg \<Rightarrow> stopped env name msg (?s\<lparr>dheap := h\<rparr>)
        | Inr path \<Rightarrow> dump_feature env name path n (?s\<lparr>dheap := h\<rparr>))"
    by (elim disjE exE conjE) simp_all
  have "dump_feature env name path n (?s\<lparr>dheap := h\<rparr>) =
      Some (Inr (Returned CMD_SUCCESS, dump_result env name path (enabled (fs_daemons f)) (?s\<lparr>dheap := h\<rparr>)))"
    using n by (intro dump_feature_undisturbed [OF assms(1,5)]) simp_all
  then show ?thesis
    unfolding show_after_handlers [OF assms(1)] eq assms(4) sum.case selected_def assms(3) option.case
    by (simp only: dump_result_handlers)
qed

end
