(* ===== verification/Diag_Dump_Correct.thy ===== *)
theory Diag_Dump_Correct
  imports Diag_Dump_Run
begin

text \<open>
  The properties of the diag-dump commands, with an environment in which they are observed:
  the mapping file of \<open>Feature_Mapping\<close> and daemons that answer at once.
\<close>

section \<open>A concrete system\<close>

definition demo_daemons :: daemon_env where
  "demo_daemons = \<lparr>ovs_rundir = Some ''/run'', access_w = \<lambda>_. True, file_text = \<lambda>_. None, client_create = \<lambda>_. 0\<rparr>"

definition demo_dd :: dd_env where
  "demo_dd = \<lparr>dd_sig_ok = \<lambda>_. True, dd_fm = routing_env, dd_conn = demo_daemons,
     dd_transact = \<lambda>_ _ _. (0, Some ''up'', None), dd_threads = \<lambda>_. Ended False,
     dd_int_before = \<lambda>_. False, dd_int_after = \<lambda>_. False, dd_int_end = False, dd_asctime = None,
     dd_stat = Is_Dir, dd_unlink = 0, dd_mkdir = 0, dd_chmod = 0, dd_open = \<lambda>_. None,
     dd_write_ok = \<lambda>_. True, dd_write_err = [], dd_nl = []\<rparr>"

definition dd_run0 :: dd_run where
  "dd_run0 = \<lparr>dheap = fm0, console = [], written = [], nwrites = 0, asked = [], dsigs = {}\<rparr>"

lemma demo_loads: "dd_fm env = routing_env \<Longrightarrow> \<exists>h. loads env fm0 h [routing_feature]"
proof -
  assume e: "dd_fm env = routing_env"
  obtain h gs where "get_feature_mapping routing_env fm0 = Inr (feature_head h, h)"
    "fm_rep h gs (snd (spec_parse (yscalars (ystream (concat (map feature_scalars [routing_feature])))) (0, [])))"
    using mapping_run [of routing_env "ystream (concat (map feature_scalars [routing_feature]))"] by (auto simp: routing_env_def)
  with spec_features [of "[routing_feature]" 0 "[]"] routing_wf e show ?thesis by (auto simp: loads_def)
qed

lemma demo_find: "find (\<lambda>f. fs_name f = ''routing'') [routing_feature] = Some routing_feature"
  by (simp add: routing_feature_def)

lemma demo_selected: "selected [routing_feature] ''routing'' = [''ops-ospfd'']"
  by (simp add: selected_def routing_feature_def)

lemma demo_undisturbed: "undisturbed demo_dd"
  by (simp add: undisturbed_def demo_dd_def)

section \<open>Properties\<close>

text \<open>When every daemon's thread ends by itself and nobody interrupts, \<open>diag-dump FEATURE basic\<close>
  returns success, asks exactly the daemons of the feature that support diag-dump, in file order, prints
  the start and end lines around their answers and a last line that counts those that failed,
  and takes its signal handlers off again.\<close>

theorem diag_dump_console:
  assumes "undisturbed env" "loads env (dheap s) h fs" "find (\<lambda>f. fs_name f = name) fs = Some f"
  shows "vtysh_diag_dump_show env name None s =
    Some (Inr (Returned CMD_SUCCESS, dump_result env name None (selected fs name) (s\<lparr>dheap := h\<rparr>)))"
  using assms by (intro show_undisturbed) (simp_all add: file_step_def)

lemma diag_dump_console_witness:
  "\<exists>h. vtysh_diag_dump_show demo_dd ''routing'' None dd_run0 =
    Some (Inr (Returned CMD_SUCCESS, dump_result demo_dd ''routing'' None [''ops-ospfd''] (dd_run0\<lparr>dheap := h\<rparr>)))"
proof -
  obtain h where "loads demo_dd (dheap dd_run0) h [routing_feature]"
    using demo_loads [of demo_dd] by (auto simp: demo_dd_def dd_run0_def)
  from diag_dump_console [OF demo_undisturbed this demo_find] show ?thesis
    unfolding demo_selected by (intro exI [of _ h])
qed

text \<open>C23: with a file name that is accepted and a system that can write the file, the same run
  leaves the whole report in the file below the dump directory, and on the console the
  daemons that could not be reached, the count and the name of the file.\<close>

theorem diag_dump_to_file:
  assumes "undisturbed env" "loads env (dheap s) h fs" "find (\<lambda>f. fs_name f = name) fs = Some f"
    and "newline \<notin> set v" "validate_cli_args (Some v) (Some DIAG_FILE_NAME_REGEX) = 0"
    and "vtysh_diag_check_crete_dir env = 0" "dd_open env (DIAG_DUMP_DIR @ ''/'' @ v) = None" "\<forall>n. dd_write_ok env n"
  shows "vtysh_diag_dump_show env name (Some (Some v)) s =
    Some (Inr (Returned CMD_SUCCESS,
      dump_result env name (Some (DIAG_DUMP_DIR @ ''/'' @ v)) (selected fs name) (s\<lparr>dheap := h\<rparr>)))"
proof -
  have f: "fmt_s (Some v) = v" by (simp add: fmt_s_def)
  have "file_step env name (Some (Some v)) = Inr (Some (DIAG_DUMP_DIR @ ''/'' @ v))"
    unfolding file_step_def option.case assms(5,6) f dump_path [OF assms(4,5)] Let_def assms(7) by simp
  from show_undisturbed [OF assms(1-3) this] assms(8) show ?thesis by simp
qed

lemma diag_dump_to_file_witness:
  "\<exists>h. vtysh_diag_dump_show demo_dd ''routing'' (Some (Some ''r1'')) dd_run0 =
    Some (Inr (Returned CMD_SUCCESS,
      dump_result demo_dd ''routing'' (Some (DIAG_DUMP_DIR @ ''/'' @ ''r1'')) [''ops-ospfd''] (dd_run0\<lparr>dheap := h\<rparr>)))"
proof -
  obtain h where l: "loads demo_dd (dheap dd_run0) h [routing_feature]"
    using demo_loads [of demo_dd] by (auto simp: demo_dd_def dd_run0_def)
  have nl: "newline \<notin> set ''r1''" by (simp add: newline_def)
  have "validate_cli_args (Some ''r1'') (Some DIAG_FILE_NAME_REGEX) = 0"
    unfolding validate_name [OF nl] by (simp add: file_char_def char_range_def, code_simp)
  from diag_dump_to_file [OF demo_undisturbed l demo_find nl this] show ?thesis
    unfolding demo_selected by (intro exI [of _ h]) (simp add: demo_dd_def vtysh_diag_check_crete_dir_def)
qed



text \<open>A one-line file name with a character outside letters, digits, underscore, period and
  hyphen, or of a length outside 1 to 50, is refused: nothing is written and no daemon is
  asked. In particular no accepted name leaves the dump directory by a slash.\<close>

theorem diag_dump_bad_file_name:
  assumes "undisturbed env" "loads env (dheap s) h fs" "find (\<lambda>f. fs_name f = name) fs = Some f"
    and "newline \<notin> set v" "CHR ''/'' \<in> set v \<or> length v \<notin> {1..50} \<or> \<not> set v \<subseteq> set file_char"
  shows "vtysh_diag_dump_show env name (Some (Some v)) s =
    Some (Inr (Returned CMD_WARNING, s\<lparr>dheap := h,
      console := console s @ [(''Failed to validate destination file name:'' @ v) @ dd_nl env], dsigs := dsigs s - all_sigs\<rparr>))"
proof -
  let ?s = "set_handler SIGTSTP (set_handler SIGALRM (set_handler SIGINT s))"
  have sigs: "\<forall>i. dd_sig_ok env i" using assms(1) by (simp add: undisturbed_def)
  have bad: "validate_cli_args (Some v) (Some DIAG_FILE_NAME_REGEX) \<noteq> 0"
    unfolding validate_name [OF assms(4)] using assms(5) no_slash by auto
  have f: "fmt_s (Some v) = v" by (simp add: fmt_s_def)
  have step: "file_step env name (Some (Some v)) = Inl (''Failed to validate destination file name:'' @ v)"
    unfolding file_step_def option.case f using bad by (simp only: if_True not_False_eq_True)
  have "loads env (dheap ?s) h fs" using assms(2) by simp
  from body_cases [OF this, of name "Some (Some v)"] assms(3)
  have "diag_dump_body env name (Some (Some v)) ?s =
      stopped env name (''Failed to validate destination file name:'' @ v) (?s\<lparr>dheap := h\<rparr>)"
    unfolding step sum.case by (elim disjE exE conjE) simp_all
  then show ?thesis
    unfolding show_after_handlers [OF assms(1)] stopped_def dd_exit_def dd_restore_all [OF sigs] prod.case ending.case
    by (simp add: say_def all_sigs_def set_handler_def)
qed

lemma diag_dump_bad_file_name_witness:
  "\<exists>h. vtysh_diag_dump_show demo_dd ''routing'' (Some (Some ''../x'')) dd_run0 =
    Some (Inr (Returned CMD_WARNING, dd_run0\<lparr>dheap := h,
      console := [''Failed to validate destination file name:../x''], dsigs := {}\<rparr>))"
proof -
  obtain h where l: "loads demo_dd (dheap dd_run0) h [routing_feature]"
    using demo_loads [of demo_dd] by (auto simp: demo_dd_def dd_run0_def)
  have "newline \<notin> set ''../x''" "CHR ''/'' \<in> set ''../x'' \<or> length ''../x'' \<notin> {1..50} \<or> \<not> set ''../x'' \<subseteq> set file_char"
    by (simp_all add: newline_def)
  from diag_dump_bad_file_name [OF demo_undisturbed l demo_find this] show ?thesis
    by (intro exI [of _ h]) (simp add: demo_dd_def dd_run0_def)
qed

section \<open>A full disk\<close>

lemma user_interrupt_diverges:
  assumes "dd_int_end env" "\<forall>n. \<not> dd_write_ok env n"
  shows "dd_user_interrupt env True rc s = None"
proof -
  have "False" if run: "dd_user_interrupt env True rc s = Some y" for y
  proof -
    have "fd \<longrightarrow> dd_int_end e \<longrightarrow> (\<forall>n. \<not> dd_write_ok e n) \<longrightarrow> False"
      if "dd_user_interrupt e fd r t = Some z" for e fd r t z
    proof (rule dd_user_interrupt.raw_induct
        [where P = "\<lambda>e fd r t z. fd \<longrightarrow> dd_int_end e \<longrightarrow> (\<forall>n. \<not> dd_write_ok e n) \<longrightarrow> False", OF _ that])
      fix loop e fd r t and z :: "cmd_ret \<times> dd_run"
      let ?texts = "[buff (dd_equal @ lf), buff (''USER INTERRUPT:Diag dump terminated'' @ lf), buff (dd_equal @ lf)]"
      assume IH: "\<And>e fd r t z. loop e fd r t = Some z \<Longrightarrow> fd \<longrightarrow> dd_int_end e \<longrightarrow> (\<forall>n. \<not> dd_write_ok e n) \<longrightarrow> False"
        and body: "(if fd \<and> dd_int_end e
           then (case write_texts e ?texts t of (ok, s1) \<Rightarrow> (if ok then Some (r, s1) else loop e fd CMD_WARNING s1))
           else Some (r, t)) = Some z"
      show "fd \<longrightarrow> dd_int_end e \<longrightarrow> (\<forall>n. \<not> dd_write_ok e n) \<longrightarrow> False"
      proof (intro impI)
        assume a: "fd" "dd_int_end e" "\<forall>n. \<not> dd_write_ok e n"
        obtain s1 where w: "write_texts e ?texts t = (False, s1)" unfolding write_texts.simps using a(3) by simp
        have "loop e fd CMD_WARNING s1 = Some z" using body a(1,2) unfolding w prod.case by simp
        with IH a show False by blast
      qed
    qed
    with run assms show False by blast
  qed
  then show ?thesis by (cases "dd_user_interrupt env True rc s") auto
qed

text \<open>C25: when the user has interrupted a dump whose file cannot be written (the disk is full), the
  failing write jumps back to the label \<open>USER_INTERRUPT\<close>, which writes again, and the command
  never returns.\<close>

theorem diag_dump_full_disk_diverges:
  assumes "\<forall>i. dd_sig_ok env i" "loads env (dheap s) h fs" "find (\<lambda>f. fs_name f = name) fs = Some f"
    and "file_step env name file = Inr (Some path)" "\<forall>n. \<not> dd_write_ok env n" "dd_int_end env"
  shows "vtysh_diag_dump_show env name file s = None"
proof -
  let ?s = "set_handler SIGTSTP (set_handler SIGALRM (set_handler SIGINT s))"
  have "loads env (dheap ?s) h fs" using assms(2) by simp
  from body_cases [OF this, of name "file"] assms(3) obtain n where
    eq: "diag_dump_body env name file ?s = dump_feature env name (Some path) n (?s\<lparr>dheap := h\<rparr>)"
    unfolding assms(4) sum.case by (elim disjE exE conjE) simp_all
  let ?t = "vty_diag_print_time env"
  let ?a = "''[Start] Feature '' @ name @ '' '' @ ?t" let ?b = "''[Start] Feature '' @ name @ '' '' @ ?t @ '' ''"
  obtain s1 where fr: "frame env (Some path) ?a ?b (?s\<lparr>dheap := h\<rparr>) = (False, s1)"
    unfolding frame_def option.case write_texts.simps using assms(5) by simp
  have "dump_feature env name (Some path) n (?s\<lparr>dheap := h\<rparr>) = dd_finish env name (Some path) CMD_WARNING s1"
    unfolding dump_feature_def Let_def fr prod.case by simp
  also have "\<dots> = None"
    by (simp add: dd_finish_def user_interrupt_diverges [OF assms(6,5)])
  finally show ?thesis using assms(1) eq by (simp add: vtysh_diag_dump_show_def)
qed

lemma diag_dump_full_disk_diverges_witness:
  "vtysh_diag_dump_show (demo_dd\<lparr>dd_write_ok := \<lambda>_. False, dd_int_end := True\<rparr>) ''routing'' (Some (Some ''r1'')) dd_run0 = None"
proof -
  let ?env = "demo_dd\<lparr>dd_write_ok := \<lambda>_. False, dd_int_end := True\<rparr>"
  obtain h where l: "loads ?env (dheap dd_run0) h [routing_feature]"
    using demo_loads [of ?env] by (auto simp: demo_dd_def dd_run0_def)
  have "validate_cli_args (Some ''r1'') (Some DIAG_FILE_NAME_REGEX) = 0"
    by (subst validate_name) (simp add: newline_def, simp add: file_char_def char_range_def, code_simp)
  then have "file_step ?env ''routing'' (Some (Some ''r1'')) = Inr (Some ''/tmp/ops-diag/r1'')"
    by (simp add: file_step_def vtysh_diag_check_crete_dir_def demo_dd_def fmt_s_def DIAG_DUMP_DIR_def)
  from diag_dump_full_disk_diverges [OF _ l demo_find this] show ?thesis by (simp add: demo_dd_def)
qed

section \<open>The list\<close>

lemma list_diag_features_path:
  assumes "lpath f_next (features (dheap s)) p (map fst gs)" "list_all2 (feature_at (dheap s)) gs fs"
  shows "list_diag_features env p s = Some (Inr (say (map (\<lambda>f. list_line env (fs_name f)
      (case fs_desc f of None \<Rightarrow> ''NULL'' | Some d \<Rightarrow> d)) (filter (\<lambda>f. fs_flag f = ENABLE) fs)) s))"
  using assms
proof (induction gs arbitrary: p fs s)
  case Nil
  then show ?case by (simp add: list_diag_features.simps say_def)
next
  case (Cons g gs)
  then obtain f fs' where fs: "fs = f # fs'" "feature_at (dheap s) g f" "list_all2 (feature_at (dheap s)) gs fs'"
    by (auto simp: list_all2_Cons1)
  from Cons.prems(1) obtain n where n: "p = Some (fst g)" "features (dheap s) (fst g) = Some n"
    "lpath f_next (features (dheap s)) (f_next n) (map fst gs)" by (auto split: option.splits)
  have at: "f_name n = fs_name f" "f_desc n = fs_desc f" "f_diag_flag n = fs_flag f"
    using fs(2) n(2) by (auto simp: feature_at_def feature_val_def)
  let ?s = "say [list_line env (fs_name f) (case fs_desc f of None \<Rightarrow> ''NULL'' | Some d \<Rightarrow> d)] s"
  show ?case
  proof (cases "fs_flag f")
    case DISABLE
    with Cons.IH [OF n(3) fs(3)] n(1,2) at fs(1) show ?thesis
      by (subst list_diag_features.simps) simp
  next
    case ENABLE
    have "list_diag_features env p s = list_diag_features env (f_next n) ?s"
      using n(1,2) at ENABLE by (subst list_diag_features.simps) simp
    moreover have "dheap ?s = dheap s" by simp
    ultimately show ?thesis using Cons.IH [of ?s "f_next n" fs'] n(3) fs(1,3) ENABLE by (simp add: say_def)
  qed
qed

text \<open>\<open>diag-dump list\<close> prints, below its heading, one line for each feature that supports
  diag-dump, in the order of the file, its name in 40 columns and its description in 100.\<close>

theorem diag_dump_list_all:
  assumes "loads env (dheap s) h fs" "fs \<noteq> []"
  shows "vtysh_diag_dump_list_show env s = Some (Inr (CMD_SUCCESS, s\<lparr>dheap := h, console := console s @
     [''Diagnostic Dump Supported Features List'' @ dd_nl env, dd_hyphen @ dd_nl env,
      list_line env ''Feature'' ''Description'', dd_hyphen @ dd_nl env] @
     map (\<lambda>f. list_line env (fs_name f) (case fs_desc f of None \<Rightarrow> ''NULL'' | Some d \<Rightarrow> d))
       (filter (\<lambda>f. fs_flag f = ENABLE) fs)\<rparr>))"
proof -
  from assms obtain gs where g: "get_feature_mapping (dd_fm env) (dheap s) = Inr (feature_head h, h)" and rep: "fm_rep h gs fs"
    by (auto simp: loads_def)
  from fm_rep_head [OF rep] assms(2) have head: "(feature_head h = None) = False" by simp
  define hd4 where "hd4 = [''Diagnostic Dump Supported Features List'' @ dd_nl env, dd_hyphen @ dd_nl env,
      list_line env ''Feature'' ''Description'', dd_hyphen @ dd_nl env]"
  from rep have "lpath f_next (features h) (feature_head h) (map fst gs)" "list_all2 (feature_at h) gs fs"
    by (simp_all add: fm_rep_def)
  then show ?thesis
    unfolding vtysh_diag_dump_list_show_def g and_then_simps prod.case head if_False vtysh_diag_list_features_def hd4_def [symmetric]
    by (subst list_diag_features_path) (simp_all add: say_def)
qed

lemma diag_dump_list_all_witness:
  "\<exists>h. vtysh_diag_dump_list_show demo_dd dd_run0 = Some (Inr (CMD_SUCCESS, dd_run0\<lparr>dheap := h, console :=
     [''Diagnostic Dump Supported Features List'', dd_hyphen, list_line demo_dd ''Feature'' ''Description'', dd_hyphen]\<rparr>))"
proof -
  obtain h where "loads demo_dd (dheap dd_run0) h [routing_feature]"
    using demo_loads [of demo_dd] by (auto simp: demo_dd_def dd_run0_def)
  from diag_dump_list_all [OF this] show ?thesis
    by (intro exI [of _ h]) (simp add: demo_dd_def dd_run0_def routing_feature_def)
qed

end
