(* ===== verification/Diag_Dump_Thread.thy ===== *)
theory Diag_Dump_Thread
  imports Show_Tech_Thread Diag_Dump_Correct
begin

text \<open>
  \<open>src/src/cli/diag_dump_vty.c\<close>: the two threads with which \<open>vtysh_diag_dump_create_thread\<close> asks
  one daemon. The calls on the two mutexes, the condition variable, the cancellation and the
  flags are those of \<open>exec_showtech_cmd\<close> and \<open>showtech_cmd_thread\<close> statement by statement, so the
  steps are those of \<open>Show_Tech_Thread\<close>; what the threads and the signal handler print and write
  is added here, output by output, since a cancelled thread stops between any two of them. The
  theorem is that every end of the two threads is one of the outcomes among which the environment
  of \<open>Diag_Dump.vtysh_diag_dump_create_thread\<close>, a function, chooses.
\<close>

section \<open>What the thread does\<close>

text \<open>The outputs of \<open>vtysh_diag_dump_daemon\<close> one by one.\<close>

datatype dd_act =
    Say string
  | Put string        \<comment> \<open>a write to the file\<close>
  | Put_Failed

fun do_act :: "dd_act \<Rightarrow> dd_run \<Rightarrow> dd_run" where
  "do_act (Say t) s = say [t] s"
| "do_act (Put t) s = s\<lparr>written := written s @ [t], nwrites := nwrites s + 1\<rparr>"
| "do_act Put_Failed s = s\<lparr>nwrites := nwrites s + 1\<rparr>"

fun write_acts :: "dd_env \<Rightarrow> string list \<Rightarrow> nat \<Rightarrow> bool \<times> dd_act list" where
  "write_acts env [] n = (True, [])"
| "write_acts env (t # ts) n =
     (if dd_write_ok env n then (case write_acts env ts (n + 1) of (ok, as) \<Rightarrow> (ok, Put t # as))
      else (False, [Put_Failed, Say (write_failed @ dd_write_err env @ dd_nl env)]))"

definition daemon_acts :: "dd_env \<Rightarrow> string \<Rightarrow> string list \<Rightarrow> bool \<Rightarrow> nat \<Rightarrow> cmd_ret \<times> dd_act list" where
  "daemon_acts env daemon cmd_type fd n =
     (case connect_to_daemon (dd_conn env) (Some daemon) of
        None \<Rightarrow> (CMD_WARNING, [Say (''failed to connect daemon '' @ daemon @ '' '' @ dd_nl env)])
      | Some client \<Rightarrow>
          (let basic = (strcmp_with_nullcheck (Some (hd cmd_type)) (Some DIAG_BASIC) = 0);
               (rc, cmd_result, cmd_error) =
                 dd_transact env client (if basic then ''dumpdiagbasic'' else ''dumpdiagadvanced'') cmd_type
           in if rc \<noteq> 0 then (CMD_WARNING, [])
              else
                (let (ok, as) =
                   (case cmd_result of
                      None \<Rightarrow> (True, [])
                    | Some r \<Rightarrow>
                        if \<not> fd \<and> basic then (True, map Say (daemon_console env daemon r))
                        else if fd \<and> basic then write_acts env (daemon_texts daemon r) n
                        else (True, []))
                 in (if \<not> ok \<or> cmd_error \<noteq> None then CMD_WARNING else CMD_SUCCESS, as))))"

lemma write_texts_acts:
  "write_texts env ts s =
     (fst (write_acts env ts (nwrites s)), fold do_act (snd (write_acts env ts (nwrites s))) s)"
  by (induction ts arbitrary: s) (auto split: prod.splits simp: say_def)

lemma fold_say: "fold do_act (map Say ts) s = say ts s"
  by (induction ts arbitrary: s) (simp_all add: say_def)

text \<open>The detailed and the sequential version of \<open>vtysh_diag_dump_daemon\<close> agree.\<close>

lemma daemon_is_acts:
  "vtysh_diag_dump_daemon env daemon cmd_type fd s =
     (fst (daemon_acts env daemon cmd_type fd (nwrites s)),
      fold do_act (snd (daemon_acts env daemon cmd_type fd (nwrites s))) s)"
  by (simp add: vtysh_diag_dump_daemon_def daemon_acts_def write_texts_acts fold_say Let_def
      split: option.split prod.split)

text \<open>What a sequence of outputs prints and writes, and how many writes it makes.\<close>

fun says :: "dd_act list \<Rightarrow> string list" where
  "says [] = []"
| "says (Say t # as) = t # says as"
| "says (Put t # as) = says as"
| "says (Put_Failed # as) = says as"

fun puts :: "dd_act list \<Rightarrow> string list" where
  "puts [] = []"
| "puts (Say t # as) = puts as"
| "puts (Put t # as) = t # puts as"
| "puts (Put_Failed # as) = puts as"

fun writes :: "dd_act list \<Rightarrow> nat" where
  "writes [] = 0"
| "writes (Say t # as) = writes as"
| "writes (Put t # as) = writes as + 1"
| "writes (Put_Failed # as) = writes as + 1"

lemma outputs_snoc:
  "says (as @ [a]) = says as @ (case a of Say t \<Rightarrow> [t] | _ \<Rightarrow> [])"
  "puts (as @ [a]) = puts as @ (case a of Put t \<Rightarrow> [t] | _ \<Rightarrow> [])"
  "writes (as @ [a]) = writes as + (case a of Say t \<Rightarrow> 0 | _ \<Rightarrow> 1)"
  by (induction as rule: says.induct; simp add: split: dd_act.split)+

lemma acts_are_partly: "fold do_act as s = partly (says as) (puts as) (writes as) s"
  by (induction as arbitrary: s rule: says.induct) (simp_all add: partly_def say_def)

section \<open>State and steps\<close>

datatype speaker = By_Main | By_Thread | By_Handler

record dd_exec =
  proto :: exec_state                       \<comment> \<open>program points, mutexes and flags\<close>
  printed :: "(speaker \<times> string) list"
  dd_file :: "string list"
  nput :: nat
  todo :: "dd_act list"                     \<comment> \<open>what the thread has left to do\<close>

definition dd_exec0 :: "dd_act list \<Rightarrow> dd_exec" where
  "dd_exec0 as = \<lparr>proto = exec0, printed = [], dd_file = [], nput = 0, todo = as\<rparr>"

definition utter :: "speaker \<Rightarrow> string list \<Rightarrow> dd_exec \<Rightarrow> dd_exec" where
  "utter w ts x = x\<lparr>printed := printed x @ map (Pair w) ts\<rparr>"

fun thread_act :: "dd_act \<Rightarrow> dd_exec \<Rightarrow> dd_exec" where
  "thread_act (Say t) x = utter By_Thread [t] x"
| "thread_act (Put t) x = x\<lparr>dd_file := dd_file x @ [t], nput := nput x + 1\<rparr>"
| "thread_act Put_Failed x = x\<lparr>nput := nput x + 1\<rparr>"

text \<open>What the main thread prints once it has seen the cleanup through: the flag says whether
  the time was over.\<close>

definition cancel_message :: "dd_env \<Rightarrow> string \<Rightarrow> bool \<Rightarrow> string list" where
  "cancel_message env daemon late =
     [dd_hyphen @ dd_nl env,
      (if late then ''Deamon '' @ daemon @ '' Timed Out '' @ dd_nl env
       else ''Daemon '' @ daemon @ '' terminated due to user interrupt '' @ dd_nl env),
      dd_hyphen @ dd_nl env]"

fun main_says :: "dd_env \<Rightarrow> string \<Rightarrow> main_pc \<Rightarrow> string list" where
  "main_says env daemon (MUnlockClean late) = cancel_message env daemon late"
| "main_says env daemon p = []"

text \<open>\<open>diagdump_signal_handler\<close>, \<open>diagdump_user_interrupt_handler\<close> (on the alarm) and
  \<open>diagdump_Zsignal_handler\<close>.\<close>

definition ctrl_c_text :: "dd_env \<Rightarrow> string" where
  "ctrl_c_text env = ''USER INTERRUPT:Diag dump will be terminated in 10 secs'' @ dd_nl env"

inductive handler_step :: "dd_env \<Rightarrow> dd_exec \<Rightarrow> dd_exec \<Rightarrow> bool" for env where
  h_ctrl_c: "\<not> gUserInterrupt (proto x) \<Longrightarrow> \<not> gUserInterruptAlarm (proto x) \<Longrightarrow>
    handler_step env x (utter By_Handler [ctrl_c_text env]
      (x\<lparr>proto := (proto x)\<lparr>gUserInterrupt := True, gUserInterruptAlarm := True, armed := True\<rparr>\<rparr>))"
| h_ctrl_c_again: "\<not> gUserInterrupt (proto x) \<Longrightarrow> gUserInterruptAlarm (proto x) \<Longrightarrow>
    handler_step env x (utter By_Handler [ctrl_c_text env] (x\<lparr>proto := (proto x)\<lparr>gUserInterrupt := True\<rparr>\<rparr>))"
| h_alarm: "armed (proto x) \<Longrightarrow> waitMutex (proto x) = None \<Longrightarrow>
    handler_step env x (x\<lparr>proto := (wake ((proto x)\<lparr>armed := False\<rparr>))\<lparr>gUserInterruptAlarm := False\<rparr>\<rparr>)"
| h_ctrl_z: "\<not> gUserInterrupt (proto x) \<Longrightarrow>
    handler_step env x (x\<lparr>proto := (proto x)\<lparr>gUserInterrupt := True, z_pending := True\<rparr>\<rparr>)"
| h_ctrl_z_wakes: "z_pending (proto x) \<Longrightarrow> waitMutex (proto x) = None \<Longrightarrow>
    handler_step env x (x\<lparr>proto := wake ((proto x)\<lparr>z_pending := False\<rparr>)\<rparr>)"

text \<open>\<open>vtysh_diag_dump_create_thread\<close>, and \<open>vtysh_diag_dump_thread\<close>, which leaves
  \<open>vtysh_diag_dump_daemon\<close> when all outputs are made. The parameter \<open>cmd\<close> is \<open>None\<close> when the daemon never
  answers, otherwise whether the request succeeds.\<close>

inductive dd_step :: "dd_env \<Rightarrow> string \<Rightarrow> bool option \<Rightarrow> dd_exec \<Rightarrow> dd_exec \<Rightarrow> bool" for env daemon cmd where
  d_main: "main_step (proto x) p \<Longrightarrow>
    dd_step env daemon cmd x (utter By_Main (main_says env daemon (mpc (proto x))) (x\<lparr>proto := p\<rparr>))"
| d_act: "tpc (proto x) = TRun \<Longrightarrow> cmd \<noteq> None \<Longrightarrow> todo x = a # as \<Longrightarrow>
    dd_step env daemon cmd x (thread_act a (x\<lparr>todo := as\<rparr>))"
| d_thread: "thread_step cmd (proto x) p \<Longrightarrow> (tpc p = TAfter \<longrightarrow> todo x = []) \<Longrightarrow>
    dd_step env daemon cmd x (x\<lparr>proto := p\<rparr>)"
| d_handler: "handler_step env x x' \<Longrightarrow> dd_step env daemon cmd x x'"

definition answer :: "bool \<Rightarrow> cmd_ret \<Rightarrow> bool option" where
  "answer hangs rc = (if hangs then None else Some (rc = CMD_SUCCESS))"

inductive dd_reach :: "dd_env \<Rightarrow> string \<Rightarrow> cmd_ret \<times> dd_act list \<Rightarrow> bool \<Rightarrow> dd_exec \<Rightarrow> bool" for env daemon job hangs where
  dd_start: "dd_reach env daemon job hangs (dd_exec0 (snd job))"
| dd_more: "dd_reach env daemon job hangs x \<Longrightarrow> dd_step env daemon (answer hangs (fst job)) x x' \<Longrightarrow>
    dd_reach env daemon job hangs x'"

lemma utter_fields [simp]: "proto (utter w ts x) = proto x" "dd_file (utter w ts x) = dd_file x"
  "nput (utter w ts x) = nput x" "todo (utter w ts x) = todo x"
  by (simp_all add: utter_def)

lemma thread_act_fields [simp]: "proto (thread_act a x) = proto x" "todo (thread_act a x) = todo x"
  by (cases a; simp)+

text \<open>The protocol below is the one of \<open>Show_Tech_Thread\<close>: its invariants hold here.\<close>

lemma handler_proto: "handler_step env x x' \<Longrightarrow> signal_step (proto x) (proto x')"
proof (induction rule: handler_step.induct)
  case (h_ctrl_c x)
  then show ?case using signal_step.ctrl_c [of "proto x"] by simp
next
  case (h_ctrl_c_again x)
  then show ?case using signal_step.ctrl_c [of "proto x"] by simp
next
  case (h_alarm x)
  then show ?case using signal_step.alarm_rings [of "proto x"] by simp
next
  case (h_ctrl_z x)
  then show ?case using signal_step.ctrl_z [of "proto x"] by simp
next
  case (h_ctrl_z_wakes x)
  then show ?case using signal_step.ctrl_z_wakes [of "proto x"] by simp
qed

lemma dd_proto: "dd_step env daemon cmd x x' \<Longrightarrow> proto x' = proto x \<or> exec_step cmd (proto x) (proto x')"
  by (induction rule: dd_step.induct) (auto simp: exec_step_def dest: handler_proto)

lemma dd_reachable: "dd_reach env daemon job hangs x \<Longrightarrow> reachable (answer hangs (fst job)) (proto x)"
proof (induction rule: dd_reach.induct)
  case dd_start
  show ?case by (simp add: dd_exec0_def reach_start)
next
  case (dd_more x x')
  then show ?case using dd_proto by (metis reach_step)
qed

section \<open>How the protocol ends\<close>

text \<open>When the function has returned its thread is gone, and a warning has a cause.\<close>

definition end_inv :: "bool option \<Rightarrow> exec_state \<Rightarrow> bool" where
  "end_inv cmd p \<longleftrightarrow>
     (gCommandFailed p \<longrightarrow> cmd = Some False \<or> cancel_req p) \<and>
     (\<forall>r. mpc p = MDone r \<longrightarrow> tpc p \<in> {TNone, TExit, TKilled} \<and> (r = CMD_SUCCESS \<or> r = CMD_WARNING)) \<and>
     (tpc p = TNone \<longrightarrow> mpc p = MCreate \<or> mpc p = MDone CMD_WARNING) \<and>
     (mpc p = MDone CMD_WARNING \<longrightarrow> tpc p = TNone \<or> cancel_req p \<or> cmd = Some False \<or> gUserInterrupt p) \<and>
     (cancel_req p \<and> clean_up (mpc p) \<and> for_interrupt (mpc p) \<longrightarrow> gUserInterrupt p)"

lemma end_main: "main_step p p' \<Longrightarrow> end_inv cmd p \<Longrightarrow> result_inv cmd p \<Longrightarrow> cancel_inv p \<Longrightarrow> end_inv cmd p'"
  by (induction rule: main_step.induct) (auto simp: end_inv_def result_inv_def cancel_inv_def)

lemma end_thread: "thread_step cmd p p' \<Longrightarrow> end_inv cmd p \<Longrightarrow> end_inv cmd p'"
  by (induction rule: thread_step.induct) (auto simp: end_inv_def)

lemma end_signal: "signal_step p p' \<Longrightarrow> end_inv cmd p \<Longrightarrow> end_inv cmd p'"
  by (induction rule: signal_step.induct) (auto simp: end_inv_def wake_def)

lemma end_reachable: "reachable cmd p \<Longrightarrow> end_inv cmd p"
proof (induction rule: reachable.induct)
  case reach_start
  show ?case by (simp add: exec0_def end_inv_def)
next
  case (reach_step p p')
  then show ?case
    using end_main end_thread end_signal inv_reachable result_reachable unfolding exec_step_def by blast
qed

section \<open>What has been printed and written\<close>

definition said :: "speaker \<Rightarrow> dd_exec \<Rightarrow> string list" where
  "said w x = map snd (filter (\<lambda>p. fst p = w) (printed x))"

lemma said_simps [simp]: "said w (utter v ts x) = said w x @ (if v = w then ts else [])"
  "said w (proto_update f x) = said w x" "said w (todo_update g x) = said w x"
  "said w (dd_file_update h x) = said w x" "said w (nput_update k x) = said w x" "said w (dd_exec0 as) = []"
  by (simp_all add: said_def utter_def dd_exec0_def o_def)

text \<open>The thread has made the outputs \<open>as\<close>, those before the ones left.\<close>

definition made :: "dd_exec \<Rightarrow> dd_act list \<Rightarrow> bool" where
  "made x as \<longleftrightarrow> said By_Thread x = says as \<and> dd_file x = puts as \<and> nput x = writes as"

lemma made_act: "made x as \<Longrightarrow> made (thread_act a (x\<lparr>todo := bs\<rparr>)) (as @ [a])"
  by (cases a) (simp_all add: made_def outputs_snoc)

lemma made_simps [simp]: "made (x\<lparr>proto := p\<rparr>) as = made x as"
  "w \<noteq> By_Thread \<Longrightarrow> made (utter w ts x) as = made x as" "made (dd_exec0 bs) []"
  by (simp_all add: made_def) (simp add: dd_exec0_def)

definition out_inv :: "dd_act list \<Rightarrow> dd_exec \<Rightarrow> bool" where
  "out_inv as x \<longleftrightarrow> (\<exists>bs. as = bs @ todo x \<and> made x bs) \<and> (ran (tpc (proto x)) \<longrightarrow> todo x = []) \<and>
     (before_run (tpc (proto x)) \<and> \<not> ran (tpc (proto x)) \<and> tpc (proto x) \<noteq> TRun \<longrightarrow> todo x = as)"

lemma thread_runs:
  assumes "thread_step cmd p p'"
  shows "ran (tpc p') \<Longrightarrow> ran (tpc p) \<or> tpc p' = TAfter"
    and "before_run (tpc p') \<Longrightarrow> tpc p' \<noteq> TRun \<Longrightarrow> \<not> ran (tpc p') \<Longrightarrow>
      before_run (tpc p) \<and> \<not> ran (tpc p) \<and> tpc p \<noteq> TRun"
  using assms by (induction rule: thread_step.induct) auto

lemma main_tpc: "main_step p p' \<Longrightarrow> tpc p' = tpc p \<or> tpc p' = TStart \<and> mpc p = MCreate"
  by (induction rule: main_step.induct) auto

lemma signal_tpc: "signal_step p p' \<Longrightarrow> tpc p' = tpc p"
  by (induction rule: signal_step.induct) auto

lemma handler_outputs: "handler_step env x x' \<Longrightarrow> todo x' = todo x \<and> made x' as = made x as \<and> said By_Main x' = said By_Main x"
  by (induction rule: handler_step.induct) auto

definition waiting_to_run :: "thread_pc \<Rightarrow> bool" where
  "waiting_to_run p \<longleftrightarrow> before_run p \<and> \<not> ran p \<and> p \<noteq> TRun"

lemma out_inv_idle:
  "out_inv as x \<Longrightarrow> waiting_to_run (tpc (proto x)) \<Longrightarrow> todo x = as \<and> made x []"
  by (auto simp: out_inv_def waiting_to_run_def)

lemma out_inv_start: "out_inv as (dd_exec0 as)"
proof -
  have "made (dd_exec0 as) []" by simp
  then show ?thesis by (simp add: out_inv_def dd_exec0_def exec0_def)
qed

lemma out_inv_step:
  assumes "dd_step env daemon cmd x x'" "out_inv as x" "cancel_inv (proto x)"
  shows "out_inv as x'"
  using assms
proof (induction rule: dd_step.induct)
  case (d_main x p)
  then show ?case
    using main_tpc [OF d_main.hyps] by (auto simp: out_inv_def cancel_inv_def)
next
  case (d_act x a bs)
  then obtain cs where "as = cs @ a # bs" "made x cs" by (auto simp: out_inv_def)
  moreover from this(2) have "made (thread_act a (x\<lparr>todo := bs\<rparr>)) (cs @ [a])" by (rule made_act)
  ultimately show ?case using d_act.hyps(1) by (auto simp: out_inv_def)
next
  case (d_thread x p)
  then show ?case using thread_runs [OF d_thread.hyps(1)] by (auto simp: out_inv_def)
next
  case (d_handler x x')
  have "tpc (proto x') = tpc (proto x)" by (rule signal_tpc [OF handler_proto [OF d_handler.hyps]])
  with d_handler show ?case using handler_outputs [OF d_handler.hyps] by (simp add: out_inv_def)
qed

text \<open>The main thread speaks once, after the cleanup, and for a reason.\<close>

definition told_inv :: "dd_env \<Rightarrow> string \<Rightarrow> dd_exec \<Rightarrow> bool" where
  "told_inv env daemon x \<longleftrightarrow>
     (\<not> cancel_req (proto x) \<or> clean_up (mpc (proto x)) \<longrightarrow> said By_Main x = []) \<and>
     (cancel_req (proto x) \<and> \<not> clean_up (mpc (proto x)) \<longrightarrow>
        (\<exists>late. said By_Main x = cancel_message env daemon late \<and> (late \<or> gUserInterrupt (proto x))))"

lemma main_told:
  assumes "main_step p p'" "cancel_inv p" "result_inv cmd p"
  shows "\<exists>late. mpc p = MUnlockClean late \<and> cancel_req p' \<and> \<not> clean_up (mpc p') \<and> (late \<or> gUserInterrupt p') \<or>
    main_says env daemon (mpc p) = [] \<and>
      ((\<not> cancel_req p' \<or> clean_up (mpc p')) \<and> (\<not> cancel_req p \<or> clean_up (mpc p)) \<or>
       cancel_req p' \<and> \<not> clean_up (mpc p') \<and> cancel_req p \<and> \<not> clean_up (mpc p) \<and> gUserInterrupt p' = gUserInterrupt p)"
  using assms by (induction rule: main_step.induct) (auto simp: cancel_inv_def result_inv_def)

lemma told_signal:
  assumes "signal_step p p'"
  shows "cancel_req p' = cancel_req p \<and> clean_up (mpc p') = clean_up (mpc p) \<and> (gUserInterrupt p \<longrightarrow> gUserInterrupt p')"
  using assms by (induction rule: signal_step.induct) auto

lemma told_thread:
  assumes "thread_step cmd p p'"
  shows "cancel_req p' = cancel_req p \<and> clean_up (mpc p') = clean_up (mpc p) \<and> gUserInterrupt p' = gUserInterrupt p"
  using assms by (induction rule: thread_step.induct) auto

lemma thread_act_said: "said By_Main (thread_act a x) = said By_Main x"
  by (cases a) simp_all

lemma told_inv_step:
  assumes "dd_step env daemon cmd x x'" "told_inv env daemon x" "cancel_inv (proto x)" "result_inv cmd (proto x)"
  shows "told_inv env daemon x'"
  using assms
proof (induction rule: dd_step.induct)
  case (d_main x p)
  from main_told [OF d_main.hyps d_main.prems(2,3), of env daemon] d_main.prems(1)
  show ?case by (elim exE disjE) (auto simp: told_inv_def)
next
  case (d_act x a bs)
  then show ?case by (simp add: told_inv_def thread_act_said)
next
  case (d_thread x p)
  then show ?case using told_thread [OF d_thread.hyps(1)] by (simp add: told_inv_def)
next
  case (d_handler x x')
  then show ?case
    using told_signal [OF handler_proto [OF d_handler.hyps]] handler_outputs [OF d_handler.hyps]
    by (auto simp: told_inv_def)
qed

lemma dd_invs:
  "dd_reach env daemon job hangs x \<Longrightarrow> out_inv (snd job) x \<and> told_inv env daemon x"
proof (induction rule: dd_reach.induct)
  case dd_start
  show ?case using out_inv_start by (simp add: told_inv_def) (simp add: dd_exec0_def exec0_def)
next
  case (dd_more x x')
  then show ?case
    using out_inv_step told_inv_step inv_reachable result_reachable dd_reachable by meson
qed

section \<open>Refinement\<close>

text \<open>The end that the two threads come to, as an outcome that the environment of \<open>Diag_Dump\<close> can
  choose: a daemon that never answers has no thread that ends, a user interrupt is behind
  everything that claims one, and a cancelled thread has made the first of its outputs.\<close>

fun outcome :: "bool \<Rightarrow> dd_act list \<Rightarrow> exec_state \<Rightarrow> dd_thread \<Rightarrow> bool" where
  "outcome hangs as p NotCreated \<longleftrightarrow> tpc p = TNone"
| "outcome hangs as p (Ended i) \<longleftrightarrow> \<not> hangs \<and> tpc p = TExit \<and> (i \<longrightarrow> gUserInterrupt p)"
| "outcome hangs as p (TimedOut out ws n) \<longleftrightarrow>
     cancel_req p \<and> (\<exists>k. (hangs \<longrightarrow> k = 0) \<and>
       out = says (take k as) \<and> ws = puts (take k as) \<and> n = writes (take k as))"
| "outcome hangs as p (Cancelled out ws n) \<longleftrightarrow> cancel_req p \<and> gUserInterrupt p \<and>
     (\<exists>k. (hangs \<longrightarrow> k = 0) \<and>
       out = says (take k as) \<and> ws = puts (take k as) \<and> n = writes (take k as))"

text \<open>The state of the command with what the two threads have added: on the console the outputs
  of the thread, then those of the main thread, each in their order, without the line of the
  signal handler. That is also the order in which they were made, but for a thread that is
  cancelled before it has locked \<open>cleanupMutex\<close> and that still takes steps afterwards.\<close>

definition seen :: "string \<Rightarrow> dd_exec \<Rightarrow> dd_run \<Rightarrow> dd_run" where
  "seen daemon x s = say (said By_Main x) (partly (said By_Thread x) (dd_file x) (nput x) (s\<lparr>asked := asked s @ [daemon]\<rparr>))"

lemma write_texts_env [simp]: "write_texts (env\<lparr>dd_threads := f\<rparr>) ts s = write_texts env ts s"
  by (induction ts arbitrary: s) simp_all

lemma daemon_env [simp]:
  "vtysh_diag_dump_daemon (env\<lparr>dd_threads := f\<rparr>) daemon cmd_type fd s = vtysh_diag_dump_daemon env daemon cmd_type fd s"
  by (simp add: vtysh_diag_dump_daemon_def daemon_console_def Let_def cong: option.case_cong if_cong)

abbreviation create_with where
  "create_with env t daemon cmd_type fd s \<equiv>
     vtysh_diag_dump_create_thread (env\<lparr>dd_threads := \<lambda>i. t\<rparr>) daemon cmd_type fd s"

lemma create_cases:
  "create_with env NotCreated daemon cmd_type fd s = (False, s\<lparr>asked := asked s @ [daemon]\<rparr>)"
  "create_with env (TimedOut out ws n) daemon cmd_type fd s =
     (False, say (cancel_message env daemon True) (partly out ws n (s\<lparr>asked := asked s @ [daemon]\<rparr>)))"
  "create_with env (Cancelled out ws n) daemon cmd_type fd s =
     (False, say (cancel_message env daemon False) (partly out ws n (s\<lparr>asked := asked s @ [daemon]\<rparr>)))"
  by (simp_all add: vtysh_diag_dump_create_thread_def cancel_message_def)

lemma create_ended:
  assumes "job = daemon_acts env daemon cmd_type fd (nwrites s)"
  shows "create_with env (Ended i) daemon cmd_type fd s =
     (fst job = CMD_SUCCESS \<and> \<not> i,
      partly (says (snd job)) (puts (snd job)) (writes (snd job)) (s\<lparr>asked := asked s @ [daemon]\<rparr>))"
  by (simp add: vtysh_diag_dump_create_thread_def daemon_is_acts [of env] acts_are_partly assms)

lemma made_take:
  assumes "out_inv as x" "hangs \<longrightarrow> todo x = as"
  shows "\<exists>k. made x (take k as) \<and> (hangs \<longrightarrow> k = 0)"
proof -
  obtain bs where bs: "as = bs @ todo x" "made x bs" using assms(1) by (auto simp: out_inv_def)
  with assms(2) have "hangs \<longrightarrow> bs = []" by auto
  with bs show ?thesis by (intro exI [of _ "length bs"]) (auto simp: append_eq_conv_conj)
qed

lemma hanging_step: "dd_step env daemon cmd x x' \<Longrightarrow> cmd = None \<Longrightarrow> todo x' = todo x"
proof (induction rule: dd_step.induct)
  case (d_handler x x')
  then show ?case using handler_outputs by blast
qed simp_all

lemma hanging_waits: "dd_reach env daemon job hangs x \<Longrightarrow> hangs \<longrightarrow> todo x = snd job"
proof (induction rule: dd_reach.induct)
  case dd_start
  show ?case by (simp add: dd_exec0_def)
next
  case (dd_more x x')
  then show ?case using hanging_step by (auto simp: answer_def)
qed

lemma told_late: "told_inv env daemon x \<Longrightarrow> cancel_req (proto x) \<Longrightarrow> \<not> clean_up (mpc (proto x)) \<Longrightarrow>
    \<exists>late. said By_Main x = cancel_message env daemon late \<and> (late \<or> gUserInterrupt (proto x))"
  by (auto simp: told_inv_def)

lemma diag_thread_refines_run:
  assumes job: "job = daemon_acts env daemon cmd_type fd (nwrites s)"
    and reach: "dd_reach env daemon job hangs x" and fin: "mpc (proto x) = MDone r"
  shows "\<exists>t. outcome hangs (snd job) (proto x) t \<and>
     create_with env t daemon cmd_type fd s = (r = CMD_SUCCESS, seen daemon x s)"
proof -
  let ?p = "proto x" and ?cmd = "answer hangs (fst job)"
  have proto: "reachable ?cmd ?p" by (rule dd_reachable [OF reach])
  have e: "end_inv ?cmd ?p" and res: "result_inv ?cmd ?p" by (rule end_reachable [OF proto], rule result_reachable [OF proto])
  have outs: "out_inv (snd job) x" and told: "told_inv env daemon x" using dd_invs [OF reach] by simp_all
  have clean: "\<not> clean_up (mpc ?p)" using fin by simp
  show ?thesis
  proof (cases "cancel_req ?p")
    case True
    then have r: "r = CMD_WARNING" using res e fin by (auto simp: result_inv_def end_inv_def)
    obtain late where late: "said By_Main x = cancel_message env daemon late" "late \<or> gUserInterrupt ?p"
      using told_late [OF told True clean] by blast
    obtain k where k: "made x (take k (snd job)) \<and> (hangs \<longrightarrow> k = 0)"
      using made_take [OF outs hanging_waits [OF reach]] by blast
    let ?out = "said By_Thread x" and ?ws = "dd_file x" and ?n = "nput x"
    show ?thesis
    proof (cases late)
      case True
      with late k r \<open>cancel_req ?p\<close> show ?thesis
        by (intro exI [of _ "TimedOut ?out ?ws ?n"]) (auto simp: create_cases seen_def made_def)
    next
      case False
      with late k r \<open>cancel_req ?p\<close> show ?thesis
        by (intro exI [of _ "Cancelled ?out ?ws ?n"]) (auto simp: create_cases seen_def made_def)
    qed
  next
    case False
    then have quiet: "said By_Main x = []" using told by (simp add: told_inv_def)
    have "tpc ?p \<in> {TNone, TExit}"
      using e fin False inv_reachable [OF proto] by (auto simp: end_inv_def cancel_inv_def)
    then consider "tpc ?p = TNone" | "tpc ?p = TExit" by blast
    then show ?thesis
    proof cases
      case 1
      then have "r = CMD_WARNING" using e fin by (auto simp: end_inv_def)
      moreover have "made x []" using out_inv_idle [OF outs] 1 by (simp add: waiting_to_run_def)
      ultimately show ?thesis using 1 quiet
        by (intro exI [of _ NotCreated]) (simp add: create_cases seen_def made_def say_def partly_def)
    next
      case 2
      then have "made x (snd job)" using outs by (auto simp: out_inv_def)
      moreover have "\<not> hangs" using res 2 by (auto simp: result_inv_def answer_def)
      moreover have "r = CMD_SUCCESS \<Longrightarrow> fst job = CMD_SUCCESS"
        using res fin \<open>\<not> hangs\<close> by (simp add: result_inv_def answer_def)
      moreover have "r \<noteq> CMD_SUCCESS \<Longrightarrow> fst job \<noteq> CMD_SUCCESS \<or> gUserInterrupt ?p"
        using e fin 2 False \<open>\<not> hangs\<close> by (auto simp: end_inv_def answer_def)
      ultimately show ?thesis using 2 quiet
        by (intro exI [of _ "Ended (fst job = CMD_SUCCESS \<and> r \<noteq> CMD_SUCCESS)"])
          (auto simp: create_ended [OF job] seen_def made_def say_def partly_def)
    qed
  qed
qed

text \<open>In whatever order the two threads and the signal handlers take their steps, when
  \<open>vtysh_diag_dump_create_thread\<close> returns there is an outcome with which its sequential model
  returns the same result and leaves the same texts on the console and in the file. If it is an
  end of the thread the daemon has answered and the user was not blamed without an interrupt;
  otherwise the thread was cancelled after the first few of its outputs.\<close>

theorem diag_thread_refines:
  assumes "dd_reach env daemon (daemon_acts env daemon cmd_type fd (nwrites s)) hangs x"
    and "mpc (proto x) = MDone r"
  shows "\<exists>t. outcome hangs (snd (daemon_acts env daemon cmd_type fd (nwrites s))) (proto x) t \<and>
     vtysh_diag_dump_create_thread (env\<lparr>dd_threads := \<lambda>i. t\<rparr>) daemon cmd_type fd s =
       (r = CMD_SUCCESS, seen daemon x s)"
  by (rule diag_thread_refines_run [OF refl assms])

section \<open>A daemon that does not answer\<close>

definition mute :: "exec_state \<Rightarrow> dd_act list \<Rightarrow> dd_exec" where
  "mute p as = \<lparr>proto = p, printed = [], dd_file = [], nput = 0, todo = as\<rparr>"

lemma mute_main: "dd_reach env daemon job hangs (mute p (snd job)) \<Longrightarrow> main_step p p' \<Longrightarrow> main_says env daemon (mpc p) = [] \<Longrightarrow>
    dd_reach env daemon job hangs (mute p' (snd job))"
  using dd_more [OF _ d_main, of env daemon job hangs "mute p (snd job)" p'] by (simp add: mute_def utter_def)

lemma mute_thread: "dd_reach env daemon job hangs (mute p (snd job)) \<Longrightarrow> thread_step (answer hangs (fst job)) p p' \<Longrightarrow>
    tpc p' \<noteq> TAfter \<Longrightarrow> dd_reach env daemon job hangs (mute p' (snd job))"
  using dd_more [OF _ d_thread, of env daemon job hangs "mute p (snd job)" p'] by (simp add: mute_def)

text \<open>From here on the program points are the only thing that changes.\<close>

abbreviation mute_reach :: "dd_env \<Rightarrow> string \<Rightarrow> cmd_ret \<times> dd_act list \<Rightarrow> exec_state \<Rightarrow> bool" where
  "mute_reach env daemon job p \<equiv> dd_reach env daemon job True (mute p (snd job))"

lemma mute_started: "mute_reach env daemon job (calm MLockWait TRun None (Some Thr) False False)"
proof -
  let ?R = "mute_reach env daemon job"
  have "?R (calm MCreate TNone None None False False)"
    using dd_start [of env daemon job True] by (simp only: dd_exec0_def mute_def exec0_calm)
  from mute_main [OF this calm_main(1)] have "?R (calm MLockWait TStart None None False False)" by simp
  from mute_thread [OF this calm_thread(1)] have "?R (calm MLockWait TAsync None None False False)" by simp
  from mute_thread [OF this calm_thread(2)] have "?R (calm MLockWait TPushed None None False False)" by simp
  from mute_thread [OF this calm_thread(3)] show ?thesis by simp
qed

lemma mute_late: "mute_reach env daemon job (calm (MCancel True) TRun None (Some Thr) False False)"
proof -
  let ?R = "mute_reach env daemon job" and ?c = "\<lambda>m w. calm m TRun w (Some Thr) False False"
  from mute_main [OF mute_started calm_main(2)] have "?R (?c MPrep (Some Main))" by simp
  from mute_main [OF this calm_main(3)] have "?R (?c MWaiting None)" by simp
  from mute_main [OF this calm_main(4)] have "?R (?c (MRelock True) None)" by simp
  from mute_main [OF this calm_main(5)] have "?R (?c (MUnlock True) (Some Main))" by simp
  from mute_main [OF this calm_main(6)] have "?R (?c (MAlarm True) None)" by simp
  from mute_main [OF this calm_main(7)] have "?R (?c (MBranch True) None)" by simp
  from mute_main [OF this calm_main(8)] show ?thesis by simp
qed

lemma mute_cancelled: "mute_reach env daemon job (calm (MUnlockClean True) TKilled None (Some Main) True False)"
proof -
  let ?R = "mute_reach env daemon job"
  from mute_main [OF mute_late calm_main(10)] have "?R (calm (MLockClean True) TRun None (Some Thr) True False)" by simp
  moreover have "thread_step (answer True (fst job)) (calm (MLockClean True) TRun None (Some Thr) True False)
      (calm (MLockClean True) TKilled None None True False)"
    by (subst thread_step.simps) (simp add: calm_def)
  ultimately have "?R (calm (MLockClean True) TKilled None None True False)" by (rule mute_thread) (simp add: calm_def)
  from mute_main [OF this calm_main(11)] show ?thesis by simp
qed

definition timed_out :: "dd_env \<Rightarrow> string \<Rightarrow> dd_act list \<Rightarrow> exec_state \<Rightarrow> dd_exec" where
  "timed_out env daemon as p = \<lparr>proto = p, printed = map (Pair By_Main) (cancel_message env daemon True),
     dd_file = [], nput = 0, todo = as\<rparr>"

lemma timed_out_proto [simp]: "proto (timed_out env daemon as p) = p"
  by (simp add: timed_out_def)

lemma timed_out_main: "dd_reach env daemon job hangs (timed_out env daemon (snd job) p) \<Longrightarrow> main_step p p' \<Longrightarrow>
    main_says env daemon (mpc p) = [] \<Longrightarrow> dd_reach env daemon job hangs (timed_out env daemon (snd job) p')"
  using dd_more [OF _ d_main, of env daemon job hangs "timed_out env daemon (snd job) p" p']
  by (simp add: timed_out_def utter_def)

lemma timed_out_run:
  "dd_reach env daemon job True (timed_out env daemon (snd job) (calm (MDone CMD_WARNING) TKilled None None True True))"
proof -
  let ?R = "\<lambda>p. dd_reach env daemon job True (timed_out env daemon (snd job) p)"
  from dd_more [OF mute_cancelled [of env daemon job] d_main, of "calm MJoin TKilled None None True True"]
  have "?R (calm MJoin TKilled None None True True)"
    using calm_main(12) by (simp add: mute_def timed_out_def utter_def)
  from timed_out_main [OF this calm_main(14)] have "?R (calm MResult TKilled None None True True)" by simp
  from timed_out_main [OF this calm_main(15)] show ?thesis by simp
qed

theorem diag_thread_refines_witness:
  "\<exists>t. outcome True (snd (daemon_acts demo_dd ''ospfd'' [''basic''] False 0)) (calm (MDone CMD_WARNING) TKilled None None True True) t \<and>
     vtysh_diag_dump_create_thread (demo_dd\<lparr>dd_threads := \<lambda>i. t\<rparr>) ''ospfd'' [''basic''] False dd_run0 =
       (False, seen ''ospfd''
          (timed_out demo_dd ''ospfd'' (snd (daemon_acts demo_dd ''ospfd'' [''basic''] False 0))
             (calm (MDone CMD_WARNING) TKilled None None True True)) dd_run0)"
proof -
  let ?job = "daemon_acts demo_dd ''ospfd'' [''basic''] False (nwrites dd_run0)"
  let ?x = "timed_out demo_dd ''ospfd'' (snd ?job) (calm (MDone CMD_WARNING) TKilled None None True True)"
  have n: "nwrites dd_run0 = 0" by (simp add: dd_run0_def)
  have "mpc (proto ?x) = MDone CMD_WARNING" by simp
  from diag_thread_refines [OF timed_out_run [of demo_dd "''ospfd''" ?job] this]
  show ?thesis by (simp add: n)
qed

end
