(* ===== verification/Diag_Dump_Outcomes.thy ===== *)
theory Diag_Dump_Outcomes
  imports Diag_Dump_Thread
begin

text \<open>
  The converse of \<open>Diag_Dump_Thread\<close>: every outcome that the sequential model of
  \<open>vtysh_diag_dump_create_thread\<close> can be given is one that the two threads come to, by a run that is
  constructed here. Together: the two describe the same behaviour.
\<close>

section \<open>Runs\<close>

text \<open>Steps that change nothing but the protocol state.\<close>

lemma go_main: "dd_reach env daemon job hangs (x\<lparr>proto := p\<rparr>) \<Longrightarrow> main_step p p' \<Longrightarrow> main_says env daemon (mpc p) = [] \<Longrightarrow>
    dd_reach env daemon job hangs (x\<lparr>proto := p'\<rparr>)"
  using dd_more [OF _ d_main, of env daemon job hangs "x\<lparr>proto := p\<rparr>" p'] by (simp add: utter_def)

lemma go_thread: "dd_reach env daemon job hangs (x\<lparr>proto := p\<rparr>) \<Longrightarrow> thread_step (answer hangs (fst job)) p p' \<Longrightarrow>
    (tpc p' = TAfter \<longrightarrow> todo x = []) \<Longrightarrow> dd_reach env daemon job hangs (x\<lparr>proto := p'\<rparr>)"
  using dd_more [OF _ d_thread, of env daemon job hangs "x\<lparr>proto := p\<rparr>" p'] by simp

lemma go_message: "dd_reach env daemon job hangs (x\<lparr>proto := p\<rparr>) \<Longrightarrow> main_step p p' \<Longrightarrow> mpc p = MUnlockClean late \<Longrightarrow>
    dd_reach env daemon job hangs ((utter By_Main (cancel_message env daemon late) x)\<lparr>proto := p'\<rparr>)"
  using dd_more [OF _ d_main, of env daemon job hangs "x\<lparr>proto := p\<rparr>" p'] by (cases x) (simp add: utter_def)

lemma go_handler: "dd_reach env daemon job hangs (x\<lparr>proto := p\<rparr>) \<Longrightarrow>
    handler_step env (x\<lparr>proto := p\<rparr>) (x\<lparr>proto := p'\<rparr>) \<Longrightarrow> dd_reach env daemon job hangs (x\<lparr>proto := p'\<rparr>)"
  by (rule dd_more [OF _ d_handler])

lemma todo_start [simp]: "todo (dd_exec0 as) = as"
  by (simp add: dd_exec0_def)

lemma thread_act_proto: "thread_act a (x\<lparr>proto := p, todo := as\<rparr>) = (thread_act a (x\<lparr>todo := as\<rparr>))\<lparr>proto := p\<rparr>"
  by (cases a) (simp_all add: utter_def)

lemma go_act: "dd_reach env daemon job False (x\<lparr>proto := p\<rparr>) \<Longrightarrow> tpc p = TRun \<Longrightarrow> todo x = a # as \<Longrightarrow>
    dd_reach env daemon job False ((thread_act a (x\<lparr>todo := as\<rparr>))\<lparr>proto := p\<rparr>)"
  using dd_more [OF _ d_act, of env daemon job False "x\<lparr>proto := p\<rparr>" a as]
  by (simp add: answer_def thread_act_proto)

text \<open>The daemon is asked, and the main thread waits.\<close>

abbreviation running :: exec_state where
  "running \<equiv> calm MWaiting TRun None (Some Thr) False False"

lemma run_started: "dd_reach env daemon job hangs ((dd_exec0 (snd job))\<lparr>proto := running\<rparr>)"
proof -
  let ?R = "\<lambda>p. dd_reach env daemon job hangs ((dd_exec0 (snd job))\<lparr>proto := p\<rparr>)"
  have "?R (calm MCreate TNone None None False False)"
    using dd_start [of env daemon job hangs] by (simp add: dd_exec0_def exec0_calm)
  from go_main [OF this calm_main(1)] have "?R (calm MLockWait TStart None None False False)" by simp
  from go_thread [OF this calm_thread(1)] have "?R (calm MLockWait TAsync None None False False)" by simp
  from go_thread [OF this calm_thread(2)] have "?R (calm MLockWait TPushed None None False False)" by simp
  from go_thread [OF this calm_thread(3)] have "?R (calm MLockWait TRun None (Some Thr) False False)" by simp
  from go_main [OF this calm_main(2)] have "?R (calm MPrep TRun (Some Main) (Some Thr) False False)" by simp
  from go_main [OF this calm_main(3)] show ?thesis by simp
qed

text \<open>The thread has made its first \<open>k\<close> outputs.\<close>

lemma run_acts:
  assumes "hangs \<longrightarrow> k = 0"
  shows "\<exists>x. dd_reach env daemon job hangs (x\<lparr>proto := running\<rparr>) \<and> made x (take k (snd job)) \<and>
    said By_Main x = [] \<and> todo x = drop k (snd job)"
  using assms
proof (induction k)
  case 0
  show ?case using run_started [of env daemon job hangs] by (intro exI [of _ "dd_exec0 (snd job)"]) simp
next
  case (Suc k)
  then obtain x where x: "dd_reach env daemon job hangs (x\<lparr>proto := running\<rparr>)" "made x (take k (snd job))"
    "said By_Main x = []" "todo x = drop k (snd job)" by blast
  show ?case
  proof (cases "drop k (snd job)")
    case Nil
    with x show ?thesis by (intro exI [of _ x]) simp
  next
    case (Cons a as)
    let ?y = "thread_act a (x\<lparr>todo := as\<rparr>)"
    have "\<not> hangs" "k < length (snd job)" "snd job ! k = a"
      using Suc.prems Cons by (auto simp: nth_via_drop intro: ccontr)
    moreover have "drop (Suc k) (snd job) = as" using Cons by (simp add: drop_Suc tl_drop [symmetric])
    moreover have "dd_reach env daemon job hangs (?y\<lparr>proto := running\<rparr>)"
      using go_act [where env = env and daemon = daemon and job = job and x = x and p = running and a = a and as = as] x(1,4) Cons \<open>\<not> hangs\<close> by (simp add: calm_def)
    moreover have "made ?y (take k (snd job) @ [a])" by (rule made_act [OF x(2)])
    ultimately show ?thesis using x(3)
      by (intro exI [of _ ?y]) (simp add: take_Suc_conv_app_nth thread_act_said)
  qed
qed

text \<open>The minute is over.\<close>

lemma run_times_out:
  assumes "dd_reach env daemon job hangs (x\<lparr>proto := running\<rparr>)"
  shows "dd_reach env daemon job hangs
    ((utter By_Main (cancel_message env daemon True) x)\<lparr>proto := calm (MDone CMD_WARNING) TKilled None None True True\<rparr>)"
proof -
  let ?R = "\<lambda>p. dd_reach env daemon job hangs (x\<lparr>proto := p\<rparr>)" and ?c = "\<lambda>m w. calm m TRun w (Some Thr) False False"
  let ?S = "\<lambda>p. dd_reach env daemon job hangs ((utter By_Main (cancel_message env daemon True) x)\<lparr>proto := p\<rparr>)"
  from go_main [OF assms calm_main(4)] have "?R (?c (MRelock True) None)" by simp
  from go_main [OF this calm_main(5)] have "?R (?c (MUnlock True) (Some Main))" by simp
  from go_main [OF this calm_main(6)] have "?R (?c (MAlarm True) None)" by simp
  from go_main [OF this calm_main(7)] have "?R (?c (MBranch True) None)" by simp
  from go_main [OF this calm_main(8)] have "?R (?c (MCancel True) None)" by simp
  from go_main [OF this calm_main(10)] have "?R (calm (MLockClean True) TRun None (Some Thr) True False)" by simp
  moreover have "thread_step (answer hangs (fst job)) (calm (MLockClean True) TRun None (Some Thr) True False)
      (calm (MLockClean True) TKilled None None True False)"
    by (subst thread_step.simps) (simp add: calm_def)
  ultimately have "?R (calm (MLockClean True) TKilled None None True False)" by (rule go_thread) (simp add: calm_def)
  from go_main [OF this calm_main(11)] have "?R (calm (MUnlockClean True) TKilled None (Some Main) True False)" by simp
  from go_message [OF this calm_main(12), of True] have "?S (calm MJoin TKilled None None True True)" by simp
  from go_main [OF this calm_main(14)] have "?S (calm MResult TKilled None None True True)" by simp
  from go_main [OF this calm_main(15)] show ?thesis by simp
qed

text \<open>The user has pressed Ctrl-Z.\<close>

definition zed :: "bool \<Rightarrow> main_pc \<Rightarrow> thread_pc \<Rightarrow> owner option \<Rightarrow> owner option \<Rightarrow> bool \<Rightarrow> bool \<Rightarrow> exec_state" where
  "zed z m t w c q f = (calm m t w c q f)\<lparr>gUserInterrupt := True, z_pending := z\<rparr>"

lemma zed_pc [simp]: "mpc (zed z m t w c q f) = m" "tpc (zed z m t w c q f) = t"
  by (simp_all add: zed_def calm_def)

lemma zed_main:
  "main_step (zed z (MRelock e) t None c q f) (zed z (MUnlock e) t (Some Main) c q f)"
  "main_step (zed z (MUnlock e) t w c q f) (zed z (MAlarm e) t None c q f)"
  "main_step (zed z (MAlarm e) t w c q f) (zed z (MBranch e) t w c q f)"
  "main_step (zed z (MBranch False) t w c q f) (zed z (MCancel False) t w c q f)"
  "main_step (zed z (MCancel e) t w c q f) (zed z (MLockClean e) t w c True f)"
  "main_step (zed z (MLockClean e) t w None q f) (zed z (MUnlockClean e) t w (Some Main) q f)"
  "main_step (zed z (MUnlockClean False) t w c q f) (zed z MJoin t w None q f)"
  "main_step (zed z MJoin TKilled w c q f) (zed z MResult TKilled w c q f)"
  "main_step (zed z MJoin TExit w c q f) (zed z MResult TExit w c q f)"
  "main_step (zed z MResult t w c q f) (zed z (MDone CMD_WARNING) t w c q f)"
  by (subst main_step.simps, simp add: zed_def calm_def ex_bool_eq)+

lemma go_ctrl_z:
  assumes "dd_reach env daemon job hangs (x\<lparr>proto := calm m t w c q f\<rparr>)"
  shows "dd_reach env daemon job hangs (x\<lparr>proto := zed True m t w c q f\<rparr>)"
  using assms
proof (rule go_handler)
  show "handler_step env (x\<lparr>proto := calm m t w c q f\<rparr>) (x\<lparr>proto := zed True m t w c q f\<rparr>)"
    using h_ctrl_z [of "x\<lparr>proto := calm m t w c q f\<rparr>" env] by (simp add: zed_def calm_def)
qed

lemma go_wake:
  assumes "dd_reach env daemon job hangs (x\<lparr>proto := zed True MWaiting t None c q f\<rparr>)"
  shows "dd_reach env daemon job hangs (x\<lparr>proto := zed False (MRelock False) t None c q f\<rparr>)"
  using assms
proof (rule go_handler)
  show "handler_step env (x\<lparr>proto := zed True MWaiting t None c q f\<rparr>) (x\<lparr>proto := zed False (MRelock False) t None c q f\<rparr>)"
    using h_ctrl_z_wakes [of "x\<lparr>proto := zed True MWaiting t None c q f\<rparr>" env] by (simp add: zed_def calm_def wake_def)
qed

lemma run_interrupted:
  assumes "dd_reach env daemon job hangs (x\<lparr>proto := running\<rparr>)"
  shows "dd_reach env daemon job hangs
    ((utter By_Main (cancel_message env daemon False) x)\<lparr>proto := zed False (MDone CMD_WARNING) TKilled None None True False\<rparr>)"
proof -
  let ?R = "\<lambda>p. dd_reach env daemon job hangs (x\<lparr>proto := p\<rparr>)" and ?c = "\<lambda>m w. zed False m TRun w (Some Thr) False False"
  let ?S = "\<lambda>p. dd_reach env daemon job hangs ((utter By_Main (cancel_message env daemon False) x)\<lparr>proto := p\<rparr>)"
  from go_wake [OF go_ctrl_z [OF assms]] have "?R (?c (MRelock False) None)" .
  from go_main [OF this zed_main(1)] have "?R (?c (MUnlock False) (Some Main))" by simp
  from go_main [OF this zed_main(2)] have "?R (?c (MAlarm False) None)" by simp
  from go_main [OF this zed_main(3)] have "?R (?c (MBranch False) None)" by simp
  from go_main [OF this zed_main(4)] have "?R (?c (MCancel False) None)" by simp
  from go_main [OF this zed_main(5)] have "?R (zed False (MLockClean False) TRun None (Some Thr) True False)" by simp
  moreover have "thread_step (answer hangs (fst job)) (zed False (MLockClean False) TRun None (Some Thr) True False)
      (zed False (MLockClean False) TKilled None None True False)"
    by (subst thread_step.simps) (simp add: zed_def calm_def)
  ultimately have "?R (zed False (MLockClean False) TKilled None None True False)" by (rule go_thread) simp
  from go_main [OF this zed_main(6)] have "?R (zed False (MUnlockClean False) TKilled None (Some Main) True False)" by simp
  from go_message [OF this zed_main(7), of False] have "?S (zed False MJoin TKilled None None True False)" by simp
  from go_main [OF this zed_main(8)] have "?S (zed False MResult TKilled None None True False)" by simp
  from go_main [OF this zed_main(10)] show ?thesis by simp
qed

text \<open>The daemon answers: the thread signals, and comes to its end before it is joined.\<close>

lemma run_to_join:
  assumes "dd_reach env daemon job False (x\<lparr>proto := running\<rparr>)" "todo x = []"
  shows "dd_reach env daemon job False (x\<lparr>proto := calm MJoin TExit None None False (fst job \<noteq> CMD_SUCCESS)\<rparr>)"
proof -
  let ?f = "fst job \<noteq> CMD_SUCCESS"
  let ?R = "\<lambda>m t w c. dd_reach env daemon job False (x\<lparr>proto := calm m t w c False ?f\<rparr>)"
  have "thread_step (answer False (fst job)) running (calm MWaiting TAfter None (Some Thr) False ?f)"
    by (subst thread_step.simps) (simp add: calm_def answer_def)
  from go_thread [OF assms(1) this] have "?R MWaiting TAfter None (Some Thr)" using assms(2) by simp
  from go_thread [OF this calm_thread(5)] have "?R MWaiting THold (Some Thr) (Some Thr)" by simp
  from go_thread [OF this calm_thread(6)] have "?R (MRelock False) TSignalled (Some Thr) (Some Thr)" by simp
  from go_thread [OF this calm_thread(9)] have "?R (MRelock False) TUnwait None (Some Thr)" by simp
  from go_main [OF this calm_main(5)] have "?R (MUnlock False) TUnwait (Some Main) (Some Thr)" by simp
  from go_main [OF this calm_main(6)] have "?R (MAlarm False) TUnwait None (Some Thr)" by simp
  from go_main [OF this calm_main(7)] have "?R (MBranch False) TUnwait None (Some Thr)" by simp
  from go_main [OF this calm_main(9)] have "?R MJoin TUnwait None (Some Thr)" by simp
  from go_thread [OF this calm_thread(10)] have "?R MJoin TPopped None (Some Thr)" by simp
  from go_thread [OF this calm_thread(11)] show ?thesis by simp
qed

lemma run_ends:
  assumes "dd_reach env daemon job False (x\<lparr>proto := running\<rparr>)" "todo x = []"
  shows "\<exists>p r. dd_reach env daemon job False (x\<lparr>proto := p\<rparr>) \<and> mpc p = MDone r \<and>
    (r = CMD_SUCCESS \<longleftrightarrow> fst job = CMD_SUCCESS \<and> \<not> i)"
proof (cases i)
  case False
  let ?f = "fst job \<noteq> CMD_SUCCESS"
  from go_main [OF run_to_join [OF assms] calm_main(13)]
  have "dd_reach env daemon job False (x\<lparr>proto := calm MResult TExit None None False ?f\<rparr>)" by simp
  from go_main [OF this calm_main(15)] False show ?thesis
    by (intro exI conjI) (assumption | simp)+
next
  case True
  from go_main [OF go_ctrl_z [OF run_to_join [OF assms]] zed_main(9)]
  have "dd_reach env daemon job False (x\<lparr>proto := zed True MResult TExit None None False (fst job \<noteq> CMD_SUCCESS)\<rparr>)" by simp
  from go_main [OF this zed_main(10)] True show ?thesis
    by (intro exI [of _ "zed True (MDone CMD_WARNING) TExit None None False (fst job \<noteq> CMD_SUCCESS)"] exI [of _ CMD_WARNING]) simp
qed

section \<open>The same behaviour\<close>

text \<open>The outcomes that make sense for a daemon that answers or does not: a cancelled thread has
  made the first of its outputs, none if the daemon is silent.\<close>

fun allowed :: "bool \<Rightarrow> dd_act list \<Rightarrow> dd_thread \<Rightarrow> bool" where
  "allowed hangs as NotCreated \<longleftrightarrow> True"
| "allowed hangs as (Ended i) \<longleftrightarrow> \<not> hangs"
| "allowed hangs as (TimedOut out ws n) \<longleftrightarrow> (\<exists>k. (hangs \<longrightarrow> k = 0) \<and>
     out = says (take k as) \<and> ws = puts (take k as) \<and> n = writes (take k as))"
| "allowed hangs as (Cancelled out ws n) \<longleftrightarrow> (\<exists>k. (hangs \<longrightarrow> k = 0) \<and>
     out = says (take k as) \<and> ws = puts (take k as) \<and> n = writes (take k as))"

lemma outcome_allowed: "outcome hangs as p t \<Longrightarrow> allowed hangs as t"
  by (cases t) auto

lemma seen_proto [simp]: "seen daemon (x\<lparr>proto := p\<rparr>) s = seen daemon x s"
  by (simp add: seen_def)

lemma seen_made:
  "made x as \<Longrightarrow> seen daemon x s =
     say (said By_Main x) (partly (says as) (puts as) (writes as) (s\<lparr>asked := asked s @ [daemon]\<rparr>))"
  by (simp add: seen_def made_def)

lemma seen_message:
  assumes "made x as" "said By_Main x = []"
  shows "seen daemon (utter By_Main ts x) s =
     say ts (partly (says as) (puts as) (writes as) (s\<lparr>asked := asked s @ [daemon]\<rparr>))"
  using seen_made [of "utter By_Main ts x" as daemon s] assms by simp

lemma allowed_reached:
  assumes job: "job = daemon_acts env daemon cmd_type fd (nwrites s)" and t: "allowed hangs (snd job) t"
  shows "\<exists>x r. dd_reach env daemon job hangs x \<and> mpc (proto x) = MDone r \<and>
    create_with env t daemon cmd_type fd s = (r = CMD_SUCCESS, seen daemon x s)"
proof (cases t)
  case NotCreated
  let ?x = "(dd_exec0 (snd job))\<lparr>proto := calm (MDone CMD_WARNING) TNone None None False False\<rparr>"
  have "main_step (calm MCreate TNone None None False False) (calm (MDone CMD_WARNING) TNone None None False False)"
    by (subst main_step.simps) (simp add: calm_def)
  then have "dd_reach env daemon job hangs ?x"
    using go_main [where x = "dd_exec0 (snd job)" and env = env and daemon = daemon and job = job and hangs = hangs] dd_start [of env daemon job hangs]
    by (simp add: dd_exec0_def exec0_calm)
  moreover have "made (dd_exec0 (snd job)) []" by simp
  ultimately show ?thesis
    using NotCreated seen_made [of "dd_exec0 (snd job)" "[]" daemon s]
    by (intro exI [of _ ?x] exI [of _ CMD_WARNING]) (simp add: create_cases say_def partly_def)
next
  case (Ended i)
  with t have "\<not> hangs" by simp
  obtain x where x: "dd_reach env daemon job False (x\<lparr>proto := running\<rparr>)" "made x (snd job)" "said By_Main x = []" "todo x = []"
    using run_acts [of False "length (snd job)" env daemon job] by auto
  obtain p r where p: "dd_reach env daemon job False (x\<lparr>proto := p\<rparr>)" "mpc p = MDone r"
    "r = CMD_SUCCESS \<longleftrightarrow> fst job = CMD_SUCCESS \<and> \<not> i"
    using run_ends [OF x(1,4), of i] by blast
  show ?thesis
    using p \<open>\<not> hangs\<close> Ended seen_made [OF x(2), of daemon s] x(3)
    by (intro exI [of _ "x\<lparr>proto := p\<rparr>"] exI [of _ r]) (simp add: create_ended [OF job] say_def)
next
  case (TimedOut out ws n)
  with t obtain k where k: "hangs \<longrightarrow> k = 0" "out = says (take k (snd job))" "ws = puts (take k (snd job))"
    "n = writes (take k (snd job))" by auto
  obtain x where x: "dd_reach env daemon job hangs (x\<lparr>proto := running\<rparr>)" "made x (take k (snd job))" "said By_Main x = []"
    using run_acts [OF k(1)] by blast
  show ?thesis
    using run_times_out [OF x(1)] seen_message [OF x(2,3), of daemon "cancel_message env daemon True" s] TimedOut k
    by (intro exI conjI) (assumption | simp add: create_cases)+
next
  case (Cancelled out ws n)
  with t obtain k where k: "hangs \<longrightarrow> k = 0" "out = says (take k (snd job))" "ws = puts (take k (snd job))"
    "n = writes (take k (snd job))" by auto
  obtain x where x: "dd_reach env daemon job hangs (x\<lparr>proto := running\<rparr>)" "made x (take k (snd job))" "said By_Main x = []"
    using run_acts [OF k(1)] by blast
  show ?thesis
    using run_interrupted [OF x(1)] seen_message [OF x(2,3), of daemon "cancel_message env daemon False" s] Cancelled k
    by (intro exI conjI) (assumption | simp add: create_cases)+
qed


end
