(* ===== verification/Diag_Handler.thy ===== *)
theory Diag_Handler
  imports Diag_Dump_Correct
begin

text \<open>
  \<open>src/include/diag_dump.h\<close>: the other end of diag-dump. A daemon expands
  \<open>INIT_DIAG_DUMP_BASIC\<close> with the name of its callback, which registers the handler
  \<open>diag_handler_cb\<close> for the command \<open>dumpdiagbasic\<close>. The callback is a parameter: for the name of
  a feature, the text that it leaves in \<open>buf\<close>, if any. The properties connect the handler with
  the command of the vtysh.
\<close>

section \<open>The handler\<close>

text \<open>The reply to a request, over \<open>unixctl_command_reply\<close> or \<open>unixctl_command_reply_error\<close>.\<close>

datatype reply = Reply string | Reply_Error string

definition DIAG_DUMP_BASIC_CMD :: string where "DIAG_DUMP_BASIC_CMD = ''dumpdiagbasic''"

abbreviation DIAG_BASIC_MAX_FEATURE_LEN :: nat where "DIAG_BASIC_MAX_FEATURE_LEN \<equiv> 30"

text \<open>\<open>__STRCMP\<close>, \<open>__STRLEN\<close> and \<open>__VALIDATE_FEATURE\<close>.\<close>

definition same_str :: "string option \<Rightarrow> string option \<Rightarrow> bool" where
  "same_str x y \<longleftrightarrow> x \<noteq> None \<and> y \<noteq> None \<and> x = y"

definition str_len :: "string option \<Rightarrow> nat" where
  "str_len x = (case x of Some s \<Rightarrow> length s | None \<Rightarrow> 0)"

definition validate_feature :: "string option \<Rightarrow> bool" where
  "validate_feature x \<longleftrightarrow> str_len x \<le> DIAG_BASIC_MAX_FEATURE_LEN \<and> 0 < str_len x"

text \<open>The condition of the handler, from left to right with its short circuits. \<open>argv\<close> may be
  NULL, and so may be each of its strings.\<close>

definition valid_request :: "int \<Rightarrow> string option list option \<Rightarrow> bool cres" where
  "valid_request argc argv =
     (if argc \<noteq> 3 then Inr False
      else case argv of
        None \<Rightarrow> Inr False
      | Some v \<Rightarrow>
          bind_res (arg v 0) (\<lambda>a. if \<not> same_str a (Some DIAG_DUMP_BASIC_CMD) then Inr False
            else bind_res (arg v 1) (\<lambda>b. if \<not> same_str b (Some DIAG_BASIC) then Inr False
              else bind_res (arg v 2) (\<lambda>c. Inr (validate_feature c)))))"

text \<open>\<open>snprintf(err_desc, sizeof(err_desc), ...)\<close>.\<close>

definition err_desc :: "string \<Rightarrow> string" where
  "err_desc t = take 199 t"

definition refused_name :: "int \<Rightarrow> string option list option \<Rightarrow> string cres" where
  "refused_name argc argv =
     (if argc \<ge> 3
      then case argv of
          None \<Rightarrow> Inr ''NULL''
        | Some v \<Rightarrow> bind_res (arg v 2) (\<lambda>c. Inr (case c of Some s \<Rightarrow> s | None \<Rightarrow> ''NULL''))
      else Inr ''NULL'')"

definition diag_handler_cb ::
    "(string \<Rightarrow> string option) \<Rightarrow> int \<Rightarrow> string option list option \<Rightarrow> reply cres" where
  "diag_handler_cb CB_BASIC argc argv =
     bind_res (valid_request argc argv) (\<lambda>ok.
       if ok then
         (case argv of
            None \<Rightarrow> Inl NullDeref
          | Some v \<Rightarrow> bind_res (arg v 2) (\<lambda>c.
              (case c of
                 None \<Rightarrow> Inl NullDeref
               | Some f \<Rightarrow>
                   (case CB_BASIC f of
                      Some buf \<Rightarrow> Inr (Reply buf)
                    | None \<Rightarrow> Inr (Reply_Error (err_desc (f @ '' feature failed to provide basic diagnostic data'')))))))
       else bind_res (refused_name argc argv) (\<lambda>name.
         Inr (Reply_Error (err_desc (''Diagdump failed for feature '' @ name @ '', reason: invalid parameter'')))))"

text \<open>What a request is answered with, in one piece.\<close>

definition answer_to :: "(string \<Rightarrow> string option) \<Rightarrow> string \<Rightarrow> string option" where
  "answer_to CB f = (if f \<noteq> [] \<and> length f \<le> DIAG_BASIC_MAX_FEATURE_LEN then CB f else None)"

lemma valid_request_3:
  "valid_request 3 (Some [a, b, c]) = Inr (a = Some DIAG_DUMP_BASIC_CMD \<and> b = Some DIAG_BASIC \<and> validate_feature c)"
  by (auto simp: valid_request_def same_str_def bind_res_def)

lemma handler_on_request:
  "diag_handler_cb CB 3 (Some [Some DIAG_DUMP_BASIC_CMD, Some DIAG_BASIC, Some f]) =
     Inr (case answer_to CB f of
       Some buf \<Rightarrow> Reply buf
     | None \<Rightarrow> Reply_Error (err_desc
         (if validate_feature (Some f) then f @ '' feature failed to provide basic diagnostic data''
          else ''Diagdump failed for feature '' @ f @ '', reason: invalid parameter'')))"
  by (auto simp: diag_handler_cb_def valid_request_3 refused_name_def answer_to_def validate_feature_def str_len_def
      bind_res_def split: option.split)

lemma handler_never_faults:
  assumes "argc = int (length v)"
  shows "\<exists>r. diag_handler_cb CB argc (Some v) = Inr r \<and>
    (case r of
       Reply buf \<Rightarrow> (\<exists>f. v = [Some DIAG_DUMP_BASIC_CMD, Some DIAG_BASIC, Some f] \<and> answer_to CB f = Some buf)
     | Reply_Error e \<Rightarrow> length e \<le> 199 \<and>
         (\<forall>f. v = [Some DIAG_DUMP_BASIC_CMD, Some DIAG_BASIC, Some f] \<longrightarrow> answer_to CB f = None))"
proof (cases "length v = 3")
  case True
  then obtain a b c where v: "v = [a, b, c]" by (auto simp: length_Suc_conv eval_nat_numeral)
  have argc: "argc = 3" using assms v by simp
  show ?thesis
  proof (cases "a = Some DIAG_DUMP_BASIC_CMD \<and> b = Some DIAG_BASIC \<and> validate_feature c")
    case True
    then obtain f where "c = Some f" by (cases c) (auto simp: validate_feature_def str_len_def)
    with True v argc show ?thesis
      using handler_on_request [of CB f] by (auto simp: err_desc_def split: option.split)
  next
    case False
    then have "valid_request 3 (Some [a, b, c]) = Inr False" by (simp only: valid_request_3 simp_thms)
    moreover have "answer_to CB f = None" if "[a, b, c] = [Some DIAG_DUMP_BASIC_CMD, Some DIAG_BASIC, Some f]" for f
      using False that by (auto simp: answer_to_def validate_feature_def str_len_def)
    ultimately show ?thesis
      unfolding v argc diag_handler_cb_def by (auto simp: refused_name_def err_desc_def bind_res_def)
  qed
next
  case False
  then have "valid_request argc (Some v) = Inr False" using assms by (simp add: valid_request_def)
  moreover have "\<exists>name. refused_name argc (Some v) = Inr name"
    using assms by (auto simp: refused_name_def bind_res_def)
  ultimately show ?thesis using False by (auto simp: diag_handler_cb_def err_desc_def bind_res_def)
qed

section \<open>Both ends together\<close>

text \<open>What \<open>unixctl_client_transact\<close> hands to its caller for a reply.\<close>

definition transacted :: "reply cres \<Rightarrow> int \<times> string option \<times> string option" where
  "transacted r = (case r of
     Inr (Reply t) \<Rightarrow> (0, Some t, None)
   | Inr (Reply_Error e) \<Rightarrow> (0, None, Some e)
   | Inl _ \<Rightarrow> (1, None, None))"

text \<open>The documented behaviour of unixctl between the two: the server calls the handler that is
  registered for the command with the command and its two parameters as \<open>argv\<close>, and the client
  gets the reply. \<open>cb\<close> is the callback of the daemon at a socket.\<close>

definition serves_dumps :: "dd_env \<Rightarrow> (string \<Rightarrow> string \<Rightarrow> string option) \<Rightarrow> bool" where
  "serves_dumps env cb \<longleftrightarrow> (\<forall>sock p q. dd_transact env sock DIAG_DUMP_BASIC_CMD [p, q] =
     transacted (diag_handler_cb (cb sock) 3 (Some [Some DIAG_DUMP_BASIC_CMD, Some p, Some q])))"

definition callback_text :: "dd_env \<Rightarrow> (string \<Rightarrow> string \<Rightarrow> string option) \<Rightarrow> string \<Rightarrow> string \<Rightarrow> string option" where
  "callback_text env cb name d = (case connect_to_daemon (dd_conn env) (Some d) of
     None \<Rightarrow> None
   | Some sock \<Rightarrow> answer_to (cb sock) name)"

lemma answer_of_callback:
  assumes "serves_dumps env cb" "connect_to_daemon (dd_conn env) (Some d) = Some sock"
  shows "daemon_answer env name d = Some (callback_text env cb name d \<noteq> None, callback_text env cb name d)"
proof -
  have "dd_transact env sock ''dumpdiagbasic'' [DIAG_BASIC, name] =
      transacted (diag_handler_cb (cb sock) 3 (Some [Some DIAG_DUMP_BASIC_CMD, Some DIAG_BASIC, Some name]))"
    using assms(1) by (simp add: serves_dumps_def DIAG_DUMP_BASIC_CMD_def)
  then show ?thesis
    using assms(2) handler_on_request [of "cb sock" name]
    by (simp add: daemon_answer_def callback_text_def transacted_def split: option.split)
qed

text \<open>What the console shows for one daemon.\<close>

definition dump_of :: "dd_env \<Rightarrow> (string \<Rightarrow> string \<Rightarrow> string option) \<Rightarrow> string \<Rightarrow> string \<Rightarrow> string list" where
  "dump_of env cb name d = (case callback_text env cb name d of
     None \<Rightarrow> []
   | Some t \<Rightarrow> daemon_console env d t)"

text \<open>C36: The handler that a daemon gets from the macro answers every request once and inside its
  arrays, whatever the number and the contents of the arguments: with the text of the callback
  when the request is the one of diag-dump for a feature name of 1 to 30 characters and the
  callback leaves a text, and else with an error of at most 199 characters.\<close>

theorem diag_handler_answers:
  assumes "argc = int (length v)"
  shows "\<exists>r. diag_handler_cb CB argc (Some v) = Inr r \<and>
    (case r of
       Reply buf \<Rightarrow> (\<exists>f. v = [Some DIAG_DUMP_BASIC_CMD, Some DIAG_BASIC, Some f] \<and> answer_to CB f = Some buf)
     | Reply_Error e \<Rightarrow> length e \<le> 199 \<and>
         (\<forall>f. v = [Some DIAG_DUMP_BASIC_CMD, Some DIAG_BASIC, Some f] \<longrightarrow> answer_to CB f = None))"
  by (rule handler_never_faults [OF assms])

theorem diag_handler_answers_witness:
  "\<exists>r. diag_handler_cb (\<lambda>_. None) 1 (Some [None]) = Inr r \<and>
    (case r of
       Reply buf \<Rightarrow> (\<exists>f. [None] = [Some DIAG_DUMP_BASIC_CMD, Some DIAG_BASIC, Some f] \<and> answer_to (\<lambda>_. None) f = Some buf)
     | Reply_Error e \<Rightarrow> length e \<le> 199 \<and>
         (\<forall>f. [None] = [Some DIAG_DUMP_BASIC_CMD, Some DIAG_BASIC, Some f] \<longrightarrow> answer_to (\<lambda>_. None) f = None))"
  by (rule diag_handler_answers) simp

text \<open>C22: diag-dump from end to end. Each daemon of the feature runs the handler of the macro; with
  no disturbance the console shows, between the start and the end line of the feature, the texts
  that the callbacks of the daemons leave for it, in the order of the file, each framed by the
  name of its daemon. The last line counts the daemons with such a text. A feature name of
  more than 30 characters never reaches a callback, so that every daemon counts as failed.\<close>

theorem diag_dump_shows_callbacks:
  assumes "undisturbed env" "loads env (dheap s) h fs" "find (\<lambda>f. fs_name f = name) fs = Some f"
    and "serves_dumps env cb" "\<forall>d\<in>set (selected fs name). connect_to_daemon (dd_conn env) (Some d) \<noteq> None"
  shows "vtysh_diag_dump_show env name None s = Some (Inr (Returned CMD_SUCCESS,
    s\<lparr>dheap := h, asked := asked s @ selected fs name, dsigs := dsigs s - all_sigs,
      console := console s @
        [dd_equal @ dd_nl env, (start_text env name @ '' '') @ dd_nl env, dd_equal @ dd_nl env] @
        concat (map (dump_of env cb name) (selected fs name)) @
        [dd_equal @ dd_nl env, (''[End] Feature '' @ name @ '' '') @ dd_nl env, dd_equal @ dd_nl env,
         dd_summary env name (length (selected fs name))
           (length (filter (\<lambda>d. callback_text env cb name d \<noteq> None) (selected fs name)))]\<rparr>))"
proof -
  let ?ds = "selected fs name"
  have "daemon_answer env name d = Some (callback_text env cb name d \<noteq> None, callback_text env cb name d)"
    if "d \<in> set ?ds" for d
    using answer_of_callback [OF assms(4)] assms(5) that by blast
  then have m: "map (console_of env name) ?ds = map (dump_of env cb name) ?ds"
    and n: "filter (responds env name) ?ds = filter (\<lambda>d. callback_text env cb name d \<noteq> None) ?ds"
    by (auto simp: console_of_def dump_of_def responds_def intro!: filter_cong split: option.split)
  have run: "vtysh_diag_dump_show env name None s =
      Some (Inr (Returned CMD_SUCCESS, dump_result env name None ?ds (s\<lparr>dheap := h\<rparr>)))"
    using assms(1-3) by (intro show_undisturbed) (simp_all add: file_step_def)
  show ?thesis unfolding run dump_result_def console_report_def m n by simp
qed

text \<open>Daemons that leave a text for the feature \<open>routing\<close> only.\<close>

definition demo_cb :: "string \<Rightarrow> string \<Rightarrow> string option" where
  "demo_cb sock f = (if f = ''routing'' then Some ''up'' else None)"

definition demo_served :: dd_env where
  "demo_served = demo_dd\<lparr>dd_transact := \<lambda>sock cmd ps.
     transacted (diag_handler_cb (demo_cb sock) (int (length ps) + 1) (Some (Some cmd # map Some ps)))\<rparr>"

lemma demo_serves: "serves_dumps demo_served demo_cb"
  by (simp add: serves_dumps_def demo_served_def)

theorem diag_dump_shows_callbacks_witness:
  "\<exists>h. vtysh_diag_dump_show demo_served ''routing'' None dd_run0 = Some (Inr (Returned CMD_SUCCESS,
    dd_run0\<lparr>dheap := h, asked := [''ops-ospfd''], dsigs := {},
      console := [dd_equal, ''[Start] Feature routing  '', dd_equal] @ daemon_console demo_served ''ops-ospfd'' ''up'' @
        [dd_equal, ''[End] Feature routing '', dd_equal, dd_summary demo_served ''routing'' 1 1]\<rparr>))"
proof -
  obtain h where l: "loads demo_served (dheap dd_run0) h [routing_feature]"
    using demo_loads [of demo_served] by (auto simp: demo_served_def demo_dd_def dd_run0_def)
  have u: "undisturbed demo_served" by (simp add: undisturbed_def demo_served_def demo_dd_def)
  have c: "connect_to_daemon (dd_conn demo_served) (Some d) \<noteq> None" for d
    by (simp add: demo_served_def demo_dd_def demo_daemons_def connect_to_daemon_def)
  have t: "callback_text demo_served demo_cb ''routing'' d = Some ''up''" for d
    using c [of d] by (auto simp: callback_text_def answer_to_def demo_cb_def)
  have e: "dd_nl demo_served = []" "start_text demo_served ''routing'' = ''[Start] Feature routing ''"
    by (simp_all add: demo_served_def demo_dd_def start_text_def vty_diag_print_time_def)
  have r: "dsigs dd_run0 = {}" "console dd_run0 = []" "asked dd_run0 = []" by (simp_all add: dd_run0_def)
  from diag_dump_shows_callbacks [OF u l demo_find demo_serves] c
  show ?thesis by (intro exI [of _ h]) (simp add: demo_selected dump_of_def t e r)
qed

end
