(* ===== verification/Captures.thy ===== *)
theory Captures
  imports Regex CLib
begin

text \<open>
  What the core dump files use of \<open>regexec\<close> and \<open>glob\<close> beyond a yes or no: the offsets of the
  groups of a match, for expressions that are a sequence of literals and groups, and the file
  names that a pattern selects.
\<close>

section \<open>Groups\<close>

fun first_some :: "('a \<Rightarrow> 'b option) \<Rightarrow> 'a list \<Rightarrow> 'b option" where
  "first_some f [] = None"
| "first_some f (x # xs) = (case f x of None \<Rightarrow> first_some f xs | Some y \<Rightarrow> Some y)"

lemma first_some_None: "first_some f xs = None \<longleftrightarrow> (\<forall>x\<in>set xs. f x = None)"
  by (induction xs) (auto split: option.split)

lemma first_some_skip: "\<forall>x\<in>set xs. f x = None \<Longrightarrow> first_some f (xs @ ys) = first_some f ys"
  by (induction xs) auto

text \<open>The greatest \<open>k\<close> up to \<open>n\<close> with a result, the least one from 0.\<close>

definition longest :: "(nat \<Rightarrow> 'b option) \<Rightarrow> nat \<Rightarrow> 'b option" where
  "longest f n = first_some f (rev [0..<Suc n])"

lemma longest_None: "longest f n = None \<longleftrightarrow> (\<forall>k\<le>n. f k = None)"
  by (auto simp: longest_def first_some_None less_Suc_eq_le simp del: upt_Suc)

lemma upt_split: "k \<le> n \<Longrightarrow> [0..<Suc n] = [0..<k] @ k # [Suc k..<Suc n]"
  using upt_add_eq_append [of 0 k "Suc n - k"] upt_conv_Cons [of k "Suc n"] by simp

lemma longest_eq:
  assumes "k \<le> n" "f k = Some y" "\<forall>j. k < j \<and> j \<le> n \<longrightarrow> f j = None"
  shows "longest f n = Some y"
proof -
  note upt_split [OF assms(1)]
  moreover have "\<forall>j\<in>set (rev [Suc k..<Suc n]). f j = None" using assms(3) by (auto simp del: upt_Suc)
  ultimately show ?thesis using assms(2) by (simp add: longest_def first_some_skip del: upt_Suc)
qed

lemma first_some_eq:
  assumes "k \<le> n" "f k = Some y" "\<forall>j<k. f j = None"
  shows "first_some f [0..<Suc n] = Some y"
proof -
  note upt_split [OF assms(1)]
  moreover have "\<forall>j\<in>set [0..<k]. f j = None" using assms(3) by simp
  ultimately show ?thesis using assms(2) by (simp add: first_some_skip del: upt_Suc)
qed

text \<open>An expression is a sequence of parts, each a group or not. They divide the matched text;
  an earlier part takes as much as it can. The result are the offsets \<open>rm_so\<close> and \<open>rm_eo\<close> of the
  groups.\<close>

type_synonym parts = "(bool \<times> rx) list"

definition parts_rx :: "parts \<Rightarrow> rx" where
  "parts_rx ps = foldr (\<lambda>(_, r). Cat r) ps Eps"

primrec divide :: "parts \<Rightarrow> nat \<Rightarrow> string \<Rightarrow> (nat \<times> nat) list option" where
  "divide [] pos s = (if s = [] then Some [] else None)"
| "divide (p # ps) pos s = longest (\<lambda>k.
     if rx_match (snd p) (take k s)
     then map_option (\<lambda>gs. if fst p then (pos, pos + k) # gs else gs) (divide ps (pos + k) (drop k s))
     else None) (length s)"

text \<open>\<open>regexec\<close> with an array of matches: the leftmost start, then the longest match. The first
  entry is the whole match.\<close>

definition regexec_groups :: "parts \<Rightarrow> string \<Rightarrow> (nat \<times> nat) list option" where
  "regexec_groups ps s = first_some (\<lambda>i. longest (\<lambda>k.
     map_option (\<lambda>gs. (i, i + k) # gs) (divide ps i (take k (drop i s)))) (length s - i)) [0..<Suc (length s)]"

lemma divide_None: "divide ps pos s = None \<longleftrightarrow> s \<notin> lang (parts_rx ps)"
proof (induction ps arbitrary: pos s)
  case Nil
  show ?case by (simp add: parts_rx_def)
next
  case (Cons p ps)
  have "lang (parts_rx (p # ps)) = conc (lang (snd p)) (lang (parts_rx ps))"
    by (simp add: parts_rx_def split: prod.split)
  moreover have "s \<in> conc A B \<longleftrightarrow> (\<exists>k\<le>length s. take k s \<in> A \<and> drop k s \<in> B)" for A B
  proof
    assume "s \<in> conc A B"
    then obtain u v where "s = u @ v" "u \<in> A" "v \<in> B" by (auto simp: conc_def)
    then show "\<exists>k\<le>length s. take k s \<in> A \<and> drop k s \<in> B" by (intro exI [of _ "length u"]) simp
  next
    assume "\<exists>k\<le>length s. take k s \<in> A \<and> drop k s \<in> B"
    then obtain k where "take k s \<in> A" "drop k s \<in> B" by blast
    then show "s \<in> conc A B" unfolding conc_def by (metis (mono_tags, lifting) append_take_drop_id mem_Collect_eq)
  qed
  ultimately show ?case by (auto simp: longest_None Cons.IH rx_match_lang)
qed

text \<open>The offsets exist exactly when the expression matches somewhere.\<close>

lemma regexec_groups_regexec:
  "regexec_groups ps s \<noteq> None \<longleftrightarrow> regexec \<lparr>ere_bol = False, ere_body = parts_rx ps, ere_eol = False\<rparr> s"
proof -
  have "regexec_groups ps s \<noteq> None \<longleftrightarrow>
      (\<exists>i k. i \<le> length s \<and> k \<le> length s - i \<and> take k (drop i s) \<in> lang (parts_rx ps))"
    by (auto simp: regexec_groups_def first_some_None longest_None divide_None less_Suc_eq_le simp del: upt_Suc)
  also have "\<dots> \<longleftrightarrow> (\<exists>i j. i \<le> j \<and> j \<le> length s \<and> take (j - i) (drop i s) \<in> lang (parts_rx ps))"
  proof
    assume "\<exists>i k. i \<le> length s \<and> k \<le> length s - i \<and> take k (drop i s) \<in> lang (parts_rx ps)"
    then obtain i k where "i \<le> length s" "k \<le> length s - i" "take k (drop i s) \<in> lang (parts_rx ps)" by blast
    then show "\<exists>i j. i \<le> j \<and> j \<le> length s \<and> take (j - i) (drop i s) \<in> lang (parts_rx ps)"
      by (intro exI [of _ i] exI [of _ "i + k"]) auto
  next
    assume "\<exists>i j. i \<le> j \<and> j \<le> length s \<and> take (j - i) (drop i s) \<in> lang (parts_rx ps)"
    then show "\<exists>i k. i \<le> length s \<and> k \<le> length s - i \<and> take k (drop i s) \<in> lang (parts_rx ps)"
      by (meson diff_le_mono order_trans)
  qed
  finally show ?thesis by (simp add: regexec_iff)
qed

section \<open>Parts of known length\<close>

text \<open>A part that matches words of one length only takes this length.\<close>

lemma divide_fixed:
  assumes "\<And>w. w \<in> lang r \<Longrightarrow> length w = n"
  shows "divide ((g, r) # ps) pos s =
    (if n \<le> length s \<and> take n s \<in> lang r
     then map_option (\<lambda>gs. if g then (pos, pos + n) # gs else gs) (divide ps (pos + n) (drop n s)) else None)"
proof -
  let ?f = "\<lambda>k. if rx_match (snd (g, r)) (take k s)
     then map_option (\<lambda>gs. if fst (g, r) then (pos, pos + k) # gs else gs) (divide ps (pos + k) (drop k s)) else None"
  have d: "divide ((g, r) # ps) pos s = longest ?f (length s)" by (simp only: divide.simps)
  have other: "?f k = None" if "k \<le> length s" "k \<noteq> n" for k
    using assms [of "take k s"] that by (auto simp: rx_match_lang)
  show ?thesis
  proof (cases "n \<le> length s \<and> take n s \<in> lang r \<and> ?f n \<noteq> None")
    case True
    then obtain y where y: "?f n = Some y" by blast
    have l: "longest ?f (length s) = Some y" using True y other by (intro longest_eq [of n]) auto
    have m: "map_option (\<lambda>gs. if g then (pos, pos + n) # gs else gs) (divide ps (pos + n) (drop n s)) = Some y"
      using True y by (simp add: rx_match_lang)
    show ?thesis unfolding d l m using True by simp
  next
    case False
    have "longest ?f (length s) = None" unfolding longest_None
    proof (intro allI impI)
      fix k assume k: "k \<le> length s"
      show "?f k = None" using False k other [OF k] by (cases "k = n") (auto simp: rx_match_lang)
    qed
    with False show ?thesis unfolding d by (auto simp: rx_match_lang)
  qed
qed

text \<open>A part of characters that the rest of the text does not start with takes them all.\<close>

lemma divide_run:
  assumes r: "\<And>w. w \<in> lang r \<longleftrightarrow> P (length w) \<and> set w \<subseteq> A"
    and u: "P (length u)" "set u \<subseteq> A"
    and v: "v = [] \<or> hd v \<notin> A" "divide ps (pos + length u) v = Some gs"
  shows "divide ((g, r) # ps) pos (u @ v) = Some (if g then (pos, pos + length u) # gs else gs)"
  unfolding divide.simps
proof (rule longest_eq [of "length u"])
  show "length u \<le> length (u @ v)" by simp
  show "(if rx_match (snd (g, r)) (take (length u) (u @ v))
     then map_option (\<lambda>gs. if fst (g, r) then (pos, pos + length u) # gs else gs)
       (divide ps (pos + length u) (drop (length u) (u @ v))) else None) =
     Some (if g then (pos, pos + length u) # gs else gs)"
    using r [of u] u v(2) by (simp add: rx_match_lang)
  show "\<forall>j. length u < j \<and> j \<le> length (u @ v) \<longrightarrow> (if rx_match (snd (g, r)) (take j (u @ v))
     then map_option (\<lambda>gs. if fst (g, r) then (pos, pos + j) # gs else gs) (divide ps (pos + j) (drop j (u @ v))) else None) = None"
  proof (intro allI impI, elim conjE)
    fix j assume j: "length u < j" "j \<le> length (u @ v)"
    then obtain c v' where c: "v = c # v'" "c \<notin> A" using v(1) by (cases v) auto
    have "c \<in> set (take j (u @ v))" using j(1) c(1) by (cases "j - length u") (simp_all add: take_append)
    with c(2) have "take j (u @ v) \<notin> lang r" using r by blast
    then show "(if rx_match (snd (g, r)) (take j (u @ v))
       then map_option (\<lambda>gs. if fst (g, r) then (pos, pos + j) # gs else gs) (divide ps (pos + j) (drop j (u @ v))) else None) = None"
      by (simp add: rx_match_lang)
  qed
qed

section \<open>Patterns of file names\<close>

text \<open>\<open>glob\<close> with the operators that the sources use: \<open>*\<close>, a range in brackets and the backslash.
  A star does not match a slash; it never stands at the start of a name there, so hidden
  files need no rule.\<close>

function glob_match :: "string \<Rightarrow> string \<Rightarrow> bool" where
  "glob_match p s = (case p of
     [] \<Rightarrow> s = []
   | c # q \<Rightarrow>
       if c = CHR ''*''
       then (if glob_match q s then True else if s = [] then False else hd s \<noteq> CHR ''/'' \<and> glob_match p (tl s))
       else if s = [] then False
       else if c = CHR 0x5C then q \<noteq> [] \<and> hd q = hd s \<and> glob_match (tl q) (tl s)
       else if c = CHR ''['' then
         4 \<le> length q \<and> of_char (q ! 0) \<le> (of_char (hd s) :: nat) \<and> (of_char (hd s) :: nat) \<le> of_char (q ! 2) \<and>
         glob_match (drop 4 q) (tl s)
       else c = hd s \<and> glob_match q (tl s))"
  by pat_completeness auto

termination by (relation "measure (\<lambda>(p, s). length p + length s)") auto

declare glob_match.simps [simp del]

definition glob_plain :: "char \<Rightarrow> bool" where
  "glob_plain c \<longleftrightarrow> c \<notin> {CHR ''*'', CHR 0x5C, CHR ''['', CHR ''?'', CHR ''{''}"

lemma glob_Nil [simp]: "glob_match [] s \<longleftrightarrow> s = []"
  by (simp add: glob_match.simps)

lemma glob_plain_Cons: "glob_plain c \<Longrightarrow> glob_match (c # q) s \<longleftrightarrow> (\<exists>t. s = c # t \<and> glob_match q t)"
  unfolding glob_match.simps [of "c # q" s] by (cases s) (auto simp: glob_plain_def)

lemma glob_escaped: "glob_match (CHR 0x5C # c # q) s \<longleftrightarrow> (\<exists>t. s = c # t \<and> glob_match q t)"
  unfolding glob_match.simps [of "CHR 0x5C # c # q" s] by (cases s) auto

lemma glob_text: "\<forall>c\<in>set u. glob_plain c \<Longrightarrow> glob_match (u @ q) s \<longleftrightarrow> (\<exists>t. s = u @ t \<and> glob_match q t)"
  by (induction u arbitrary: s) (auto simp: glob_plain_Cons)

lemma glob_star: "glob_match (CHR ''*'' # q) s \<longleftrightarrow> (\<exists>u t. s = u @ t \<and> CHR ''/'' \<notin> set u \<and> glob_match q t)"
proof (induction s)
  case Nil
  show ?case by (simp add: glob_match.simps [of "CHR ''*'' # q" "[]"])
next
  case (Cons x s)
  have "glob_match (CHR ''*'' # q) (x # s) \<longleftrightarrow> glob_match q (x # s) \<or> x \<noteq> CHR ''/'' \<and> glob_match (CHR ''*'' # q) s"
    by (simp add: glob_match.simps [of "CHR ''*'' # q" "x # s"])
  also have "\<dots> \<longleftrightarrow> (\<exists>u t. x # s = u @ t \<and> CHR ''/'' \<notin> set u \<and> glob_match q t)"
  proof
    assume "glob_match q (x # s) \<or> x \<noteq> CHR ''/'' \<and> glob_match (CHR ''*'' # q) s"
    then show "\<exists>u t. x # s = u @ t \<and> CHR ''/'' \<notin> set u \<and> glob_match q t"
    proof
      assume "glob_match q (x # s)"
      then show ?thesis by (intro exI [of _ "[]"] exI [of _ "x # s"]) simp
    next
      assume "x \<noteq> CHR ''/'' \<and> glob_match (CHR ''*'' # q) s"
      then obtain u t where "x \<noteq> CHR ''/''" "s = u @ t" "CHR ''/'' \<notin> set u" "glob_match q t" using Cons.IH by blast
      then show ?thesis by (intro exI [of _ "x # u"] exI [of _ t]) auto
    qed
  next
    assume "\<exists>u t. x # s = u @ t \<and> CHR ''/'' \<notin> set u \<and> glob_match q t"
    then obtain u t where "x # s = u @ t" "CHR ''/'' \<notin> set u" "glob_match q t" by blast
    then show "glob_match q (x # s) \<or> x \<noteq> CHR ''/'' \<and> glob_match (CHR ''*'' # q) s"
      using Cons.IH by (cases u) auto
  qed
  finally show ?case .
qed

lemma glob_range: "glob_match (CHR ''['' # a # b # d # e # q) s \<longleftrightarrow>
    (\<exists>x t. s = x # t \<and> of_char a \<le> (of_char x :: nat) \<and> (of_char x :: nat) \<le> of_char d \<and> glob_match q t)"
  unfolding glob_match.simps [of "CHR ''['' # a # b # d # e # q" s] by (cases s) auto

section \<open>What a match says of its groups\<close>

primrec offsets :: "parts \<Rightarrow> nat \<Rightarrow> string list \<Rightarrow> (nat \<times> nat) list" where
  "offsets [] pos ws = []"
| "offsets (p # ps) pos ws = (case ws of
     [] \<Rightarrow> []
   | w # vs \<Rightarrow> (if fst p then [(pos, pos + length w)] else []) @ offsets ps (pos + length w) vs)"

lemma longest_Some: "longest f n = Some y \<Longrightarrow> \<exists>k\<le>n. f k = Some y"
proof -
  have "first_some f xs = Some y \<Longrightarrow> \<exists>x\<in>set xs. f x = Some y" for xs
    by (induction xs) (auto split: option.splits)
  then show "longest f n = Some y \<Longrightarrow> \<exists>k\<le>n. f k = Some y"
    by (force simp: longest_def less_Suc_eq_le simp del: upt_Suc)
qed

lemma divide_sound:
  "divide ps pos s = Some gs \<Longrightarrow> \<exists>ws. s = concat ws \<and> list_all2 (\<lambda>p w. w \<in> lang (snd p)) ps ws \<and> gs = offsets ps pos ws"
proof (induction ps arbitrary: pos s gs)
  case Nil
  then show ?case by (auto split: if_splits)
next
  case (Cons p ps)
  from longest_Some [OF Cons.prems [unfolded divide.simps]] obtain k hs where k: "take k s \<in> lang (snd p)"
    "divide ps (pos + k) (drop k s) = Some hs" "gs = (if fst p then (pos, pos + k) # hs else hs)" "k \<le> length s"
    by (auto simp: rx_match_lang split: if_splits)
  from Cons.IH [OF k(2)] obtain ws where ws: "drop k s = concat ws" "list_all2 (\<lambda>p w. w \<in> lang (snd p)) ps ws"
    "hs = offsets ps (pos + k) ws" by blast
  have "s = concat (take k s # ws)" using ws(1) by (metis append_take_drop_id concat.simps(2))
  moreover have "gs = offsets (p # ps) pos (take k s # ws)" using k(3,4) ws(3) by simp
  ultimately show ?case using k(1) ws(2) by (intro exI [of _ "take k s # ws"]) simp
qed

lemma regexec_groups_sound:
  assumes "regexec_groups ps s = Some gs"
  shows "\<exists>pre ws post. s = pre @ concat ws @ post \<and> list_all2 (\<lambda>p w. w \<in> lang (snd p)) ps ws \<and>
    gs = (length pre, length pre + length (concat ws)) # offsets ps (length pre) ws"
proof -
  obtain i where i: "i \<le> length s" and l: "longest (\<lambda>k. map_option (\<lambda>gs. (i, i + k) # gs)
      (divide ps i (take k (drop i s)))) (length s - i) = Some gs"
  proof -
    have "first_some f xs = Some y \<Longrightarrow> \<exists>x\<in>set xs. f x = Some y" for f :: "nat \<Rightarrow> (nat \<times> nat) list option" and xs y
      by (induction xs) (auto split: option.splits)
    from this [OF assms [unfolded regexec_groups_def]] that show ?thesis
      by (auto simp: less_Suc_eq_le simp del: upt_Suc)
  qed
  from longest_Some [OF l] obtain k hs where k: "k \<le> length s - i" "divide ps i (take k (drop i s)) = Some hs" "gs = (i, i + k) # hs"
    by auto
  from divide_sound [OF k(2)] obtain ws where ws: "take k (drop i s) = concat ws"
    "list_all2 (\<lambda>p w. w \<in> lang (snd p)) ps ws" "hs = offsets ps i ws" by blast
  have "s = take i s @ concat ws @ drop k (drop i s)"
    unfolding ws(1) [symmetric] by (simp del: drop_drop)
  moreover have "length (concat ws) = k" unfolding ws(1) [symmetric] using k(1) by simp
  ultimately show ?thesis using ws(2,3) k(3) i by (intro exI [of _ "take i s"] exI [of _ ws] exI [of _ "drop k (drop i s)"]) auto
qed

text \<open>The leftmost start, when no earlier one matches and the parts divide the rest up to \<open>v\<close>, with
  nothing longer.\<close>

lemma regexec_groups_eq:
  assumes "divide ps (length pre) u = Some gs"
    and "\<And>i k. i < length pre \<Longrightarrow> divide ps i (take k (drop i (pre @ u @ v))) = None"
    and "\<And>k. length u < k \<Longrightarrow> k \<le> length u + length v \<Longrightarrow> divide ps (length pre) (take k (u @ v)) = None"
  shows "regexec_groups ps (pre @ u @ v) = Some ((length pre, length pre + length u) # gs)"
  unfolding regexec_groups_def
proof (rule first_some_eq [of "length pre"])
  show "length pre \<le> length (pre @ u @ v)" by simp
  show "\<forall>j<length pre. longest (\<lambda>k. map_option (\<lambda>gs. (j, j + k) # gs)
      (divide ps j (take k (drop j (pre @ u @ v))))) (length (pre @ u @ v) - j) = None"
    using assms(2) by (simp only: longest_None) simp
  show "longest (\<lambda>k. map_option (\<lambda>gs. (length pre, length pre + k) # gs)
      (divide ps (length pre) (take k (drop (length pre) (pre @ u @ v))))) (length (pre @ u @ v) - length pre) =
      Some ((length pre, length pre + length u) # gs)"
    using assms(1,3) by (intro longest_eq [of "length u"]) auto
qed

end
