(* ===== verification/Core_Dump.thy ===== *)
theory Core_Dump
  imports Captures Supportability_Utils Vtysh
begin

text \<open>
  \<open>src/src/cli/core_dump.c\<close> and \<open>src/src/cli/show_core_dump_vty.c\<close>: the list of core dump
  files, what is read from a file name and its extended attributes, and \<open>show core-dump\<close>. The
  fields of \<open>core_dump_data\<close> are arrays, so that a missing terminator or a write past the end
  is visible.
\<close>

section \<open>Data\<close>

abbreviation DATE_STR_SIZE :: nat where "DATE_STR_SIZE \<equiv> 11"
abbreviation TIME_STR_SIZE :: nat where "TIME_STR_SIZE \<equiv> 9"
abbreviation SIGNAL_STR_SIZE :: nat where "SIGNAL_STR_SIZE \<equiv> 3"
abbreviation SRC_DATE_STR_LEN :: nat where "SRC_DATE_STR_LEN \<equiv> 8"
abbreviation SRC_TIME_STR_LEN :: nat where "SRC_TIME_STR_LEN \<equiv> 6"
abbreviation DEAMON_NAME_SIZE :: nat where "DEAMON_NAME_SIZE \<equiv> 256"
abbreviation CORE_FILE_NAME :: nat where "CORE_FILE_NAME \<equiv> 600"
abbreviation MIN_SIZE :: nat where "MIN_SIZE \<equiv> 6"
abbreviation INSTANCE_ID_SIZE :: nat where "INSTANCE_ID_SIZE \<equiv> 8"
abbreviation SIZE_DATE_AND_TIME :: nat where "SIZE_DATE_AND_TIME \<equiv> 20"
abbreviation SIGNAL_DESC_STR_LEN :: nat where "SIGNAL_DESC_STR_LEN \<equiv> 128"

abbreviation NUL :: char where "NUL \<equiv> CHR 0x00"

datatype core_type = TYPE_KERNEL | TYPE_DAEMON

record core_dump_data =
  daemon_name :: "char list"
  crash_date :: "char list"
  crash_time :: "char list"
  crash_signal :: "char list"
  crash_instance_id :: "char list"

definition cd_zero :: core_dump_data where
  "cd_zero = \<lparr>daemon_name = replicate (DEAMON_NAME_SIZE + 1) NUL, crash_date = replicate (DATE_STR_SIZE + 1) NUL,
     crash_time = replicate (TIME_STR_SIZE + 1) NUL, crash_signal = replicate (SIGNAL_STR_SIZE + 1) NUL,
     crash_instance_id = replicate (INSTANCE_ID_SIZE + 1) NUL\<rparr>"

text \<open>The system: the files in the order of \<open>glob\<close>, a failure of \<open>glob\<close>, the extended attributes,
  what \<open>strftime\<close> gives for the local date and time of a number of seconds (None: \<open>localtime\<close> fails),
  and \<open>strsignal\<close>.\<close>

record core_env =
  ce_files :: "string list"
  ce_glob_error :: "string \<Rightarrow> int"
  ce_attr :: "string \<Rightarrow> string \<Rightarrow> string option"
  ce_local :: "int \<Rightarrow> (string \<times> string) option"
  ce_strsignal :: "int \<Rightarrow> string"
  ce_nl :: string

section \<open>Expressions\<close>

definition digit :: rx where "digit = Cls (char_range CHR ''0'' CHR ''9'')"

text \<open>\<open>.\<close> under \<open>REG_NEWLINE\<close>, and \<open>r+\<close>.\<close>

definition dot :: rx where
  "dot = Cls (map char_of (filter (\<lambda>n. n \<noteq> 10) [1..<256 :: nat]))"

definition plus :: "rx \<Rightarrow> rx" where "plus r = Cat r (Star r)"

definition CORE_FILE_PATTERN :: parts where
  "CORE_FILE_PATTERN = [(False, lit ''core.''), (True, Star dot), (False, lit ''.''), (True, plus digit), (False, lit ''.''),
     (True, Rep (Cls (char_range CHR ''0'' CHR ''9'' @ char_range CHR ''a'' CHR ''f'')) 1 64), (False, lit ''.''),
     (True, Rep digit 1 8), (False, lit ''.''), (True, Rep digit 1 16)]"

definition KERN_CORE_FILE_PATTERN :: parts where
  "KERN_CORE_FILE_PATTERN = [(True, Rep digit 8 8), (False, lit ''.''), (True, Rep digit 6 6), (False, lit ''.tar.gz'')]"

section \<open>Reading a file name\<close>

text \<open>\<open>strncpy(buf, src, n)\<close> into an array.\<close>

definition strncpy_into :: "char list \<Rightarrow> string \<Rightarrow> nat \<Rightarrow> char list cres" where
  "strncpy_into buf src n =
     (if n \<le> length buf then Inr (take n (src @ replicate n NUL) @ drop n buf) else Inl OutOfBounds)"

definition set_char :: "char list \<Rightarrow> nat \<Rightarrow> char \<Rightarrow> char list cres" where
  "set_char buf i c = array_upd buf i (\<lambda>_. c)"

definition copy_char :: "char list \<Rightarrow> nat \<Rightarrow> nat \<Rightarrow> char list cres" where
  "copy_char buf i j = bind_res (array_get buf j) (set_char buf i)"

definition atoll :: "string \<Rightarrow> int" where "atoll s = strtol s"

text \<open>\<open>convert_to_date_and_time\<close> into buffers of \<open>DATE_STR_SIZE\<close> and \<open>TIME_STR_SIZE\<close> zeros.\<close>

definition convert_to_date_and_time :: "core_env \<Rightarrow> string \<Rightarrow> bool \<Rightarrow> (string \<times> string) cres" where
  "convert_to_date_and_time env str is_microres =
     (if MIN_SIZE \<le> length str
      then (let time_res = atoll str;
                t_t = (if is_microres
                       then (if time_res < 0 then - ((- time_res) div 1000000) else time_res div 1000000)
                       else time_res)
            in case ce_local env t_t of
                 None \<Rightarrow> Inl NullDeref
               | Some (d, t) \<Rightarrow> Inr (take (DATE_STR_SIZE - 1) d, take (TIME_STR_SIZE - 1) t))
      else Inr ([], []))"

text \<open>\<open>getxattr\<close> fails when the attribute is longer than the size it is given; else it returns the
  length and fills the start of the array.\<close>

definition getxattr :: "core_env \<Rightarrow> string \<Rightarrow> string \<Rightarrow> nat \<Rightarrow> string option" where
  "getxattr env filename attr n = (case ce_attr env filename attr of
     None \<Rightarrow> None
   | Some v \<Rightarrow> if length v \<le> n then Some v else None)"

definition put_attr :: "char list \<Rightarrow> nat \<Rightarrow> string \<Rightarrow> char list cres" where
  "put_attr buf n v =
     (if length v \<le> length buf
      then (let b = v @ drop (length v) buf in
            if n < length v then set_char b n NUL else set_char b (length v) NUL)
      else Inl OutOfBounds)"

text \<open>The copy of a group of the match: \<open>strncpy\<close> of what follows its start, then two terminators.\<close>

definition put_group :: "char list \<Rightarrow> nat \<Rightarrow> string \<Rightarrow> nat \<times> nat \<Rightarrow> char list cres" where
  "put_group buf n filename g =
     bind_res (strncpy_into buf (drop (fst g) filename) n) (\<lambda>b.
     bind_res (set_char b (snd g - fst g) NUL) (\<lambda>b. set_char b n NUL))"

text \<open>The daemon branch, field by field; None is the return value -1.\<close>

definition from_attr_or_group ::
    "core_env \<Rightarrow> string \<Rightarrow> (nat \<times> nat) list option \<Rightarrow> string \<Rightarrow> nat \<Rightarrow> nat \<Rightarrow> char list \<Rightarrow> char list option cres" where
  "from_attr_or_group env filename m attr i n buf = (case getxattr env filename attr n of
     Some v \<Rightarrow> bind_res (put_attr buf n v) (\<lambda>b. Inr (Some b))
   | None \<Rightarrow> (case m of
         None \<Rightarrow> Inr None
       | Some gs \<Rightarrow> bind_res (put_group buf n filename (gs ! i)) (\<lambda>b. Inr (Some b))))"

definition signal_field :: "core_env \<Rightarrow> string \<Rightarrow> char list \<Rightarrow> char list cres" where
  "signal_field env filename buf = (case getxattr env filename ''user.coredump.signal'' SIGNAL_STR_SIZE of
     None \<Rightarrow> set_char buf 0 NUL
   | Some v \<Rightarrow> put_attr buf SIGNAL_STR_SIZE v)"

definition daemon_name_field :: "core_env \<Rightarrow> string \<Rightarrow> (nat \<times> nat) list option \<Rightarrow> char list \<Rightarrow> char list option cres" where
  "daemon_name_field env filename m buf = from_attr_or_group env filename m ''user.coredump.comm'' 1 DEAMON_NAME_SIZE buf"

definition instance_field :: "core_env \<Rightarrow> string \<Rightarrow> (nat \<times> nat) list option \<Rightarrow> char list \<Rightarrow> char list option cres" where
  "instance_field env filename m buf = from_attr_or_group env filename m ''user.coredump.pid'' 4 INSTANCE_ID_SIZE buf"

text \<open>The timestamp goes through the local array \<open>value\<close>; an attribute of length 0 counts as not
  available.\<close>

definition timestamp_fields ::
    "core_env \<Rightarrow> string \<Rightarrow> (nat \<times> nat) list option \<Rightarrow> char list \<Rightarrow> core_dump_data \<Rightarrow> core_dump_data option cres" where
  "timestamp_fields env filename m value0 cd =
     bind_res (from_attr_or_group env filename m ''user.coredump.timestamp'' 5 SIZE_DATE_AND_TIME value0) (\<lambda>r. case r of
       None \<Rightarrow> Inr None
     | Some b \<Rightarrow>
        (let attr = getxattr env filename ''user.coredump.timestamp'' SIZE_DATE_AND_TIME in
         if attr = Some []
         then bind_res (set_char (crash_date cd) 0 NUL) (\<lambda>d. bind_res (set_char (crash_time cd) 0 NUL) (\<lambda>t.
                Inr (Some (cd\<lparr>crash_date := d, crash_time := t\<rparr>))))
         else bind_res (convert_to_date_and_time env (cstr b) (attr = None)) (\<lambda>(date_string, time_string).
                bind_res (strncpy_into (crash_date cd) date_string (DATE_STR_SIZE - 1)) (\<lambda>d.
                bind_res (set_char d DATE_STR_SIZE NUL) (\<lambda>d.
                bind_res (strncpy_into (crash_time cd) time_string (TIME_STR_SIZE - 1)) (\<lambda>t.
                bind_res (set_char t TIME_STR_SIZE NUL) (\<lambda>t.
                Inr (Some (cd\<lparr>crash_date := d, crash_time := t\<rparr>)))))))))"

text \<open>The kernel branch: the two groups, then the hyphens and colons between their digits.\<close>

definition format_date :: "char list \<Rightarrow> char list cres" where
  "format_date d =
     bind_res (set_char d 10 NUL) (\<lambda>d. bind_res (copy_char d 9 7) (\<lambda>d. bind_res (copy_char d 8 6) (\<lambda>d.
     bind_res (set_char d 7 CHR ''-'') (\<lambda>d. bind_res (copy_char d 6 5) (\<lambda>d. bind_res (copy_char d 5 4) (\<lambda>d.
     set_char d 4 CHR ''-''))))))"

definition format_time :: "char list \<Rightarrow> char list cres" where
  "format_time t =
     bind_res (set_char t 8 NUL) (\<lambda>t. bind_res (copy_char t 7 5) (\<lambda>t. bind_res (copy_char t 6 4) (\<lambda>t.
     bind_res (set_char t 5 CHR '':'') (\<lambda>t. bind_res (copy_char t 4 3) (\<lambda>t. bind_res (copy_char t 3 2) (\<lambda>t.
     set_char t 2 CHR '':''))))))"

definition kernel_fields :: "string \<Rightarrow> (nat \<times> nat) list \<Rightarrow> core_dump_data \<Rightarrow> (int \<times> core_dump_data) cres" where
  "kernel_fields filename gs cd =
     (let (so1, eo1) = gs ! 1; (so2, eo2) = gs ! 2 in
      bind_res (strncpy_into (crash_date cd) (drop so1 filename) (eo1 - so1)) (\<lambda>d.
      if eo1 - so1 \<noteq> SRC_DATE_STR_LEN then Inr (- 1, cd\<lparr>crash_date := d\<rparr>)
      else bind_res (strncpy_into (crash_time cd) (drop so2 filename) (eo2 - so2)) (\<lambda>t.
      if eo2 - so2 \<noteq> SRC_TIME_STR_LEN then Inr (- 1, cd\<lparr>crash_date := d, crash_time := t\<rparr>)
      else bind_res (format_date d) (\<lambda>d. bind_res (format_time t) (\<lambda>t. Inr (0, cd\<lparr>crash_date := d, crash_time := t\<rparr>))))))"

text \<open>\<open>extract_info\<close>. A group of these two expressions takes part in every match, so the tests of
  \<open>rm_so\<close> against -1 have no branch here.\<close>

definition extract_info :: "core_env \<Rightarrow> parts \<Rightarrow> string \<Rightarrow> char list \<Rightarrow> core_type \<Rightarrow> core_dump_data \<Rightarrow> (int \<times> core_dump_data) cres" where
  "extract_info env regexst filename value0 ty cd = (let m = regexec_groups regexst filename in case ty of
     TYPE_DAEMON \<Rightarrow>
       bind_res (daemon_name_field env filename m (daemon_name cd)) (\<lambda>r. case r of
         None \<Rightarrow> Inr (- 1, cd)
       | Some n \<Rightarrow> (let cd1 = cd\<lparr>daemon_name := n\<rparr> in
           bind_res (signal_field env filename (crash_signal cd1)) (\<lambda>g. let cd2 = cd1\<lparr>crash_signal := g\<rparr> in
           bind_res (instance_field env filename m (crash_instance_id cd2)) (\<lambda>r. case r of
             None \<Rightarrow> Inr (- 1, cd2)
           | Some p \<Rightarrow> (let cd3 = cd2\<lparr>crash_instance_id := p\<rparr> in
               bind_res (timestamp_fields env filename m value0 cd3) (\<lambda>r. case r of
                 None \<Rightarrow> Inr (- 1, cd3)
               | Some cd4 \<Rightarrow> Inr (0, cd4)))))))
   | TYPE_KERNEL \<Rightarrow> (case m of None \<Rightarrow> Inr (- 1, cd) | Some gs \<Rightarrow> kernel_fields filename gs cd))"

section \<open>The list of files\<close>

definition escaped :: "string \<Rightarrow> string" where
  "escaped s = concat (map (\<lambda>c. if c = CHR ''/'' then [CHR 0x5C, c] else [c]) s)"

definition core_dir :: string where "core_dir = ''/var/diagnostics/coredump''"

definition DAEMON_CORE_PATH :: string where "DAEMON_CORE_PATH = escaped core_dir"
definition KERNEL_CORE_PATH :: string where "KERNEL_CORE_PATH = escaped core_dir"

definition digit_range :: string where "digit_range = ''[0-9]''"

definition KERN_GB_PATTERN :: string where
  "KERN_GB_PATTERN = ''vmcore.'' @ concat (replicate 8 digit_range) @ ''.'' @ concat (replicate 6 digit_range) @ ''.tar.gz''"

text \<open>A pattern with the place of the location is a function; \<open>GB_PATTERN\<close> is \<open>%s/core.*\<close>, used when
  no daemon is given. \<open>location_text\<close> is what \<open>snprintf\<close> would print.\<close>

definition GB_PATTERN :: "string \<Rightarrow> string" where "GB_PATTERN loc = loc @ ''/core.*''"

definition location_text :: "core_type \<Rightarrow> (string \<Rightarrow> string) \<Rightarrow> string option \<Rightarrow> string option \<Rightarrow> string" where
  "location_text ty globpattern daemon instance_id = (case ty of
     TYPE_KERNEL \<Rightarrow> KERNEL_CORE_PATH @ ''/kernel-core/'' @ globpattern []
   | TYPE_DAEMON \<Rightarrow> (case daemon of
       Some d \<Rightarrow>
         (case instance_id of
            None \<Rightarrow> DAEMON_CORE_PATH @ [CHR 0x5C] @ ''/core'' @ [CHR 0x5C] @ ''.'' @ d @ [CHR 0x5C] @ ''.'' @ globpattern []
          | Some i \<Rightarrow> DAEMON_CORE_PATH @ [CHR 0x5C] @ ''/core'' @ [CHR 0x5C] @ ''.'' @ d @ [CHR 0x5C] @ ''.*'' @ i @
              [CHR 0x5C] @ ''.'' @ globpattern [])
     | None \<Rightarrow> globpattern DAEMON_CORE_PATH))"

text \<open>The return code and the names in \<open>globbuf\<close>. \<open>GLOB_NOMATCH\<close> counts as success.\<close>

definition get_file_list ::
    "core_env \<Rightarrow> core_type \<Rightarrow> (string \<Rightarrow> string) \<Rightarrow> string option \<Rightarrow> string option \<Rightarrow> int \<times> string list" where
  "get_file_list env ty globpattern daemon instance_id =
     (let text = location_text ty globpattern daemon instance_id;
          location_buf = take (CORE_FILE_NAME - 1) text in
      if CORE_FILE_NAME < length text then (- 1, [])
      else if ce_glob_error env location_buf \<noteq> 0 then (ce_glob_error env location_buf, [])
      else (0, filter (glob_match location_buf) (ce_files env)))"

section \<open>show core-dump\<close>

definition signal_desc :: "core_env \<Rightarrow> string \<Rightarrow> string" where
  "signal_desc env sig_char = take (SIGNAL_DESC_STR_LEN - 1)
     (if sig_char \<noteq> [] \<and> 1 \<le> atoi sig_char \<and> atoi sig_char \<le> 64 then ce_strsignal env (atoi sig_char) else ''    '')"

definition core_rule :: string where "core_rule = replicate 86 (CHR ''='')"

definition core_header :: "core_env \<Rightarrow> string list" where
  "core_header env = [core_rule @ ce_nl env,
     column 20 ''Daemon Name'' @ ''| '' @ column 12 ''Instance ID'' @ ''| '' @ column 30 ''Crash Reason'' @ ''| '' @
       column 21 ''Timestamp'' @ ce_nl env,
     core_rule @ ce_nl env]"

definition core_line :: "core_env \<Rightarrow> string \<Rightarrow> string \<Rightarrow> string \<Rightarrow> string \<Rightarrow> string \<Rightarrow> string" where
  "core_line env name inst reason d t =
     column 20 name @ ''  '' @ column 12 inst @ ''  '' @ column 30 reason @ '' '' @ column 11 d @ column 10 t @ ce_nl env"

definition core_footer :: "core_env \<Rightarrow> nat \<Rightarrow> string list" where
  "core_footer env n = [core_rule @ ce_nl env, ''Total number of core dumps : '' @ show_nat n @ ce_nl env, core_rule @ ce_nl env]"

text \<open>The loop over the daemon cores; \<open>cd\<close> is one variable for all files. \<open>value0\<close> is what the
  uninitialised array \<open>value\<close> of \<open>extract_info\<close> holds.\<close>

fun show_daemons :: "core_env \<Rightarrow> char list \<Rightarrow> string list \<Rightarrow> core_dump_data \<Rightarrow> nat \<Rightarrow> string list \<Rightarrow>
    (core_dump_data \<times> nat \<times> string list) cres" where
  "show_daemons env value0 [] cd num out = Inr (cd, num, out)"
| "show_daemons env value0 (f # fs) cd num out =
     bind_res (extract_info env CORE_FILE_PATTERN f value0 TYPE_DAEMON cd) (\<lambda>(rc, cd1).
       if rc = - 1 then show_daemons env value0 fs cd1 num out
       else show_daemons env value0 fs cd1 (num + 1)
         (out @ (if num = 0 then core_header env else []) @
          [core_line env (cstr (daemon_name cd1)) (cstr (crash_instance_id cd1)) (signal_desc env (cstr (crash_signal cd1)))
             (cstr (crash_date cd1)) (cstr (crash_time cd1))]))"

definition show_kernel :: "core_env \<Rightarrow> char list \<Rightarrow> string list \<Rightarrow> core_dump_data \<Rightarrow> nat \<Rightarrow> string list \<Rightarrow> (nat \<times> string list) cres" where
  "show_kernel env value0 fs cd num out = (case fs of
     [] \<Rightarrow> Inr (num, out)
   | f # _ \<Rightarrow> bind_res (extract_info env KERN_CORE_FILE_PATTERN f value0 TYPE_KERNEL cd) (\<lambda>(rc, cd1).
       if rc = - 1 then Inr (num, out)
       else Inr (num + 1, out @ (if num = 0 then core_header env else []) @
         [core_line env ''kernel'' '' '' '' '' (cstr (crash_date cd1)) (cstr (crash_time cd1))])))"

definition cli_show_core_dump :: "core_env \<Rightarrow> char list \<Rightarrow> (cmd_ret \<times> string list) cres" where
  "cli_show_core_dump env value0 =
     (case get_file_list env TYPE_DAEMON GB_PATTERN None None of (rc, files) \<Rightarrow>
      if rc \<noteq> 0 then Inr (CMD_WARNING, [])
      else bind_res (show_daemons env value0 files cd_zero 0 []) (\<lambda>(cd, num, out).
        case get_file_list env TYPE_KERNEL (\<lambda>_. KERN_GB_PATTERN) None None of (rc, kfiles) \<Rightarrow>
        if rc \<noteq> 0 then Inr (CMD_WARNING, out @ (if num \<noteq> 0 then core_footer env num else []))
        else bind_res (show_kernel env value0 kfiles cd num out) (\<lambda>(num, out).
          Inr (CMD_SUCCESS, out @ (if num \<noteq> 0 then core_footer env num else [''No core dumps are present'' @ ce_nl env])))))"

end
