(* ===== verification/Core_Dump_Spec.thy ===== *)
theory Core_Dump_Spec
  imports Core_Dump
begin

text \<open>
  What \<open>extract_info\<close> and \<open>show core-dump\<close> compute, as functions on strings: the arrays of
  \<open>Core_Dump\<close> never leak what they held before.
\<close>

section \<open>Arrays\<close>

lemma set_char_in [simp]: "i < length b \<Longrightarrow> set_char b i c = Inr (b[i := c])"
  by (simp add: set_char_def)

lemma copy_char_in [simp]: "i < length b \<Longrightarrow> j < length b \<Longrightarrow> copy_char b i j = Inr (b[i := b ! j])"
  by (simp add: copy_char_def)

lemma strncpy_in [simp]: "n \<le> length b \<Longrightarrow> strncpy_into b s n = Inr (take n (s @ replicate n NUL) @ drop n b)"
  by (simp add: strncpy_into_def)

lemma cstr_simps [simp]: "cstr [] = []" "cstr (NUL # b) = []" "c \<noteq> NUL \<Longrightarrow> cstr (c # b) = c # cstr b"
  by (simp_all add: cstr_def)

lemma cstr_id: "NUL \<notin> set s \<Longrightarrow> cstr s = s"
  by (auto simp: cstr_def intro: takeWhile_all)

lemma cstr_append: "cstr (s @ t) = (if NUL \<in> set s then cstr s else s @ cstr t)"
  by (induction s) (auto simp: cstr_def)

lemma length_cstr: "length (cstr s) \<le> length s"
  by (simp add: cstr_def length_takeWhile_le)

lemma put_attr_cstr:
  assumes "length v \<le> n" "length buf = n + 1"
  shows "\<exists>b. put_attr buf n v = Inr b \<and> length b = n + 1 \<and> cstr b = cstr v"
proof -
  have "put_attr buf n v = Inr (v @ NUL # drop (Suc (length v)) buf)"
    using assms by (simp add: put_attr_def list_update_append Cons_nth_drop_Suc [symmetric])
  then show ?thesis using assms by (auto simp: cstr_append cstr_id)
qed

lemma two_terminators:
  assumes "length t = n" "k \<le> n"
  shows "(t @ [x])[k := NUL, n := NUL] = take k t @ NUL # drop (Suc k) (t @ [NUL])"
proof (cases "k = n")
  case True
  with assms show ?thesis by (simp add: list_update_append)
next
  case False
  with assms have k: "k < length t" by simp
  from assms have "(t @ [x])[k := NUL, n := NUL] = (t @ [NUL])[k := NUL]"
    using False by (simp add: list_update_append list_update_swap [of k n])
  also have "\<dots> = take k t @ NUL # drop (Suc k) (t @ [NUL])"
    using k by (simp add: upd_conv_take_nth_drop)
  finally show ?thesis .
qed

lemma put_group_cstr:
  assumes "snd g - fst g \<le> n" "length buf = n + 1"
  shows "\<exists>b. put_group buf n filename g = Inr b \<and> length b = n + 1 \<and>
    cstr b = cstr (take (snd g - fst g) (drop (fst g) filename))"
proof -
  let ?k = "snd g - fst g" let ?s = "drop (fst g) filename"
  let ?t = "take n (?s @ replicate n NUL)"
  have "length (drop n buf) = Suc 0" using assms(2) by simp
  then obtain x where x: "drop n buf = [x]" by (auto simp: length_Suc_conv simp del: length_drop)
  have len: "length ?t = n" by simp
  let ?b = "(?t @ [x])[?k := NUL, n := NUL]"
  have eq: "put_group buf n filename g = Inr ?b"
    using assms x by (simp add: put_group_def)
  have "?b = take ?k ?t @ NUL # drop (Suc ?k) (?t @ [NUL])" by (rule two_terminators [OF len assms(1)])
  moreover have "cstr (take ?k ?t @ NUL # y) = cstr (take ?k ?s)" for y
  proof -
    have "take ?k ?t = take ?k ?s @ replicate (min ?k (n) - length ?s) NUL"
      using assms(1) by (simp add: min_def)
    then show ?thesis by (cases "min ?k n - length ?s") (auto simp: cstr_append cstr_id)
  qed
  ultimately have "cstr ?b = cstr (take ?k ?s)" by simp
  with eq len show ?thesis by (intro exI [of _ ?b]) simp
qed

section \<open>One core dump\<close>

text \<open>Fields as strings. A group that is too long for its array is the only fault, and
  \<open>localtime\<close> of a number of seconds it cannot represent.\<close>

definition attr_or_group :: "core_env \<Rightarrow> string \<Rightarrow> string \<Rightarrow> nat \<Rightarrow> nat \<Rightarrow> string option" where
  "attr_or_group env f attr i n = (case getxattr env f attr n of
     Some v \<Rightarrow> Some (cstr v)
   | None \<Rightarrow> map_option (\<lambda>gs. cstr (take (snd (gs ! i) - fst (gs ! i)) (drop (fst (gs ! i)) f))) (regexec_groups CORE_FILE_PATTERN f))"

definition when_of :: "core_env \<Rightarrow> string \<Rightarrow> string \<Rightarrow> string \<times> string" where
  "when_of env f v =
     (if getxattr env f ''user.coredump.timestamp'' SIZE_DATE_AND_TIME = Some [] then ([], [])
      else case convert_to_date_and_time env v (getxattr env f ''user.coredump.timestamp'' SIZE_DATE_AND_TIME = None) of
        Inr (d, t) \<Rightarrow> (cstr d, cstr t) | Inl _ \<Rightarrow> ([], []))"

record core_info =
  ci_daemon :: string
  ci_instance :: string
  ci_signal :: string
  ci_date :: string
  ci_time :: string

definition info_of :: "core_env \<Rightarrow> string \<Rightarrow> core_info option" where
  "info_of env f =
     (case (attr_or_group env f ''user.coredump.comm'' 1 DEAMON_NAME_SIZE,
            attr_or_group env f ''user.coredump.pid'' 4 INSTANCE_ID_SIZE,
            attr_or_group env f ''user.coredump.timestamp'' 5 SIZE_DATE_AND_TIME) of
       (Some name, Some inst, Some v) \<Rightarrow>
         Some \<lparr>ci_daemon = name, ci_instance = inst,
           ci_signal = (case getxattr env f ''user.coredump.signal'' SIGNAL_STR_SIZE of None \<Rightarrow> [] | Some g \<Rightarrow> cstr g),
           ci_date = fst (when_of env f v), ci_time = snd (when_of env f v)\<rparr>
     | _ \<Rightarrow> None)"

text \<open>The state that the caller hands from file to file: the sizes of the arrays, and the places
  that the date and the time leave to their caller hold a terminator.\<close>

definition wf_cd :: "core_dump_data \<Rightarrow> bool" where
  "wf_cd cd \<longleftrightarrow> length (daemon_name cd) = DEAMON_NAME_SIZE + 1 \<and> length (crash_date cd) = DATE_STR_SIZE + 1 \<and>
     length (crash_time cd) = TIME_STR_SIZE + 1 \<and> length (crash_signal cd) = SIGNAL_STR_SIZE + 1 \<and>
     length (crash_instance_id cd) = INSTANCE_ID_SIZE + 1 \<and> crash_date cd ! 10 = NUL \<and> crash_time cd ! 8 = NUL"

definition view :: "core_dump_data \<Rightarrow> core_info" where
  "view cd = \<lparr>ci_daemon = cstr (daemon_name cd), ci_instance = cstr (crash_instance_id cd), ci_signal = cstr (crash_signal cd),
     ci_date = cstr (crash_date cd), ci_time = cstr (crash_time cd)\<rparr>"

lemma wf_cd_zero: "wf_cd cd_zero"
  by (simp add: wf_cd_def cd_zero_def nth_append)

definition groups_fit :: "string \<Rightarrow> bool" where
  "groups_fit f \<longleftrightarrow> (\<forall>gs. regexec_groups CORE_FILE_PATTERN f = Some gs \<longrightarrow>
     snd (gs ! 1) - fst (gs ! 1) \<le> DEAMON_NAME_SIZE \<and> snd (gs ! 4) - fst (gs ! 4) \<le> INSTANCE_ID_SIZE \<and>
     snd (gs ! 5) - fst (gs ! 5) \<le> SIZE_DATE_AND_TIME)"

lemma attr_or_group_run:
  assumes "\<And>gs. regexec_groups CORE_FILE_PATTERN f = Some gs \<Longrightarrow> snd (gs ! i) - fst (gs ! i) \<le> n" "length buf = n + 1"
  shows "case attr_or_group env f attr i n of
      None \<Rightarrow> from_attr_or_group env f (regexec_groups CORE_FILE_PATTERN f) attr i n buf = Inr None
    | Some v \<Rightarrow> \<exists>b. from_attr_or_group env f (regexec_groups CORE_FILE_PATTERN f) attr i n buf = Inr (Some b) \<and>
        length b = n + 1 \<and> cstr b = v"
proof (cases "getxattr env f attr n")
  case None
  show ?thesis
  proof (cases "regexec_groups CORE_FILE_PATTERN f")
    case (Some gs)
    with assms put_group_cstr [of "gs ! i" n buf f] None show ?thesis
      by (auto simp: attr_or_group_def from_attr_or_group_def)
  qed (simp add: None attr_or_group_def from_attr_or_group_def)
next
  case (Some v)
  then have "length v \<le> n" by (auto simp: getxattr_def split: option.splits if_splits)
  with put_attr_cstr [OF this assms(2)] Some show ?thesis
    by (auto simp: attr_or_group_def from_attr_or_group_def)
qed

lemma signal_run:
  assumes "length buf = SIGNAL_STR_SIZE + 1"
  shows "\<exists>b. signal_field env f buf = Inr b \<and> length b = SIGNAL_STR_SIZE + 1 \<and>
    cstr b = (case getxattr env f ''user.coredump.signal'' SIGNAL_STR_SIZE of None \<Rightarrow> [] | Some g \<Rightarrow> cstr g)"
proof (cases "getxattr env f ''user.coredump.signal'' SIGNAL_STR_SIZE")
  case None
  with assms show ?thesis by (cases buf) (simp_all add: signal_field_def)
next
  case (Some v)
  then have "length v \<le> SIGNAL_STR_SIZE" by (auto simp: getxattr_def split: option.splits if_splits)
  with put_attr_cstr [OF this assms] Some show ?thesis by (auto simp: signal_field_def)
qed

text \<open>The copy of the date or time, whose last place but one stays as it was.\<close>

lemma strncpy_last:
  assumes "length buf = n + 2" "buf ! n = NUL" "length s \<le> n"
  shows "\<exists>b. bind_res (strncpy_into buf s n) (\<lambda>d. set_char d (Suc n) NUL) = Inr b \<and> length b = n + 2 \<and> b ! n = NUL \<and> cstr b = cstr s"
proof -
  obtain y where y: "drop n buf = [NUL, y]"
  proof -
    have "length (drop n buf) = 2" "drop n buf ! 0 = NUL" using assms(1,2) by simp_all
    then show ?thesis using that by (cases "drop n buf") (auto simp: length_Suc_conv numeral_2_eq_2 simp del: length_drop)
  qed
  let ?b = "(take n (s @ replicate n NUL) @ [NUL, y])[Suc n := NUL]"
  have t: "take n (s @ replicate n NUL) = s @ replicate (n - length s) NUL" using assms(3) by simp
  have "(u @ [NUL, y])[Suc (length u) := NUL] = u @ [NUL, NUL]" for u by (simp add: list_update_append)
  from this [of "s @ replicate (n - length s) NUL"] have "?b = s @ replicate (n - length s) NUL @ [NUL, NUL]"
    unfolding t using assms(3) by simp
  moreover have "bind_res (strncpy_into buf s n) (\<lambda>d. set_char d (Suc n) NUL) = Inr ?b"
    using assms(1) y by simp
  moreover have "cstr (s @ replicate m NUL @ [NUL, NUL]) = cstr s" for m
    by (cases m) (auto simp: cstr_append cstr_id)
  ultimately show ?thesis using assms(3) by (auto simp: nth_append)
qed

lemma convert_run:
  assumes "\<And>n. ce_local env n \<noteq> None"
  shows "\<exists>d t. convert_to_date_and_time env str b = Inr (d, t) \<and> length d \<le> 10 \<and> length t \<le> 8"
proof (cases "MIN_SIZE \<le> length str")
  case True
  let ?n = "if b then (if atoll str < 0 then - ((- atoll str) div 1000000) else atoll str div 1000000) else atoll str"
  obtain d t where "ce_local env ?n = Some (d, t)" using assms [of ?n] by auto
  with True show ?thesis by (simp add: convert_to_date_and_time_def Let_def)
qed (simp add: convert_to_date_and_time_def)

lemma timestamp_run:
  assumes "wf_cd cd" "length value0 = SIZE_DATE_AND_TIME + 1" "groups_fit f" "\<And>n. ce_local env n \<noteq> None"
  shows "case attr_or_group env f ''user.coredump.timestamp'' 5 SIZE_DATE_AND_TIME of
      None \<Rightarrow> timestamp_fields env f (regexec_groups CORE_FILE_PATTERN f) value0 cd = Inr None
    | Some v \<Rightarrow> \<exists>d t. timestamp_fields env f (regexec_groups CORE_FILE_PATTERN f) value0 cd =
          Inr (Some (cd\<lparr>crash_date := d, crash_time := t\<rparr>)) \<and>
        wf_cd (cd\<lparr>crash_date := d, crash_time := t\<rparr>) \<and> cstr d = fst (when_of env f v) \<and> cstr t = snd (when_of env f v)"
proof -
  let ?r = "from_attr_or_group env f (regexec_groups CORE_FILE_PATTERN f) ''user.coredump.timestamp'' 5 SIZE_DATE_AND_TIME value0"
  let ?a = "getxattr env f ''user.coredump.timestamp'' SIZE_DATE_AND_TIME"
  have fit: "\<And>gs. regexec_groups CORE_FILE_PATTERN f = Some gs \<Longrightarrow> snd (gs ! 5) - fst (gs ! 5) \<le> SIZE_DATE_AND_TIME"
    using assms(3) by (simp add: groups_fit_def)
  note run = attr_or_group_run [where f = f and env = env and attr = "''user.coredump.timestamp''", OF fit assms(2)]
  have wf: "length (crash_date cd) = 10 + 2" "length (crash_time cd) = 8 + 2" "crash_date cd ! 10 = NUL" "crash_time cd ! 8 = NUL"
    using assms(1) by (simp_all add: wf_cd_def)
  show ?thesis
  proof (cases "attr_or_group env f ''user.coredump.timestamp'' 5 SIZE_DATE_AND_TIME")
    case None
    with run have "?r = Inr None" by (simp only: option.case)
    with None show ?thesis by (simp add: timestamp_fields_def)
  next
    case (Some v)
    with run obtain b where b: "?r = Inr (Some b)" "cstr b = v" by (simp only: option.case) blast
    show ?thesis
    proof (cases "?a = Some []")
      case True
      have "timestamp_fields env f (regexec_groups CORE_FILE_PATTERN f) value0 cd =
          Inr (Some (cd\<lparr>crash_date := (crash_date cd)[0 := NUL], crash_time := (crash_time cd)[0 := NUL]\<rparr>))"
        using wf by (simp add: timestamp_fields_def b True)
      moreover have "cstr (x[0 := NUL]) = []" if "length x = Suc n" for x n using that by (cases x) simp_all
      ultimately show ?thesis unfolding Some option.case using wf assms(1) True
        by (intro exI [of _ "(crash_date cd)[0 := NUL]"] exI [of _ "(crash_time cd)[0 := NUL]"])
          (simp add: wf_cd_def when_of_def)
    next
      case False
      obtain d0 t0 where c: "convert_to_date_and_time env v (?a = None) = Inr (d0, t0)" "length d0 \<le> 10" "length t0 \<le> 8"
        using convert_run [OF assms(4)] by blast
      from strncpy_last [OF wf(1,3) c(2)] obtain d where
        d: "bind_res (strncpy_into (crash_date cd) d0 10) (\<lambda>d. set_char d (Suc 10) NUL) = Inr d" "length d = 12" "d ! 10 = NUL" "cstr d = cstr d0"
        by auto
      from strncpy_last [OF wf(2,4) c(3)] obtain t where
        t: "bind_res (strncpy_into (crash_time cd) t0 8) (\<lambda>d. set_char d (Suc 8) NUL) = Inr t" "length t = 10" "t ! 8 = NUL" "cstr t = cstr t0"
        by auto
      have "timestamp_fields env f (regexec_groups CORE_FILE_PATTERN f) value0 cd = Inr (Some (cd\<lparr>crash_date := d, crash_time := t\<rparr>))"
        using d(1) t(1) False wf by (simp add: timestamp_fields_def b c(1))
      with d(2-4) t(2-4) assms(1) c(1) False show ?thesis unfolding Some option.case
        by (intro exI [of _ d] exI [of _ t]) (simp add: wf_cd_def when_of_def)
    qed
  qed
qed

lemma extract_daemon:
  assumes "wf_cd cd" "length value0 = SIZE_DATE_AND_TIME + 1" "groups_fit f" "\<And>n. ce_local env n \<noteq> None"
  shows "\<exists>cd'. extract_info env CORE_FILE_PATTERN f value0 TYPE_DAEMON cd = Inr (if info_of env f = None then - 1 else 0, cd') \<and>
    wf_cd cd' \<and> (\<forall>c. info_of env f = Some c \<longrightarrow> view cd' = c)"
proof -
  let ?m = "regexec_groups CORE_FILE_PATTERN f"
  have wf: "length (daemon_name cd) = DEAMON_NAME_SIZE + 1" "length (crash_signal cd) = SIGNAL_STR_SIZE + 1"
    "length (crash_instance_id cd) = INSTANCE_ID_SIZE + 1" using assms(1) by (simp_all add: wf_cd_def)
  have fit: "\<And>gs. ?m = Some gs \<Longrightarrow> snd (gs ! 1) - fst (gs ! 1) \<le> DEAMON_NAME_SIZE"
    "\<And>gs. ?m = Some gs \<Longrightarrow> snd (gs ! 4) - fst (gs ! 4) \<le> INSTANCE_ID_SIZE"
    using assms(3) by (auto simp: groups_fit_def)
  note name = attr_or_group_run [where f = f and env = env and attr = "''user.coredump.comm''", OF fit(1) wf(1), folded daemon_name_field_def]
  note inst = attr_or_group_run [where f = f and env = env and attr = "''user.coredump.pid''", OF fit(2) wf(3), folded instance_field_def]
  obtain g where g: "signal_field env f (crash_signal cd) = Inr g" "length g = SIGNAL_STR_SIZE + 1"
    "cstr g = (case getxattr env f ''user.coredump.signal'' SIGNAL_STR_SIZE of None \<Rightarrow> [] | Some g \<Rightarrow> cstr g)"
    using signal_run [OF wf(2)] by blast
  show ?thesis
  proof (cases "attr_or_group env f ''user.coredump.comm'' 1 DEAMON_NAME_SIZE")
    case None
    with name have "daemon_name_field env f ?m (daemon_name cd) = Inr None" by (simp only: option.case)
    with None assms(1) show ?thesis by (simp add: extract_info_def info_of_def)
  next
    case n: (Some n)
    with name obtain b where b: "daemon_name_field env f ?m (daemon_name cd) = Inr (Some b)" "length b = DEAMON_NAME_SIZE + 1" "cstr b = n"
      by (simp only: option.case) blast
    let ?cd2 = "cd\<lparr>daemon_name := b, crash_signal := g\<rparr>"
    have wf2: "wf_cd ?cd2" using assms(1) b(2) g(2) by (simp add: wf_cd_def)
    show ?thesis
    proof (cases "attr_or_group env f ''user.coredump.pid'' 4 INSTANCE_ID_SIZE")
      case None
      with inst have "instance_field env f ?m (crash_instance_id cd) = Inr None" by (simp only: option.case)
      with None b(1) g(1) wf2 n show ?thesis by (simp add: extract_info_def info_of_def)
    next
      case p: (Some p)
      with inst obtain q where q: "instance_field env f ?m (crash_instance_id cd) = Inr (Some q)" "length q = INSTANCE_ID_SIZE + 1" "cstr q = p"
        by (simp only: option.case) blast
      let ?cd3 = "?cd2\<lparr>crash_instance_id := q\<rparr>"
      have wf3: "wf_cd ?cd3" using wf2 q(2) by (simp add: wf_cd_def)
      note ts = timestamp_run [OF wf3 assms(2-4)]
      show ?thesis
      proof (cases "attr_or_group env f ''user.coredump.timestamp'' 5 SIZE_DATE_AND_TIME")
        case None
        with ts have "timestamp_fields env f ?m value0 ?cd3 = Inr None" by (simp only: option.case)
        with None b(1) g(1) q(1) wf3 n p show ?thesis by (simp add: extract_info_def info_of_def)
      next
        case (Some v)
        with ts obtain d t where dt: "timestamp_fields env f ?m value0 ?cd3 = Inr (Some (?cd3\<lparr>crash_date := d, crash_time := t\<rparr>))"
          "wf_cd (?cd3\<lparr>crash_date := d, crash_time := t\<rparr>)" "cstr d = fst (when_of env f v)" "cstr t = snd (when_of env f v)"
          by (simp only: option.case) blast
        with Some b(1,3) g(1,3) q(1,3) n p show ?thesis by (simp add: extract_info_def info_of_def view_def)
      qed
    qed
  qed
qed

section \<open>Files of the core directory\<close>

text \<open>The full name of a file of the directory: the directory, a slash and a name of at most 255
  characters, as the file system has them.\<close>

definition in_core_dir :: "string \<Rightarrow> bool" where
  "in_core_dir f \<longleftrightarrow> (\<exists>b. f = core_dir @ ''/'' @ b \<and> length b \<le> 255)"

lemma no_early_core:
  assumes "take 5 (drop i (core_dir @ ''/'' @ b)) = ''core.''"
  shows "26 \<le> i"
proof (rule ccontr)
  assume "\<not> 26 \<le> i"
  then have "i \<in> set [0..<26]" by simp
  then show False using assms by (simp add: core_dir_def upt_conv_Cons numeral_eq_Suc del: upt_Suc) (elim disjE; simp)
qed

lemma core_parts:
  assumes "list_all2 (\<lambda>p w. w \<in> lang (snd p)) CORE_FILE_PATTERN ws"
  shows "\<exists>w1 w2 w3 w4 w5. ws = [''core.'', w1, ''.'', w2, ''.'', w3, ''.'', w4, ''.'', w5] \<and> w1 \<in> lang (Star dot) \<and>
    w2 \<in> lang (plus digit) \<and> w3 \<in> lang (Rep (Cls (char_range CHR ''0'' CHR ''9'' @ char_range CHR ''a'' CHR ''f'')) 1 64) \<and>
    w4 \<in> lang (Rep digit 1 8) \<and> w5 \<in> lang (Rep digit 1 16)"
  using assms unfolding CORE_FILE_PATTERN_def list_all2_Cons1 list_all2_Nil snd_conv lang_lit
  by (elim exE conjE) (simp only: singleton_iff, blast)

lemma in_core_dir_fits:
  assumes "in_core_dir f"
  shows "groups_fit f"
  unfolding groups_fit_def
proof (intro allI impI)
  fix gs assume gs: "regexec_groups CORE_FILE_PATTERN f = Some gs"
  obtain b where b: "f = core_dir @ ''/'' @ b" "length b \<le> 255" using assms by (auto simp: in_core_dir_def)
  from regexec_groups_sound [OF gs] obtain pre ws post where f: "f = pre @ concat ws @ post"
    and ws: "list_all2 (\<lambda>p w. w \<in> lang (snd p)) CORE_FILE_PATTERN ws"
    and g: "gs = (length pre, length pre + length (concat ws)) # offsets CORE_FILE_PATTERN (length pre) ws" by blast
  from core_parts [OF ws] obtain w1 w2 w3 w4 w5 where w: "ws = [''core.'', w1, ''.'', w2, ''.'', w3, ''.'', w4, ''.'', w5]"
    and l: "w4 \<in> lang (Rep digit 1 8)" "w5 \<in> lang (Rep digit 1 16)" by blast
  have len: "length w4 \<le> 8" "length w5 \<le> 16" using l unfolding digit_def lang_Rep_Cls by simp_all
  have "take 5 (drop (length pre) f) = ''core.''" by (simp add: f w)
  with b have "26 \<le> length pre" by (intro no_early_core) simp
  moreover have "length f \<le> 26 + 255" using b by (simp add: core_dir_def)
  ultimately have w1: "length w1 \<le> DEAMON_NAME_SIZE" by (simp add: f w)
  have "map (\<lambda>(a, c). c - a) (tl gs) = [length w1, length w2, length w3, length w4, length w5]"
    by (simp add: g w CORE_FILE_PATTERN_def)
  moreover have "length gs = 6" by (simp add: g w CORE_FILE_PATTERN_def)
  ultimately have d: "snd (gs ! 1) - fst (gs ! 1) = length w1" "snd (gs ! 4) - fst (gs ! 4) = length w4"
    "snd (gs ! 5) - fst (gs ! 5) = length w5"
    by (simp_all add: g w CORE_FILE_PATTERN_def)
  show "snd (gs ! 1) - fst (gs ! 1) \<le> DEAMON_NAME_SIZE \<and> snd (gs ! 4) - fst (gs ! 4) \<le> INSTANCE_ID_SIZE \<and>
      snd (gs ! 5) - fst (gs ! 5) \<le> SIZE_DATE_AND_TIME"
    unfolding d using w1 len by simp
qed

section \<open>The list\<close>

definition entry_line :: "core_env \<Rightarrow> core_info \<Rightarrow> string" where
  "entry_line env c = core_line env (ci_daemon c) (ci_instance c) (signal_desc env (ci_signal c)) (ci_date c) (ci_time c)"

definition entries :: "core_env \<Rightarrow> string list \<Rightarrow> string list" where
  "entries env fs = map (entry_line env) (List.map_filter (info_of env) fs)"

definition with_header :: "core_env \<Rightarrow> string list \<Rightarrow> string list" where
  "with_header env ls = (if ls = [] then [] else core_header env @ ls)"

lemma show_daemons_run:
  assumes "wf_cd cd" "length value0 = SIZE_DATE_AND_TIME + 1" "\<And>n. ce_local env n \<noteq> None" "\<forall>f\<in>set fs. groups_fit f"
    "ls \<noteq> [] \<longleftrightarrow> num \<noteq> 0"
  shows "\<exists>cd'. show_daemons env value0 fs cd num (with_header env ls) =
      Inr (cd', num + length (entries env fs), with_header env (ls @ entries env fs)) \<and> wf_cd cd'"
  using assms(1,4,5)
proof (induction fs arbitrary: cd num ls)
  case Nil
  then show ?case by (simp add: entries_def List.map_filter_def)
next
  case (Cons f fs)
  then have fit: "groups_fit f" by simp
  obtain cd1 where x: "extract_info env CORE_FILE_PATTERN f value0 TYPE_DAEMON cd = Inr (if info_of env f = None then - 1 else 0, cd1)"
    "wf_cd cd1" "\<And>c. info_of env f = Some c \<Longrightarrow> view cd1 = c"
    using extract_daemon [OF Cons.prems(1) assms(2) fit assms(3)] by blast
  show ?case
  proof (cases "info_of env f")
    case None
    with x(1) have "show_daemons env value0 (f # fs) cd num out = show_daemons env value0 fs cd1 num out" for out by simp
    moreover have "entries env (f # fs) = entries env fs" using None by (simp add: entries_def List.map_filter_def)
    ultimately show ?thesis using Cons.IH [OF x(2), of ls num] Cons.prems by simp
  next
    case (Some c)
    have e: "entries env (f # fs) = entry_line env c # entries env fs" using Some by (simp add: entries_def List.map_filter_def)
    have "core_line env (cstr (daemon_name cd1)) (cstr (crash_instance_id cd1)) (signal_desc env (cstr (crash_signal cd1)))
        (cstr (crash_date cd1)) (cstr (crash_time cd1)) = entry_line env c"
      using x(3) [OF Some] by (auto simp: entry_line_def view_def)
    then have "show_daemons env value0 (f # fs) cd num (with_header env ls) =
        show_daemons env value0 fs cd1 (num + 1) (with_header env (ls @ [entry_line env c]))"
      using x(1) Some Cons.prems(3) by (auto simp: with_header_def)
    with Cons.IH [OF x(2), of "ls @ [entry_line env c]" "num + 1"] Cons.prems(2) show ?thesis by (simp add: e)
  qed
qed

section \<open>A kernel core dump\<close>

definition digits :: "nat \<Rightarrow> string \<Rightarrow> bool" where
  "digits n w \<longleftrightarrow> length w = n \<and> set w \<subseteq> set (char_range CHR ''0'' CHR ''9'')"

lemma digits_lang: "w \<in> lang (Rep digit n n) \<longleftrightarrow> digits n w"
  unfolding digit_def lang_Rep_Cls digits_def by auto

lemma kernel_divide:
  "divide KERN_CORE_FILE_PATTERN pos s =
    (if digits 8 (take 8 s) \<and> take 1 (drop 8 s) = ''.'' \<and> digits 6 (take 6 (drop 9 s)) \<and> drop 15 s = ''.tar.gz''
     then Some [(pos, pos + 8), (pos + 9, pos + 15)] else None)"
proof -
  have f1: "\<And>w n. w \<in> lang (Rep digit n n) \<Longrightarrow> length w = n" by (simp only: digits_lang) (simp add: digits_def)
  have f2: "\<And>w. w \<in> lang (lit ''.'') \<Longrightarrow> length w = 1" "\<And>w. w \<in> lang (lit ''.tar.gz'') \<Longrightarrow> length w = 7" by simp_all
  have d: "divide ((g, Rep digit n n) # ps) q r =
      (if n \<le> length r \<and> digits n (take n r)
       then map_option (\<lambda>gs. if g then (q, q + n) # gs else gs) (divide ps (q + n) (drop n r)) else None)" for g n ps q r
    using divide_fixed [of "Rep digit n n" n g ps q r] f1 unfolding digits_lang by simp
  have p: "divide ((g, lit ''.'') # ps) q r =
      (if take 1 r = ''.'' then map_option (\<lambda>gs. if g then (q, q + 1) # gs else gs) (divide ps (q + 1) (drop 1 r)) else None)" for g ps q r
    using divide_fixed [of "lit ''.''" 1 g ps q r] f2(1) by (cases r) simp_all
  have z: "divide [(g, lit ''.tar.gz'')] q r = (if r = ''.tar.gz'' then Some (if g then [(q, q + 7)] else []) else None)" for g q r
    using divide_fixed [of "lit ''.tar.gz''" 7 g "[]" q r] f2(2) by auto
  have l: "digits n w \<Longrightarrow> length w = n" for n w by (simp add: digits_def)
  show ?thesis
    unfolding KERN_CORE_FILE_PATTERN_def d p z
    by (auto dest!: l simp del: divide.simps split: if_splits)
qed

text \<open>\<open>YYYYMMDD\<close> and \<open>HHMMSS\<close> as the list shows them.\<close>

definition hyphenated :: "string \<Rightarrow> string" where
  "hyphenated d = take 4 d @ ''-'' @ take 2 (drop 4 d) @ ''-'' @ drop 6 d"

definition coloned :: "string \<Rightarrow> string" where
  "coloned t = take 2 t @ '':'' @ take 2 (drop 2 t) @ '':'' @ drop 4 t"

definition kernel_file :: "string \<Rightarrow> string \<Rightarrow> string" where
  "kernel_file d t = core_dir @ ''/kernel-core/vmcore.'' @ d @ ''.'' @ t @ ''.tar.gz''"

lemma kernel_groups:
  assumes "digits 8 d" "digits 6 t" "\<forall>c\<in>set pre. c \<notin> set (char_range CHR ''0'' CHR ''9'')"
  shows "regexec_groups KERN_CORE_FILE_PATTERN (pre @ d @ ''.'' @ t @ ''.tar.gz'') =
    Some [(length pre, length pre + 22), (length pre, length pre + 8), (length pre + 9, length pre + 15)]"
proof -
  let ?u = "d @ ''.'' @ t @ ''.tar.gz''"
  have len: "length d = 8" "length t = 6" using assms(1,2) by (simp_all add: digits_def)
  have "divide KERN_CORE_FILE_PATTERN (length pre) ?u = Some [(length pre, length pre + 8), (length pre + 9, length pre + 15)]"
    unfolding kernel_divide using assms(1,2) len by simp
  moreover have "divide KERN_CORE_FILE_PATTERN i (take k (drop i (pre @ ?u @ []))) = None" if "i < length pre" for i k
  proof -
    let ?w = "take 8 (take k (drop i (pre @ ?u @ [])))"
    have "\<not> digits 8 ?w"
    proof
      assume w: "digits 8 ?w"
      have "length (take 8 (take k x)) \<le> k" for x :: string by simp
      from this [of "drop i (pre @ ?u @ [])"] have k: "8 \<le> k" using w unfolding digits_def by linarith
      have "hd (take 8 (take k (drop i x))) = x ! i" if "i < length x" for x :: string
        using that k by (simp add: hd_drop_conv_nth hd_take)
      from this [of "pre @ ?u @ []"] that have "hd ?w = pre ! i" by (simp add: nth_append)
      moreover have "?w \<noteq> []" using w unfolding digits_def by (metis list.size(3) zero_neq_numeral)
      ultimately have "pre ! i \<in> set ?w" by (metis hd_in_set)
      moreover have "set ?w \<subseteq> set (char_range CHR ''0'' CHR ''9'')" using w unfolding digits_def by (rule conjunct2)
      ultimately show False using assms(3) nth_mem [OF that] by blast
    qed
    then show ?thesis unfolding kernel_divide by simp
  qed
  ultimately show ?thesis
    using regexec_groups_eq [of KERN_CORE_FILE_PATTERN pre ?u _ "[]"] len by simp
qed

lemma length8: "length d = 8 \<Longrightarrow> \<exists>a b c d' e f g h. d = [a, b, c, d', e, f, g, h]"
  by (simp add: length_Suc_conv numeral_eq_Suc) blast

lemma length6: "length d = 6 \<Longrightarrow> \<exists>a b c d' e f. d = [a, b, c, d', e, f]"
  by (simp add: length_Suc_conv numeral_eq_Suc) blast

lemma format_date_run:
  assumes "length b = 12" "take 8 b = d"
  shows "\<exists>r. format_date b = Inr r \<and> length r = 12 \<and> r ! 10 = NUL \<and> take 11 r = hyphenated d @ [NUL]"
proof -
  from assms(1) obtain x y z w where b: "b = take 8 b @ [x, y, z, w]"
  proof -
    have "length (drop 8 b) = 4" using assms(1) by simp
    then obtain x y z w where "drop 8 b = [x, y, z, w]" by (auto simp: length_Suc_conv numeral_eq_Suc simp del: length_drop)
    then show ?thesis using that append_take_drop_id [of 8 b] by metis
  qed
  have "length d = 8" using assms by auto
  then obtain a1 a2 a3 a4 a5 a6 a7 a8 where "d = [a1, a2, a3, a4, a5, a6, a7, a8]" using length8 by metis
  with b assms(2) have b': "b = [a1, a2, a3, a4, a5, a6, a7, a8, x, y, z, w]" "d = [a1, a2, a3, a4, a5, a6, a7, a8]" by simp_all
  show ?thesis unfolding b' by (simp add: format_date_def hyphenated_def)
qed

lemma format_time_run:
  assumes "length b = 10" "take 6 b = t"
  shows "\<exists>r. format_time b = Inr r \<and> length r = 10 \<and> r ! 8 = NUL \<and> take 9 r = coloned t @ [NUL]"
proof -
  from assms(1) obtain x y z w where b: "b = take 6 b @ [x, y, z, w]"
  proof -
    have "length (drop 6 b) = 4" using assms(1) by simp
    then obtain x y z w where "drop 6 b = [x, y, z, w]" by (auto simp: length_Suc_conv numeral_eq_Suc simp del: length_drop)
    then show ?thesis using that append_take_drop_id [of 6 b] by metis
  qed
  have "length t = 6" using assms by auto
  then obtain a1 a2 a3 a4 a5 a6 where "t = [a1, a2, a3, a4, a5, a6]" using length6 by metis
  with b assms(2) have b': "b = [a1, a2, a3, a4, a5, a6, x, y, z, w]" "t = [a1, a2, a3, a4, a5, a6]" by simp_all
  show ?thesis unfolding b' by (simp add: format_time_def coloned_def)
qed

lemma no_nul_digits: "digits n w \<Longrightarrow> NUL \<notin> set w"
proof -
  have "NUL \<notin> set (char_range CHR ''0'' CHR ''9'')" by (simp add: char_range_def) code_simp
  then show "digits n w \<Longrightarrow> NUL \<notin> set w" by (auto simp: digits_def)
qed

lemma cstr_of_prefix: "take (length s + 1) b = s @ [NUL] \<Longrightarrow> NUL \<notin> set s \<Longrightarrow> cstr b = s"
  using append_take_drop_id [of "length s + 1" b] cstr_stop [of s "drop (length s + 1) b"] by (metis append.assoc append_Cons append_Nil)

lemma extract_kernel:
  assumes "digits 8 d" "digits 6 t" "wf_cd cd"
  shows "\<exists>cd'. extract_info env KERN_CORE_FILE_PATTERN (kernel_file d t) value0 TYPE_KERNEL cd = Inr (0, cd') \<and> wf_cd cd' \<and>
    cstr (crash_date cd') = hyphenated d \<and> cstr (crash_time cd') = coloned t"
proof -
  define pre where "pre = core_dir @ ''/kernel-core/vmcore.''"
  have f: "kernel_file d t = pre @ d @ ''.'' @ t @ ''.tar.gz''" by (simp add: kernel_file_def pre_def)
  have len: "length d = 8" "length t = 6" using assms(1,2) by (simp_all add: digits_def)
  have nodigit: "\<forall>c\<in>set pre. c \<notin> set (char_range CHR ''0'' CHR ''9'')"
    unfolding pre_def core_dir_def char_range_def by code_simp
  let ?n = "length pre"
  have g: "regexec_groups KERN_CORE_FILE_PATTERN (kernel_file d t) = Some [(?n, ?n + 22), (?n, ?n + 8), (?n + 9, ?n + 15)]"
    unfolding f by (rule kernel_groups [OF assms(1,2) nodigit])
  have wf: "length (crash_date cd) = 12" "length (crash_time cd) = 10" using assms(3) by (simp_all add: wf_cd_def)
  let ?b = "d @ drop 8 (crash_date cd)" let ?c = "t @ drop 6 (crash_time cd)"
  obtain r where r: "format_date ?b = Inr r" "length r = 12" "r ! 10 = NUL" "take 11 r = hyphenated d @ [NUL]"
    using format_date_run [of ?b d] wf len by auto
  obtain q where q: "format_time ?c = Inr q" "length q = 10" "q ! 8 = NUL" "take 9 q = coloned t @ [NUL]"
    using format_time_run [of ?c t] wf len by auto
  have "drop ?n (kernel_file d t) = d @ ''.'' @ t @ ''.tar.gz''" "drop (?n + 9) (kernel_file d t) = t @ ''.tar.gz''"
    using len by (simp_all add: f)
  then have run: "extract_info env KERN_CORE_FILE_PATTERN (kernel_file d t) value0 TYPE_KERNEL cd =
      Inr (0, cd\<lparr>crash_date := r, crash_time := q\<rparr>)"
    using wf len r(1) q(1) by (simp add: extract_info_def g kernel_fields_def)
  have "NUL \<notin> set (hyphenated d)" "NUL \<notin> set (coloned t)"
    using no_nul_digits [OF assms(1)] no_nul_digits [OF assms(2)]
    by (auto simp: hyphenated_def coloned_def dest: in_set_takeD in_set_dropD)
  moreover have "length (hyphenated d) = 10" "length (coloned t) = 8" using len by (simp_all add: hyphenated_def coloned_def)
  ultimately have "cstr r = hyphenated d" "cstr q = coloned t"
    using r(4) q(4) by (intro cstr_of_prefix; simp)+
  with run r q assms(3) show ?thesis by (intro exI [of _ "cd\<lparr>crash_date := r, crash_time := q\<rparr>"]) (simp add: wf_cd_def)
qed

section \<open>A daemon core dump by its name\<close>

lemma lang_Star_Cls: "w \<in> lang (Star (Cls cs)) \<longleftrightarrow> set w \<subseteq> set cs"
  by (simp only: lang.simps(6) lpow_Cls) auto

lemma lang_plus_Cls: "w \<in> lang (plus (Cls cs)) \<longleftrightarrow> 0 < length w \<and> set w \<subseteq> set cs"
proof -
  have "w \<in> lang (plus (Cls cs)) \<longleftrightarrow> w \<in> conc ((\<lambda>c. [c]) ` set cs) (lang (Star (Cls cs)))"
    unfolding plus_def lang.simps(5) lang.simps(3) by (rule refl)
  also have "\<dots> \<longleftrightarrow> (\<exists>c v. w = c # v \<and> c \<in> set cs \<and> set v \<subseteq> set cs)"
    unfolding conc_singletons lang_Star_Cls by (rule refl)
  also have "\<dots> \<longleftrightarrow> 0 < length w \<and> set w \<subseteq> set cs" by (cases w) auto
  finally show ?thesis .
qed

definition dec_chars :: "char set" where "dec_chars = set (char_range CHR ''0'' CHR ''9'')"
definition hex_chars :: "char set" where
  "hex_chars = set (char_range CHR ''0'' CHR ''9'' @ char_range CHR ''a'' CHR ''f'')"
definition dot_chars :: "char set" where
  "dot_chars = set (map char_of (filter (\<lambda>n. n \<noteq> 10) [1..<256 :: nat]) :: char list)"

lemma langs:
  "w \<in> lang (Star dot) \<longleftrightarrow> set w \<subseteq> dot_chars"
  "w \<in> lang (plus digit) \<longleftrightarrow> 0 < length w \<and> set w \<subseteq> dec_chars"
  "w \<in> lang (Rep (Cls (char_range CHR ''0'' CHR ''9'' @ char_range CHR ''a'' CHR ''f'')) 1 64) \<longleftrightarrow>
     (1 \<le> length w \<and> length w \<le> 64) \<and> set w \<subseteq> hex_chars"
  "w \<in> lang (Rep digit m n) \<longleftrightarrow> (m \<le> length w \<and> length w \<le> n) \<and> set w \<subseteq> dec_chars"
  unfolding dot_def digit_def lang_Star_Cls lang_plus_Cls lang_Rep_Cls dot_chars_def dec_chars_def hex_chars_def by auto

lemma no_dot: "CHR ''.'' \<notin> dec_chars" "CHR ''.'' \<notin> hex_chars" "dec_chars \<subseteq> hex_chars"
  unfolding dec_chars_def hex_chars_def char_range_def by (code_simp, code_simp, simp)

lemma divide_dot:
  "divide ((False, lit ''.'') # ps) q (CHR ''.'' # r) = divide ps (q + 1) r"
  using divide_fixed [of "lit ''.''" 1 False ps q "CHR ''.'' # r"] by (simp add: map_option.id [unfolded id_def])

text \<open>The last four parts of a name hold no period, so the text has exactly one division.\<close>

definition tail_parts :: parts where
  "tail_parts = tl (tl CORE_FILE_PATTERN)"

lemma tail_dots: "w \<in> lang (parts_rx tail_parts) \<Longrightarrow> length (filter (\<lambda>c. c = CHR ''.'') w) = 4"
proof -
  assume "w \<in> lang (parts_rx tail_parts)"
  then have "divide tail_parts 0 w \<noteq> None" by (simp add: divide_None)
  then obtain ws where w: "w = concat ws" and l: "list_all2 (\<lambda>p w. w \<in> lang (snd p)) tail_parts ws"
    using divide_sound by blast
  have f: "filter (\<lambda>c. c = CHR ''.'') v = []" if "set v \<subseteq> dec_chars \<or> set v \<subseteq> hex_chars" for v
    using that no_dot by (auto simp: filter_empty_conv)
  have "list_all2 (\<lambda>p w. w \<in> lang (snd p)) CORE_FILE_PATTERN (''core.'' # [] # ws)"
    using l langs(1) [of "[]"] unfolding CORE_FILE_PATTERN_def tail_parts_def by (simp del: lang.simps)
  from core_parts [OF this] obtain w2 w3 w4 w5 where "ws = [''.'', w2, ''.'', w3, ''.'', w4, ''.'', w5]"
    "w2 \<in> lang (plus digit)" "w3 \<in> lang (Rep (Cls (char_range CHR ''0'' CHR ''9'' @ char_range CHR ''a'' CHR ''f'')) 1 64)"
    "w4 \<in> lang (Rep digit 1 8)" "w5 \<in> lang (Rep digit 1 16)"
    by (auto simp del: lang.simps)
  then show ?thesis unfolding langs w by (simp add: f)
qed

definition tail_text :: "string \<Rightarrow> string \<Rightarrow> string \<Rightarrow> string \<Rightarrow> string" where
  "tail_text uid boot pid ts = ''.'' @ uid @ ''.'' @ boot @ ''.'' @ pid @ ''.'' @ ts"

definition wf_tail :: "string \<Rightarrow> string \<Rightarrow> string \<Rightarrow> string \<Rightarrow> bool" where
  "wf_tail uid boot pid ts \<longleftrightarrow> 0 < length uid \<and> set uid \<subseteq> dec_chars \<and> 1 \<le> length boot \<and> length boot \<le> 64 \<and> set boot \<subseteq> hex_chars \<and>
     1 \<le> length pid \<and> length pid \<le> 8 \<and> set pid \<subseteq> dec_chars \<and> 1 \<le> length ts \<and> length ts \<le> 16 \<and> set ts \<subseteq> dec_chars"

lemma divide_run_dot:
  assumes r: "\<And>w. w \<in> lang rx \<longleftrightarrow> P (length w) \<and> set w \<subseteq> A"
    and u: "P (length u)" "set u \<subseteq> A" and a: "CHR ''.'' \<notin> A" and d: "divide ps (q + length u + 1) v = Some gs"
  shows "divide ((True, rx) # (False, lit ''.'') # ps) q (u @ CHR ''.'' # v) = Some ((q, q + length u) # gs)"
proof -
  have v: "CHR ''.'' # v = [] \<or> hd (CHR ''.'' # v) \<notin> A" using a by simp
  have "divide ((False, lit ''.'') # ps) (q + length u) (CHR ''.'' # v) = Some gs" unfolding divide_dot using d by simp
  from divide_run [where g = True and pos = q, OF r u v this] show ?thesis by simp
qed

lemma divide_tail:
  assumes "wf_tail uid boot pid ts"
  shows "\<exists>g2 g3. divide tail_parts q (tail_text uid boot pid ts) =
    Some [g2, g3, (q + length uid + length boot + 3, q + length uid + length boot + 3 + length pid),
      (q + length uid + length boot + length pid + 4, q + length uid + length boot + length pid + 4 + length ts)]"
proof -
  have t: "tail_parts = [(False, lit ''.''), (True, plus digit), (False, lit ''.''),
     (True, Rep (Cls (char_range CHR ''0'' CHR ''9'' @ char_range CHR ''a'' CHR ''f'')) 1 64), (False, lit ''.''),
     (True, Rep digit 1 8), (False, lit ''.''), (True, Rep digit 1 16)]"
    by (simp add: tail_parts_def CORE_FILE_PATTERN_def)
  have wf: "0 < length uid" "set uid \<subseteq> dec_chars" "1 \<le> length boot \<and> length boot \<le> 64" "set boot \<subseteq> hex_chars"
    "1 \<le> length pid \<and> length pid \<le> 8" "set pid \<subseteq> dec_chars" "1 \<le> length ts \<and> length ts \<le> 16" "set ts \<subseteq> dec_chars"
    using assms by (simp_all add: wf_tail_def)
  have "divide [] (x + length ts) [] = Some []" for x by simp
  from divide_run [where g = True, OF langs(4) [of _ 1 16] wf(7,8) _ this]
  have d5: "divide [(True, Rep digit 1 16)] x ts = Some [(x, x + length ts)]" for x by simp
  note d4 = divide_run_dot [OF langs(4) [of _ 1 8] wf(5,6) no_dot(1) d5]
  note d3 = divide_run_dot [OF langs(3) wf(3,4) no_dot(2) d4]
  note d2 = divide_run_dot [OF langs(2) wf(1,2) no_dot(1) d3, of "q + 1"]
  have "divide tail_parts q (tail_text uid boot pid ts) = divide (tl tail_parts) (q + 1)
      (uid @ CHR ''.'' # boot @ CHR ''.'' # pid @ CHR ''.'' # ts)"
    unfolding t tail_text_def list.sel append_Cons append_Nil by (rule divide_dot)
  with d2 show ?thesis unfolding t list.sel by (simp del: divide.simps)
qed

definition core_file :: "string \<Rightarrow> string \<Rightarrow> string \<Rightarrow> string \<Rightarrow> string \<Rightarrow> string \<Rightarrow> string" where
  "core_file name uid boot pid ts suffix = core_dir @ ''/core.'' @ name @ tail_text uid boot pid ts @ suffix"

lemma CORE_FILE_PATTERN_parts: "CORE_FILE_PATTERN = (False, lit ''core.'') # (True, Star dot) # tail_parts"
  by (simp add: CORE_FILE_PATTERN_def tail_parts_def)

lemma filter_drop_le: "length (filter P (drop m xs)) \<le> length (filter P xs)"
proof -
  have "filter P xs = filter P (take m xs) @ filter P (drop m xs)" by (metis append_take_drop_id filter_append)
  then show ?thesis by simp
qed

lemma divide_name:
  assumes "set name \<subseteq> dot_chars" "wf_tail uid boot pid ts"
  shows "\<exists>g2 g3. divide ((True, Star dot) # tail_parts) q (name @ tail_text uid boot pid ts) = (let p = q + length name in
    Some [(q, p), g2, g3, (p + length uid + length boot + 3, p + length uid + length boot + 3 + length pid),
      (p + length uid + length boot + length pid + 4, p + length uid + length boot + length pid + 4 + length ts)])"
proof -
  let ?t = "tail_text uid boot pid ts"
  let ?f = "\<lambda>k. if rx_match (snd (True, Star dot)) (take k (name @ ?t))
     then map_option (\<lambda>gs. if fst (True, Star dot) then (q, q + k) # gs else gs) (divide tail_parts (q + k) (drop k (name @ ?t))) else None"
  from divide_tail [OF assms(2)] obtain g2 g3 where d: "divide tail_parts (q + length name) ?t = (let p = q + length name in
      Some [g2, g3, (p + length uid + length boot + 3, p + length uid + length boot + 3 + length pid),
      (p + length uid + length boot + length pid + 4, p + length uid + length boot + length pid + 4 + length ts)])"
    unfolding Let_def by blast
  have four: "length (filter (\<lambda>c. c = CHR ''.'') ?t) = 4"
    using d tail_dots [of ?t] divide_None [of tail_parts "q + length name" ?t] by (auto simp: Let_def)
  have "longest ?f (length (name @ ?t)) = (let p = q + length name in
    Some [(q, p), g2, g3, (p + length uid + length boot + 3, p + length uid + length boot + 3 + length pid),
      (p + length uid + length boot + length pid + 4, p + length uid + length boot + length pid + 4 + length ts)])"
    unfolding Let_def
  proof (rule longest_eq [of "length name"])
    show "length name \<le> length (name @ ?t)" by simp
    show "?f (length name) = Some [(q, q + length name), g2, g3,
       (q + length name + length uid + length boot + 3, q + length name + length uid + length boot + 3 + length pid),
       (q + length name + length uid + length boot + length pid + 4, q + length name + length uid + length boot + length pid + 4 + length ts)]"
      using assms(1) d langs(1) [of name] by (simp add: rx_match_lang Let_def del: lang.simps)
    show "\<forall>j. length name < j \<and> j \<le> length (name @ ?t) \<longrightarrow> ?f j = None"
    proof (intro allI impI, elim conjE)
      fix j assume j: "length name < j"
      then obtain m where m: "j = length name + Suc m" by (metis add_Suc_right less_imp_Suc_add)
      have "drop j (name @ ?t) = drop m (tl ?t)" by (simp add: m tail_text_def)
      then have "length (filter (\<lambda>c. c = CHR ''.'') (drop j (name @ ?t))) \<le> length (filter (\<lambda>c. c = CHR ''.'') (tl ?t))"
        by (simp only: filter_drop_le)
      also have "\<dots> < 4" using four by (simp add: tail_text_def)
      finally have "drop j (name @ ?t) \<notin> lang (parts_rx tail_parts)" using tail_dots [of "drop j (name @ ?t)"] by linarith
      then have "divide tail_parts (q + j) (drop j (name @ ?t)) = None" unfolding divide_None .
      then show "?f j = None" by (simp only: option.map if_cancel)
    qed
  qed
  then show ?thesis unfolding divide.simps(2) by blast
qed

lemma daemon_groups:
  assumes "set name \<subseteq> dot_chars" "wf_tail uid boot pid ts" "\<forall>c\<in>set suffix. c \<notin> dec_chars"
  shows "\<exists>g0 g2 g3. regexec_groups CORE_FILE_PATTERN (core_file name uid boot pid ts suffix) = (let p = 31 + length name in
    Some [g0, (31, p), g2, g3, (p + length uid + length boot + 3, p + length uid + length boot + 3 + length pid),
      (p + length uid + length boot + length pid + 4, p + length uid + length boot + length pid + 4 + length ts)])"
proof -
  let ?pre = "core_dir @ ''/''" let ?u = "''core.'' @ name @ tail_text uid boot pid ts"
  have pre: "length ?pre = 26" by (simp add: core_dir_def)
  have core: "divide CORE_FILE_PATTERN q r = (if take 5 r = ''core.'' then divide ((True, Star dot) # tail_parts) (q + 5) (drop 5 r) else None)" for q r
  proof -
    have id: "map_option (\<lambda>gs. if False then (q, q + 5) # gs else gs) z = z" for z by (cases z) simp_all
    have "take 5 r = ''core.'' \<Longrightarrow> 5 \<le> length r" by (drule arg_cong [of _ _ length]) simp
    with divide_fixed [of "lit ''core.''" 5 False "(True, Star dot) # tail_parts" q r] show ?thesis
      unfolding CORE_FILE_PATTERN_parts id lang_lit singleton_iff by (simp del: divide.simps)
  qed
  from divide_name [OF assms(1,2), of 31] obtain g2 g3 where d: "divide CORE_FILE_PATTERN 26 ?u = (let p = 31 + length name in
    Some [(31, p), g2, g3, (p + length uid + length boot + 3, p + length uid + length boot + 3 + length pid),
      (p + length uid + length boot + length pid + 4, p + length uid + length boot + length pid + 4 + length ts)])"
    unfolding core by (simp del: divide.simps) blast
  have "regexec_groups CORE_FILE_PATTERN (?pre @ ?u @ suffix) = Some ((length ?pre, length ?pre + length ?u) # the (divide CORE_FILE_PATTERN 26 ?u))"
  proof (rule regexec_groups_eq)
    show "divide CORE_FILE_PATTERN (length ?pre) ?u = Some (the (divide CORE_FILE_PATTERN 26 ?u))"
      unfolding pre d Let_def by simp
  next
    fix i k assume i: "i < length ?pre"
    have "take 5 (take k (drop i (?pre @ ?u @ suffix))) \<noteq> ''core.''"
    proof
      assume a: "take 5 (take k (drop i (?pre @ ?u @ suffix))) = ''core.''"
      have "take 5 (take k x) = ''core.'' \<Longrightarrow> take 5 x = ''core.''" for x :: string
      proof -
        assume t: "take 5 (take k x) = ''core.''"
        then have "length (take 5 (take k x)) = 5" by simp
        then have "5 \<le> k" by simp
        with t show "take 5 x = ''core.''" by (simp add: min_def)
      qed
      from this [OF a] no_early_core [of i "?u @ suffix"] i pre show False by simp
    qed
    then show "divide CORE_FILE_PATTERN i (take k (drop i (?pre @ ?u @ suffix))) = None" unfolding core by (simp only: if_False)
  next
    fix k assume k: "length ?u < k" "k \<le> length ?u + length suffix"
    show "divide CORE_FILE_PATTERN (length ?pre) (take k (?u @ suffix)) = None"
    proof (rule ccontr)
      assume "divide CORE_FILE_PATTERN (length ?pre) (take k (?u @ suffix)) \<noteq> None"
      then obtain ws where w: "take k (?u @ suffix) = concat ws" and l: "list_all2 (\<lambda>p w. w \<in> lang (snd p)) CORE_FILE_PATTERN ws"
        using divide_sound by blast
      from core_parts [OF l] obtain w1 w2 w3 w4 w5 where ws: "ws = [''core.'', w1, ''.'', w2, ''.'', w3, ''.'', w4, ''.'', w5]"
        and "w5 \<in> lang (Rep digit 1 16)" by blast
      moreover have "concat ws = (''core.'' @ w1 @ ''.'' @ w2 @ ''.'' @ w3 @ ''.'' @ w4 @ ''.'') @ w5" by (simp add: ws)
      ultimately have "w5 \<noteq> []" "set w5 \<subseteq> dec_chars" "last (concat ws) = last w5" unfolding langs by auto
      then have "last (concat ws) \<in> dec_chars" by (metis last_in_set subsetD)
      moreover have "last (take k (?u @ suffix)) \<in> set suffix"
      proof -
        have "length u < k \<Longrightarrow> take k (u @ suffix) = u @ take (k - length u) suffix" for u by simp
        note this [OF k(1)]
        moreover have "take (k - length ?u) suffix \<noteq> []" using k by auto
        ultimately show ?thesis by (metis in_set_takeD last_appendR last_in_set)
      qed
      ultimately show False using assms(3) w by auto
    qed
  qed
  moreover have "core_file name uid boot pid ts suffix = ?pre @ ?u @ suffix" by (simp add: core_file_def)
  ultimately show ?thesis unfolding d Let_def by simp
qed

end
