(* ===== verification/Core_Dump_Correct.thy ===== *)
theory Core_Dump_Correct
  imports Core_Dump_Spec
begin

text \<open>
  The properties of the core dump list: which files the patterns select, what is read from a
  name, and the text of \<open>show core-dump\<close>.
\<close>

section \<open>The patterns\<close>

lemma glob_escaped_path:
  "\<forall>c\<in>set u. glob_plain c \<Longrightarrow> glob_match (escaped u @ q) s \<longleftrightarrow> (\<exists>t. s = u @ t \<and> glob_match q t)"
proof (induction u arbitrary: s)
  case (Cons c u)
  have e: "escaped (c # u) @ q = (if c = CHR ''/'' then [CHR 0x5C, c] else [c]) @ escaped u @ q" by (simp add: escaped_def)
  have "glob_match (escaped (c # u) @ q) s \<longleftrightarrow> (\<exists>t. s = c # t \<and> glob_match (escaped u @ q) t)"
    unfolding e using Cons.prems by (simp add: glob_escaped glob_plain_Cons)
  with Cons show ?case by auto
qed (simp add: escaped_def)

lemma core_dir_plain: "\<forall>c\<in>set core_dir. glob_plain c"
  by (simp add: core_dir_def glob_plain_def)

lemma glob_any: "glob_match ''*'' s \<longleftrightarrow> CHR ''/'' \<notin> set s"
  unfolding glob_star by auto

definition is_daemon_core :: "string \<Rightarrow> bool" where
  "is_daemon_core f \<longleftrightarrow> (\<exists>x. f = core_dir @ ''/core.'' @ x \<and> CHR ''/'' \<notin> set x)"

lemma glob_daemons: "glob_match (GB_PATTERN DAEMON_CORE_PATH) f \<longleftrightarrow> is_daemon_core f"
proof -
  have p: "GB_PATTERN DAEMON_CORE_PATH = escaped core_dir @ ''/core.'' @ ''*''" by (simp add: GB_PATTERN_def DAEMON_CORE_PATH_def)
  have plain: "\<forall>c\<in>set ''/core.''. glob_plain c" by (simp add: glob_plain_def)
  show ?thesis
    unfolding p glob_escaped_path [OF core_dir_plain] glob_text [OF plain] glob_any is_daemon_core_def by blast
qed

lemma in_char_range: "x \<in> set (char_range a b) \<longleftrightarrow> of_char a \<le> (of_char x :: nat) \<and> (of_char x :: nat) \<le> of_char b"
proof
  assume "x \<in> set (char_range a b)"
  then obtain n :: nat where n: "of_char a \<le> n" "n \<le> of_char b" "x = char_of n"
    by (auto simp: char_range_def less_Suc_eq_le simp del: upt_Suc)
  have "(of_char b :: nat) < 256" by (rule nat_of_char_less_256)
  with n(2) have "n < 256" by linarith
  with n show "of_char a \<le> (of_char x :: nat) \<and> (of_char x :: nat) \<le> of_char b" by simp
next
  assume "of_char a \<le> (of_char x :: nat) \<and> (of_char x :: nat) \<le> of_char b"
  then have "(of_char x :: nat) \<in> set [of_char a ..< Suc (of_char b)]" by (simp add: less_Suc_eq_le del: upt_Suc)
  then have "char_of (of_char x :: nat) \<in> set (char_range a b)" unfolding char_range_def set_map by (rule imageI)
  then show "x \<in> set (char_range a b)" by simp
qed

lemma glob_digits: "glob_match (concat (replicate n digit_range) @ q) s \<longleftrightarrow> (\<exists>u t. s = u @ t \<and> digits n u \<and> glob_match q t)"
proof (induction n arbitrary: s)
  case 0
  show ?case by (auto simp: digits_def)
next
  case (Suc n)
  have "glob_match (concat (replicate (Suc n) digit_range) @ q) s \<longleftrightarrow>
      (\<exists>x t. s = x # t \<and> x \<in> dec_chars \<and> glob_match (concat (replicate n digit_range) @ q) t)"
    by (simp add: digit_range_def glob_range dec_chars_def in_char_range)
  also have "\<dots> \<longleftrightarrow> (\<exists>u t. s = u @ t \<and> digits (Suc n) u \<and> glob_match q t)"
    unfolding Suc.IH
  proof
    assume "\<exists>x t. s = x # t \<and> x \<in> dec_chars \<and> (\<exists>u ta. t = u @ ta \<and> digits n u \<and> glob_match q ta)"
    then obtain x u t where "s = (x # u) @ t" "x \<in> dec_chars" "digits n u" "glob_match q t" by auto
    then show "\<exists>u t. s = u @ t \<and> digits (Suc n) u \<and> glob_match q t"
      by (intro exI [of _ "x # u"] exI [of _ t]) (auto simp: digits_def dec_chars_def)
  next
    assume "\<exists>u t. s = u @ t \<and> digits (Suc n) u \<and> glob_match q t"
    then obtain u t where u: "s = u @ t" "digits (Suc n) u" "glob_match q t" by blast
    then obtain x v where "u = x # v" by (cases u) (auto simp: digits_def)
    with u show "\<exists>x t. s = x # t \<and> x \<in> dec_chars \<and> (\<exists>u ta. t = u @ ta \<and> digits n u \<and> glob_match q ta)"
      by (intro exI [of _ x] exI [of _ "v @ t"]) (auto simp: digits_def dec_chars_def)
  qed
  finally show ?case .
qed

definition is_kernel_core :: "string \<Rightarrow> bool" where
  "is_kernel_core f \<longleftrightarrow> (\<exists>d t. f = kernel_file d t \<and> digits 8 d \<and> digits 6 t)"

lemma glob_kernel: "glob_match (KERNEL_CORE_PATH @ ''/kernel-core/'' @ KERN_GB_PATTERN) f \<longleftrightarrow> is_kernel_core f"
proof -
  have p: "KERNEL_CORE_PATH @ ''/kernel-core/'' @ KERN_GB_PATTERN = escaped core_dir @ ''/kernel-core/vmcore.'' @
      concat (replicate 8 digit_range) @ ''.'' @ concat (replicate 6 digit_range) @ ''.tar.gz'' @ []"
    by (simp add: KERNEL_CORE_PATH_def KERN_GB_PATTERN_def)
  have plain: "\<forall>c\<in>set ''/kernel-core/vmcore.''. glob_plain c" "\<forall>c\<in>set ''.''. glob_plain c" "\<forall>c\<in>set ''.tar.gz''. glob_plain c"
    by (simp_all add: glob_plain_def)
  have q1: "glob_match (''.tar.gz'' @ []) r \<longleftrightarrow> r = ''.tar.gz''" for r
    unfolding glob_text [OF plain(3)] glob_Nil by blast
  have q2: "glob_match (concat (replicate 6 digit_range) @ ''.tar.gz'' @ []) r \<longleftrightarrow> (\<exists>t. digits 6 t \<and> r = t @ ''.tar.gz'')" for r
    unfolding glob_digits q1 by blast
  have q3: "glob_match (''.'' @ concat (replicate 6 digit_range) @ ''.tar.gz'' @ []) r \<longleftrightarrow>
      (\<exists>t. digits 6 t \<and> r = ''.'' @ t @ ''.tar.gz'')" for r
    unfolding glob_text [OF plain(2)] q2 by blast
  have q4: "glob_match (concat (replicate 8 digit_range) @ ''.'' @ concat (replicate 6 digit_range) @ ''.tar.gz'' @ []) r \<longleftrightarrow>
      (\<exists>d t. digits 8 d \<and> digits 6 t \<and> r = d @ ''.'' @ t @ ''.tar.gz'')" for r
    unfolding glob_digits q3 by blast
  show ?thesis
    unfolding p glob_escaped_path [OF core_dir_plain] glob_text [OF plain(1)] q4 is_kernel_core_def kernel_file_def by blast
qed

section \<open>The command\<close>

definition kernel_entries :: "core_env \<Rightarrow> string list \<Rightarrow> string list" where
  "kernel_entries env fs = (case filter is_kernel_core fs of
     [] \<Rightarrow> []
   | f # _ \<Rightarrow> (let r = drop (length (core_dir @ ''/kernel-core/vmcore.'')) f in
       [core_line env ''kernel'' '' '' '' '' (hyphenated (take 8 r)) (coloned (take 6 (drop 9 r)))]))"

definition core_report :: "core_env \<Rightarrow> string list \<Rightarrow> string list" where
  "core_report env ls =
     (if ls = [] then [''No core dumps are present'' @ ce_nl env] else core_header env @ ls @ core_footer env (length ls))"

lemma file_list:
  assumes "\<And>p. ce_glob_error env p = 0"
  shows "get_file_list env TYPE_DAEMON GB_PATTERN None None = (0, filter is_daemon_core (ce_files env))"
    and "get_file_list env TYPE_KERNEL (\<lambda>_. KERN_GB_PATTERN) None None = (0, filter is_kernel_core (ce_files env))"
proof -
  have t: "location_text TYPE_DAEMON GB_PATTERN None None = GB_PATTERN DAEMON_CORE_PATH"
    "location_text TYPE_KERNEL (\<lambda>_. KERN_GB_PATTERN) None None = KERNEL_CORE_PATH @ ''/kernel-core/'' @ KERN_GB_PATTERN"
    by (simp_all add: location_text_def)
  have l: "length (GB_PATTERN DAEMON_CORE_PATH) \<le> CORE_FILE_NAME - 1" "length (KERNEL_CORE_PATH @ ''/kernel-core/'' @ KERN_GB_PATTERN) \<le> CORE_FILE_NAME - 1"
    by (simp_all add: GB_PATTERN_def DAEMON_CORE_PATH_def KERNEL_CORE_PATH_def KERN_GB_PATTERN_def escaped_def core_dir_def
        digit_range_def numeral_eq_Suc)
  have g: "glob_match (GB_PATTERN DAEMON_CORE_PATH) = is_daemon_core"
    "glob_match (KERNEL_CORE_PATH @ ''/kernel-core/'' @ KERN_GB_PATTERN) = is_kernel_core"
    using glob_daemons glob_kernel by blast+
  show "get_file_list env TYPE_DAEMON GB_PATTERN None None = (0, filter is_daemon_core (ce_files env))"
    unfolding get_file_list_def Let_def t(1) take_all [OF l(1)] g(1) assms using l(1) by simp
  show "get_file_list env TYPE_KERNEL (\<lambda>_. KERN_GB_PATTERN) None None = (0, filter is_kernel_core (ce_files env))"
    unfolding get_file_list_def Let_def t(2) take_all [OF l(2)] g(2) assms using l(2) by simp
qed

lemma show_kernel_run:
  assumes "wf_cd cd"
  shows "show_kernel env value0 (filter is_kernel_core fs) cd (length ls) (with_header env ls) =
    Inr (length (ls @ kernel_entries env fs), with_header env (ls @ kernel_entries env fs))"
proof (cases "filter is_kernel_core fs")
  case Nil
  then show ?thesis by (simp add: show_kernel_def kernel_entries_def)
next
  case (Cons f rest)
  then have "f \<in> set (filter is_kernel_core fs)" by simp
  then have "is_kernel_core f" by simp
  then obtain d t where f: "f = kernel_file d t" "digits 8 d" "digits 6 t" by (auto simp: is_kernel_core_def)
  have len: "length d = 8" "length t = 6" using f(2,3) by (simp_all add: digits_def)
  obtain cd' where x: "extract_info env KERN_CORE_FILE_PATTERN f value0 TYPE_KERNEL cd = Inr (0, cd')"
    "cstr (crash_date cd') = hyphenated d" "cstr (crash_time cd') = coloned t"
    using extract_kernel [OF f(2,3) assms] unfolding f(1) by blast
  have r: "drop (length (core_dir @ ''/kernel-core/vmcore.'')) f = d @ ''.'' @ t @ ''.tar.gz''" by (simp add: f(1) kernel_file_def)
  have k: "kernel_entries env fs = [core_line env ''kernel'' '' '' '' '' (hyphenated d) (coloned t)]"
    unfolding kernel_entries_def Cons list.case Let_def r using len by simp
  show ?thesis unfolding Cons show_kernel_def list.case x(1) k by (simp add: x(2,3) with_header_def)
qed

lemma show_run:
  assumes "length value0 = SIZE_DATE_AND_TIME + 1" "\<And>p. ce_glob_error env p = 0" "\<And>n. ce_local env n \<noteq> None"
    and "\<forall>f\<in>set (ce_files env). is_daemon_core f \<longrightarrow> in_core_dir f"
  shows "cli_show_core_dump env value0 = Inr (CMD_SUCCESS,
    core_report env (entries env (filter is_daemon_core (ce_files env)) @ kernel_entries env (ce_files env)))"
proof -
  let ?ds = "filter is_daemon_core (ce_files env)"
  let ?ls = "entries env ?ds"
  have "\<forall>f\<in>set ?ds. groups_fit f" using assms(4) in_core_dir_fits by simp
  from show_daemons_run [OF wf_cd_zero assms(1,3) this, of "[]" 0] obtain cd where
    d: "show_daemons env value0 ?ds cd_zero 0 [] = Inr (cd, length ?ls, with_header env ?ls)" "wf_cd cd"
    by (auto simp: with_header_def)
  show ?thesis
    unfolding cli_show_core_dump_def file_list [OF assms(2)] prod.case
    using show_kernel_run [OF d(2), of env value0 "ce_files env" ?ls]
    by (simp add: d(1) core_report_def with_header_def)
qed

lemma kernel_keeps_wf:
  assumes "wf_cd cd"
  shows "\<exists>rc cd'. extract_info env KERN_CORE_FILE_PATTERN f value0 TYPE_KERNEL cd = Inr (rc, cd') \<and> rc \<in> {0, - 1} \<and> wf_cd cd'"
proof (cases "regexec_groups KERN_CORE_FILE_PATTERN f")
  case None
  with assms show ?thesis by (simp add: extract_info_def)
next
  case (Some gs)
  from regexec_groups_sound [OF Some] obtain pre ws post where f: "f = pre @ concat ws @ post"
    and ws: "list_all2 (\<lambda>p w. w \<in> lang (snd p)) KERN_CORE_FILE_PATTERN ws"
    and g: "gs = (length pre, length pre + length (concat ws)) # offsets KERN_CORE_FILE_PATTERN (length pre) ws" by blast
  from ws obtain d t where w: "ws = [d, ''.'', t, ''.tar.gz'']" "digits 8 d" "digits 6 t"
    by (auto simp: KERN_CORE_FILE_PATTERN_def list_all2_Cons1 digits_lang simp del: lang.simps)
  have len: "length d = 8" "length t = 6" using w(2,3) by (simp_all add: digits_def)
  let ?n = "length pre"
  have gs: "gs = [(?n, ?n + 22), (?n, ?n + 8), (?n + 9, ?n + 15)]"
    by (simp add: g w(1) KERN_CORE_FILE_PATTERN_def len)
  have dr: "drop ?n f = d @ ''.'' @ t @ ''.tar.gz'' @ post" "drop (?n + 9) f = t @ ''.tar.gz'' @ post"
    using len by (simp_all add: f w(1))
  have wf: "length (crash_date cd) = 12" "length (crash_time cd) = 10" using assms by (simp_all add: wf_cd_def)
  let ?b = "d @ drop 8 (crash_date cd)" let ?c = "t @ drop 6 (crash_time cd)"
  obtain r where r: "format_date ?b = Inr r" "length r = 12" "r ! 10 = NUL" using format_date_run [of ?b d] wf len by auto
  obtain q where q: "format_time ?c = Inr q" "length q = 10" "q ! 8 = NUL" using format_time_run [of ?c t] wf len by auto
  have "extract_info env KERN_CORE_FILE_PATTERN f value0 TYPE_KERNEL cd = Inr (0, cd\<lparr>crash_date := r, crash_time := q\<rparr>)"
    using wf len dr r(1) q(1) by (simp add: extract_info_def Some gs kernel_fields_def)
  with r q assms show ?thesis by (simp add: wf_cd_def)
qed

lemma decimal_bounds: "\<forall>c\<in>set ds. isdigit c \<Longrightarrow> 0 \<le> decimal ds \<and> decimal ds < 10 ^ length ds"
proof (induction ds rule: rev_induct)
  case Nil
  show ?case by (simp add: decimal_def)
next
  case (snoc c ds)
  then have "0 \<le> digit_val c \<and> digit_val c \<le> 9" by (auto simp: digit_val_def isdigit_def)
  with snoc show ?case by (auto simp: decimal_snoc)
qed

lemma name_read:
  assumes "set name \<subseteq> dot_chars" "length name \<le> DEAMON_NAME_SIZE" "wf_tail uid boot pid ts" "6 \<le> length ts" "\<forall>c\<in>set suffix. c \<notin> dec_chars"
    and "f = core_file name uid boot pid ts suffix" "\<And>a. ce_attr env f a = None"
    and "\<And>n. ce_local env n \<noteq> None" "ce_local env (decimal ts div 1000000) = Some (d, t)"
  shows "groups_fit f" "info_of env f = Some \<lparr>ci_daemon = name, ci_instance = pid, ci_signal = [], ci_date = cstr (take 10 d), ci_time = cstr (take 8 t)\<rparr>"
proof -
  from daemon_groups [OF assms(1,3,5)] obtain g0 g2 g3 where g: "regexec_groups CORE_FILE_PATTERN f = (let p = 31 + length name in
    Some [g0, (31, p), g2, g3, (p + length uid + length boot + 3, p + length uid + length boot + 3 + length pid),
      (p + length uid + length boot + length pid + 4, p + length uid + length boot + length pid + 4 + length ts)])"
    unfolding assms(6) by blast
  have wf: "length pid \<le> 8" "length ts \<le> 16" "set pid \<subseteq> dec_chars" "set ts \<subseteq> dec_chars" using assms(3) by (simp_all add: wf_tail_def)
  show "groups_fit f" using assms(2) wf(1,2) by (simp add: groups_fit_def g Let_def)
  have a: "getxattr env f attr n = None" for attr n by (simp add: getxattr_def assms(7))
  have nul: "NUL \<notin> dec_chars" "NUL \<notin> dot_chars"
  proof -
    show "NUL \<notin> dec_chars" by (simp add: dec_chars_def in_char_range)
    show "NUL \<notin> dot_chars"
    proof
      assume "NUL \<in> dot_chars"
      then obtain n :: nat where n: "1 \<le> n" "n < 256" "NUL = char_of n" by (auto simp: dot_chars_def simp del: upt_Suc)
      have "(of_char NUL :: nat) = n mod 256" unfolding n(3) by simp
      with n(1,2) show False by simp
    qed
  qed
  have drops: "drop 31 f = name @ tail_text uid boot pid ts @ suffix"
    "drop (31 + length name + length uid + length boot + 3) f = pid @ ''.'' @ ts @ suffix"
    "drop (31 + length name + length uid + length boot + length pid + 4) f = ts @ suffix"
  proof -
    have at: "drop (length u) (u @ v) = v" for u v :: string by simp
    have l: "length core_dir = 25" by (simp add: core_dir_def)
    have e: "f = (core_dir @ ''/core.'') @ name @ tail_text uid boot pid ts @ suffix"
      "f = (core_dir @ ''/core.'' @ name @ ''.'' @ uid @ ''.'' @ boot @ ''.'') @ pid @ ''.'' @ ts @ suffix"
      "f = (core_dir @ ''/core.'' @ name @ ''.'' @ uid @ ''.'' @ boot @ ''.'' @ pid @ ''.'') @ ts @ suffix"
      by (simp_all add: assms(6) core_file_def tail_text_def)
    show "drop 31 f = name @ tail_text uid boot pid ts @ suffix" using at [of "core_dir @ ''/core.''"] l unfolding e(1) by (simp add: e(1))
    show "drop (31 + length name + length uid + length boot + 3) f = pid @ ''.'' @ ts @ suffix"
    proof -
      have "length (core_dir @ ''/core.'' @ name @ ''.'' @ uid @ ''.'' @ boot @ ''.'') = 31 + length name + length uid + length boot + 3" using l by simp
      from at [of "core_dir @ ''/core.'' @ name @ ''.'' @ uid @ ''.'' @ boot @ ''.''" "pid @ ''.'' @ ts @ suffix", unfolded this, folded e(2)] show ?thesis .
    qed
    show "drop (31 + length name + length uid + length boot + length pid + 4) f = ts @ suffix"
    proof -
      have "length (core_dir @ ''/core.'' @ name @ ''.'' @ uid @ ''.'' @ boot @ ''.'' @ pid @ ''.'') = 31 + length name + length uid + length boot + length pid + 4" using l by simp
      from at [of "core_dir @ ''/core.'' @ name @ ''.'' @ uid @ ''.'' @ boot @ ''.'' @ pid @ ''.''" "ts @ suffix", unfolded this, folded e(3)] show ?thesis .
    qed
  qed
  have cs: "cstr name = name" "cstr pid = pid" "cstr ts = ts" using nul assms(1) wf(3,4) by (auto intro: cstr_id)
  have digits: "\<forall>c\<in>set ts. isdigit c" using wf(4) by (auto simp: dec_chars_def in_char_range isdigit_def)
  show "info_of env f = Some \<lparr>ci_daemon = name, ci_instance = pid, ci_signal = [], ci_date = cstr (take 10 d), ci_time = cstr (take 8 t)\<rparr>"
  proof -
    have "decimal ts < 10 ^ length ts" "0 \<le> decimal ts" using decimal_bounds [OF digits] by simp_all
    moreover have "(10 :: int) ^ length ts \<le> 10 ^ 16" using wf(2) by (intro power_increasing) simp_all
    moreover have "ts \<noteq> []" using assms(4) by auto
    ultimately have "atoll ts = decimal ts"
      using strtol_digits [of ts] digits by (simp add: atoll_def)
    then have w: "when_of env f ts = (cstr (take 10 d), cstr (take 8 t))"
      using \<open>0 \<le> decimal ts\<close> assms(4,9) by (simp add: when_of_def a convert_to_date_and_time_def)
    have o: "attr_or_group env f x 1 DEAMON_NAME_SIZE = Some name" "attr_or_group env f x 4 INSTANCE_ID_SIZE = Some pid"
      "attr_or_group env f x 5 SIZE_DATE_AND_TIME = Some ts" for x
      using drops cs by (simp_all add: attr_or_group_def a g Let_def)
    show ?thesis unfolding info_of_def o prod.case option.case w a by simp
  qed
qed

section \<open>A concrete system\<close>

definition demo_core :: core_env where
  "demo_core = \<lparr>ce_files = [core_file ''vtysh'' ''0'' ''6ab'' ''682'' ''1459547856000000'' ''.xz'', kernel_file ''20160328'' ''095959''],
     ce_glob_error = \<lambda>_. 0, ce_attr = \<lambda>_ _. None, ce_local = \<lambda>_. Some (''2016-04-01'', ''21:57:36''),
     ce_strsignal = \<lambda>_. ''Aborted'', ce_nl = []\<rparr>"

definition value_zero :: "char list" where "value_zero = replicate (SIZE_DATE_AND_TIME + 1) NUL"

lemma demo_tail: "wf_tail ''0'' ''6ab'' ''682'' ''1459547856000000''"
  by (simp add: wf_tail_def dec_chars_def hex_chars_def in_char_range)

lemma demo_name: "set ''vtysh'' \<subseteq> dot_chars" "\<forall>c\<in>set ''.xz''. c \<notin> dec_chars"
proof -
  have "c \<in> dot_chars" if "1 \<le> (of_char c :: nat)" "(of_char c :: nat) \<noteq> 10" for c
  proof -
    have "char_of (of_char c :: nat) \<in> dot_chars" unfolding dot_chars_def set_map using that by (intro imageI) (simp del: char_of_char)
    then show ?thesis by simp
  qed
  then show "set ''vtysh'' \<subseteq> dot_chars" by simp
  show "\<forall>c\<in>set ''.xz''. c \<notin> dec_chars" by (simp add: dec_chars_def in_char_range)
qed

lemma demo_digits: "digits 8 ''20160328''" "digits 6 ''095959''"
  by (simp_all add: digits_def in_char_range)

section \<open>Properties\<close>

text \<open>C26: \<open>show core-dump\<close> lists one line per daemon core of the directory whose data can be read,
  in the order of the files, then the first kernel core, under one header and with their
  number; each line shows what the attributes or the name of its own file say, although all
  files share one buffer for it. No access leaves an array.\<close>

theorem show_core_dump_lists:
  assumes "length value0 = SIZE_DATE_AND_TIME + 1" "\<And>p. ce_glob_error env p = 0" "\<And>n. ce_local env n \<noteq> None"
    and "\<forall>f\<in>set (ce_files env). is_daemon_core f \<longrightarrow> in_core_dir f"
  shows "cli_show_core_dump env value0 = Inr (CMD_SUCCESS,
    core_report env (entries env (filter is_daemon_core (ce_files env)) @ kernel_entries env (ce_files env)))"
  using assms by (rule show_run)

lemma demo_in_dir: "\<forall>f\<in>set (ce_files demo_core). is_daemon_core f \<longrightarrow> in_core_dir f"
proof (intro ballI impI)
  fix f assume f: "f \<in> set (ce_files demo_core)" "is_daemon_core f"
  then obtain x where x: "f = core_dir @ ''/core.'' @ x" by (auto simp: is_daemon_core_def)
  have "length f \<le> 100" using f(1)
    by (auto simp: demo_core_def core_file_def tail_text_def kernel_file_def core_dir_def)
  with x show "in_core_dir f" by (auto simp: in_core_dir_def intro: exI [of _ "''core.'' @ x"])
qed

lemma show_core_dump_lists_witness:
  "cli_show_core_dump demo_core value_zero = Inr (CMD_SUCCESS,
    core_report demo_core (entries demo_core (filter is_daemon_core (ce_files demo_core)) @ kernel_entries demo_core (ce_files demo_core)))"
  using demo_in_dir by (intro show_core_dump_lists) (simp_all add: demo_core_def value_zero_def)

text \<open>C27: a daemon core without extended attributes is described by its name: from
  \<open>core.NAME.UID.BOOT.PID.TIME\<close>, also when NAME holds periods and a suffix follows, \<open>extract_info\<close> reads
  the daemon, the process as the instance, and the local date and time of TIME microseconds.\<close>

theorem extract_info_from_name:
  assumes "set name \<subseteq> dot_chars" "length name \<le> DEAMON_NAME_SIZE" "wf_tail uid boot pid ts" "6 \<le> length ts" "\<forall>c\<in>set suffix. c \<notin> dec_chars"
    and "\<And>a. ce_attr env (core_file name uid boot pid ts suffix) a = None"
    and "\<And>n. ce_local env n \<noteq> None" "ce_local env (decimal ts div 1000000) = Some (d, t)"
    and "wf_cd cd" "length value0 = SIZE_DATE_AND_TIME + 1"
  shows "\<exists>cd'. extract_info env CORE_FILE_PATTERN (core_file name uid boot pid ts suffix) value0 TYPE_DAEMON cd = Inr (0, cd') \<and>
    view cd' = \<lparr>ci_daemon = name, ci_instance = pid, ci_signal = [], ci_date = cstr (take 10 d), ci_time = cstr (take 8 t)\<rparr>"
proof -
  note r = name_read [OF assms(1-5) refl assms(6-8)]
  from extract_daemon [OF assms(9,10) r(1) assms(7)] r(2) show ?thesis by auto
qed

lemma extract_info_from_name_witness:
  "\<exists>cd'. extract_info demo_core CORE_FILE_PATTERN (core_file ''vtysh'' ''0'' ''6ab'' ''682'' ''1459547856000000'' ''.xz'') value_zero TYPE_DAEMON cd_zero =
      Inr (0, cd') \<and>
    view cd' = \<lparr>ci_daemon = ''vtysh'', ci_instance = ''682'', ci_signal = [], ci_date = ''2016-04-01'', ci_time = ''21:57:36''\<rparr>"
  using extract_info_from_name [OF demo_name(1) _ demo_tail _ demo_name(2), of demo_core "''2016-04-01''" "''21:57:36''" cd_zero value_zero] wf_cd_zero
  by (simp add: demo_core_def value_zero_def)

text \<open>The name of a kernel core, \<open>vmcore.YYYYMMDD.HHMMSS.tar.gz\<close>, is read as its date and time,
  formatted in place with hyphens and colons.\<close>

theorem extract_info_kernel:
  assumes "digits 8 d" "digits 6 t" "wf_cd cd"
  shows "\<exists>cd'. extract_info env KERN_CORE_FILE_PATTERN (kernel_file d t) value0 TYPE_KERNEL cd = Inr (0, cd') \<and> wf_cd cd' \<and>
    cstr (crash_date cd') = hyphenated d \<and> cstr (crash_time cd') = coloned t"
  using assms by (rule extract_kernel)

lemma extract_info_kernel_witness:
  "\<exists>cd'. extract_info demo_core KERN_CORE_FILE_PATTERN (kernel_file ''20160328'' ''095959'') value_zero TYPE_KERNEL cd_zero = Inr (0, cd') \<and>
    wf_cd cd' \<and> cstr (crash_date cd') = ''2016-03-28'' \<and> cstr (crash_time cd') = ''09:59:59''"
  using extract_info_kernel [OF demo_digits wf_cd_zero, of demo_core value_zero] by (simp add: hyphenated_def coloned_def)



end
