(* ===== verification/Copy_Core_Dump.thy ===== *)
theory Copy_Core_Dump
  imports Core_Dump_Correct
begin

text \<open>
  \<open>src/src/cli/copy_core_dump_vty.c\<close>: \<open>copy core-dump\<close>. It checks its arguments against regular
  expressions, lists the core files of a daemon or the kernel and hands each of them to a
  script for tftp or sftp. \<open>execute_command\<close> of the vtysh is a parameter.
\<close>

section \<open>Arguments\<close>

abbreviation MAX_FILE_STR_LEN :: nat where "MAX_FILE_STR_LEN \<equiv> 512"
abbreviation MAX_LOG_STR_LEN :: nat where "MAX_LOG_STR_LEN \<equiv> 512"

definition TFTP_STR :: string where "TFTP_STR = ''tftp''"
definition SFTP_STR :: string where "SFTP_STR = ''sftp''"
definition TFTP_NOI_SCRIPT :: string where "TFTP_NOI_SCRIPT = ''/usr/bin/tftp_noi.sh''"
definition SFTP_NOI_SCRIPT :: string where "SFTP_NOI_SCRIPT = ''/usr/bin/sftp_noi.sh''"

definition alnum :: "char list" where
  "alnum = char_range CHR ''A'' CHR ''Z'' @ char_range CHR ''a'' CHR ''z'' @ char_range CHR ''0'' CHR ''9''"

definition whole :: "char list \<Rightarrow> nat \<Rightarrow> ere" where
  "whole cs n = \<lparr>ere_bol = True, ere_body = Rep (Cls cs) 1 n, ere_eol = True\<rparr>"

definition USER_NAME_REGEX :: ere where "USER_NAME_REGEX = whole (alnum @ ''_-'') 50"
definition HOST_NAME_REGEX :: ere where "HOST_NAME_REGEX = whole (alnum @ ''_.:-'') 256"
definition FILE_NAME_REGEX :: ere where "FILE_NAME_REGEX = whole (alnum @ ''_.-'') 50"
definition DAEMON_NAME_REGEX :: ere where "DAEMON_NAME_REGEX = whole (alnum @ ''_.-'') 50"
definition COREFILE_INSTANCE_REGEX :: ere where
  "COREFILE_INSTANCE_REGEX = whole (char_range CHR ''0'' CHR ''9'') 5"

text \<open>\<open>cc_script\<close>: \<open>stat\<close> finds the script as a regular file that its group may execute. \<open>cc_execute\<close>:
  the result of the n-th \<open>execute_command\<close>.\<close>

record copy_env =
  cc_core :: core_env
  cc_script :: "string \<Rightarrow> bool"
  cc_execute :: "nat \<Rightarrow> int"

text \<open>The commands executed so far, with their arguments, and the lines printed.\<close>

record copy_run =
  executed :: "(string \<times> string list) list"
  copy_out :: "string list"

definition tell :: "copy_env \<Rightarrow> string \<Rightarrow> copy_run \<Rightarrow> copy_run" where
  "tell env t s = s\<lparr>copy_out := copy_out s @ [t @ ce_nl (cc_core env)]\<rparr>"

section \<open>The command\<close>

text \<open>The checks up to the list of files: the message of the first that fails, or the script.\<close>

definition bad :: "string option \<Rightarrow> ere \<Rightarrow> bool" where
  "bad a r \<longleftrightarrow> validate_cli_args a (Some r) \<noteq> 0"

definition check_copy_args ::
    "copy_env \<Rightarrow> string option \<Rightarrow> string option \<Rightarrow> string option \<Rightarrow> string option \<Rightarrow> string option \<Rightarrow> string option \<Rightarrow> string + string" where
  "check_copy_args env daemon instance_id protocol address user_name destination_file =
     (if daemon = None \<or> protocol = None \<or> address = None then Inl ''Invalid parameter''
      else if bad daemon DAEMON_NAME_REGEX then Inl (''Failed to validate daemon name:'' @ fmt_s daemon)
      else if bad address HOST_NAME_REGEX then Inl (''Failed to validate hostname name:'' @ fmt_s address)
      else if instance_id \<noteq> None \<and> bad instance_id COREFILE_INSTANCE_REGEX
        then Inl (''Failed to validate instance ID:'' @ fmt_s instance_id)
      else if destination_file \<noteq> None \<and> bad destination_file FILE_NAME_REGEX
        then Inl (''Failed to validate destination file name:'' @ fmt_s destination_file)
      else if strncmp_with_nullcheck protocol (Some TFTP_STR) (length TFTP_STR) = 0
        then (if \<not> cc_script env TFTP_NOI_SCRIPT then Inl (''Utility not available for execution:'' @ TFTP_NOI_SCRIPT)
              else Inr TFTP_NOI_SCRIPT)
      else if strncmp_with_nullcheck protocol (Some SFTP_STR) (length SFTP_STR) = 0
        then (if user_name = None then Inl ''Invalid parameter username''
              else if bad user_name USER_NAME_REGEX then Inl (''Failed to validate user name for sftp:'' @ fmt_s user_name)
              else if \<not> cc_script env SFTP_NOI_SCRIPT then Inl (''Utility not available for execution:'' @ SFTP_NOI_SCRIPT)
              else Inr SFTP_NOI_SCRIPT)
      else Inl (''Invalid parameter protocol :'' @ fmt_s protocol))"

text \<open>\<open>basename\<close> of a file name without a trailing slash.\<close>

definition basename :: "string \<Rightarrow> string" where
  "basename p = rev (takeWhile (\<lambda>c. c \<noteq> CHR ''/'') (rev p))"

definition copy_name :: "string option \<Rightarrow> string \<Rightarrow> string" where
  "copy_name destination_file f = take (MAX_FILE_STR_LEN - 1) (case destination_file of
     None \<Rightarrow> basename f
   | Some d \<Rightarrow> if d \<noteq> [] \<and> hd d \<in> {CHR '' '', CHR 0x09} then basename f else d)"

definition copy_arguments :: "string option \<Rightarrow> string option \<Rightarrow> string option \<Rightarrow> string \<Rightarrow> string \<Rightarrow> string list" where
  "copy_arguments protocol address user_name f file_name =
     (if strncmp_with_nullcheck protocol (Some SFTP_STR) (length SFTP_STR) = 0
      then [fmt_s user_name, fmt_s address, f, file_name] else [fmt_s address, f, file_name])"

fun copy_files :: "copy_env \<Rightarrow> string \<Rightarrow> (string \<Rightarrow> string list) \<Rightarrow> core_type \<Rightarrow> string list \<Rightarrow> copy_run \<Rightarrow> cmd_ret \<times> copy_run" where
  "copy_files env command arguments ty [] s = (CMD_SUCCESS, s)"
| "copy_files env command arguments ty (f # fs) s =
     (let s1 = s\<lparr>executed := executed s @ [(command, arguments f)]\<rparr> in
      if cc_execute env (length (executed s)) \<noteq> 0
      then (CMD_WARNING, tell env (command @ '' command is failed to execute'') s1)
      else if ty = TYPE_KERNEL then (CMD_SUCCESS, s1)
      else copy_files env command arguments ty fs s1)"

definition not_found :: "core_type \<Rightarrow> string option \<Rightarrow> string option \<Rightarrow> string" where
  "not_found ty daemon instance_id = take (MAX_LOG_STR_LEN - 1)
     (if ty = TYPE_KERNEL then ''No coredump found for kernel''
      else ''No coredump found for daemon '' @ fmt_s daemon @
        (case instance_id of None \<Rightarrow> [] | Some i \<Rightarrow> '' with instance '' @ i))"

definition cli_copy_core_dump ::
    "copy_env \<Rightarrow> string option \<Rightarrow> string option \<Rightarrow> string option \<Rightarrow> string option \<Rightarrow> string option \<Rightarrow> string option \<Rightarrow>
     copy_run \<Rightarrow> cmd_ret \<times> copy_run" where
  "cli_copy_core_dump env daemon instance_id protocol address user_name destination_file s =
     (case check_copy_args env daemon instance_id protocol address user_name destination_file of
        Inl msg \<Rightarrow> (CMD_WARNING, tell env msg s)
      | Inr command \<Rightarrow>
          (let ty = (if strncmp_with_nullcheck daemon (Some ''kernel'') 10 = 0 then TYPE_KERNEL else TYPE_DAEMON);
               gb_pattern = (if ty = TYPE_KERNEL then KERN_GB_PATTERN else ''*'');
               (rc, files) = get_file_list (cc_core env) ty (\<lambda>_. gb_pattern) daemon instance_id
           in if rc \<noteq> 0 then (CMD_WARNING, tell env ''Error to listing corefiles '' s)
              else if files = [] then (CMD_SUCCESS, tell env (not_found ty daemon instance_id) s)
              else copy_files env command
                (\<lambda>f. copy_arguments protocol address user_name f (copy_name destination_file f)) ty files s))"

text \<open>The six commands; the optional last argument is NULL when there are fewer.\<close>

definition opt_arg :: "string option list \<Rightarrow> nat \<Rightarrow> string option" where
  "opt_arg argv i = (if i < length argv then argv ! i else None)"

definition cli_platform_copy_core_dump_tftp :: "copy_env \<Rightarrow> string option list \<Rightarrow> copy_run \<Rightarrow> (cmd_ret \<times> copy_run) cres" where
  "cli_platform_copy_core_dump_tftp env argv s = bind_res (arg argv 0) (\<lambda>a0. bind_res (arg argv 1) (\<lambda>a1.
     Inr (cli_copy_core_dump env a0 None (Some TFTP_STR) a1 None None s)))"

definition cli_platform_copy_core_dump_sftp :: "copy_env \<Rightarrow> string option list \<Rightarrow> copy_run \<Rightarrow> (cmd_ret \<times> copy_run) cres" where
  "cli_platform_copy_core_dump_sftp env argv s = bind_res (arg argv 0) (\<lambda>a0. bind_res (arg argv 1) (\<lambda>a1. bind_res (arg argv 2) (\<lambda>a2.
     Inr (cli_copy_core_dump env a0 None (Some SFTP_STR) a2 a1 None s))))"

definition cli_platform_copy_core_dump_kernel_tftp :: "copy_env \<Rightarrow> string option list \<Rightarrow> copy_run \<Rightarrow> (cmd_ret \<times> copy_run) cres" where
  "cli_platform_copy_core_dump_kernel_tftp env argv s = bind_res (arg argv 0) (\<lambda>a0.
     Inr (cli_copy_core_dump env (Some ''kernel'') None (Some TFTP_STR) a0 None (opt_arg argv 1) s))"

definition cli_platform_copy_core_dump_kernel_sftp :: "copy_env \<Rightarrow> string option list \<Rightarrow> copy_run \<Rightarrow> (cmd_ret \<times> copy_run) cres" where
  "cli_platform_copy_core_dump_kernel_sftp env argv s = bind_res (arg argv 0) (\<lambda>a0. bind_res (arg argv 1) (\<lambda>a1.
     Inr (cli_copy_core_dump env (Some ''kernel'') None (Some SFTP_STR) a1 a0 (opt_arg argv 2) s)))"

definition cli_platform_copy_core_dump_tftp_inst :: "copy_env \<Rightarrow> string option list \<Rightarrow> copy_run \<Rightarrow> (cmd_ret \<times> copy_run) cres" where
  "cli_platform_copy_core_dump_tftp_inst env argv s = bind_res (arg argv 0) (\<lambda>a0. bind_res (arg argv 1) (\<lambda>a1. bind_res (arg argv 2) (\<lambda>a2.
     Inr (cli_copy_core_dump env a0 a1 (Some TFTP_STR) a2 None (opt_arg argv 3) s))))"

definition cli_platform_copy_core_dump_sftp_inst :: "copy_env \<Rightarrow> string option list \<Rightarrow> copy_run \<Rightarrow> (cmd_ret \<times> copy_run) cres" where
  "cli_platform_copy_core_dump_sftp_inst env argv s = bind_res (arg argv 0) (\<lambda>a0. bind_res (arg argv 1) (\<lambda>a1. bind_res (arg argv 2) (\<lambda>a2.
     bind_res (arg argv 3) (\<lambda>a3. Inr (cli_copy_core_dump env a0 a1 (Some SFTP_STR) a3 a2 (opt_arg argv 4) s)))))"

end
