(* ===== verification/Copy_Core_Dump_Correct.thy ===== *)
theory Copy_Core_Dump_Correct
  imports Copy_Core_Dump
begin

text \<open>
  The properties of \<open>copy core-dump\<close>: which files it copies, with which arguments it runs the
  scripts, and that an instance also selects processes whose number ends in it.
\<close>

section \<open>Checked arguments\<close>

definition name_chars :: "char set" where "name_chars = set (alnum @ ''_.-'')"

lemma whole_match:
  assumes "newline \<notin> set v"
  shows "\<not> bad (Some v) (whole cs n) \<longleftrightarrow> 1 \<le> length v \<and> length v \<le> n \<and> set v \<subseteq> set cs"
proof -
  have "regexec (whole cs n) v \<longleftrightarrow> v \<in> lang (Rep (Cls cs) 1 n)"
    using regexec_line [OF assms, of "whole cs n"] by (simp add: whole_def del: lang.simps)
  then show ?thesis unfolding lang_Rep_Cls by (auto simp: bad_def)
qed

lemma name_chars_plain: "c \<in> name_chars \<Longrightarrow> glob_plain c \<and> c \<noteq> CHR ''/''"
  by (auto simp: name_chars_def alnum_def in_char_range glob_plain_def)

definition one_line :: "string option \<Rightarrow> bool" where
  "one_line v \<longleftrightarrow> (case v of None \<Rightarrow> True | Some t \<Rightarrow> newline \<notin> set t)"

lemma checked:
  assumes "check_copy_args env daemon inst protocol address user dest = Inr command"
    and "one_line daemon" "one_line inst" "one_line address" "one_line user" "one_line dest"
  shows "\<exists>d a p. daemon = Some d \<and> address = Some a \<and> protocol = Some p \<and>
      length d \<le> 50 \<and> d \<noteq> [] \<and> set d \<subseteq> name_chars \<and> set a \<subseteq> set (alnum @ ''_.:-'') \<and>
      (case inst of None \<Rightarrow> True | Some i \<Rightarrow> length i \<le> 5 \<and> i \<noteq> [] \<and> set i \<subseteq> dec_chars) \<and>
      (case dest of None \<Rightarrow> True | Some f \<Rightarrow> length f \<le> 50 \<and> f \<noteq> [] \<and> set f \<subseteq> name_chars) \<and>
      (command = TFTP_NOI_SCRIPT \<and> take 4 p = TFTP_STR \<or>
       command = SFTP_NOI_SCRIPT \<and> take 4 p = SFTP_STR \<and> (\<exists>u. user = Some u \<and> set u \<subseteq> set (alnum @ ''_-'')))"
proof -
  have len: "length TFTP_STR = 4" "length SFTP_STR = 4" "take 4 TFTP_STR = TFTP_STR" "take 4 SFTP_STR = SFTP_STR" "TFTP_STR \<noteq> SFTP_STR"
    by (simp_all add: TFTP_STR_def SFTP_STR_def)
  from assms(1) obtain d a p where s: "daemon = Some d" "address = Some a" "protocol = Some p"
    by (cases daemon; cases address; cases protocol) (simp_all add: check_copy_args_def)
  have nl: "newline \<notin> set d" "newline \<notin> set a" using assms(2,4) s by (simp_all add: one_line_def)
  note step = assms(1) [unfolded check_copy_args_def s]
  have b1: "\<not> bad (Some d) DAEMON_NAME_REGEX" and b2: "\<not> bad (Some a) HOST_NAME_REGEX"
    and b3: "inst \<noteq> None \<longrightarrow> \<not> bad inst COREFILE_INSTANCE_REGEX" and b4: "dest \<noteq> None \<longrightarrow> \<not> bad dest FILE_NAME_REGEX"
    using step by (auto split: if_splits)
  have d: "length d \<le> 50 \<and> d \<noteq> [] \<and> set d \<subseteq> name_chars"
    using b1 unfolding DAEMON_NAME_REGEX_def whole_match [OF nl(1)] name_chars_def by auto
  have a: "set a \<subseteq> set (alnum @ ''_.:-'')"
    using b2 unfolding HOST_NAME_REGEX_def whole_match [OF nl(2)] by auto
  have i: "case inst of None \<Rightarrow> True | Some i \<Rightarrow> length i \<le> 5 \<and> i \<noteq> [] \<and> set i \<subseteq> dec_chars"
  proof (cases inst)
    case (Some i)
    then have "newline \<notin> set i" using assms(3) by (simp add: one_line_def)
    from whole_match [OF this] b3 Some show ?thesis by (auto simp: COREFILE_INSTANCE_REGEX_def dec_chars_def)
  qed simp
  have f: "case dest of None \<Rightarrow> True | Some f \<Rightarrow> length f \<le> 50 \<and> f \<noteq> [] \<and> set f \<subseteq> name_chars"
  proof (cases dest)
    case (Some f)
    then have "newline \<notin> set f" using assms(6) by (simp add: one_line_def)
    from whole_match [OF this, of "alnum @ ''_.-''" 50] b4 Some show ?thesis unfolding FILE_NAME_REGEX_def name_chars_def by auto
  qed simp
  have u: "set v \<subseteq> set (alnum @ ''_-'')" if "user = Some v" "\<not> bad user USER_NAME_REGEX" for v
  proof -
    have "newline \<notin> set v" using assms(5) that(1) by (simp add: one_line_def)
    from whole_match [OF this, of "alnum @ ''_-''" 50] that show ?thesis unfolding USER_NAME_REGEX_def by simp
  qed
  have "command = TFTP_NOI_SCRIPT \<and> take 4 p = TFTP_STR \<or>
       command = SFTP_NOI_SCRIPT \<and> take 4 p = SFTP_STR \<and> (\<exists>u. user = Some u \<and> set u \<subseteq> set (alnum @ ''_-''))"
    using step u by (auto simp: strncmp_eq_0 len split: if_splits)
  with s d a i f show ?thesis by blast
qed

section \<open>Files\<close>

definition core_of :: "string \<Rightarrow> string option \<Rightarrow> string \<Rightarrow> bool" where
  "core_of d inst f \<longleftrightarrow> (case inst of
     None \<Rightarrow> (\<exists>x. f = core_dir @ ''/core.'' @ d @ ''.'' @ x \<and> CHR ''/'' \<notin> set x)
   | Some i \<Rightarrow> (\<exists>u x. f = core_dir @ ''/core.'' @ d @ ''.'' @ u @ i @ ''.'' @ x \<and> CHR ''/'' \<notin> set u \<and> CHR ''/'' \<notin> set x))"

lemma glob_core_of:
  assumes "set d \<subseteq> name_chars" "case inst of None \<Rightarrow> True | Some i \<Rightarrow> set i \<subseteq> dec_chars"
  shows "glob_match (location_text TYPE_DAEMON (\<lambda>_. ''*'') (Some d) inst) f \<longleftrightarrow> core_of d inst f"
proof -
  have pd: "\<forall>c\<in>set d. glob_plain c" using assms(1) name_chars_plain by blast
  have pc: "\<forall>c\<in>set ''core''. glob_plain c" by (simp add: glob_plain_def)
  show ?thesis
  proof (cases inst)
    case None
    have t: "location_text TYPE_DAEMON (\<lambda>_. ''*'') (Some d) None =
        escaped core_dir @ CHR 0x5C # CHR ''/'' # ''core'' @ CHR 0x5C # CHR ''.'' # d @ CHR 0x5C # CHR ''.'' # ''*''"
      by (simp add: location_text_def None DAEMON_CORE_PATH_def)
    show ?thesis
      unfolding None t glob_escaped_path [OF core_dir_plain] glob_escaped glob_text [OF pc] glob_text [OF pd] glob_any core_of_def option.case
      by auto
  next
    case (Some i)
    have pi: "\<forall>c\<in>set i. glob_plain c" using assms(2) Some by (auto simp: dec_chars_def in_char_range glob_plain_def)
    have t: "location_text TYPE_DAEMON (\<lambda>_. ''*'') (Some d) (Some i) =
        escaped core_dir @ CHR 0x5C # CHR ''/'' # ''core'' @ CHR 0x5C # CHR ''.'' # d @ CHR 0x5C # CHR ''.'' # CHR ''*'' # i @
          CHR 0x5C # CHR ''.'' # ''*''"
      by (simp add: location_text_def Some DAEMON_CORE_PATH_def)
    have q: "glob_match (CHR ''*'' # i @ CHR 0x5C # CHR ''.'' # ''*'') r \<longleftrightarrow>
        (\<exists>u x. r = u @ i @ ''.'' @ x \<and> CHR ''/'' \<notin> set u \<and> CHR ''/'' \<notin> set x)" for r
      unfolding glob_star glob_text [OF pi] glob_escaped glob_any by auto
    show ?thesis
      unfolding Some t glob_escaped_path [OF core_dir_plain] glob_escaped glob_text [OF pc] glob_text [OF pd] q core_of_def option.case
      by (auto, blast)
  qed
qed


section \<open>The run\<close>

text \<open>The files that a call with checked arguments copies.\<close>

definition to_copy :: "core_env \<Rightarrow> string \<Rightarrow> string option \<Rightarrow> string list" where
  "to_copy env d inst = (if d = ''kernel'' then take 1 (filter is_kernel_core (ce_files env))
     else filter (core_of d inst) (ce_files env))"

lemma daemon_list:
  assumes "\<And>p. ce_glob_error env p = 0" "set d \<subseteq> name_chars" "length d \<le> 50"
    "case inst of None \<Rightarrow> True | Some i \<Rightarrow> length i \<le> 5 \<and> set i \<subseteq> dec_chars"
  shows "get_file_list env TYPE_DAEMON (\<lambda>_. ''*'') (Some d) inst = (0, filter (core_of d inst) (ce_files env))"
proof -
  let ?t = "location_text TYPE_DAEMON (\<lambda>_. ''*'') (Some d) inst"
  have l: "length ?t \<le> CORE_FILE_NAME - 1"
    using assms(3,4) by (auto simp: location_text_def DAEMON_CORE_PATH_def escaped_def core_dir_def split: option.split)
  have "glob_match ?t = core_of d inst"
    using glob_core_of [OF assms(2), of inst] assms(4) by (auto split: option.splits)
  then show ?thesis unfolding get_file_list_def Let_def take_all [OF l] assms(1) using l by simp
qed

lemma kernel_list:
  assumes "\<And>p. ce_glob_error env p = 0"
  shows "get_file_list env TYPE_KERNEL (\<lambda>_. KERN_GB_PATTERN) daemon inst = (0, filter is_kernel_core (ce_files env))"
proof -
  have "get_file_list env TYPE_KERNEL (\<lambda>_. KERN_GB_PATTERN) daemon inst = get_file_list env TYPE_KERNEL (\<lambda>_. KERN_GB_PATTERN) None None"
    by (simp add: get_file_list_def location_text_def)
  then show ?thesis using file_list(2) [OF assms] by simp
qed

text \<open>How the copies of \<open>fs\<close> go on from \<open>s\<close>: they stop after the first that fails.\<close>

lemma copy_files_run:
  "\<exists>k \<le> length fs. executed (snd (copy_files env c a TYPE_DAEMON fs s)) = executed s @ map (\<lambda>f. (c, a f)) (take k fs) \<and>
     (fst (copy_files env c a TYPE_DAEMON fs s) = CMD_SUCCESS \<longleftrightarrow> (\<forall>i < length fs. cc_execute env (length (executed s) + i) = 0)) \<and>
     (fst (copy_files env c a TYPE_DAEMON fs s) = CMD_SUCCESS \<longrightarrow> k = length fs) \<and>
     (k < length fs \<longrightarrow> 0 < k) \<and> (\<forall>i. Suc i < k \<longrightarrow> cc_execute env (length (executed s) + i) = 0)"
proof (induction fs arbitrary: s)
  case (Cons f fs)
  let ?s1 = "s\<lparr>executed := executed s @ [(c, a f)]\<rparr>"
  show ?case
  proof (cases "cc_execute env (length (executed s)) = 0")
    case True
    then have eq: "copy_files env c a TYPE_DAEMON (f # fs) s = copy_files env c a TYPE_DAEMON fs ?s1" by simp
    from Cons.IH [of ?s1] obtain k where k: "k \<le> length fs"
      "executed (snd (copy_files env c a TYPE_DAEMON fs ?s1)) = executed s @ [(c, a f)] @ map (\<lambda>f. (c, a f)) (take k fs)"
      "fst (copy_files env c a TYPE_DAEMON fs ?s1) = CMD_SUCCESS \<longleftrightarrow> (\<forall>i < length fs. cc_execute env (Suc (length (executed s)) + i) = 0)"
      "fst (copy_files env c a TYPE_DAEMON fs ?s1) = CMD_SUCCESS \<longrightarrow> k = length fs"
      "\<forall>i. Suc i < k \<longrightarrow> cc_execute env (Suc (length (executed s)) + i) = 0"
      by auto
    have "\<forall>i. Suc i < Suc k \<longrightarrow> cc_execute env (length (executed s) + i) = 0"
    proof (intro allI impI)
      fix i assume "Suc i < Suc k"
      then show "cc_execute env (length (executed s) + i) = 0" using True k(5) by (cases i) auto
    qed
    moreover
    have "(\<forall>i < length (f # fs). cc_execute env (length (executed s) + i) = 0) \<longleftrightarrow>
        (\<forall>i < length fs. cc_execute env (Suc (length (executed s)) + i) = 0)"
      using True by (simp add: All_less_Suc2)
    ultimately show ?thesis using k eq by (intro exI [of _ "Suc k"]) simp
  next
    case False
    then show ?thesis by (intro exI [of _ 1]) (auto simp: tell_def intro: exI [of _ 0])
  qed
qed simp

lemma copy_run:
  assumes "check_copy_args env daemon inst protocol address user dest = Inr command"
    and "one_line daemon" "one_line inst" "one_line address" "one_line user" "one_line dest" "\<And>p. ce_glob_error (cc_core env) p = 0"
    and "daemon = Some d" "r = cli_copy_core_dump env daemon inst protocol address user dest s" "fs = to_copy (cc_core env) d inst"
  shows "\<exists>k \<le> length fs. executed (snd r) = executed s @ map (\<lambda>f. (command, copy_arguments protocol address user f (copy_name dest f))) (take k fs) \<and>
    (fst r = CMD_SUCCESS \<longleftrightarrow> (\<forall>i < length fs. cc_execute env (length (executed s) + i) = 0)) \<and>
    (fst r = CMD_SUCCESS \<longrightarrow> k = length fs) \<and> (k < length fs \<longrightarrow> 0 < k) \<and>
    (\<forall>i. Suc i < k \<longrightarrow> cc_execute env (length (executed s) + i) = 0)"
proof -
  let ?a = "\<lambda>f. copy_arguments protocol address user f (copy_name dest f)"
  from checked [OF assms(1-6)] assms(8) have c: "length d \<le> 50" "set d \<subseteq> name_chars"
    "case inst of None \<Rightarrow> True | Some i \<Rightarrow> length i \<le> 5 \<and> set i \<subseteq> dec_chars"
    by (auto split: option.splits)
  have ker: "strncmp_with_nullcheck (Some d) (Some ''kernel'') 10 = 0 \<longleftrightarrow> d = ''kernel''"
  proof -
    have "take 10 d = ''kernel'' \<Longrightarrow> d = ''kernel''"
    proof -
      assume t: "take 10 d = ''kernel''"
      have "length (take 10 d) < 10" unfolding t by simp
      then have "length d \<le> 10" by simp
      with t show ?thesis by simp
    qed
    then show ?thesis by (auto simp: strncmp_eq_0)
  qed
  show ?thesis
  proof (cases "d = ''kernel''")
    case True
    then have k: "strncmp_with_nullcheck (Some d) (Some ''kernel'') 10 = 0" using ker by simp
    have fs: "fs = take 1 (filter is_kernel_core (ce_files (cc_core env)))" using True assms(10) by (simp add: to_copy_def)
    have r: "r = (if filter is_kernel_core (ce_files (cc_core env)) = [] then (CMD_SUCCESS, tell env (not_found TYPE_KERNEL daemon inst) s)
        else copy_files env command ?a TYPE_KERNEL (filter is_kernel_core (ce_files (cc_core env))) s)"
      unfolding assms(9) cli_copy_core_dump_def assms(1) sum.case unfolding assms(8)
      using k by (simp add: kernel_list [OF assms(7)] Let_def)
    show ?thesis
    proof (cases "filter is_kernel_core (ce_files (cc_core env))")
      case Nil
      with fs r show ?thesis by (simp add: tell_def)
    next
      case (Cons f rest)
      with fs r show ?thesis by (intro exI [of _ 1]) (auto simp: tell_def Let_def)
    qed
  next
    case False
    then have k: "strncmp_with_nullcheck (Some d) (Some ''kernel'') 10 \<noteq> 0" using ker by simp
    have fs: "fs = filter (core_of d inst) (ce_files (cc_core env))" using False assms(10) by (simp add: to_copy_def)
    have r: "r = (if fs = [] then (CMD_SUCCESS, tell env (not_found TYPE_DAEMON daemon inst) s)
        else copy_files env command ?a TYPE_DAEMON fs s)"
      unfolding assms(9) cli_copy_core_dump_def assms(1) sum.case unfolding assms(8) fs
      using k by (simp add: daemon_list [OF assms(7) c(2,1,3)] Let_def)
    show ?thesis
    proof (cases "fs = []")
      case True
      with r show ?thesis by (simp add: tell_def)
    next
      case False
      with r copy_files_run [of fs env command ?a s] show ?thesis by simp
    qed
  qed
qed

section \<open>A concrete system\<close>

definition demo_copy :: copy_env where
  "demo_copy = \<lparr>cc_core = demo_core, cc_script = \<lambda>_. True, cc_execute = \<lambda>_. 0\<rparr>"

definition copy_run0 :: copy_run where "copy_run0 = \<lparr>executed = [], copy_out = []\<rparr>"

lemma demo_check:
  "check_copy_args (demo_copy\<lparr>cc_core := c\<rparr>) (Some ''vtysh'') inst (Some TFTP_STR) (Some ''h1'') None None = Inr TFTP_NOI_SCRIPT"
  if "inst = None \<or> inst = Some ''82''" for inst c
proof -
  have v: "\<not> bad (Some ''vtysh'') DAEMON_NAME_REGEX" "\<not> bad (Some ''h1'') HOST_NAME_REGEX" "\<not> bad (Some ''82'') COREFILE_INSTANCE_REGEX"
    unfolding DAEMON_NAME_REGEX_def HOST_NAME_REGEX_def COREFILE_INSTANCE_REGEX_def
    by (subst whole_match; simp add: newline_def alnum_def in_char_range)+
  then show ?thesis using that by (auto simp: check_copy_args_def strncmp_eq_0 demo_copy_def)
qed

lemma demo_check0:
  "inst = None \<or> inst = Some ''82'' \<Longrightarrow>
    check_copy_args demo_copy (Some ''vtysh'') inst (Some TFTP_STR) (Some ''h1'') None None = Inr TFTP_NOI_SCRIPT"
  using demo_check [of inst demo_core] by (simp add: demo_copy_def)

definition vtysh_core :: string where "vtysh_core = core_file ''vtysh'' ''0'' ''6ab'' ''682'' ''1459547856000000'' ''.xz''"

lemma demo_to_copy: "to_copy demo_core ''vtysh'' inst = [vtysh_core]" if "inst = None \<or> inst = Some ''82''" for inst
proof -
  have v: "vtysh_core = core_dir @ ''/core.'' @ ''vtysh'' @ ''.'' @ ''0.6ab.6'' @ ''82'' @ ''.'' @ ''1459547856000000.xz''"
    by (simp add: vtysh_core_def core_file_def tail_text_def)
  have "core_of ''vtysh'' None vtysh_core" unfolding core_of_def option.case v
    by (rule exI [of _ "''0.6ab.6'' @ ''82'' @ ''.'' @ ''1459547856000000.xz''"]) simp
  moreover have "core_of ''vtysh'' (Some ''82'') vtysh_core" unfolding core_of_def option.case v
    by (rule exI [of _ "''0.6ab.6''"], rule exI [of _ "''1459547856000000.xz''"]) simp
  ultimately have "core_of ''vtysh'' inst vtysh_core" using that by auto
  moreover have "\<not> core_of ''vtysh'' inst (kernel_file d t)" for d t
    by (auto simp: core_of_def kernel_file_def split: option.splits)
  ultimately show ?thesis by (simp add: to_copy_def demo_core_def vtysh_core_def)
qed

lemma demo_executes:
  "executed (snd (cli_copy_core_dump demo_copy (Some ''vtysh'') inst (Some TFTP_STR) (Some ''h1'') None None copy_run0)) =
    [(TFTP_NOI_SCRIPT, [''h1'', vtysh_core, ''core.vtysh.0.6ab.682.1459547856000000.xz''])]"
  if "inst = None \<or> inst = Some ''82''" for inst
proof -
  have n: "copy_name None vtysh_core = ''core.vtysh.0.6ab.682.1459547856000000.xz''"
    by (simp add: copy_name_def basename_def vtysh_core_def core_file_def tail_text_def core_dir_def)
  have "length TFTP_STR = 4" "TFTP_STR \<noteq> SFTP_STR" "length SFTP_STR = 4" by (simp_all add: TFTP_STR_def SFTP_STR_def)
  then have a: "copy_arguments (Some TFTP_STR) (Some ''h1'') None f x = [''h1'', f, x]" for f x
    by (auto simp: copy_arguments_def strncmp_eq_0 fmt_s_def)
  have "one_line inst" using that by (auto simp: one_line_def newline_def)
  with copy_run [OF demo_check0 [OF that] _ _ _ _ _ _ refl refl refl, of copy_run0] show ?thesis
    using demo_to_copy [OF that] by (auto simp: one_line_def newline_def demo_copy_def demo_core_def copy_run0_def a n)
qed

section \<open>Properties\<close>

text \<open>C29: with arguments that pass its checks, \<open>copy core-dump\<close> runs the script of its protocol once for each
  core file of the daemon, or for the first kernel core, in the order of the files, up to the
  first run that fails; it returns success exactly when none of them fails, and then it has
  copied them all.\<close>

theorem copy_core_dump_copies:
  assumes "check_copy_args env daemon inst protocol address user dest = Inr command"
    and "one_line daemon" "one_line inst" "one_line address" "one_line user" "one_line dest" "\<And>p. ce_glob_error (cc_core env) p = 0"
    and "daemon = Some d" "r = cli_copy_core_dump env daemon inst protocol address user dest s" "fs = to_copy (cc_core env) d inst"
  shows "\<exists>k \<le> length fs. executed (snd r) = executed s @ map (\<lambda>f. (command, copy_arguments protocol address user f (copy_name dest f))) (take k fs) \<and>
    (fst r = CMD_SUCCESS \<longleftrightarrow> (\<forall>i < length fs. cc_execute env (length (executed s) + i) = 0)) \<and>
    (fst r = CMD_SUCCESS \<longrightarrow> k = length fs) \<and> (k < length fs \<longrightarrow> 0 < k) \<and>
    (\<forall>i. Suc i < k \<longrightarrow> cc_execute env (length (executed s) + i) = 0)"
  using assms by (rule copy_run)

lemma copy_core_dump_copies_witness:
  "\<exists>r fs. r = cli_copy_core_dump demo_copy (Some ''vtysh'') None (Some TFTP_STR) (Some ''h1'') None None copy_run0 \<and>
    fs = to_copy demo_core ''vtysh'' None \<and> fst r = CMD_SUCCESS"
  using copy_core_dump_copies [OF demo_check0 [of None] _ _ _ _ _ _ refl refl refl, of copy_run0]
  by (auto simp: one_line_def newline_def demo_copy_def demo_core_def copy_run0_def)



text \<open>The number of an instance is matched as the end of the number in the file name: a call for instance I
  copies the core of every process whose number ends in I, although it is another process.\<close>

theorem copy_core_dump_other_instance:
  assumes "check_copy_args env (Some d) (Some i) protocol address user dest = Inr command"
    and "one_line (Some d)" "one_line (Some i)" "one_line address" "one_line user" "one_line dest" "\<And>p. ce_glob_error (cc_core env) p = 0"
    and "d \<noteq> ''kernel''" "ce_files (cc_core env) = [core_file d uid boot (p @ i) ts suffix]"
    and "CHR ''/'' \<notin> set (uid @ boot @ p @ ts @ suffix)"
  shows "\<exists>out. executed (snd (cli_copy_core_dump env (Some d) (Some i) protocol address user dest s)) = executed s @
    [(command, copy_arguments protocol address user (core_file d uid boot (p @ i) ts suffix) out)]"
proof -
  let ?f = "core_file d uid boot (p @ i) ts suffix"
  let ?r = "cli_copy_core_dump env (Some d) (Some i) protocol address user dest s"
  have "core_of d (Some i) ?f" unfolding core_of_def option.case core_file_def tail_text_def
    by (rule exI [of _ "uid @ ''.'' @ boot @ ''.'' @ p"], rule exI [of _ "ts @ suffix"]) (use assms(10) in simp)
  then have fs: "to_copy (cc_core env) d (Some i) = [?f]" using assms(8,9) by (simp add: to_copy_def)
  from copy_run [OF assms(1-7) refl refl refl, of s] obtain k where
    k: "k \<le> length [?f]" "executed (snd ?r) = executed s @ map (\<lambda>f. (command, copy_arguments protocol address user f (copy_name dest f))) (take k [?f])"
      "k < length [?f] \<longrightarrow> 0 < k"
    unfolding fs by blast
  then have "k = 1" by auto
  with k(2) show ?thesis by auto
qed

lemma copy_core_dump_other_instance_witness:
  "\<exists>out. executed (snd (cli_copy_core_dump (demo_copy\<lparr>cc_core := demo_core\<lparr>ce_files := [vtysh_core]\<rparr>\<rparr>) (Some ''vtysh'') (Some ''82'')
      (Some TFTP_STR) (Some ''h1'') None None copy_run0)) = executed copy_run0 @
    [(TFTP_NOI_SCRIPT, copy_arguments (Some TFTP_STR) (Some ''h1'') None vtysh_core out)]"
proof -
  let ?env = "demo_copy\<lparr>cc_core := demo_core\<lparr>ce_files := [vtysh_core]\<rparr>\<rparr>"
  have c: "check_copy_args ?env (Some ''vtysh'') (Some ''82'') (Some TFTP_STR) (Some ''h1'') None None = Inr TFTP_NOI_SCRIPT"
    by (rule demo_check) simp
  show ?thesis
    using copy_core_dump_other_instance [OF c, of "''0''" "''6ab''" "''6''" "''1459547856000000''" "''.xz''" copy_run0]
    by (simp add: one_line_def newline_def vtysh_core_def demo_core_def)
qed

end
