(* ===== verification/Journal.thy ===== *)
theory Journal
  imports Supportability_Utils
begin

text \<open>
  The systemd journal as \<open>show events\<close> and \<open>show vlog\<close> use it. An entry is the list of its fields,
  each a text \<open>FIELD=value\<close>. The journal itself is a parameter of the commands; what its manual
  says of it is written down here and is a hypothesis of what the commands are shown to do.
\<close>

type_synonym entry = "string list"

definition field_of :: "string \<Rightarrow> string" where
  "field_of d = takeWhile (\<lambda>c. c \<noteq> CHR ''='') d"

text \<open>The entries that a list of matches selects: matches on the same field are alternatives,
  matches on different fields must all hold (\<open>sd_journal_add_match(3)\<close>).\<close>

definition visible :: "string list \<Rightarrow> entry \<Rightarrow> bool" where
  "visible ms e \<longleftrightarrow> list_all (\<lambda>m. list_ex (\<lambda>m'. field_of m' = field_of m \<and> List.member e m') ms) ms"

text \<open>\<open>sd_journal_get_data(3)\<close>: the field with its name, None when the entry has no such field.\<close>

definition get_data :: "entry \<Rightarrow> string \<Rightarrow> string option" where
  "get_data e f = find (\<lambda>d. field_of d = f) e"

text \<open>The matches that the loop over the severities adds, and what they select together.\<close>

definition field_match :: "string \<Rightarrow> string \<Rightarrow> string" where
  "field_match f v = f @ ''='' @ v"

fun upto_severity :: "nat \<Rightarrow> string list" where
  "upto_severity 0 = [field_match ''PRIORITY'' (show_nat 0)]"
| "upto_severity (Suc n) = field_match ''PRIORITY'' (show_nat (Suc n)) # upto_severity n"

lemma visible_iff: "visible ms e \<longleftrightarrow> (\<forall>m\<in>set ms. \<exists>m'\<in>set ms. field_of m' = field_of m \<and> m' \<in> set e)"
  by (simp add: visible_def list_all_iff list_ex_iff)

lemma field_of_match: "CHR ''='' \<notin> set f \<Longrightarrow> field_of (field_match f v) = f"
  unfolding field_of_def field_match_def by (auto intro!: takeWhile_stop)

lemma field_of_cut: "CHR ''='' \<notin> set f \<Longrightarrow> length f < n \<Longrightarrow> field_of (take n (field_match f v)) = f"
proof -
  assume a: "CHR ''='' \<notin> set f" "length f < n"
  then have "take n (field_match f v) = field_match f (take (n - length f - 1) v)"
    by (simp add: field_match_def take_Cons' not_le)
  with a(1) show ?thesis by (simp add: field_of_match)
qed

text \<open>Matches in groups, one group per field: every group that is used must have a match in the
  entry.\<close>

lemma visible_groups:
  assumes "\<forall>g\<in>set gs. \<forall>m\<in>set (snd g). field_of m = fst g" "distinct (map fst gs)"
  shows "visible (concat (map snd gs)) e \<longleftrightarrow> (\<forall>g\<in>set gs. snd g \<noteq> [] \<longrightarrow> set (snd g) \<inter> set e \<noteq> {})"
proof
  assume v: "visible (concat (map snd gs)) e"
  show "\<forall>g\<in>set gs. snd g \<noteq> [] \<longrightarrow> set (snd g) \<inter> set e \<noteq> {}"
  proof (intro ballI impI)
    fix g assume g: "g \<in> set gs" "snd g \<noteq> []"
    then obtain m where m: "m \<in> set (snd g)" by (cases "snd g") auto
    with g have "m \<in> set (concat (map snd gs))" by auto
    from bspec [OF v [unfolded visible_iff] this] obtain m' h where
      h: "h \<in> set gs" "m' \<in> set (snd h)" "field_of m' = field_of m" "m' \<in> set e" by auto
    with m g assms(1) have "fst h = fst g" by auto
    with h(1) g(1) assms(2) have "h = g" by (metis distinct_map inj_on_eq_iff)
    with h show "set (snd g) \<inter> set e \<noteq> {}" by auto
  qed
next
  assume g: "\<forall>g\<in>set gs. snd g \<noteq> [] \<longrightarrow> set (snd g) \<inter> set e \<noteq> {}"
  show "visible (concat (map snd gs)) e" unfolding visible_iff
  proof
    fix m assume "m \<in> set (concat (map snd gs))"
    then obtain h where h: "h \<in> set gs" "m \<in> set (snd h)" by auto
    with g obtain m' where m': "m' \<in> set (snd h)" "m' \<in> set e" by fastforce
    with h assms(1) show "\<exists>m'\<in>set (concat (map snd gs)). field_of m' = field_of m \<and> m' \<in> set e" by auto
  qed
qed

lemma upto_severity_set: "set (upto_severity n) = field_match ''PRIORITY'' ` show_nat ` {..n}"
  by (induction n) (auto simp: atMost_Suc)

lemma upto_severity_nonempty [simp]: "upto_severity n \<noteq> []"
  by (cases n) simp_all

lemma upto_severity_field: "m \<in> set (upto_severity n) \<Longrightarrow> field_of m = ''PRIORITY''"
  unfolding upto_severity_set by (auto simp: field_of_match)

section \<open>Walking the journal\<close>

text \<open>The journal as the commands find it. \<open>js_step k\<close> is False when the \<open>k\<close>-th call of
  \<open>sd_journal_next\<close> or \<open>sd_journal_previous\<close> fails, \<open>js_match k\<close> when the \<open>k\<close>-th \<open>add_match\<close> does.
  \<open>js_select ms\<close> are the entries, oldest first, that the walk with the matches \<open>ms\<close> goes through,
  and \<open>js_data\<close> is \<open>sd_journal_get_data\<close>, None when it fails. The commands read its result as a
  string, so a field stands for the bytes up to the first NUL.\<close>

record journal_env =
  js_open :: bool
  js_select :: "string list \<Rightarrow> entry list"
  js_data :: "entry \<Rightarrow> string \<Rightarrow> string option"
  js_step :: "nat \<Rightarrow> bool"
  js_match :: "nat \<Rightarrow> bool"
  js_seek :: bool
  js_nl :: string

text \<open>The documented behaviour of a journal with the entries \<open>es\<close>.\<close>

definition journal_of :: "'a journal_env_scheme \<Rightarrow> entry list \<Rightarrow> bool" where
  "journal_of env es \<longleftrightarrow> (\<forall>ms. js_select env ms = filter (visible ms) es) \<and> js_data env = get_data"

text \<open>A field's value as the two commands read it.\<close>

definition value_of :: "'a journal_env_scheme \<Rightarrow> entry \<Rightarrow> string \<Rightarrow> string option" where
  "value_of env e f = get_value (js_data env e f)"

text \<open>What a command does to it: the matches, the lines printed, and whether the handle is open.\<close>

record journal_run =
  matches :: "string list"
  printed :: "string list"
  handle :: bool

definition vty_put :: "string list \<Rightarrow> journal_run \<Rightarrow> journal_run" where
  "vty_put ls s = s\<lparr>printed := printed s @ ls\<rparr>"

definition sd_journal_close :: "journal_run \<Rightarrow> journal_run" where
  "sd_journal_close s = s\<lparr>handle := False\<rparr>"

definition sd_journal_add_match :: "'a journal_env_scheme \<Rightarrow> string \<Rightarrow> journal_run \<Rightarrow> bool \<times> journal_run" where
  "sd_journal_add_match env m s =
     (if js_match env (length (matches s)) then (True, s\<lparr>matches := matches s @ [m]\<rparr>) else (False, s))"

text \<open>A list of matches, up to the first that fails.\<close>

fun add_matches :: "'a journal_env_scheme \<Rightarrow> string list \<Rightarrow> journal_run \<Rightarrow> bool \<times> journal_run" where
  "add_matches env [] s = (True, s)"
| "add_matches env (m # ms) s =
     (case sd_journal_add_match env m s of (ok, s1) \<Rightarrow> if ok then add_matches env ms s1 else (False, s1))"

lemma add_matches_ok:
  "\<forall>k. js_match env k \<Longrightarrow> add_matches env ms s = (True, s\<lparr>matches := matches s @ ms\<rparr>)"
  by (induction ms arbitrary: s) (simp_all add: sd_journal_add_match_def)

lemma add_matches_fields:
  "add_matches env ms s = (ok, s') \<Longrightarrow> printed s' = printed s \<and> handle s' = handle s"
  by (induction ms arbitrary: s) (auto simp: sd_journal_add_match_def split: if_splits)

end
