(* ===== verification/Show_Events.thy ===== *)
theory Show_Events
  imports Journal Vtysh
begin

text \<open>
  \<open>src/src/cli/show_events_vty.c\<close>: \<open>show events\<close> selects the entries that the event log wrote,
  narrows them by event identifiers, severity and category, and prints them oldest or latest
  first.
\<close>

section \<open>Environment\<close>

text \<open>\<open>ev_range\<close> is \<open>cmd_get_range_value\<close> of the vtysh: the values of a range such as
  \<open>1001,1003-1005\<close>, None when it has none. \<open>ev_behind\<close> are the bytes behind the array that
  holds the argument: \<open>calloc(len)\<close> leaves no room for the final NUL. \<open>ev_localtime\<close> is
  \<open>strftime\<close> of \<open>localtime\<close> with the format \<open>%Y-%m-%d:%H:%M:%S\<close>.\<close>

record events_env = journal_env +
  ev_calloc :: bool
  ev_behind :: string
  ev_range :: "string \<Rightarrow> string list option"
  ev_localtime :: "int \<Rightarrow> string"

abbreviation BUF_SIZE :: nat where "BUF_SIZE \<equiv> 100"
abbreviation BASE_SIZE :: nat where "BASE_SIZE \<equiv> 20"
abbreviation MIN_SIZE :: nat where "MIN_SIZE \<equiv> 6"
abbreviation MAX_SEVS :: int where "MAX_SEVS \<equiv> 8"
abbreviation EVENT_ID_INDEX :: nat where "EVENT_ID_INDEX \<equiv> 0"
abbreviation EVENT_SEVERITY_INDEX :: nat where "EVENT_SEVERITY_INDEX \<equiv> 1"
abbreviation EVENT_CATEGORY_INDEX :: nat where "EVENT_CATEGORY_INDEX \<equiv> 3"

definition MESSAGE_OPS_EVT_MATCH :: string where
  "MESSAGE_OPS_EVT_MATCH = ''MESSAGE_ID=50c0fa81c2a545ec982a54293f1b1945''"

section \<open>The time of an entry\<close>

text \<open>The last six digits are the microseconds, those before them the seconds. The seconds are
  copied to an array of 20 bytes whatever their number. The result is the new content of \<open>buf\<close>,
  which was empty.\<close>

definition convert_to_datetime :: "events_env \<Rightarrow> string \<Rightarrow> string cres" where
  "convert_to_datetime env str =
     (let strl = length str in
      if strl \<ge> MIN_SIZE
      then if strl - MIN_SIZE \<ge> BASE_SIZE then Inl OutOfBounds
           else Inr (take (BUF_SIZE - 1) (ev_localtime env (atoi (take (strl - MIN_SIZE) str)) @ ''.'' @ drop (strl - MIN_SIZE) str))
      else Inr [])"

section \<open>The filters\<close>

definition id_match :: "string \<Rightarrow> string" where
  "id_match v = take (BUF_SIZE - 1) (field_match ''OPS_EVENT_ID'' (show_int (atoi v)))"

definition category_match :: "string \<Rightarrow> string" where
  "category_match v = take (BUF_SIZE - 1) (field_match ''OPS_EVENT_CATEGORY'' (strn_conv toupper v 0 (int (length v))))"

text \<open>The return value with the journal. With index 0 and an argument the match is built and
  thrown away.\<close>

definition journal_filter ::
    "events_env \<Rightarrow> string option \<Rightarrow> nat \<Rightarrow> string list option \<Rightarrow> journal_run \<Rightarrow> (int \<times> journal_run) cres" where
  "journal_filter env a index list s =
     (let add = (\<lambda>ms. case add_matches env ms s of (ok, s1) \<Rightarrow> (if ok then 0 else - 1, s1))
      in if index = EVENT_ID_INDEX
         then Inr (case a of
             Some v \<Rightarrow> (0, s)
           | None \<Rightarrow> (case list of None \<Rightarrow> (0, s) | Some vs \<Rightarrow> add (map id_match vs)))
         else if index = EVENT_SEVERITY_INDEX
         then Inr (let level = sev_level a in
             if level \<ge> 0 \<and> level < MAX_SEVS then add (upto_severity (nat level)) else (- 1, s))
         else if index = EVENT_CATEGORY_INDEX
         then (case a of None \<Rightarrow> Inl NullDeref | Some v \<Rightarrow> Inr (add [category_match v]))
         else Inr (- 1, s))"

section \<open>The listing\<close>

text \<open>\<open>strchr\<close>: the text from the first such character on.\<close>

definition strchr :: "string \<Rightarrow> char \<Rightarrow> string option" where
  "strchr s c = (case dropWhile (\<lambda>d. d \<noteq> c) s of [] \<Rightarrow> None | t \<Rightarrow> Some t)"

definition event_line :: "events_env \<Rightarrow> entry \<Rightarrow> string cres" where
  "event_line env e =
     (let message = Option.bind (value_of env e ''MESSAGE'') (\<lambda>msg. strchr msg (CHR ''|''));
          module = value_of env e ''SYSLOG_IDENTIFIER'';
          tm = value_of env e ''_SOURCE_REALTIME_TIMESTAMP''
      in bind_res (case tm of None \<Rightarrow> Inr [] | Some t \<Rightarrow> convert_to_datetime env t)
           (\<lambda>tm_buf. Inr (tm_buf @ ''|'' @ fmt_s module @ fmt_s message @ js_nl env)))"

text \<open>The loop, with the number of the next step, the entries still to come and the number
  of entries printed. None: the end was reached.\<close>

fun events_loop ::
    "events_env \<Rightarrow> nat \<Rightarrow> entry list \<Rightarrow> nat \<Rightarrow> journal_run \<Rightarrow> (cmd_ret option \<times> nat \<times> journal_run) cres" where
  "events_loop env k es count s =
     (if \<not> js_step env k then Inr (Some CMD_WARNING, count, s)
      else case es of
          [] \<Rightarrow> Inr (None, count, s)
        | e # r \<Rightarrow> bind_res (event_line env e) (\<lambda>l. events_loop env (k + 1) r (count + 1) (vty_put [l] s)))"

declare events_loop.simps [simp del]

definition events_header :: "events_env \<Rightarrow> string list" where
  "events_header env = [js_nl env @ replicate 51 (CHR ''-'') @ js_nl env, ''show event logs'' @ js_nl env,
     replicate 51 (CHR ''-'') @ js_nl env]"

definition cli_show_events :: "events_env \<Rightarrow> bool \<Rightarrow> bool \<Rightarrow> journal_run \<Rightarrow> (cmd_ret \<times> journal_run) cres" where
  "cli_show_events env reverse narrowed s =
     (let es = js_select env (matches s) in
      bind_res (events_loop env 0 (if reverse then rev es else es) 0 (vty_put (events_header env) s))
        (\<lambda>(stop, count, s1). Inr (case stop of
            Some r \<Rightarrow> (r, s1)
          | None \<Rightarrow> (CMD_SUCCESS, sd_journal_close
              (if count = 0
               then vty_put [(if narrowed then ''No event match the filter provided''
                          else ''No event has been logged in the system'') @ js_nl env] s1
               else s1)))))"

section \<open>The command\<close>

definition closed_with :: "string \<Rightarrow> journal_run \<Rightarrow> cmd_ret \<times> journal_run" where
  "closed_with msg s = (CMD_WARNING, vty_put [msg] (sd_journal_close s))"

text \<open>The loop over the arguments, with \<open>return_value\<close> and \<open>filter\<close> of the code. True: a filter
  failed.\<close>

fun filter_args ::
    "events_env \<Rightarrow> string option list \<Rightarrow> nat list \<Rightarrow> int \<Rightarrow> bool \<Rightarrow> journal_run \<Rightarrow> (bool \<times> bool \<times> journal_run) cres" where
  "filter_args env argv [] rv narrowed s = Inr (False, narrowed, s)"
| "filter_args env argv (i # js) rv narrowed s =
     bind_res (arg argv i) (\<lambda>a.
       if a \<noteq> None
       then bind_res (if i \<noteq> 2 then journal_filter env a i None s else Inr (rv, s)) (\<lambda>(rv1, s1).
         if rv1 < 0 then Inr (True, narrowed, s1) else filter_args env argv js rv1 True s1)
       else filter_args env argv js rv narrowed s)"

text \<open>The event identifiers. Left: the command returns here.\<close>

definition id_argument ::
    "events_env \<Rightarrow> string option \<Rightarrow> journal_run \<Rightarrow> ((cmd_ret \<times> journal_run) + journal_run) cres" where
  "id_argument env ids s = (case ids of
     None \<Rightarrow> Inr (Inr s)
   | Some v \<Rightarrow>
       if \<not> ev_calloc env then Inr (Inr s)
       else (case ev_range env (v @ ev_behind env) of
           None \<Rightarrow> Inr (Inl (CMD_ERR_NO_MATCH, s))
         | Some vs \<Rightarrow> bind_res (journal_filter env None 0 (Some vs) s) (\<lambda>(rv, s1).
             Inr (if rv < 0 then Inl (closed_with (''Log Filter failed'' @ js_nl env) s1) else Inr s1))))"

definition cli_platform_show_events :: "events_env \<Rightarrow> string option list \<Rightarrow> (cmd_ret \<times> journal_run) cres" where
  "cli_platform_show_events env argv =
     (let s0 = \<lparr>matches = [], printed = [], handle = False\<rparr> in
      if \<not> js_open env then Inr (CMD_WARNING, vty_put [''Not able to read the log file'' @ js_nl env] s0)
      else case sd_journal_add_match env MESSAGE_OPS_EVT_MATCH (s0\<lparr>handle := True\<rparr>) of (ok, s1) \<Rightarrow>
        if \<not> ok
        then Inr (CMD_WARNING, sd_journal_close (vty_put [''Not able to read OPS events'' @ js_nl env] s1))
        else
          bind_res (bind_res (arg argv 0) (\<lambda>ids. id_argument env ids s1)) (\<lambda>r. case r of
            Inl stop \<Rightarrow> Inr stop
          | Inr s2 \<Rightarrow> bind_res (arg argv 2) (\<lambda>rv.
              if rv \<noteq> None \<and> \<not> js_seek env
              then Inr (CMD_WARNING, sd_journal_close (vty_put [''Unable to reverse the logs'' @ js_nl env] s2))
              else bind_res (filter_args env argv [1, 2, 3] 0 False s2) (\<lambda>(failed, narrowed, s3).
                if failed then Inr (closed_with (''Log Filter failed'' @ js_nl env) s3)
                else cli_show_events env (rv \<noteq> None) narrowed s3))))"

end
