(* ===== verification/Show_Events_Correct.thy ===== *)
theory Show_Events_Correct
  imports Show_Events
begin

text \<open>
  What \<open>show events\<close> prints: one line per selected entry, in the order asked for, and how it
  ends when the journal or the arguments fail.
\<close>

section \<open>The filters\<close>

lemma id_field: "field_of (id_match v) = ''OPS_EVENT_ID''"
  unfolding id_match_def by (rule field_of_cut) simp_all

lemma category_field: "field_of (category_match v) = ''OPS_EVENT_CATEGORY''"
  unfolding category_match_def by (rule field_of_cut) simp_all

lemma evt_field: "field_of MESSAGE_OPS_EVT_MATCH = ''MESSAGE_ID''"
  by (simp add: field_of_def MESSAGE_OPS_EVT_MATCH_def)

lemma category_match_upper: "category_match v = take (BUF_SIZE - 1) (''OPS_EVENT_CATEGORY='' @ map toupper v)"
proof -
  have "strn_conv toupper v 0 (int (length v)) = map toupper v"
    by (cases v) (simp_all add: strn_conv_prefix)
  then show ?thesis by (simp add: category_match_def field_match_def)
qed

definition id_part :: "string list option \<Rightarrow> string list" where
  "id_part ids = (case ids of None \<Rightarrow> [] | Some vs \<Rightarrow> map id_match vs)"

definition severity_part :: "string option \<Rightarrow> string list" where
  "severity_part sv = (case sv of None \<Rightarrow> [] | Some v \<Rightarrow> upto_severity (nat (sev_level sv)))"

definition category_part :: "string option \<Rightarrow> string list" where
  "category_part cat = (case cat of None \<Rightarrow> [] | Some v \<Rightarrow> [category_match v])"

text \<open>The entries that the arguments select.\<close>

definition event_selected :: "string list option \<Rightarrow> string option \<Rightarrow> string option \<Rightarrow> entry \<Rightarrow> bool" where
  "event_selected ids sv cat e \<longleftrightarrow> MESSAGE_OPS_EVT_MATCH \<in> set e \<and>
     (case ids of None \<Rightarrow> True | Some vs \<Rightarrow> \<exists>v\<in>set vs. id_match v \<in> set e) \<and>
     (case sv of None \<Rightarrow> True | Some v \<Rightarrow> \<exists>l\<le>nat (sev_level (Some v)). ''PRIORITY='' @ show_nat l \<in> set e) \<and>
     (case cat of None \<Rightarrow> True | Some v \<Rightarrow> take 99 (''OPS_EVENT_CATEGORY='' @ map toupper v) \<in> set e)"

lemma visible_selected:
  assumes "ids \<noteq> Some []"
  shows "visible (MESSAGE_OPS_EVT_MATCH # id_part ids @ severity_part sv @ category_part cat) e \<longleftrightarrow> event_selected ids sv cat e"
proof -
  let ?gs = "[(''MESSAGE_ID'', [MESSAGE_OPS_EVT_MATCH]), (''OPS_EVENT_ID'', id_part ids),
    (''PRIORITY'', severity_part sv), (''OPS_EVENT_CATEGORY'', category_part cat)]"
  have parts: "severity_part sv \<noteq> [] \<longleftrightarrow> sv \<noteq> None" "category_part cat \<noteq> [] \<longleftrightarrow> cat \<noteq> None" "id_part ids \<noteq> [] \<longleftrightarrow> ids \<noteq> None"
    using assms by (simp_all add: severity_part_def category_part_def id_part_def split: option.splits) auto
  have "visible (concat (map snd ?gs)) e \<longleftrightarrow> (\<forall>g\<in>set ?gs. snd g \<noteq> [] \<longrightarrow> set (snd g) \<inter> set e \<noteq> {})"
    by (rule visible_groups)
      (auto simp: evt_field id_field category_field id_part_def severity_part_def category_part_def
        upto_severity_field split: option.splits)
  then show ?thesis using parts
    by (auto simp: event_selected_def id_part_def severity_part_def category_part_def upto_severity_set
      category_match_upper field_match_def split: option.splits)
qed

lemma filters_ok:
  assumes "\<forall>k. js_match env k"
  shows "journal_filter env None 0 (Some vs) s = Inr (0, s\<lparr>matches := matches s @ map id_match vs\<rparr>)"
    and "0 \<le> sev_level (Some v) \<Longrightarrow>
      journal_filter env (Some v) (Suc 0) None s = Inr (0, s\<lparr>matches := matches s @ severity_part (Some v)\<rparr>)"
    and "journal_filter env (Some v) 3 None s = Inr (0, s\<lparr>matches := matches s @ [category_match v]\<rparr>)"
proof -
  note t = assms
  show "journal_filter env None 0 (Some vs) s = Inr (0, s\<lparr>matches := matches s @ map id_match vs\<rparr>)"
    "journal_filter env (Some v) 3 None s = Inr (0, s\<lparr>matches := matches s @ [category_match v]\<rparr>)"
    by (simp_all add: journal_filter_def add_matches_ok [OF t] del: add_matches.simps)
  have "sev_level (Some v) < 8" using cli_sev.look_in_range [of "Some v"] by (auto simp: sev_def)
  then show "0 \<le> sev_level (Some v) \<Longrightarrow>
      journal_filter env (Some v) (Suc 0) None s = Inr (0, s\<lparr>matches := matches s @ severity_part (Some v)\<rparr>)"
    by (simp add: journal_filter_def add_matches_ok [OF t] severity_part_def)
qed

lemma filter_args_ok:
  assumes "\<forall>k. js_match env k" "sv \<noteq> None \<longrightarrow> 0 \<le> sev_level sv"
  shows "filter_args env [ids, sv, rv, cat] [1, 2, 3] 0 False s =
    Inr (False, sv \<noteq> None \<or> rv \<noteq> None \<or> cat \<noteq> None, s\<lparr>matches := matches s @ severity_part sv @ category_part cat\<rparr>)"
  using assms(2) filters_ok [OF assms(1)]
  by (cases sv; cases rv; cases cat) (simp_all add: arg_def severity_part_def category_part_def)

section \<open>The listing\<close>

definition event_text :: "events_env \<Rightarrow> entry \<Rightarrow> string" where
  "event_text env e = (case event_line env e of Inr l \<Rightarrow> l | Inl _ \<Rightarrow> [])"

text \<open>The time stamp of an entry fits the array of the conversion.\<close>

definition time_fits :: "events_env \<Rightarrow> entry \<Rightarrow> bool" where
  "time_fits env e \<longleftrightarrow> (case value_of env e ''_SOURCE_REALTIME_TIMESTAMP'' of None \<Rightarrow> True | Some t \<Rightarrow> length t < 26)"

lemma convert_ok_iff: "ok_res (convert_to_datetime env t) \<longleftrightarrow> length t < 26"
  by (auto simp: convert_to_datetime_def Let_def)

lemma line_ok: "time_fits env e \<Longrightarrow> event_line env e = Inr (event_text env e)"
proof (cases "value_of env e ''_SOURCE_REALTIME_TIMESTAMP''")
  case None
  then show ?thesis by (simp add: event_text_def event_line_def)
next
  case (Some t)
  moreover assume "time_fits env e"
  ultimately have "ok_res (convert_to_datetime env t)" by (simp add: time_fits_def convert_ok_iff)
  then obtain b where "convert_to_datetime env t = Inr b" by (cases "convert_to_datetime env t") simp_all
  with Some show ?thesis by (simp add: event_text_def event_line_def)
qed

lemma loop_ok:
  assumes "\<forall>k. js_step env k" "\<forall>e\<in>set es. time_fits env e"
  shows "events_loop env k es count s = Inr (None, count + length es, vty_put (map (event_text env) es) s)"
  using assms(2)
proof (induction es arbitrary: k count s)
  case Nil
  then show ?case using assms(1) by (simp add: events_loop.simps [of env k "[]"] vty_put_def)
next
  case (Cons e es)
  then show ?case using assms(1) by (simp add: events_loop.simps [of env k "e # es"] line_ok vty_put_def)
qed

definition empty_note :: "events_env \<Rightarrow> bool \<Rightarrow> entry list \<Rightarrow> string list" where
  "empty_note env narrowed es = (if es = [] then
     [(if narrowed then ''No event match the filter provided'' else ''No event has been logged in the system'') @ js_nl env] else [])"

lemma listing_run:
  assumes "\<forall>k. js_step env k" "es = js_select env (matches s)" "\<forall>e\<in>set es. time_fits env e"
  shows "cli_show_events env reverse narrowed s = Inr (CMD_SUCCESS, s\<lparr>printed := printed s @ events_header env @
      map (event_text env) (if reverse then rev es else es) @ empty_note env narrowed es, handle := False\<rparr>)"
proof -
  let ?es = "if reverse then rev es else es"
  have "events_loop env 0 ?es 0 (vty_put (events_header env) s) =
      Inr (None, length es, vty_put (map (event_text env) ?es) (vty_put (events_header env) s))"
    using loop_ok [OF assms(1), of ?es 0 0] assms(3) by simp
  then show ?thesis unfolding cli_show_events_def Let_def assms(2) [symmetric]
    by (simp add: vty_put_def sd_journal_close_def empty_note_def)
qed

text \<open>A journal that can be read.\<close>

definition readable :: "events_env \<Rightarrow> bool" where
  "readable env \<longleftrightarrow> js_open env \<and> js_seek env \<and> (\<forall>k. js_match env k) \<and> (\<forall>k. js_step env k)"

text \<open>The values of the range that the first argument holds.\<close>

definition ids_read :: "events_env \<Rightarrow> string option \<Rightarrow> string list option \<Rightarrow> bool" where
  "ids_read env a ids \<longleftrightarrow> (case a of None \<Rightarrow> ids = None
     | Some v \<Rightarrow> ev_calloc env \<and> ids \<noteq> None \<and> ids \<noteq> Some [] \<and> ev_range env (v @ ev_behind env) = ids)"

definition events_report :: "events_env \<Rightarrow> bool \<Rightarrow> bool \<Rightarrow> entry list \<Rightarrow> string list" where
  "events_report env reverse narrowed es = events_header env @
     map (event_text env) (if reverse then rev es else es) @ empty_note env narrowed es"

lemma show_events_run:
  assumes "readable env" "ids_read env a ids" "sv \<noteq> None \<longrightarrow> sv \<in> Some ` set sev"
    and "journal_of env js" "es = filter (event_selected ids sv cat) js" "\<forall>e\<in>set es. time_fits env e"
  shows "\<exists>s. cli_platform_show_events env [a, sv, rv, cat] = Inr (CMD_SUCCESS, s) \<and> \<not> handle s \<and>
    printed s = events_report env (rv \<noteq> None) (sv \<noteq> None \<or> rv \<noteq> None \<or> cat \<noteq> None) es"
proof -
  have r: "js_open env" "js_seek env" "\<forall>k. js_match env k" "\<forall>k. js_step env k" using assms(1) by (simp_all add: readable_def)
  have lv: "sv \<noteq> None \<longrightarrow> 0 \<le> sev_level sv"
    using assms(3) cli_sev.look_miss_iff [of sv] cli_sev.look_in_range [of sv] by auto
  let ?s1 = "\<lparr>matches = [MESSAGE_OPS_EVT_MATCH], printed = [], handle = True\<rparr>"
  have m: "sd_journal_add_match env MESSAGE_OPS_EVT_MATCH
      (\<lparr>matches = [], printed = [], handle = False\<rparr>\<lparr>handle := True\<rparr>) = (True, ?s1)"
    using r(3) by (simp add: sd_journal_add_match_def)
  have i: "id_argument env a ?s1 = Inr (Inr (?s1\<lparr>matches := matches ?s1 @ id_part ids\<rparr>))" and ne: "ids \<noteq> Some []"
    using assms(2) filters_ok(1) [OF r(3)]
    by (auto simp: ids_read_def id_argument_def id_part_def split: option.splits)
  let ?s3 = "?s1\<lparr>matches := (MESSAGE_OPS_EVT_MATCH # id_part ids @ severity_part sv @ category_part cat)\<rparr>"
  have es: "es = js_select env (matches ?s3)"
    using assms(4) by (simp add: assms(5) journal_of_def visible_selected [OF ne, abs_def])
  have "cli_platform_show_events env [a, sv, rv, cat] =
      cli_show_events env (rv \<noteq> None) (sv \<noteq> None \<or> rv \<noteq> None \<or> cat \<noteq> None) ?s3"
    unfolding cli_platform_show_events_def Let_def m
    using r(1,2) i filter_args_ok [OF r(3) lv, of a rv cat] by (simp add: arg_def del: filter_args.simps)
  then show ?thesis using listing_run [OF r(4) es assms(6)] by (simp add: events_report_def)
qed

section \<open>How the command ends\<close>

lemma loop_stops:
  "events_loop env k es count s = Inr (stop, n, s') \<Longrightarrow>
     handle s' = handle s \<and> (stop \<noteq> None \<longrightarrow> stop = Some CMD_WARNING \<and> (\<exists>j. \<not> js_step env j))"
proof (induction es arbitrary: k count s)
  case Nil
  then show ?case by (auto simp: events_loop.simps [of env k "[]"] split: if_splits)
next
  case (Cons e es)
  show ?case
  proof (cases "js_step env k")
    case True
    with Cons.prems obtain l where "events_loop env (k + 1) es (count + 1) (vty_put [l] s) = Inr (stop, n, s')"
      by (auto simp: events_loop.simps [of env k "e # es"] bind_res_eq_Inr)
    from Cons.IH [OF this] show ?thesis by (simp add: vty_put_def)
  next
    case False
    with Cons.prems show ?thesis by (auto simp: events_loop.simps [of env k "e # es"])
  qed
qed

lemma show_ends:
  "cli_show_events env reverse narrowed s = Inr (r, s') \<Longrightarrow> handle s' \<Longrightarrow> r = CMD_WARNING \<and> (\<exists>j. \<not> js_step env j)"
  by (auto simp: cli_show_events_def Let_def bind_res_eq_Inr sd_journal_close_def split: option.splits dest!: loop_stops)

lemma closed_with_closes: "closed_with msg s = (r, s') \<Longrightarrow> \<not> handle s'"
  by (auto simp: closed_with_def vty_put_def sd_journal_close_def)

lemma id_argument_ends:
  "id_argument env ids s = Inr (Inl (r, s')) \<Longrightarrow> handle s' \<Longrightarrow>
     r = CMD_ERR_NO_MATCH \<and> (\<exists>v. ids = Some v \<and> ev_range env (v @ ev_behind env) = None)"
  by (auto simp: id_argument_def bind_res_eq_Inr closed_with_def vty_put_def sd_journal_close_def split: option.splits if_splits)

section \<open>A concrete journal\<close>

definition demo_entry :: "nat \<Rightarrow> nat \<Rightarrow> string \<Rightarrow> string \<Rightarrow> entry" where
  "demo_entry i p c m = [''MESSAGE=ops-evt|'' @ show_nat i @ m, ''PRIORITY='' @ show_nat p, MESSAGE_OPS_EVT_MATCH,
     ''OPS_EVENT_ID='' @ show_nat i, ''OPS_EVENT_CATEGORY='' @ c, ''SYSLOG_IDENTIFIER=ops-lldpd'',
     ''_SOURCE_REALTIME_TIMESTAMP=1459547856000123'']"

definition demo_js :: "entry list" where
  "demo_js = [demo_entry 1001 6 ''LLDP'' ''|LOG_INFO|LLDP Enabled'', [''MESSAGE=boot'', ''PRIORITY=3''],
     demo_entry 1003 3 ''LLDP'' ''|LOG_ERR|LLDP failed'', demo_entry 2001 6 ''LAG'' ''|LOG_INFO|LAG created'']"

definition demo_events :: events_env where
  "demo_events = \<lparr>js_open = True, js_select = (\<lambda>ms. filter (visible ms) demo_js), js_data = get_data,
     js_step = (\<lambda>k. True), js_match = (\<lambda>k. True), js_seek = True, js_nl = [CHR 0x0A],
     ev_calloc = True, ev_behind = [], ev_range = (\<lambda>s. if s = ''1001,1003'' then Some [''1001'', ''1003''] else if s = ''4000'' then Some [''4000''] else None),
     ev_localtime = (\<lambda>t. if t = 1459547856 then ''2016-04-01:21:57:36'' else [])\<rparr>"

lemma demo_nats: "show_nat 1001 = ''1001''" "show_nat 1003 = ''1003''" "show_nat 2001 = ''2001''" "show_nat 4000 = ''4000''"
  "show_nat 3 = ''3''" "show_nat 6 = ''6''"
  by (simp_all add: show_nat.simps char_of_def bit_Suc_0_iff)

lemma demo_ids: "show_int (atoi ''1001'') = ''1001''" "show_int (atoi ''1003'') = ''1003''" "show_int (atoi ''4000'') = ''4000''"
  using atoi_show_nat [of 1001] atoi_show_nat [of 1003] atoi_show_nat [of 4000] by (simp_all add: demo_nats show_int_def)

lemma demo_info: "sev_level (Some ''info'') = 6" "map toupper ''lldp'' = ''LLDP''"
  by code_simp+

lemma demo_levels: "\<exists>l\<le>6. show_nat l = ''6''" "\<exists>l\<le>6. show_nat l = ''3''"
  by (rule exI [of _ 6], simp add: demo_nats, rule exI [of _ 3], simp add: demo_nats)

lemma demo_readable: "readable demo_events" "journal_of demo_events demo_js"
  by (simp_all add: readable_def journal_of_def demo_events_def)

section \<open>Properties\<close>

text \<open>C7: on a readable journal \<open>show events\<close> prints its header and one line for each event that
  has one of the identifiers, at most the severity and the category in capitals that the
  arguments name, the oldest first or with \<open>reverse\<close> the latest first; then it closes the
  journal.\<close>

theorem show_events_lists:
  assumes "readable env" "journal_of env js" "ids_read env a ids" "sv \<noteq> None \<longrightarrow> sv \<in> Some ` set sev"
    and "es = filter (event_selected ids sv cat) js" "\<forall>e\<in>set es. time_fits env e"
  shows "\<exists>s. cli_platform_show_events env [a, sv, rv, cat] = Inr (CMD_SUCCESS, s) \<and> \<not> handle s \<and>
    printed s = events_report env (rv \<noteq> None) (sv \<noteq> None \<or> rv \<noteq> None \<or> cat \<noteq> None) es"
  by (rule show_events_run [OF assms(1,3,4,2,5,6)])

lemma demo_fit: "\<forall>e\<in>set demo_js. time_fits demo_events e"
  unfolding demo_js_def demo_entry_def
  by (simp add: time_fits_def value_of_def demo_events_def get_data_def field_of_def get_value_def MESSAGE_OPS_EVT_MATCH_def)

lemma show_events_lists_witness:
  "\<exists>s. cli_platform_show_events demo_events [Some ''1001,1003'', Some ''info'', Some ''reverse'', Some ''lldp''] = Inr (CMD_SUCCESS, s) \<and>
    \<not> handle s \<and> printed s = events_report demo_events True True [demo_entry 1001 6 ''LLDP'' ''|LOG_INFO|LLDP Enabled'',
      demo_entry 1003 3 ''LLDP'' ''|LOG_ERR|LLDP failed'']"
proof -
  have ids: "ids_read demo_events (Some ''1001,1003'') (Some [''1001'', ''1003''])" by (simp add: ids_read_def demo_events_def)
  have info: "Some ''info'' \<noteq> None \<longrightarrow> Some ''info'' \<in> Some ` set sev" by (simp add: sev_def)
  have sel: "filter (event_selected (Some [''1001'', ''1003'']) (Some ''info'') (Some ''lldp'')) demo_js =
      [demo_entry 1001 6 ''LLDP'' ''|LOG_INFO|LLDP Enabled'', demo_entry 1003 3 ''LLDP'' ''|LOG_ERR|LLDP failed'']"
    by (simp add: event_selected_def demo_js_def demo_entry_def demo_nats id_match_def field_match_def demo_ids demo_info
        demo_levels MESSAGE_OPS_EVT_MATCH_def del: list.map)
  show ?thesis
    using show_events_lists [OF demo_readable ids info refl, where cat = "Some ''lldp''" and rv = "Some ''reverse''", unfolded sel] demo_fit
    by (simp add: demo_js_def)
qed

text \<open>Whatever the journal and the arguments do, a journal that \<open>show events\<close> leaves open
  belongs to one of two returns: a range without values, or a step of the walk that failed.\<close>

theorem show_events_leaves_open:
  assumes "cli_platform_show_events env argv = Inr (r, s)" "handle s"
  shows "r = CMD_ERR_NO_MATCH \<and> (\<exists>v. arg argv 0 = Inr (Some v) \<and> ev_range env (v @ ev_behind env) = None) \<or>
    r = CMD_WARNING \<and> (\<exists>k. \<not> js_step env k)"
proof -
  show ?thesis
  proof (cases "js_open env")
    case False
    with assms show ?thesis by (auto simp: cli_platform_show_events_def vty_put_def)
  next
    case opened: True
    obtain ok s1 where m: "sd_journal_add_match env MESSAGE_OPS_EVT_MATCH (\<lparr>matches = [], printed = [], handle = False\<rparr>\<lparr>handle := True\<rparr>) = (ok, s1)"
      by fastforce
    note run = assms(1) [unfolded cli_platform_show_events_def Let_def m prod.case]
    have "ok" using run opened assms(2) by (auto simp: sd_journal_close_def split: if_splits)
    then obtain x where x: "bind_res (arg argv 0) (\<lambda>ids. id_argument env ids s1) = Inr x"
      using run opened by (cases "bind_res (arg argv 0) (\<lambda>ids. id_argument env ids s1)") simp_all
    note rest = run [unfolded x]
    show ?thesis
    proof (cases x)
      case (Inl y)
      with rest \<open>ok\<close> opened have "x = Inl (r, s)" by simp
      with x assms(2) show ?thesis by (auto simp: bind_res_eq_Inr dest: id_argument_ends)
    next
      case (Inr s2)
      with rest \<open>ok\<close> opened assms(2) show ?thesis
        by (auto simp: bind_res_eq_Inr sd_journal_close_def simp del: filter_args.simps split: if_splits prod.splits dest: show_ends closed_with_closes)
    qed
  qed
qed

lemma show_events_leaves_open_witness:
  "\<exists>s. cli_platform_show_events demo_events [Some ''7'', None, None, None] = Inr (CMD_ERR_NO_MATCH, s) \<and> handle s \<and>
    ev_range demo_events ''7'' = None"
proof -
  let ?s = "\<lparr>matches = [MESSAGE_OPS_EVT_MATCH], printed = [], handle = True\<rparr>"
  have r: "cli_platform_show_events demo_events [Some ''7'', None, None, None] = Inr (CMD_ERR_NO_MATCH, ?s)"
    by (simp add: cli_platform_show_events_def demo_events_def sd_journal_add_match_def id_argument_def arg_def)
  show ?thesis using show_events_leaves_open [OF r] r by (simp add: demo_events_def)
qed

text \<open>When no event has the identifiers asked for, \<open>show events event-id\<close> claims that no event
  has been logged at all, whatever the journal holds: the identifiers never set the flag that
  tells a filtered listing. With \<open>reverse\<close> alone an empty listing is put down to a filter.\<close>

theorem show_events_blames_the_journal:
  assumes "readable env" "journal_of env js" "ids_read env a ids" "filter (event_selected ids None None) js = []"
  shows "\<exists>s. cli_platform_show_events env [a, None, rv, None] = Inr (CMD_SUCCESS, s) \<and>
    printed s = events_header env @ [(if rv = None then ''No event has been logged in the system''
      else ''No event match the filter provided'') @ js_nl env]"
  using show_events_run [where sv = None and cat = None and rv = rv, OF assms(1,3) _ assms(2) assms(4) [symmetric]]
  by (auto simp: events_report_def empty_note_def)

lemma show_events_blames_the_journal_witness:
  "\<exists>s. cli_platform_show_events demo_events [Some ''4000'', None, None, None] = Inr (CMD_SUCCESS, s) \<and>
    printed s = events_header demo_events @ [(if (None :: string option) = None then ''No event has been logged in the system''
      else ''No event match the filter provided'') @ js_nl demo_events]"
proof -
  have ids: "ids_read demo_events (Some ''4000'') (Some [''4000''])" by (simp add: ids_read_def demo_events_def)
  have sel: "filter (event_selected (Some [''4000'']) None None) demo_js = []"
    by (simp add: event_selected_def demo_js_def demo_entry_def demo_nats id_match_def field_match_def demo_ids MESSAGE_OPS_EVT_MATCH_def)
  show ?thesis by (rule show_events_blames_the_journal [OF demo_readable ids sel])
qed

end
