(* ===== verification/Logged_Events.thy ===== *)
theory Logged_Events
  imports Event_Log Show_Events_Correct
begin

text \<open>
  From \<open>log_event\<close> to \<open>show events\<close>. \<open>log_event\<close> hands \<open>sd_journal_send\<close> a list of \<open>printf\<close>
  formats, each followed by its arguments; the entry that arrives is what \<open>show events\<close> reads.
\<close>

section \<open>Formats\<close>

text \<open>\<open>printf\<close> of the C library for the conversions that occur, with the arguments that are left.
  A conversion without a fitting argument is undefined.\<close>

fun vprintf :: "string \<Rightarrow> jarg list \<Rightarrow> (string \<times> jarg list) cres" where
  "vprintf [] ts = Inr ([], ts)"
| "vprintf [c] ts = (if c = CHR ''%'' then Inl NoVarArg else Inr ([c], ts))"
| "vprintf (c # d # f) ts =
     (if c \<noteq> CHR ''%'' then (case vprintf (d # f) ts of Inl e \<Rightarrow> Inl e | Inr (t, r) \<Rightarrow> Inr (c # t, r))
      else if d = CHR ''%'' then (case vprintf f ts of Inl e \<Rightarrow> Inl e | Inr (t, r) \<Rightarrow> Inr (c # t, r))
      else case ts of
          [] \<Rightarrow> Inl NoVarArg
        | JInt i # us \<Rightarrow> if d = CHR ''d'' then (case vprintf f us of Inl e \<Rightarrow> Inl e | Inr (t, r) \<Rightarrow> Inr (show_int i @ t, r)) else Inl NoVarArg
        | JStr v # us \<Rightarrow> if d = CHR ''s'' then (case vprintf f us of Inl e \<Rightarrow> Inl e | Inr (t, r) \<Rightarrow> Inr (fmt_s v @ t, r)) else Inl NoVarArg)"

lemma vprintf_shorter: "vprintf f ts = Inr (t, r) \<Longrightarrow> length r \<le> length ts"
  by (induction f ts arbitrary: t r rule: vprintf.induct)
    (auto split: if_splits sum.splits prod.splits list.splits jarg.splits intro: le_SucI)

text \<open>The fields of a list of formats and arguments (\<open>sd_journal_send(3)\<close>); a NULL format ends it.\<close>

function journal_fields :: "jarg list \<Rightarrow> entry cres" where
  "journal_fields [] = Inr []"
| "journal_fields (JStr None # ts) = Inr []"
| "journal_fields (JInt i # ts) = Inl NoVarArg"
| "journal_fields (JStr (Some f) # ts) = (case vprintf f ts of
     Inl e \<Rightarrow> Inl e
   | Inr (t, r) \<Rightarrow> (case journal_fields r of Inl e \<Rightarrow> Inl e | Inr es \<Rightarrow> Inr (t # es)))"
  by pat_completeness auto
termination by (relation "measure length") (auto dest: vprintf_shorter)

lemma vprintf_plain: "CHR ''%'' \<notin> set p \<Longrightarrow> vprintf p ts = Inr (p, ts)"
  by (induction p ts rule: vprintf.induct) auto

lemma vprintf_prefix:
  assumes "CHR ''%'' \<notin> set p"
  shows "vprintf (p @ CHR ''%'' # d # f) ts =
    (case vprintf (CHR ''%'' # d # f) ts of Inl e \<Rightarrow> Inl e | Inr (t, r) \<Rightarrow> Inr (p @ t, r))"
  using assms
proof (induction p)
  case Nil
  then show ?case by (simp split: sum.splits prod.splits)
next
  case (Cons c p)
  then have "vprintf (c # p @ CHR ''%'' # d # f) ts =
      (case vprintf (p @ CHR ''%'' # d # f) ts of Inl e \<Rightarrow> Inl e | Inr (t, r) \<Rightarrow> Inr (c # t, r))"
    by (cases p) auto
  with Cons show ?case by (auto split: sum.splits prod.splits)
qed

section \<open>The numbers in the fields\<close>

lemma show_nat_length: "n < 10 ^ k \<Longrightarrow> 0 < k \<Longrightarrow> length (show_nat n) \<le> k"
proof (induction k arbitrary: n)
  case (Suc k)
  show ?case
  proof (cases "n < 10")
    case True
    then show ?thesis by (simp add: show_nat.simps)
  next
    case False
    with Suc.prems have "n div 10 < 10 ^ k" "0 < k" by (auto simp: less_mult_imp_div_less mult.commute intro: gr0I)
    with Suc.IH False show ?thesis by (simp add: show_nat.simps [of n])
  qed
qed simp

lemma atoi_bounds: "- (2 ^ 31) \<le> atoi v" "atoi v < 2 ^ 31"
  using signed_take_bit_int_greater_eq_minus_exp [of 31 "strtol v"] signed_take_bit_int_less_exp [of 31 "strtol v"]
  by (simp_all add: atoi_def)

lemma show_int_length: "- (2 ^ 31) \<le> i \<Longrightarrow> i < 2 ^ 31 \<Longrightarrow> length (show_int i) \<le> 11"
proof -
  assume "- (2 ^ 31) \<le> i" "i < 2 ^ 31"
  then have "nat i < 10 ^ 10" "nat (- i) < 10 ^ 10" by simp_all
  then have "length (show_nat (nat i)) \<le> 10" "length (show_nat (nat (- i))) \<le> 10"
    by (simp_all only: show_nat_length zero_less_numeral)
  then show ?thesis by (simp add: show_int_def)
qed

lemma show_nat_inj: "show_nat m = show_nat n \<Longrightarrow> m = n"
  by (metis decimal_show_nat of_nat_eq_iff)

lemma minus_not_digit: "CHR ''-'' \<notin> set (show_nat n)"
  using show_nat_digits [of "CHR ''-''" n] by (auto simp: isdigit_def)

lemma show_int_inj: "show_int i = show_int j \<longleftrightarrow> i = j"
proof
  assume a: "show_int i = show_int j"
  have "show_nat n \<noteq> CHR ''-'' # t" for n t using minus_not_digit [of n] by auto
  with a show "i = j" by (auto simp: show_int_def dest!: show_nat_inj split: if_splits dest: sym)
qed simp

lemma id_match_eq: "id_match v = ''OPS_EVENT_ID='' @ show_int (atoi v)"
  using show_int_length [OF atoi_bounds, of v] by (simp add: id_match_def field_match_def)

section \<open>The entry of an event\<close>

lemma no_percent: "CHR ''%'' \<notin> set (show_int i)" "x \<in> set log_sev \<Longrightarrow> CHR ''%'' \<notin> set x"
  using show_nat_digits [of "CHR ''%''"] by (auto simp: show_int_def isdigit_def log_sev_def)

lemma field_formats:
  "vprintf ''PRIORITY=%d'' (JInt i # ts) = Inr (''PRIORITY='' @ show_int i, ts)"
  "vprintf ''MESSAGE_ID=%s'' (JStr v # ts) = Inr (''MESSAGE_ID='' @ fmt_s v, ts)"
  "vprintf ''OPS_EVENT_ID=%d'' (JInt i # ts) = Inr (''OPS_EVENT_ID='' @ show_int i, ts)"
  "vprintf ''OPS_EVENT_CATEGORY=%s'' (JStr v # ts) = Inr (''OPS_EVENT_CATEGORY='' @ fmt_s v, ts)"
  by simp_all

definition event_entry :: "event \<Rightarrow> string \<Rightarrow> string \<Rightarrow> entry" where
  "event_entry ev msg pairs = [''MESSAGE=ops-evt|'' @ show_int (event_id ev) @ ''|'' @ severity ev @ ''|'' @ msg,
     ''PRIORITY='' @ show_int (severity_level (Some (severity ev))), MESSAGE_OPS_EVT_MATCH,
     ''OPS_EVENT_ID='' @ show_int (event_id ev), ''OPS_EVENT_CATEGORY='' @ fmt_s (category ev), pairs]"

lemma event_fields_entry:
  assumes "severity ev \<in> set log_sev" "CHR ''%'' \<notin> set msg" "CHR ''%'' \<notin> set pairs"
  shows "journal_fields (event_fields ev msg pairs) = Inr (event_entry ev msg pairs)"
proof -
  have "CHR ''%'' \<notin> set (''MESSAGE=ops-evt|'' @ show_int (event_id ev) @ ''|'' @ severity ev @ ''|'' @ msg)"
    using assms(1,2) no_percent by auto
  from vprintf_plain [OF this] show ?thesis
    unfolding event_fields_def event_entry_def
    by (simp only: journal_fields.simps vprintf_plain [OF assms(3)] field_formats sum.case prod.case)
      (simp add: fmt_s_def MESSAGE_OPS_EVT_MATCH_def)
qed

text \<open>The entry as the journal keeps it: the fields that were sent and those that journald adds.\<close>

definition stored :: "event \<Rightarrow> string \<Rightarrow> string \<Rightarrow> string \<Rightarrow> string \<Rightarrow> entry \<Rightarrow> entry" where
  "stored ev msg pairs ident time others = event_entry ev msg pairs @
     [''SYSLOG_IDENTIFIER='' @ ident, ''_SOURCE_REALTIME_TIMESTAMP='' @ time] @ others"

definition own_fields :: "string list" where
  "own_fields = [''MESSAGE'', ''PRIORITY'', ''MESSAGE_ID'', ''OPS_EVENT_ID'', ''OPS_EVENT_CATEGORY'', ''SYSLOG_IDENTIFIER'',
     ''_SOURCE_REALTIME_TIMESTAMP'']"

definition foreign :: "entry \<Rightarrow> bool" where
  "foreign ds \<longleftrightarrow> (\<forall>d\<in>set ds. field_of d \<notin> set own_fields)"

lemma field_of_lit:
  "field_of (''MESSAGE='' @ v) = ''MESSAGE''" "field_of (''PRIORITY='' @ v) = ''PRIORITY''"
  "field_of (''OPS_EVENT_ID='' @ v) = ''OPS_EVENT_ID''" "field_of (''OPS_EVENT_CATEGORY='' @ v) = ''OPS_EVENT_CATEGORY''"
  "field_of (''SYSLOG_IDENTIFIER='' @ v) = ''SYSLOG_IDENTIFIER''"
  "field_of (''_SOURCE_REALTIME_TIMESTAMP='' @ v) = ''_SOURCE_REALTIME_TIMESTAMP''"
  by (simp_all add: field_of_def)

lemma stored_members:
  assumes "foreign (pairs # others)"
  shows "MESSAGE_OPS_EVT_MATCH \<in> set (stored ev msg pairs ident time others)"
    and "''OPS_EVENT_ID='' @ v \<in> set (stored ev msg pairs ident time others) \<longleftrightarrow> v = show_int (event_id ev)"
    and "''PRIORITY='' @ v \<in> set (stored ev msg pairs ident time others) \<longleftrightarrow> v = show_int (severity_level (Some (severity ev)))"
    and "''OPS_EVENT_CATEGORY='' @ v \<in> set (stored ev msg pairs ident time others) \<longleftrightarrow> v = fmt_s (category ev)"
proof -
  have f: "d \<notin> set (pairs # others)" if "field_of d \<in> set own_fields" for d
    using assms that by (auto simp: foreign_def)
  note g = f [of "''OPS_EVENT_ID='' @ v", unfolded field_of_lit] f [of "''PRIORITY='' @ v", unfolded field_of_lit]
    f [of "''OPS_EVENT_CATEGORY='' @ v", unfolded field_of_lit]
  show "MESSAGE_OPS_EVT_MATCH \<in> set (stored ev msg pairs ident time others)"
    by (simp add: stored_def event_entry_def)
  show "''OPS_EVENT_ID='' @ v \<in> set (stored ev msg pairs ident time others) \<longleftrightarrow> v = show_int (event_id ev)"
    "''PRIORITY='' @ v \<in> set (stored ev msg pairs ident time others) \<longleftrightarrow> v = show_int (severity_level (Some (severity ev)))"
    "''OPS_EVENT_CATEGORY='' @ v \<in> set (stored ev msg pairs ident time others) \<longleftrightarrow> v = fmt_s (category ev)"
    using g by (auto simp: stored_def event_entry_def own_fields_def MESSAGE_OPS_EVT_MATCH_def)
qed

lemma stored_data:
  assumes "foreign (pairs # others)"
  shows "get_data (stored ev msg pairs ident time others) ''MESSAGE'' =
      Some (''MESSAGE=ops-evt|'' @ show_int (event_id ev) @ ''|'' @ severity ev @ ''|'' @ msg)"
    and "get_data (stored ev msg pairs ident time others) ''SYSLOG_IDENTIFIER'' = Some (''SYSLOG_IDENTIFIER='' @ ident)"
    and "get_data (stored ev msg pairs ident time others) ''_SOURCE_REALTIME_TIMESTAMP'' =
      Some (''_SOURCE_REALTIME_TIMESTAMP='' @ time)"
proof -
  have "field_of pairs \<notin> set own_fields" using assms by (simp add: foreign_def)
  then show "get_data (stored ev msg pairs ident time others) ''MESSAGE'' =
      Some (''MESSAGE=ops-evt|'' @ show_int (event_id ev) @ ''|'' @ severity ev @ ''|'' @ msg)"
    "get_data (stored ev msg pairs ident time others) ''SYSLOG_IDENTIFIER'' = Some (''SYSLOG_IDENTIFIER='' @ ident)"
    "get_data (stored ev msg pairs ident time others) ''_SOURCE_REALTIME_TIMESTAMP'' =
      Some (''_SOURCE_REALTIME_TIMESTAMP='' @ time)"
    by (auto simp: get_data_def stored_def event_entry_def field_of_def own_fields_def MESSAGE_OPS_EVT_MATCH_def)
qed

text \<open>The arguments that an event with this number, severity and category answers to.\<close>

definition answers :: "string list option \<Rightarrow> string option \<Rightarrow> string option \<Rightarrow> event \<Rightarrow> bool" where
  "answers ids sv cat ev \<longleftrightarrow>
     (case ids of None \<Rightarrow> True | Some vs \<Rightarrow> event_id ev \<in> atoi ` set vs) \<and>
     (case sv of None \<Rightarrow> True | Some v \<Rightarrow> severity_level (Some (severity ev)) \<le> sev_level (Some v)) \<and>
     (case cat of None \<Rightarrow> True | Some v \<Rightarrow> category ev = Some (map toupper v))"

lemma stored_selected:
  assumes "foreign (pairs # others)" "severity ev \<in> set log_sev" "category ev = Some c" "length c < 80"
    and "sv \<noteq> None \<longrightarrow> sv \<in> Some ` set sev"
  shows "event_selected ids sv cat (stored ev msg pairs ident time others) \<longleftrightarrow> answers ids sv cat ev"
proof -
  note m = stored_members [OF assms(1)]
  have lv: "0 \<le> severity_level (Some (severity ev))" using severity_level_known [OF assms(2)] .
  have i: "id_match v \<in> set (stored ev msg pairs ident time others) \<longleftrightarrow> atoi v = event_id ev" for v
    unfolding id_match_eq m(2) by (rule show_int_inj)
  have p: "(\<exists>l\<le>nat (sev_level (Some v)). ''PRIORITY='' @ show_nat l \<in> set (stored ev msg pairs ident time others)) \<longleftrightarrow>
      severity_level (Some (severity ev)) \<le> sev_level (Some v)" if "sv = Some v" for v
  proof -
    have nn: "0 \<le> sev_level (Some v)"
      using assms(5) that cli_sev.look_miss_iff [of sv] cli_sev.look_in_range [of sv] by auto
    have "show_nat l = show_int (severity_level (Some (severity ev))) \<longleftrightarrow> int l = severity_level (Some (severity ev))" for l
      using show_int_inj [of "int l" "severity_level (Some (severity ev))"] by (simp add: show_int_def)
    moreover have "(\<exists>l\<le>nat x. int l = y) \<longleftrightarrow> y \<le> x" if "0 \<le> x" "0 \<le> y" for x y
      using that by (auto intro: exI [of _ "nat y"])
    ultimately show ?thesis unfolding m(3) using nn lv by simp
  qed
  have k: "take 99 (''OPS_EVENT_CATEGORY='' @ map toupper v) \<in> set (stored ev msg pairs ident time others) \<longleftrightarrow>
      category ev = Some (map toupper v)" for v
  proof -
    have "take 99 (''OPS_EVENT_CATEGORY='' @ map toupper v) = ''OPS_EVENT_CATEGORY='' @ take 80 (map toupper v)" by simp
    moreover have "take 80 (map toupper v) = c \<longleftrightarrow> map toupper v = c"
    proof
      assume t: "take 80 (map toupper v) = c"
      with assms(4) have "length v < 80" by auto
      with t show "map toupper v = c" by simp
    qed (use assms(4) in simp)
    ultimately show ?thesis by (simp only: m(4) assms(3) fmt_s_def option.case) auto
  qed
  have im: "event_id ev \<in> atoi ` set vs \<longleftrightarrow> (\<exists>v\<in>set vs. atoi v = event_id ev)" for vs
    by (simp add: image_iff eq_commute [of "event_id ev"])
  show ?thesis unfolding event_selected_def answers_def k i im using m(1) p
    by (auto split: option.splits simp del: take_append)
qed

text \<open>The line of such an entry.\<close>

definition logged_line :: "events_env \<Rightarrow> event \<Rightarrow> string \<Rightarrow> string \<Rightarrow> string \<Rightarrow> string \<Rightarrow> string" where
  "logged_line env ev msg ident secs micros =
     take 99 (ev_localtime env (atoi secs) @ ''.'' @ micros) @ ''|'' @ ident @
     ''|'' @ show_int (event_id ev) @ ''|'' @ severity ev @ ''|'' @ msg @ js_nl env"

lemma stored_text:
  assumes "js_data env = get_data" "foreign (pairs # others)" "ident \<noteq> []" "length secs < 20" "length micros = 6"
  shows "event_line env (stored ev msg pairs ident (secs @ micros) others) = Inr (logged_line env ev msg ident secs micros)"
proof -
  let ?e = "stored ev msg pairs ident (secs @ micros) others"
  note d = stored_data [OF assms(2)]
  have v: "value_of env ?e ''SYSLOG_IDENTIFIER'' = Some ident" "value_of env ?e ''_SOURCE_REALTIME_TIMESTAMP'' = Some (secs @ micros)"
    "value_of env ?e ''MESSAGE'' = Some (''ops-evt|'' @ show_int (event_id ev) @ ''|'' @ severity ev @ ''|'' @ msg)"
    using assms(3,5) by (auto simp: value_of_def assms(1) d get_value_def)
  have c: "convert_to_datetime env (secs @ micros) = Inr (take 99 (ev_localtime env (atoi secs) @ ''.'' @ micros))"
    using assms(4,5) by (simp add: convert_to_datetime_def)
  show ?thesis unfolding event_line_def v Let_def option.case c bind_res.simps
    by (simp add: logged_line_def fmt_s_def strchr_def)
qed

section \<open>Properties\<close>


text \<open>C35: \<open>log_event\<close> passes the finished message to \<open>sd_journal_send\<close> as a format. A message that
  holds \<open>%s\<close>, which any value of a key can bring in, makes the call take the next format for an
  argument and the severity for a format.\<close>

theorem log_event_message_is_a_format:
  assumes "evlog_inv s" "i < length (log_events s)" "i \<noteq> 499" "e = log_events s ! i"
    and "\<forall>j<i. event_name (log_events s ! j) \<noteq> event_name e \<and>
      event_description (log_events s ! j) \<noteq> EVENT_NAME_DELIMITER_STR"
    and "event_description e = render t" "wf_template t" "num_of_keys e = int (length kvs)"
    and "fits (le_pad env) kvs t" "le_asprintf env" "le_asprintf_msg env" "severity e \<in> set log_sev"
    and "render (fill_all kvs t) = u @ ''%s'' @ v" "CHR ''%'' \<notin> set u" "CHR ''%'' \<notin> set v"
  shows "\<exists>ret buf' fields. log_event env (Some (event_name e)) (map EV_KV kvs) s buf = Some (Inr (ret, buf', Some fields)) \<and>
    journal_fields fields = Inl NoVarArg"
proof -
  let ?msg = "render (fill_all kvs t)" and ?pairs = "take 255 (pairs_text kvs)"
  obtain buf' where r: "log_event env (Some (event_name e)) (map EV_KV kvs) s buf =
      Some (Inr (le_journal env (event_fields e ?msg ?pairs), buf', Some (event_fields e ?msg ?pairs)))"
    using log_event_sends [OF assms(1-12)] by blast
  let ?p = "''MESSAGE=ops-evt|'' @ show_int (event_id e) @ ''|'' @ severity e @ ''|'' @ u"
  have p: "CHR ''%'' \<notin> set ?p" using assms(14) no_percent(1) no_percent(2) [OF assms(12)] by auto
  have m: "''MESSAGE=ops-evt|'' @ show_int (event_id e) @ ''|'' @ severity e @ ''|'' @ ?msg = ?p @ CHR ''%'' # CHR ''s'' # v"
    by (simp add: assms(13))
  have one: "vprintf (CHR ''%'' # CHR ''s'' # v) (JStr w # ts) = Inr (fmt_s w @ v, ts)" for w ts
    using vprintf_plain [OF assms(15)] by simp
  have "journal_fields (event_fields e ?msg ?pairs) = Inl NoVarArg"
    unfolding event_fields_def m by (simp only: journal_fields.simps vprintf_prefix [OF p] one sum.case prod.case)
  with r show ?thesis by blast
qed

section \<open>Witnesses\<close>

definition lag_stored :: entry where
  "lag_stored = stored (event_of lacp_def) ''Dynamic LAG 7 created'' ''lag_id=7,'' ''ops-lacpd'' (''1459547856'' @ ''000123'') [''_PID=7'']"

definition lag_journal :: events_env where
  "lag_journal = demo_events\<lparr>js_select := (\<lambda>ms. filter (visible ms) [lag_stored])\<rparr>"

lemma lag_journal_ok: "readable lag_journal" "journal_of lag_journal ([] @ [lag_stored])" "ids_read lag_journal None None"
  by (simp_all add: lag_journal_def readable_def journal_of_def ids_read_def demo_events_def)

lemma lag_foreign: "foreign [''lag_id=7,'', ''_PID=7'']"
  by (simp add: foreign_def own_fields_def field_of_def)

lemma lag_category: "category (event_of lacp_def) = Some ''LAG''"
  by (simp add: event_of_def lacp_def_def)


lemma log_event_message_is_a_format_witness:
  "\<exists>ret buf' fields. log_event lag_env (Some ''LAG_CREATE'') (map EV_KV [(''lag_id'', ''%s'')]) lag_log [] =
      Some (Inr (ret, buf', Some fields)) \<and> journal_fields fields = Inl NoVarArg"
proof -
  have e0: "event_of lacp_def = log_events lag_log ! 0" "0 < length (log_events lag_log)" "(0::nat) \<noteq> 499"
    by simp_all
  have keys: "num_of_keys (event_of lacp_def) = int (length [(''lag_id'', ''%s'')])" using lag_keys by simp
  have fits: "fits (le_pad lag_env) [(''lag_id'', ''%s'')] lag_template"
    by (simp add: lag_env_def lag_template_def wf_kv_def)
  have t: "render (fill_all [(''lag_id'', ''%s'')] lag_template) = ''Dynamic LAG '' @ ''%s'' @ '' created''"
    by (simp add: lag_template_def)
  show ?thesis
    using log_event_message_is_a_format [OF lag_log_events(1) e0(2,3,1) _ lag_event(1,2) keys fits lag_fits(2,3) lag_event(3) t, of "[]"]
    by (simp add: lag_event(4))
qed

end
