(* ===== verification/Show_Vlog.thy ===== *)
theory Show_Vlog
  imports Feature_Walk Journal Vtysh
begin

text \<open>
  \<open>src/src/cli/show_vlog_vty.c\<close>: \<open>show vlog config\<close> asks daemons over their control sockets for
  their log levels, \<open>vlog\<close> sets them, and \<open>show vlog\<close> lists the messages in the journal. The
  static variables \<open>feature_head\<close>, \<open>initialized\<close> and \<open>flag\<close> are part of the state.
\<close>

section \<open>Environment and state\<close>

record vlog_env = journal_env +
  vl_fm :: fm_env
  vl_conn :: daemon_env
  vl_transact :: "string \<Rightarrow> string \<Rightarrow> string list \<Rightarrow> int \<times> string option \<times> string option"
    \<comment> \<open>\<open>unixctl_client_transact\<close>: its return value, \<open>cmd_result\<close>, \<open>cmd_error\<close>\<close>
  vl_calloc :: bool

text \<open>\<open>asked\<close>: the requests that went out, each with its client, its command and its arguments.\<close>

record vlog_run =
  vheap :: fm
  vhead :: "addr option"
  initialized :: bool
  flag :: bool
  vout :: "string list"
  asked :: "(string \<times> string \<times> string list) list"

definition vsay :: "string list \<Rightarrow> vlog_run \<Rightarrow> vlog_run" where
  "vsay ts s = s\<lparr>vout := vout s @ ts\<rparr>"

definition LIST :: string where "LIST = ''vlog/list''"
definition SET :: string where "SET = ''vlog/set''"
definition FEATURE :: string where "FEATURE = ''feature''"
definition DAEMON :: string where "DAEMON = ''daemon''"

abbreviation POSITION :: nat where "POSITION \<equiv> 115"
abbreviation FEATURE_REQUEST :: nat where "FEATURE_REQUEST \<equiv> 1"
abbreviation DAEMON_REQUEST :: nat where "DAEMON_REQUEST \<equiv> 2"
abbreviation SHOW_VLOG_CONFIG_REQUEST :: nat where "SHOW_VLOG_CONFIG_REQUEST \<equiv> 3"
abbreviation SET_REQUEST :: nat where "SET_REQUEST \<equiv> 4"

section \<open>One request\<close>

text \<open>The command and its arguments, out of the array \<open>cmd_type\<close> of which \<open>cmd_argc\<close> counts. None
  is an array that was never filled; when neither command is found, \<open>vlog_str\<close> has no value.\<close>

definition vlog_command :: "string list option \<Rightarrow> nat \<Rightarrow> (string \<times> string list) cres" where
  "vlog_command cmd_type cmd_argc = (case cmd_type of
     None \<Rightarrow> Inl UseAfterFree
   | Some v \<Rightarrow> bind_res (array_get v 0) (\<lambda>c0.
       if strcmp_with_nullcheck (Some c0) (Some LIST) = 0 then Inr (LIST, take cmd_argc v)
       else bind_res (array_get v 1) (\<lambda>c1.
         if strcmp_with_nullcheck (Some c1) (Some SET) = 0 then Inr (SET, take (cmd_argc - 2) (drop 2 v))
         else Inl UseAfterFree)))"

text \<open>\<open>cmd_result + POSITION\<close> as a string.\<close>

definition levels :: "string \<Rightarrow> string cres" where
  "levels r = (if length r < POSITION then Inl OutOfBounds else Inr (drop POSITION r))"

definition show_answer ::
    "vlog_env \<Rightarrow> nat \<Rightarrow> string option \<Rightarrow> string \<Rightarrow> string option \<Rightarrow> vlog_run \<Rightarrow> vlog_run cres" where
  "show_answer env request feature daemon cmd_result s =
     (let nl = js_nl env in
      if request = FEATURE_REQUEST then (case cmd_result of
          None \<Rightarrow> Inr s
        | Some r \<Rightarrow>
            if flag s then Inr s
            else (let s1 = vsay [replicate 40 (CHR ''='') @ nl, ''Feature               Syslog     File'' @ nl,
                            replicate 40 (CHR ''='') @ nl] s
                  in case feature of
                    None \<Rightarrow> Inr (s1\<lparr>flag := True\<rparr>)
                  | Some f \<Rightarrow> bind_res (levels r) (\<lambda>l.
                      Inr ((vsay [column 17 f @ ''   '' @ column 17 l @ nl] s1)\<lparr>flag := True\<rparr>))))
      else if request = DAEMON_REQUEST then
        (let s1 = vsay [replicate 38 (CHR ''='') @ nl, ''Daemon              Syslog     File'' @ nl,
                    replicate 38 (CHR ''='') @ nl] s
         in case cmd_result of
             None \<Rightarrow> Inr s1
           | Some r \<Rightarrow> bind_res (levels r) (\<lambda>l. Inr (vsay [column 17 daemon @ '' '' @ column 17 l @ nl] s1)))
      else if request = SHOW_VLOG_CONFIG_REQUEST then (case cmd_result of
          None \<Rightarrow> Inr s
        | Some r \<Rightarrow>
            if flag s
            then bind_res (levels r) (\<lambda>l.
                Inr (vsay [replicate 16 (CHR '' '') @ column 13 daemon @ '' '' @ column 18 l @ nl] s))
            else (case feature of
                None \<Rightarrow> Inr s
              | Some f \<Rightarrow> bind_res (levels r) (\<lambda>l.
                  Inr ((vsay [column 15 f @ '' '' @ column 13 daemon @ '' '' @ column 18 l @ nl] s)\<lparr>flag := True\<rparr>))))
      else Inr s)"

definition vtysh_vlog_interface_daemon ::
    "vlog_env \<Rightarrow> string option \<Rightarrow> string \<Rightarrow> string list option \<Rightarrow> nat \<Rightarrow> nat \<Rightarrow> vlog_run \<Rightarrow> (cmd_ret \<times> vlog_run) cres" where
  "vtysh_vlog_interface_daemon env feature daemon cmd_type cmd_argc request s =
     (case connect_to_daemon (vl_conn env) (Some daemon) of
        None \<Rightarrow> Inr (CMD_WARNING, s)
      | Some client \<Rightarrow> bind_res (vlog_command cmd_type cmd_argc) (\<lambda>(vlog_str, args).
          case vl_transact env client vlog_str args of (rc, cmd_result, cmd_error) \<Rightarrow>
            (let s1 = s\<lparr>asked := asked s @ [(client, vlog_str, args)]\<rparr> in
             if rc \<noteq> 0 then Inr (CMD_WARNING, s1)
             else bind_res (show_answer env request feature daemon cmd_result s1) (\<lambda>s2.
               Inr (if cmd_error \<noteq> None \<or> cmd_result = None then CMD_WARNING else CMD_SUCCESS, s2)))))"

section \<open>Loops over the mapping\<close>

text \<open>All daemons of a feature; the lines of \<open>report\<close> for each one that fails.\<close>

partial_function (option) vlog_daemons ::
    "vlog_env \<Rightarrow> string \<Rightarrow> string list option \<Rightarrow> nat \<Rightarrow> nat \<Rightarrow> string list \<Rightarrow> addr option \<Rightarrow> vlog_run \<Rightarrow> vlog_run cres option" where
  "vlog_daemons env feature cmd_type argc request report p s = (case p of
     None \<Rightarrow> Some (Inr s)
   | Some a \<Rightarrow> (case daemons (vheap s) a of
         None \<Rightarrow> Some (Inl UseAfterFree)
       | Some n \<Rightarrow> (case vtysh_vlog_interface_daemon env (Some feature) (d_name n) cmd_type argc request s of
             Inl e \<Rightarrow> Some (Inl e)
           | Inr r \<Rightarrow> vlog_daemons env feature cmd_type argc request report (d_next n)
               (if fst r = CMD_SUCCESS then snd r else vsay report (snd r)))))"

partial_function (option) vlog_features :: "vlog_env \<Rightarrow> addr option \<Rightarrow> vlog_run \<Rightarrow> vlog_run cres option" where
  "vlog_features env p s = (case p of
     None \<Rightarrow> Some (Inr s)
   | Some a \<Rightarrow> (case features (vheap s) a of
         None \<Rightarrow> Some (Inl UseAfterFree)
       | Some n \<Rightarrow> (case vlog_daemons env (f_name n) (Some [LIST]) 0 SHOW_VLOG_CONFIG_REQUEST [] (p_daemon n) s of
             None \<Rightarrow> None
           | Some (Inl e) \<Rightarrow> Some (Inl e)
           | Some (Inr s1) \<Rightarrow> vlog_features env (f_next n) (s1\<lparr>flag := False\<rparr>))))"

partial_function (option) vlog_list :: "vlog_env \<Rightarrow> addr option \<Rightarrow> vlog_run \<Rightarrow> vlog_run cres option" where
  "vlog_list env p s = (case p of
     None \<Rightarrow> Some (Inr s)
   | Some a \<Rightarrow> (case features (vheap s) a of
         None \<Rightarrow> Some (Inl UseAfterFree)
       | Some n \<Rightarrow> vlog_list env (f_next n)
           (vsay [column 17 (f_name n) @ '' '' @ column 100 (fmt_s (f_desc n)) @ '' '' @ js_nl env] s)))"

text \<open>The mapping, loaded once; the message when it is empty differs in its blanks.\<close>

definition load_mapping :: "vlog_env \<Rightarrow> string \<Rightarrow> vlog_run \<Rightarrow> (bool \<times> vlog_run) cres" where
  "load_mapping env msg s =
     (if initialized s then Inr (True, s)
      else bind_res (get_feature_mapping (vl_fm env) (vheap s)) (\<lambda>(head, h).
        let s1 = s\<lparr>vheap := h, vhead := head\<rparr> in
        Inr (if head = None then (False, vsay [msg @ js_nl env] s1) else (True, s1\<lparr>initialized := True\<rparr>))))"

definition no_mapping1 :: string where
  "no_mapping1 = ''Error in retrieving the mapping of feature names '' @ replicate 18 (CHR '' '') @ ''to daemon names''"

definition no_mapping2 :: string where
  "no_mapping2 = ''Error in retrieving the mapping of feature '' @ replicate 15 (CHR '' '') @ ''names to daemon names''"

definition no_mapping3 :: string where
  "no_mapping3 = ''Error in retrieving the mapping of feature '' @ replicate 18 (CHR '' '') @ ''names to daemon names''"

section \<open>The commands on levels\<close>

definition no_daemon :: "vlog_env \<Rightarrow> string \<Rightarrow> string list" where
  "no_daemon env name = [''Not able to communicate with daemon '' @ name @ js_nl env]"

definition no_feature :: "vlog_env \<Rightarrow> string list" where
  "no_feature env = [''Feature not present '' @ js_nl env]"

definition cli_show_vlog_feature_or_daemon ::
    "vlog_env \<Rightarrow> string option \<Rightarrow> string option \<Rightarrow> vlog_run \<Rightarrow> (cmd_ret \<times> vlog_run) cres option" where
  "cli_show_vlog_feature_or_daemon env type name s =
     (if \<not> vl_calloc env then Some (Inr (CMD_WARNING, s))
      else case (type, name) of
          (Some ty, Some nm) \<Rightarrow>
            if strcmp_with_nullcheck (Some ty) (Some FEATURE) = 0 then
              and_then (Some (load_mapping env no_mapping1 s)) (\<lambda>(ok, s1).
                if \<not> ok then Some (Inr (CMD_WARNING, s1))
                else and_then (find_feature nm (vhead s1) (vheap s1)) (\<lambda>iter. case iter of
                    None \<Rightarrow> Some (Inr (CMD_WARNING, vsay (no_feature env) s1))
                  | Some n \<Rightarrow> and_then (vlog_daemons env (f_name n) (Some [LIST]) 0 FEATURE_REQUEST (no_daemon env nm) (p_daemon n) s1)
                      (\<lambda>s2. Some (Inr (CMD_SUCCESS, s2\<lparr>flag := False\<rparr>)))))
            else if strcmp_with_nullcheck (Some ty) (Some DAEMON) = 0 then
              and_then (Some (vtysh_vlog_interface_daemon env None nm (Some [LIST]) 0 DAEMON_REQUEST s)) (\<lambda>(rc, s1).
                Some (Inr (if rc = CMD_SUCCESS then (CMD_SUCCESS, s1) else (CMD_WARNING, vsay (no_daemon env nm) s1))))
            else Some (Inr (CMD_SUCCESS, s))
        | _ \<Rightarrow> Some (Inr (CMD_WARNING, s)))"

definition cli_show_vlog_config_list :: "vlog_env \<Rightarrow> vlog_run \<Rightarrow> (cmd_ret \<times> vlog_run) cres option" where
  "cli_show_vlog_config_list env s =
     and_then (Some (load_mapping env no_mapping2 s)) (\<lambda>(ok, s1).
       if \<not> ok then Some (Inr (CMD_WARNING, s1))
       else and_then (vlog_list env (vhead s1) (vsay [replicate 46 (CHR ''='') @ js_nl env,
           ''Features          Description'' @ js_nl env, replicate 46 (CHR ''='') @ js_nl env] s1))
         (\<lambda>s2. Some (Inr (CMD_SUCCESS, s2))))"

definition cli_show_vlog_config :: "vlog_env \<Rightarrow> vlog_run \<Rightarrow> (cmd_ret \<times> vlog_run) cres option" where
  "cli_show_vlog_config env s =
     and_then (Some (load_mapping env no_mapping2 s)) (\<lambda>(ok, s1).
       if \<not> ok \<or> \<not> vl_calloc env then Some (Inr (CMD_WARNING, s1))
       else and_then (vlog_features env (vhead s1) (vsay [replicate 49 (CHR ''='') @ js_nl env,
           ''Feature         Daemon          Syslog     File'' @ js_nl env, replicate 49 (CHR ''='') @ js_nl env] s1))
         (\<lambda>s2. Some (Inr (CMD_SUCCESS, s2))))"

text \<open>\<open>strncasecmp\<close> with the length of its first argument, as the code calls it, is zero for
  every prefix of the second, in any case of letters.\<close>

definition strncasecmp :: "string \<Rightarrow> string \<Rightarrow> nat \<Rightarrow> int" where
  "strncasecmp s t n = strncmp (map tolower s) (map tolower t) n"

definition dest_ok :: "string \<Rightarrow> bool" where
  "dest_ok d \<longleftrightarrow> list_ex (\<lambda>w. strncasecmp d w (length d) = 0) [''syslog'', ''file'', ''all'']"

definition level_ok :: "string \<Rightarrow> bool" where
  "level_ok l \<longleftrightarrow> list_ex (\<lambda>w. strncasecmp l w (length l) = 0) [''emer'', ''err'', ''warn'', ''dbg'', ''info'', ''off'']"

text \<open>\<open>strncpy(destination, "any", dest_len)\<close> in place.\<close>

definition dest_name :: "string \<Rightarrow> string" where
  "dest_name d = (if strncasecmp d ''all'' (length d) = 0 then take (length d) ''any'' else d)"

definition level_arg :: "string \<Rightarrow> string \<Rightarrow> string" where
  "level_arg d l = (let len = length d + length l + 2 in strncat (strncat (strncat [] d len) '':'' len) l len)"

definition cli_config_vlog_set ::
    "vlog_env \<Rightarrow> string option \<Rightarrow> string option \<Rightarrow> string \<Rightarrow> string \<Rightarrow> vlog_run \<Rightarrow> (cmd_ret \<times> vlog_run) cres option" where
  "cli_config_vlog_set env type fd_name destination level s =
     (if \<not> dest_ok destination then Some (Inr (CMD_WARNING, vsay [''Invalid destination'' @ js_nl env] s))
      else if \<not> level_ok level then Some (Inr (CMD_WARNING, vsay [''Invalid log level '' @ js_nl env] s))
      else case fd_name of
          None \<Rightarrow> Some (Inr (CMD_WARNING, s))
        | Some nm \<Rightarrow>
            let fun_argv = (if vl_calloc env then Some [nm, SET, level_arg (dest_name destination) level] else None) in
            if strcmp_with_nullcheck type (Some FEATURE) = 0 then
              and_then (Some (load_mapping env no_mapping3 s)) (\<lambda>(ok, s1).
                if \<not> ok then Some (Inr (CMD_WARNING, s1))
                else and_then (find_feature nm (vhead s1) (vheap s1)) (\<lambda>iter. case iter of
                    None \<Rightarrow> Some (Inr (CMD_WARNING, vsay (no_feature env) s1))
                  | Some n \<Rightarrow> and_then (vlog_daemons env (f_name n) fun_argv 3 SET_REQUEST [] (p_daemon n) s1)
                      (\<lambda>s2. Some (Inr (CMD_SUCCESS, s2)))))
            else
              and_then (Some (vtysh_vlog_interface_daemon env None nm fun_argv 3 SET_REQUEST s)) (\<lambda>(rc, s1).
                Some (Inr (if rc = CMD_SUCCESS then (CMD_SUCCESS, s1) else (CMD_WARNING, vsay (no_daemon env nm) s1)))))"

section \<open>The messages\<close>

abbreviation MAX_SEVS :: int where "MAX_SEVS \<equiv> 8"
abbreviation BUF_SIZE :: nat where "BUF_SIZE \<equiv> 264"
abbreviation SEVERITY_INDEX :: nat where "SEVERITY_INDEX \<equiv> 0"
abbreviation DAEMON_INDEX :: nat where "DAEMON_INDEX \<equiv> 1"

definition MESSAGE_OVS_MATCH :: string where "MESSAGE_OVS_MATCH = ''_TRANSPORT=syslog''"

definition daemon_match :: "string \<Rightarrow> string" where
  "daemon_match d = take (BUF_SIZE - 1) (field_match ''SYSLOG_IDENTIFIER'' d)"

definition vlog_filter :: "vlog_env \<Rightarrow> string \<Rightarrow> nat \<Rightarrow> journal_run \<Rightarrow> int \<times> journal_run" where
  "vlog_filter env a index s =
     (let add = (\<lambda>ms. case add_matches env ms s of (ok, s1) \<Rightarrow> (if ok then 0 else - 1, s1))
      in if index = DAEMON_INDEX then add [daemon_match a]
         else if index = SEVERITY_INDEX
         then (let level = sev_level (Some a) in
             if level \<ge> 0 \<and> level < MAX_SEVS then add (upto_severity (nat level)) else (- 1, s))
         else (- 1, s))"

text \<open>What one entry prints: only a message whose first part is \<open>ovs\<close>.\<close>

definition is_ovs :: "string \<Rightarrow> bool" where
  "is_ovs msg \<longleftrightarrow> strcmp_with_nullcheck (map_option fst (strtok ''|'' msg)) (Some ''ovs'') = 0"

definition vlog_lines :: "vlog_env \<Rightarrow> string option \<Rightarrow> entry \<Rightarrow> string list" where
  "vlog_lines env daemon e =
     (let module = value_of env e ''SYSLOG_IDENTIFIER'';
          msg = value_of env e ''MESSAGE''
      in case (daemon, module, msg) of
          (Some d, Some m, Some t) \<Rightarrow>
            if strcmp_with_nullcheck (Some m) (Some d) = 0 \<and> is_ovs t
            then [column 25 d @ ''|'' @ column 200 t @ js_nl env] else []
        | (_, _, Some t) \<Rightarrow> if is_ovs t then [column 25 (fmt_s module) @ ''|'' @ column 200 t @ js_nl env] else []
        | _ \<Rightarrow> [])"

text \<open>\<open>SD_JOURNAL_FOREACH\<close>: a seek or a step that fails ends the walk. The number counts entries.\<close>

fun vlog_loop :: "vlog_env \<Rightarrow> string option \<Rightarrow> nat \<Rightarrow> entry list \<Rightarrow> nat \<Rightarrow> journal_run \<Rightarrow> nat \<times> journal_run" where
  "vlog_loop env daemon k [] count s = (count, s)"
| "vlog_loop env daemon k (e # es) count s =
     (if js_step env k then vlog_loop env daemon (k + 1) es (count + 1) (vty_put (vlog_lines env daemon e) s)
      else (count, s))"

definition vlog_header :: "vlog_env \<Rightarrow> string list" where
  "vlog_header env = [js_nl env @ replicate 51 (CHR ''-'') @ js_nl env, ''show vlog'' @ js_nl env,
     replicate 53 (CHR ''-'') @ js_nl env]"

definition cli_show_vlog :: "vlog_env \<Rightarrow> string option \<Rightarrow> bool \<Rightarrow> journal_run \<Rightarrow> cmd_ret \<times> journal_run" where
  "cli_show_vlog env daemon narrowed s =
     (case vlog_loop env daemon 0 (if js_seek env then js_select env (matches s) else []) 0 (vty_put (vlog_header env) s) of
        (count, s1) \<Rightarrow> (CMD_SUCCESS, sd_journal_close
          (if count = 0
           then vty_put [(if narrowed then ''No match for the filter provided''
                      else ''No vlog messages logged in the system'') @ js_nl env] s1
           else s1)))"

text \<open>The loop over the arguments; True: a filter failed.\<close>

fun vlog_args ::
    "vlog_env \<Rightarrow> string option list \<Rightarrow> nat list \<Rightarrow> bool \<Rightarrow> journal_run \<Rightarrow> (bool \<times> bool \<times> journal_run) cres" where
  "vlog_args env argv [] narrowed s = Inr (False, narrowed, s)"
| "vlog_args env argv (i # js) narrowed s =
     bind_res (arg argv i) (\<lambda>a. case a of
       None \<Rightarrow> vlog_args env argv js narrowed s
     | Some v \<Rightarrow> (case vlog_filter env v i s of (rv, s1) \<Rightarrow>
         if rv < 0 then Inr (True, narrowed, s1) else vlog_args env argv js True s1))"

definition cli_platform_show_vlog :: "vlog_env \<Rightarrow> string option list \<Rightarrow> (cmd_ret \<times> journal_run) cres" where
  "cli_platform_show_vlog env argv =
     (let s0 = \<lparr>matches = [], printed = [], handle = False\<rparr> in
      if \<not> js_open env then Inr (CMD_WARNING, vty_put [''Not able to read the log files'' @ js_nl env] s0)
      else case sd_journal_add_match env MESSAGE_OVS_MATCH (s0\<lparr>handle := True\<rparr>) of (ok, s1) \<Rightarrow>
        if \<not> ok
        then Inr (CMD_WARNING, sd_journal_close
          (vty_put [''Not able to filter vlogs from  the log files'' @ js_nl env] s1))
        else bind_res (vlog_args env argv [0, 1] False s1) (\<lambda>(failed, narrowed, s2).
          if failed
          then Inr (CMD_WARNING, sd_journal_close (vty_put [''Failed to filter vlog messages'' @ js_nl env] s2))
          else bind_res (arg argv 1) (\<lambda>daemon. Inr (cli_show_vlog env daemon narrowed s2))))"

section \<open>The remaining commands\<close>

definition vlog_set_args ::
    "vlog_env \<Rightarrow> string \<Rightarrow> string option list \<Rightarrow> vlog_run \<Rightarrow> (cmd_ret \<times> vlog_run) cres option" where
  "vlog_set_args env type argv s =
     and_then (Some (arg argv 0)) (\<lambda>fd_name. and_then (Some (arg argv 1)) (\<lambda>d. and_then (Some (arg argv 2)) (\<lambda>l.
       case (d, l) of
         (Some destination, Some level) \<Rightarrow> cli_config_vlog_set env (Some type) fd_name destination level s
       | _ \<Rightarrow> Some (Inl NullDeref))))"

definition cli_config_daemon_set_vlog where "cli_config_daemon_set_vlog env argv s = vlog_set_args env DAEMON argv s"
definition cli_config_feature_set_vlog where "cli_config_feature_set_vlog env argv s = vlog_set_args env FEATURE argv s"
definition cli_platform_show_vlog_list where "cli_platform_show_vlog_list env s = cli_show_vlog_config_list env s"
definition cli_platform_show_vlog_config where "cli_platform_show_vlog_config env s = cli_show_vlog_config env s"

definition cli_platform_showvlog_feature_list where
  "cli_platform_showvlog_feature_list env argv s =
     and_then (Some (arg argv 0)) (\<lambda>name. cli_show_vlog_feature_or_daemon env (Some FEATURE) name s)"

definition cli_platform_showvlog_daemon_list where
  "cli_platform_showvlog_daemon_list env argv s =
     and_then (Some (arg argv 0)) (\<lambda>name. cli_show_vlog_feature_or_daemon env (Some DAEMON) name s)"

end
