(* ===== verification/Show_Vlog_Correct.thy ===== *)
theory Show_Vlog_Correct
  imports Show_Vlog
begin

text \<open>
  The loops of \<open>show vlog\<close> and \<open>vlog\<close> over the mapping do what a loop over the list of the file
  does, and what the commands then print, send and read.
\<close>

section \<open>The loops\<close>

fun ask_all ::
    "vlog_env \<Rightarrow> string \<Rightarrow> string list option \<Rightarrow> nat \<Rightarrow> nat \<Rightarrow> string list \<Rightarrow> string list \<Rightarrow> vlog_run \<Rightarrow> vlog_run cres" where
  "ask_all env feature cmd argc request report [] s = Inr s"
| "ask_all env feature cmd argc request report (d # ds) s =
     (case vtysh_vlog_interface_daemon env (Some feature) d cmd argc request s of
        Inl e \<Rightarrow> Inl e
      | Inr (rc, s1) \<Rightarrow> ask_all env feature cmd argc request report ds (if rc = CMD_SUCCESS then s1 else vsay report s1))"

fun ask_features :: "vlog_env \<Rightarrow> feature_spec list \<Rightarrow> vlog_run \<Rightarrow> vlog_run cres" where
  "ask_features env [] s = Inr s"
| "ask_features env (f # fs) s =
     (case ask_all env (fs_name f) (Some [LIST]) 0 SHOW_VLOG_CONFIG_REQUEST [] (map fst (fs_daemons f)) s of
        Inl e \<Rightarrow> Inl e
      | Inr s1 \<Rightarrow> ask_features env fs (s1\<lparr>flag := False\<rparr>))"

lemma vsay_fields [simp]: "vheap (vsay ts s) = vheap s" "vhead (vsay ts s) = vhead s" "initialized (vsay ts s) = initialized s"
  "flag (vsay ts s) = flag s" "asked (vsay ts s) = asked s" "vout (vsay ts s) = vout s @ ts"
  by (simp_all add: vsay_def)

lemma show_answer_fields:
  "show_answer env request feature d r s = Inr s' \<Longrightarrow>
     vheap s' = vheap s \<and> vhead s' = vhead s \<and> initialized s' = initialized s \<and> asked s' = asked s"
  by (auto simp: show_answer_def Let_def bind_res_eq_Inr split: if_splits option.splits)

lemma interface_fields:
  assumes "vtysh_vlog_interface_daemon env feature d cmd argc request s = Inr (rc, s')"
  shows "vheap s' = vheap s \<and> vhead s' = vhead s \<and> initialized s' = initialized s"
proof (cases "connect_to_daemon (vl_conn env) (Some d)")
  case None
  with assms show ?thesis by (simp add: vtysh_vlog_interface_daemon_def)
next
  case (Some c)
  with assms obtain v ts where c: "vlog_command cmd argc = Inr (v, ts)"
    by (auto simp: vtysh_vlog_interface_daemon_def bind_res_eq_Inr)
  obtain ret r e where t: "vl_transact env c v ts = (ret, r, e)" by (metis prod_cases3)
  show ?thesis using assms Some c t
    by (auto simp: vtysh_vlog_interface_daemon_def Let_def bind_res_eq_Inr split: if_splits dest!: show_answer_fields)
qed

lemma ask_all_fields:
  "ask_all env feature cmd argc request report ds s = Inr s' \<Longrightarrow>
     vheap s' = vheap s \<and> vhead s' = vhead s \<and> initialized s' = initialized s"
  by (induction ds arbitrary: s) (auto split: sum.splits prod.splits if_splits dest!: interface_fields)

lemma vlog_daemons_path:
  assumes "lpath d_next (daemons (vheap s)) p as"
  shows "vlog_daemons env feature cmd argc request report p s =
    Some (ask_all env feature cmd argc request report (map fst (contents daemon_val (daemons (vheap s)) as)) s)"
  using assms
proof (induction as arbitrary: p s)
  case Nil
  then show ?case by (simp add: vlog_daemons.simps)
next
  case (Cons a as)
  from Cons.prems obtain n where n: "p = Some a" "daemons (vheap s) a = Some n"
    "lpath d_next (daemons (vheap s)) (d_next n) as" by (auto split: option.splits)
  show ?case
  proof (cases "vtysh_vlog_interface_daemon env (Some feature) (d_name n) cmd argc request s")
    case (Inl e)
    then show ?thesis using n by (subst vlog_daemons.simps) (simp add: daemon_val_def [of n])
  next
    case (Inr r)
    obtain rc s1 where r: "r = (rc, s1)" by (cases r)
    let ?s = "if rc = CMD_SUCCESS then s1 else vsay report s1"
    have h: "vheap ?s = vheap s" using interface_fields [OF Inr [unfolded r]] by simp
    from Cons.IH [of ?s "d_next n", unfolded h, OF n(3)]
    have "vlog_daemons env feature cmd argc request report (d_next n) ?s =
        Some (ask_all env feature cmd argc request report (map fst (contents daemon_val (daemons (vheap s)) as)) ?s)" .
    then show ?thesis using n Inr r
      by (cases "rc = CMD_SUCCESS"; subst vlog_daemons.simps; simp add: daemon_val_def [of n])
  qed
qed

lemma vlog_features_path:
  assumes "lpath f_next (features (vheap s)) p (map fst gs)" "list_all2 (feature_at (vheap s)) gs fs"
  shows "vlog_features env p s = Some (ask_features env fs s)"
  using assms
proof (induction gs arbitrary: p fs s)
  case Nil
  then show ?case by (simp add: vlog_features.simps)
next
  case (Cons g gs)
  then obtain f fs' where fs: "fs = f # fs'" "feature_at (vheap s) g f" "list_all2 (feature_at (vheap s)) gs fs'"
    by (auto simp: list_all2_Cons1)
  from Cons.prems(1) obtain n where n: "p = Some (fst g)" "features (vheap s) (fst g) = Some n"
    "lpath f_next (features (vheap s)) (f_next n) (map fst gs)" by (auto split: option.splits)
  have at: "f_name n = fs_name f" "lpath d_next (daemons (vheap s)) (p_daemon n) (snd g)"
    "contents daemon_val (daemons (vheap s)) (snd g) = fs_daemons f"
    using fs(2) n(2) by (auto simp: feature_at_def feature_val_def)
  let ?r = "ask_all env (fs_name f) (Some [LIST]) 0 SHOW_VLOG_CONFIG_REQUEST [] (map fst (fs_daemons f)) s"
  have d: "vlog_daemons env (f_name n) (Some [LIST]) 0 SHOW_VLOG_CONFIG_REQUEST [] (p_daemon n) s = Some ?r"
    using vlog_daemons_path [OF at(2)] at(1,3) by simp
  show ?case
  proof (cases ?r)
    case (Inl e)
    then show ?thesis using n(1,2) d fs(1) by (subst vlog_features.simps) simp
  next
    case (Inr s1)
    have h: "vheap (s1\<lparr>flag := False\<rparr>) = vheap s" using ask_all_fields [OF Inr] by simp
    from Cons.IH [of "s1\<lparr>flag := False\<rparr>" "f_next n" fs', unfolded h, OF n(3) fs(3)] show ?thesis
      using n(1,2) d Inr fs(1) by (subst vlog_features.simps) simp
  qed
qed

lemma vlog_list_path:
  assumes "lpath f_next (features (vheap s)) p (map fst gs)" "list_all2 (feature_at (vheap s)) gs fs"
  shows "vlog_list env p s = Some (Inr (vsay (map (\<lambda>f. column 17 (fs_name f) @ '' '' @ column 100 (fmt_s (fs_desc f)) @ '' '' @ js_nl env) fs) s))"
  using assms
proof (induction gs arbitrary: p fs s)
  case Nil
  then show ?case by (simp add: vlog_list.simps vsay_def)
next
  case (Cons g gs)
  then obtain f fs' where fs: "fs = f # fs'" "feature_at (vheap s) g f" "list_all2 (feature_at (vheap s)) gs fs'"
    by (auto simp: list_all2_Cons1)
  from Cons.prems(1) obtain n where n: "p = Some (fst g)" "features (vheap s) (fst g) = Some n"
    "lpath f_next (features (vheap s)) (f_next n) (map fst gs)" by (auto split: option.splits)
  have at: "f_name n = fs_name f" "f_desc n = fs_desc f" using fs(2) n(2) by (auto simp: feature_at_def feature_val_def)
  let ?s = "vsay [column 17 (fs_name f) @ '' '' @ column 100 (fmt_s (fs_desc f)) @ '' '' @ js_nl env] s"
  have "vlog_list env p s = vlog_list env (f_next n) ?s" using n(1,2) at by (subst vlog_list.simps) simp
  then show ?case using Cons.IH [of ?s "f_next n" fs'] n(3) fs(1,3) by (simp add: vsay_def)
qed

section \<open>The mapping\<close>

text \<open>The mapping as a command finds it, loaded before or by this call, with the state after it.\<close>

definition mapped :: "vlog_env \<Rightarrow> vlog_run \<Rightarrow> feature_spec list \<Rightarrow> vlog_run \<Rightarrow> bool" where
  "mapped env s fs s1 \<longleftrightarrow> fs \<noteq> [] \<and> (\<exists>h gs. fm_rep h gs fs \<and>
     (if initialized s then s1 = s \<and> vheap s = h \<and> vhead s = feature_head h
      else get_feature_mapping (vl_fm env) (vheap s) = Inr (feature_head h, h) \<and>
        s1 = s\<lparr>vheap := h, vhead := feature_head h, initialized := True\<rparr>))"

lemma mapped_loads: "mapped env s fs s1 \<Longrightarrow> load_mapping env msg s = Inr (True, s1)"
  by (auto simp: mapped_def load_mapping_def dest: fm_rep_head split: if_splits)

lemma mapped_rep:
  assumes "mapped env s fs s1"
  obtains gs where "lpath f_next (features (vheap s1)) (vhead s1) (map fst gs)" "list_all2 (feature_at (vheap s1)) gs fs"
proof -
  from assms obtain h gs where "fm_rep h gs fs" "vheap s1 = h" "vhead s1 = feature_head h"
    by (auto simp: mapped_def split: if_splits)
  then show ?thesis by (intro that) (auto simp: fm_rep_def)
qed

lemma mapped_fields: "mapped env s fs s1 \<Longrightarrow> vout s1 = vout s \<and> asked s1 = asked s \<and> flag s1 = flag s"
  by (auto simp: mapped_def split: if_splits)

lemma mapped_find:
  assumes "mapped env s fs s1" "find (\<lambda>f. fs_name f = nm) fs = Some f"
  shows "\<exists>n as. find_feature nm (vhead s1) (vheap s1) = Some (Inr (Some n)) \<and> f_name n = nm \<and>
    lpath d_next (daemons (vheap s1)) (p_daemon n) as \<and> contents daemon_val (daemons (vheap s1)) as = fs_daemons f"
proof -
  obtain gs where "lpath f_next (features (vheap s1)) (vhead s1) (map fst gs)" "list_all2 (feature_at (vheap s1)) gs fs"
    using mapped_rep [OF assms(1)] by blast
  from find_feature_path [OF this, of nm] assms(2) obtain n as where
    "find_feature nm (vhead s1) (vheap s1) = Some (Inr (Some n))" "lpath d_next (daemons (vheap s1)) (p_daemon n) as"
    "contents daemon_val (daemons (vheap s1)) as = fs_daemons f" by auto
  then show ?thesis using find_feature_name by blast
qed

section \<open>What one daemon answers\<close>

text \<open>The answer of a daemon to \<open>vlog/list\<close>, if it gives one.\<close>

definition answer :: "vlog_env \<Rightarrow> string \<Rightarrow> string option" where
  "answer env d = (case connect_to_daemon (vl_conn env) (Some d) of
     None \<Rightarrow> None
   | Some c \<Rightarrow> (case vl_transact env c LIST [] of (rc, r, e) \<Rightarrow> if rc = 0 then r else None))"

text \<open>No answer is shorter than the offset of the levels.\<close>

definition long_answers :: "vlog_env \<Rightarrow> bool" where
  "long_answers env \<longleftrightarrow> (\<forall>d r. answer env d = Some r \<longrightarrow> POSITION \<le> length r)"

definition level_of :: "vlog_env \<Rightarrow> string \<Rightarrow> string" where
  "level_of env d = (case answer env d of None \<Rightarrow> [] | Some r \<Rightarrow> drop POSITION r)"

definition answering :: "vlog_env \<Rightarrow> string list \<Rightarrow> string list" where
  "answering env ds = filter (\<lambda>d. answer env d \<noteq> None) ds"

definition first_line :: "vlog_env \<Rightarrow> string \<Rightarrow> string \<Rightarrow> string" where
  "first_line env f d = column 15 f @ '' '' @ column 13 d @ '' '' @ column 18 (level_of env d) @ js_nl env"

definition next_line :: "vlog_env \<Rightarrow> string \<Rightarrow> string" where
  "next_line env d = replicate 16 (CHR '' '') @ column 13 d @ '' '' @ column 18 (level_of env d) @ js_nl env"

definition feature_lines :: "vlog_env \<Rightarrow> feature_spec \<Rightarrow> string list" where
  "feature_lines env f = (case answering env (map fst (fs_daemons f)) of
     [] \<Rightarrow> []
   | d # ds \<Rightarrow> first_line env (fs_name f) d # map (next_line env) ds)"

lemma list_command [simp]: "vlog_command (Some [LIST]) 0 = Inr (LIST, [])"
  by (simp add: vlog_command_def array_get_def)

lemma config_one:
  assumes "long_answers env"
  shows "\<exists>rc s'. vtysh_vlog_interface_daemon env (Some f) d (Some [LIST]) 0 SHOW_VLOG_CONFIG_REQUEST s = Inr (rc, s') \<and>
    vout s' = vout s @ (if answer env d = None then [] else [if flag s then next_line env d else first_line env f d]) \<and>
    flag s' = (flag s \<or> answer env d \<noteq> None)"
proof (cases "connect_to_daemon (vl_conn env) (Some d)")
  case None
  then show ?thesis by (simp add: vtysh_vlog_interface_daemon_def answer_def)
next
  case (Some c)
  obtain ret r e where t: "vl_transact env c LIST [] = (ret, r, e)" by (metis prod_cases3)
  have a: "answer env d = (if ret = 0 then r else None)" by (simp add: answer_def Some t)
  show ?thesis
  proof (cases "ret = 0 \<and> r \<noteq> None")
    case True
    then obtain v where v: "r = Some v" "ret = 0" by auto
    then have "levels v = Inr (level_of env d)" using a assms by (auto simp: long_answers_def levels_def level_of_def not_less)
    with v a show ?thesis
      by (auto simp: vtysh_vlog_interface_daemon_def Some t show_answer_def Let_def first_line_def next_line_def)
  next
    case False
    then show ?thesis using a by (auto simp: vtysh_vlog_interface_daemon_def Some t show_answer_def Let_def)
  qed
qed

lemma vsay_nil [simp]: "vsay [] s = s"
  by (simp add: vsay_def)

lemma config_all:
  assumes "long_answers env"
  shows "\<exists>s'. ask_all env f (Some [LIST]) 0 SHOW_VLOG_CONFIG_REQUEST [] ds s = Inr s' \<and>
    vout s' = vout s @ (if flag s then map (next_line env) (answering env ds)
      else (case answering env ds of [] \<Rightarrow> [] | d # r \<Rightarrow> first_line env f d # map (next_line env) r))"
proof (induction ds arbitrary: s)
  case Nil
  then show ?case by (simp add: answering_def)
next
  case (Cons d ds)
  obtain rc s1 where s1: "vtysh_vlog_interface_daemon env (Some f) d (Some [LIST]) 0 SHOW_VLOG_CONFIG_REQUEST s = Inr (rc, s1)"
    "vout s1 = vout s @ (if answer env d = None then [] else [if flag s then next_line env d else first_line env f d])"
    "flag s1 = (flag s \<or> answer env d \<noteq> None)" using config_one [OF assms] by blast
  from Cons.IH [of s1] obtain s' where
    "ask_all env f (Some [LIST]) 0 SHOW_VLOG_CONFIG_REQUEST [] ds s1 = Inr s'"
    "vout s' = vout s1 @ (if flag s1 then map (next_line env) (answering env ds)
      else (case answering env ds of [] \<Rightarrow> [] | d # r \<Rightarrow> first_line env f d # map (next_line env) r))" by blast
  with s1 show ?case by (auto simp: answering_def split: list.splits)
qed

lemma config_features:
  assumes "long_answers env"
  shows "\<not> flag s \<Longrightarrow> \<exists>s'. ask_features env fs s = Inr s' \<and> vout s' = vout s @ concat (map (feature_lines env) fs) \<and> \<not> flag s'"
proof (induction fs arbitrary: s)
  case (Cons f fs)
  obtain s1 where s1: "ask_all env (fs_name f) (Some [LIST]) 0 SHOW_VLOG_CONFIG_REQUEST [] (map fst (fs_daemons f)) s = Inr s1"
    "vout s1 = vout s @ feature_lines env f"
    using config_all [OF assms, of "fs_name f" "map fst (fs_daemons f)" s] Cons.prems by (auto simp: feature_lines_def)
  from Cons.IH [of "s1\<lparr>flag := False\<rparr>"] s1 show ?case by auto
qed simp

section \<open>Setting a level\<close>

text \<open>The sockets of the daemons that can be reached.\<close>

definition reachable :: "vlog_env \<Rightarrow> string list \<Rightarrow> string list" where
  "reachable env ds = List.map_filter (\<lambda>d. connect_to_daemon (vl_conn env) (Some d)) ds"

lemma set_one:
  assumes "nm \<noteq> LIST"
  shows "\<exists>rc. vtysh_vlog_interface_daemon env f d (Some [nm, SET, a]) 3 SET_REQUEST s =
    Inr (rc, s\<lparr>asked := asked s @ map (\<lambda>c. (c, SET, [a])) (reachable env [d])\<rparr>)"
proof (cases "connect_to_daemon (vl_conn env) (Some d)")
  case None
  then show ?thesis by (simp add: vtysh_vlog_interface_daemon_def reachable_def map_filter_simps)
next
  case (Some c)
  obtain ret r e where t: "vl_transact env c SET [a] = (ret, r, e)" by (metis prod_cases3)
  have "vlog_command (Some [nm, SET, a]) 3 = Inr (SET, [a])"
    using assms by (simp add: vlog_command_def array_get_def numeral_3_eq_3)
  with Some t show ?thesis
    by (auto simp: vtysh_vlog_interface_daemon_def reachable_def map_filter_simps show_answer_def Let_def)
qed

lemma set_all:
  assumes "nm \<noteq> LIST"
  shows "ask_all env f (Some [nm, SET, a]) 3 SET_REQUEST [] ds s =
    Inr (s\<lparr>asked := asked s @ map (\<lambda>c. (c, SET, [a])) (reachable env ds)\<rparr>)"
proof (induction ds arbitrary: s)
  case Nil
  then show ?case by (simp add: reachable_def map_filter_simps)
next
  case (Cons d ds)
  obtain rc where "vtysh_vlog_interface_daemon env (Some f) d (Some [nm, SET, a]) 3 SET_REQUEST s =
      Inr (rc, s\<lparr>asked := asked s @ map (\<lambda>c. (c, SET, [a])) (reachable env [d])\<rparr>)" using set_one [OF assms] by blast
  with Cons show ?case by (simp add: reachable_def map_filter_simps split: option.splits)
qed

lemma strncasecmp_prefix:
  "strncasecmp d w (length d) = 0 \<longleftrightarrow> map tolower d = take (length d) (map tolower w)"
  by (simp add: strncasecmp_def strncmp_eq_0)

lemma level_arg_eq: "level_arg d l = d @ '':'' @ l"
  by (simp add: level_arg_def Let_def strncat_def)

section \<open>A concrete system\<close>

definition demo_vlog_js :: "entry list" where
  "demo_vlog_js = [[''_TRANSPORT=syslog'', ''MESSAGE=ovs|0001|ospfd|INFO|up'', ''SYSLOG_IDENTIFIER=ops-ospfd'', ''PRIORITY=6''],
     [''_TRANSPORT=syslog'', ''MESSAGE=started'', ''SYSLOG_IDENTIFIER=cron'', ''PRIORITY=3'']]"

definition demo_vlog :: vlog_env where
  "demo_vlog = \<lparr>js_open = True, js_select = (\<lambda>ms. filter (visible ms) demo_vlog_js),
     js_data = get_data, js_step = (\<lambda>k. True), js_match = (\<lambda>k. True), js_seek = True, js_nl = [CHR 0x0A],
     vl_fm = routing_env,
     vl_conn = \<lparr>ovs_rundir = Some ''/run'', access_w = \<lambda>_. True, file_text = \<lambda>_. None, client_create = \<lambda>_. 0\<rparr>,
     vl_transact = (\<lambda>c cmd ts. if c = ''/run/ops-old.ctl'' then (0, Some ''?'', None) else (0, Some (replicate 115 (CHR '' '') @ ''INFO   DBG''), None)),
     vl_calloc = True\<rparr>"

definition vlog0 :: vlog_run where
  "vlog0 = \<lparr>vheap = fm0, vhead = None, initialized = False, flag = False, vout = [], asked = []\<rparr>"

lemma demo_mapped: "\<exists>s1. mapped demo_vlog vlog0 [routing_feature] s1"
proof -
  obtain h gs where "get_feature_mapping routing_env fm0 = Inr (feature_head h, h)"
    "fm_rep h gs (snd (spec_parse (yscalars (ystream (concat (map feature_scalars [routing_feature])))) (0, [])))"
    using mapping_run [of routing_env "ystream (concat (map feature_scalars [routing_feature]))"] by (auto simp: routing_env_def)
  with spec_features [of "[routing_feature]" 0 "[]"] routing_wf show ?thesis
    by (auto simp: mapped_def demo_vlog_def vlog0_def)
qed

lemma demo_connect: "connect_to_daemon (vl_conn demo_vlog) (Some d) = Some (''/run/'' @ d @ ''.ctl'')"
  by (simp add: connect_to_daemon_def demo_vlog_def)

lemma demo_lower: "map tolower ''ALL'' = ''all''" "map tolower ''dbg'' = ''dbg''"
  by code_simp+

section \<open>Properties\<close>

text \<open>C31: \<open>show vlog config\<close> and its list, which follow the pointers of the mapping, do the same as
  loops over the list of features in the file, whatever the daemons answer.\<close>

theorem show_vlog_walks_file:
  assumes "mapped env s fs s1" "vl_calloc env"
  shows "cli_show_vlog_config env s = Some (bind_res (ask_features env fs (vsay [replicate 49 (CHR ''='') @ js_nl env,
      ''Feature         Daemon          Syslog     File'' @ js_nl env, replicate 49 (CHR ''='') @ js_nl env] s1))
      (\<lambda>s2. Inr (CMD_SUCCESS, s2))) \<and>
    cli_show_vlog_config_list env s = Some (Inr (CMD_SUCCESS, vsay ([replicate 46 (CHR ''='') @ js_nl env,
      ''Features          Description'' @ js_nl env, replicate 46 (CHR ''='') @ js_nl env] @
      map (\<lambda>f. column 17 (fs_name f) @ '' '' @ column 100 (fmt_s (fs_desc f)) @ '' '' @ js_nl env) fs) s1))"
proof -
  obtain gs where gs: "lpath f_next (features (vheap s1)) (vhead s1) (map fst gs)" "list_all2 (feature_at (vheap s1)) gs fs"
    using mapped_rep [OF assms(1)] by blast
  have v: "vlog_features env (vhead s1) (vsay ts s1) = Some (ask_features env fs (vsay ts s1))" for ts
    using vlog_features_path [of "vsay ts s1"] gs by simp
  have l: "vlog_list env (vhead s1) (vsay ts s1) = Some (Inr (vsay (map (\<lambda>f. column 17 (fs_name f) @ '' '' @
      column 100 (fmt_s (fs_desc f)) @ '' '' @ js_nl env) fs) (vsay ts s1)))" for ts
    using vlog_list_path [of "vsay ts s1"] gs by simp
  have b: "and_then (Some r) (\<lambda>s2. Some (Inr (CMD_SUCCESS, s2))) = Some (bind_res r (\<lambda>s2. Inr (CMD_SUCCESS, s2)))"
    for r :: "vlog_run cres" by (cases r) simp_all
  show ?thesis
    unfolding cli_show_vlog_config_def cli_show_vlog_config_list_def mapped_loads [OF assms(1)] and_then_simps prod.case v l
    using assms(2) by (simp add: b vsay_def)
qed

lemma show_vlog_walks_file_witness:
  "\<exists>s1. cli_show_vlog_config_list demo_vlog vlog0 = Some (Inr (CMD_SUCCESS, vsay ([replicate 46 (CHR ''='') @ [CHR 0x0A],
      ''Features          Description'' @ [CHR 0x0A], replicate 46 (CHR ''='') @ [CHR 0x0A]] @
      map (\<lambda>f. column 17 (fs_name f) @ '' '' @ column 100 (fmt_s (fs_desc f)) @ '' '' @ [CHR 0x0A]) [routing_feature]) s1))"
proof -
  obtain s1 where "mapped demo_vlog vlog0 [routing_feature] s1" using demo_mapped by blast
  from show_vlog_walks_file [OF this] show ?thesis by (auto simp: demo_vlog_def)
qed

text \<open>\<open>show vlog config\<close> prints below its heading, feature by feature in the order of the file,
  the levels of every daemon that answers, the name of the feature before the first of them
  only; daemons that do not answer are left out.\<close>

theorem show_vlog_config_lists:
  assumes "mapped env s fs s1" "vl_calloc env" "long_answers env" "\<not> flag s"
  shows "\<exists>s2. cli_show_vlog_config env s = Some (Inr (CMD_SUCCESS, s2)) \<and>
    vout s2 = vout s @ [replicate 49 (CHR ''='') @ js_nl env, ''Feature         Daemon          Syslog     File'' @ js_nl env,
      replicate 49 (CHR ''='') @ js_nl env] @ concat (map (feature_lines env) fs)"
proof -
  obtain gs where gs: "lpath f_next (features (vheap s1)) (vhead s1) (map fst gs)" "list_all2 (feature_at (vheap s1)) gs fs"
    using mapped_rep [OF assms(1)] by blast
  define hd3 where "hd3 = [replicate 49 (CHR ''='') @ js_nl env, ''Feature         Daemon          Syslog     File'' @ js_nl env,
      replicate 49 (CHR ''='') @ js_nl env]"
  have "vlog_features env (vhead s1) (vsay hd3 s1) = Some (ask_features env fs (vsay hd3 s1))"
    using vlog_features_path [of "vsay hd3 s1"] gs by simp
  moreover obtain s2 where "ask_features env fs (vsay hd3 s1) = Inr s2"
    "vout s2 = vout s @ hd3 @ concat (map (feature_lines env) fs)"
    using config_features [OF assms(3), of "vsay hd3 s1" fs] assms(4) mapped_fields [OF assms(1)] by auto
  ultimately show ?thesis
    unfolding cli_show_vlog_config_def mapped_loads [OF assms(1)] and_then_simps prod.case hd3_def [symmetric]
    using assms(2) by simp
qed

lemma show_vlog_config_lists_witness:
  "\<exists>s2. cli_show_vlog_config (demo_vlog\<lparr>vl_transact := \<lambda>c cmd ts. (0, Some (replicate 115 (CHR '' '') @ ''INFO   DBG''), None)\<rparr>) vlog0 =
    Some (Inr (CMD_SUCCESS, s2)) \<and> 3 < length (vout s2)"
proof -
  let ?e = "demo_vlog\<lparr>vl_transact := \<lambda>c cmd ts. (0, Some (replicate 115 (CHR '' '') @ ''INFO   DBG''), None)\<rparr>"
  obtain s1 where d: "mapped demo_vlog vlog0 [routing_feature] s1" using demo_mapped by blast
  have "vl_fm ?e = vl_fm demo_vlog" by simp
  with d have m: "mapped ?e vlog0 [routing_feature] s1" by (simp add: mapped_def cong: if_cong split del: if_split)
  have a: "answer ?e d \<noteq> None" for d by (simp add: answer_def connect_to_daemon_def demo_vlog_def)
  have l: "long_answers ?e"
    by (auto simp: long_answers_def answer_def connect_to_daemon_def demo_vlog_def)
  have "feature_lines ?e routing_feature \<noteq> []"
    using a by (simp add: feature_lines_def answering_def routing_feature_def del: not_None_eq)
  then show ?thesis using show_vlog_config_lists [OF m _ l] by (auto simp: vlog0_def demo_vlog_def)
qed

text \<open>C32: \<open>vlog feature\<close> with a destination and a level it accepts, which are the prefixes of its
  words in any case, sends to every daemon of the feature that can be reached one request that
  sets this level, in order, prints nothing and reports success whatever they answer.\<close>

theorem vlog_feature_sets:
  assumes "mapped env s fs s1" "vl_calloc env" "find (\<lambda>f. fs_name f = nm) fs = Some f" "nm \<noteq> LIST"
    and "\<exists>w\<in>{''syslog'', ''file'', ''all''}. map tolower dest = take (length dest) w"
    and "\<exists>w\<in>{''emer'', ''err'', ''warn'', ''dbg'', ''info'', ''off''}. map tolower lvl = take (length lvl) w"
  shows "\<exists>s2. cli_config_vlog_set env (Some FEATURE) (Some nm) dest lvl s = Some (Inr (CMD_SUCCESS, s2)) \<and> vout s2 = vout s \<and>
    asked s2 = asked s @ map (\<lambda>c. (c, SET, [dest_name dest @ '':'' @ lvl])) (reachable env (map fst (fs_daemons f)))"
proof -
  obtain n as where n: "find_feature nm (vhead s1) (vheap s1) = Some (Inr (Some n))" "f_name n = nm"
    "lpath d_next (daemons (vheap s1)) (p_daemon n) as" "contents daemon_val (daemons (vheap s1)) as = fs_daemons f"
    using mapped_find [OF assms(1,3)] by blast
  have ok: "dest_ok dest" "level_ok lvl"
    using assms(5,6) by (auto simp: dest_ok_def level_ok_def strncasecmp_prefix tolower_def)
  have "vlog_daemons env nm (Some [nm, SET, dest_name dest @ '':'' @ lvl]) 3 SET_REQUEST [] (p_daemon n) s1 =
      Some (Inr (s1\<lparr>asked := asked s1 @ map (\<lambda>c. (c, SET, [dest_name dest @ '':'' @ lvl])) (reachable env (map fst (fs_daemons f)))\<rparr>))"
    using vlog_daemons_path [OF n(3)] by (simp add: n(4) set_all [OF assms(4)])
  then show ?thesis
    unfolding cli_config_vlog_set_def mapped_loads [OF assms(1)] and_then_simps prod.case level_arg_eq
    using ok assms(2) n(1,2) mapped_fields [OF assms(1)] by simp
qed

lemma vlog_feature_sets_witness:
  "\<exists>s2. cli_config_vlog_set demo_vlog (Some FEATURE) (Some ''routing'') ''ALL'' ''dbg'' vlog0 = Some (Inr (CMD_SUCCESS, s2)) \<and>
    asked s2 = map (\<lambda>d. (''/run/'' @ d @ ''.ctl'', SET, [''any:dbg''])) (map fst (fs_daemons routing_feature))"
proof -
  obtain s1 where m: "mapped demo_vlog vlog0 [routing_feature] s1" using demo_mapped by blast
  have f: "find (\<lambda>f. fs_name f = ''routing'') [routing_feature] = Some routing_feature" by (simp add: routing_feature_def)
  have d: "\<exists>w\<in>{''syslog'', ''file'', ''all''}. map tolower ''ALL'' = take (length ''ALL'') w"
    "\<exists>w\<in>{''emer'', ''err'', ''warn'', ''dbg'', ''info'', ''off''}. map tolower ''dbg'' = take (length ''dbg'') w"
    unfolding demo_lower by simp_all
  have nm: "dest_name ''ALL'' = ''any''" unfolding dest_name_def strncasecmp_prefix demo_lower by (simp add: tolower_def)
  have r: "reachable demo_vlog ds = map (\<lambda>d. ''/run/'' @ d @ ''.ctl'') ds" for ds
    by (induction ds) (simp_all add: reachable_def map_filter_simps demo_connect)
  have x: "vl_calloc demo_vlog" "''routing'' \<noteq> LIST" "asked vlog0 = []"
    by (simp_all add: demo_vlog_def LIST_def vlog0_def)
  obtain s2 where "cli_config_vlog_set demo_vlog (Some FEATURE) (Some ''routing'') ''ALL'' ''dbg'' vlog0 = Some (Inr (CMD_SUCCESS, s2))"
    "asked s2 = map (\<lambda>c. (c, SET, [''any'' @ '':'' @ ''dbg''])) (map (\<lambda>d. ''/run/'' @ d @ ''.ctl'') (map fst (fs_daemons routing_feature)))"
    using vlog_feature_sets [OF m x(1) f x(2) d, unfolded nm r x(3)] by auto
  then show ?thesis by (intro exI [of _ s2]) simp
qed

text \<open>C34: the levels are read at a fixed offset into the answer of the daemon: \<open>show vlog config
  daemon\<close> reads outside the answer exactly when it is shorter than that.\<close>

theorem show_vlog_daemon_short_answer:
  assumes "vl_calloc env" "answer env d = Some r"
  shows "cli_show_vlog_feature_or_daemon env (Some DAEMON) (Some d) s = Some (Inl OutOfBounds) \<longleftrightarrow> length r < 115"
proof -
  obtain c e where c: "connect_to_daemon (vl_conn env) (Some d) = Some c" "vl_transact env c LIST [] = (0, Some r, e)"
    using assms(2) by (auto simp: answer_def split: option.splits prod.splits if_splits)
  show ?thesis using assms(1) c
    by (auto simp: cli_show_vlog_feature_or_daemon_def vtysh_vlog_interface_daemon_def show_answer_def levels_def Let_def
        FEATURE_def DAEMON_def)
qed

lemma show_vlog_daemon_short_answer_witness:
  "cli_show_vlog_feature_or_daemon demo_vlog (Some DAEMON) (Some ''ops-old'') vlog0 = Some (Inl OutOfBounds)"
proof -
  have "answer demo_vlog ''ops-old'' = Some ''?''" unfolding answer_def demo_connect by (simp add: demo_vlog_def)
  from show_vlog_daemon_short_answer [OF _ this] show ?thesis by (simp add: demo_vlog_def)
qed

section \<open>Listing the messages\<close>

definition vlog_selected :: "string option \<Rightarrow> string option \<Rightarrow> entry \<Rightarrow> bool" where
  "vlog_selected sv daemon e \<longleftrightarrow> MESSAGE_OVS_MATCH \<in> set e \<and>
     (case sv of None \<Rightarrow> True | Some v \<Rightarrow> \<exists>l\<le>nat (sev_level (Some v)). ''PRIORITY='' @ show_nat l \<in> set e) \<and>
     (case daemon of None \<Rightarrow> True | Some d \<Rightarrow> take 263 (''SYSLOG_IDENTIFIER='' @ d) \<in> set e)"

definition vlog_severity_part :: "string option \<Rightarrow> string list" where
  "vlog_severity_part sv = (case sv of None \<Rightarrow> [] | Some v \<Rightarrow> upto_severity (nat (sev_level sv)))"

definition vlog_daemon_part :: "string option \<Rightarrow> string list" where
  "vlog_daemon_part daemon = (case daemon of None \<Rightarrow> [] | Some d \<Rightarrow> [daemon_match d])"

lemma vlog_fields: "field_of MESSAGE_OVS_MATCH = ''_TRANSPORT''" "field_of (daemon_match d) = ''SYSLOG_IDENTIFIER''"
  by (simp add: field_of_def MESSAGE_OVS_MATCH_def, unfold daemon_match_def, rule field_of_cut) simp_all

lemma vlog_visible:
  "visible (MESSAGE_OVS_MATCH # vlog_severity_part sv @ vlog_daemon_part daemon) e \<longleftrightarrow> vlog_selected sv daemon e"
proof -
  let ?gs = "[(''_TRANSPORT'', [MESSAGE_OVS_MATCH]), (''PRIORITY'', vlog_severity_part sv), (''SYSLOG_IDENTIFIER'', vlog_daemon_part daemon)]"
  have "visible (concat (map snd ?gs)) e \<longleftrightarrow> (\<forall>g\<in>set ?gs. snd g \<noteq> [] \<longrightarrow> set (snd g) \<inter> set e \<noteq> {})"
    by (rule visible_groups)
      (auto simp: vlog_fields vlog_severity_part_def vlog_daemon_part_def upto_severity_field split: option.splits)
  then show ?thesis
    by (auto simp: vlog_selected_def vlog_severity_part_def vlog_daemon_part_def upto_severity_set
      daemon_match_def field_match_def split: option.splits)
qed

lemma vlog_loop_all:
  "\<forall>k. js_step env k \<Longrightarrow> vlog_loop env daemon k es count s = (count + length es, vty_put (concat (map (vlog_lines env daemon) es)) s)"
  by (induction es arbitrary: k count s) (simp_all add: vty_put_def)

lemma vlog_run_all:
  assumes "js_open env" "js_seek env" "\<forall>k. js_match env k" "\<forall>k. js_step env k" "journal_of env js"
    and "sv \<noteq> None \<longrightarrow> sv \<in> Some ` set sev" "es = filter (vlog_selected sv daemon) js"
  shows "\<exists>s. cli_platform_show_vlog env [sv, daemon] = Inr (CMD_SUCCESS, s) \<and> \<not> handle s \<and>
    printed s = vlog_header env @ concat (map (vlog_lines env daemon) es) @ (if es = [] then
      [(if sv = None \<and> daemon = None then ''No vlog messages logged in the system''
        else ''No match for the filter provided'') @ js_nl env] else [])"
proof -
  have lv: "0 \<le> sev_level sv \<and> sev_level sv < 8" if "sv \<noteq> None"
    using assms(6) that cli_sev.look_miss_iff [of sv] cli_sev.look_in_range [of sv] by (auto simp: sev_def)
  let ?s1 = "\<lparr>matches = [MESSAGE_OVS_MATCH], printed = [], handle = True\<rparr>"
  let ?s2 = "?s1\<lparr>matches := MESSAGE_OVS_MATCH # vlog_severity_part sv @ vlog_daemon_part daemon\<rparr>"
  have m: "sd_journal_add_match env MESSAGE_OVS_MATCH (\<lparr>matches = [], printed = [], handle = False\<rparr>\<lparr>handle := True\<rparr>) = (True, ?s1)"
    using assms(3) by (simp add: sd_journal_add_match_def)
  have f: "vlog_args env [sv, daemon] [0, 1] False ?s1 = Inr (False, sv \<noteq> None \<or> daemon \<noteq> None, ?s2)"
    using lv by (cases sv; cases daemon)
      (simp_all add: vlog_filter_def add_matches_ok [OF assms(3)] vlog_severity_part_def vlog_daemon_part_def del: add_matches.simps)
  have es: "js_select env (matches ?s2) = es"
    using assms(5,7) by (simp add: journal_of_def vlog_visible [abs_def])
  show ?thesis
    unfolding cli_platform_show_vlog_def Let_def m prod.case f
    using assms(1,2) by (simp add: cli_show_vlog_def es [simplified] vlog_loop_all [OF assms(4)] vty_put_def sd_journal_close_def arg_def)
qed

text \<open>C33: on a readable journal \<open>show vlog\<close> prints below its header, in the order of the journal, one
  line for each message of the syslog transport whose first part is \<open>ovs\<close> and that has at most
  the severity and the daemon asked for, and closes the journal.\<close>

theorem show_vlog_lists:
  assumes "js_open env" "js_seek env" "\<forall>k. js_match env k" "\<forall>k. js_step env k" "journal_of env js"
    and "sv \<noteq> None \<longrightarrow> sv \<in> Some ` set sev" "es = filter (vlog_selected sv daemon) js"
  shows "\<exists>s. cli_platform_show_vlog env [sv, daemon] = Inr (CMD_SUCCESS, s) \<and> \<not> handle s \<and>
    printed s = vlog_header env @ concat (map (vlog_lines env daemon) es) @ (if es = [] then
      [(if sv = None \<and> daemon = None then ''No vlog messages logged in the system''
        else ''No match for the filter provided'') @ js_nl env] else [])"
  using assms by (rule vlog_run_all)

lemma demo_vlog_readable: "js_open demo_vlog" "js_seek demo_vlog" "\<forall>k. js_match demo_vlog k" "\<forall>k. js_step demo_vlog k"
  "journal_of demo_vlog demo_vlog_js"
  by (simp_all add: demo_vlog_def journal_of_def)

lemma demo_vlog_data: "js_data demo_vlog = get_data"
  by (simp add: demo_vlog_def)

lemma demo_line: "vlog_lines demo_vlog d [''_TRANSPORT=syslog'', ''MESSAGE=started'', ''SYSLOG_IDENTIFIER=cron'', ''PRIORITY=3''] = []"
proof -
  have "strtok ''|'' ''started'' = Some (''started'', [])" by (simp add: strtok_def)
  then have "\<not> is_ovs ''started''" by (simp add: is_ovs_def)
  moreover have "value_of demo_vlog [''_TRANSPORT=syslog'', ''MESSAGE=started'', ''SYSLOG_IDENTIFIER=cron'', ''PRIORITY=3''] ''MESSAGE'' = Some ''started''"
    "value_of demo_vlog [''_TRANSPORT=syslog'', ''MESSAGE=started'', ''SYSLOG_IDENTIFIER=cron'', ''PRIORITY=3''] ''SYSLOG_IDENTIFIER'' = Some ''cron''"
    by (simp_all add: value_of_def demo_vlog_data get_data_def field_of_def get_value_def)
  ultimately show ?thesis by (cases d) (simp_all add: vlog_lines_def)
qed

lemma show_vlog_lists_witness:
  "\<exists>s. cli_platform_show_vlog demo_vlog [Some ''err'', None] = Inr (CMD_SUCCESS, s) \<and> printed s = vlog_header demo_vlog"
proof -
  have sv: "Some ''err'' \<noteq> None \<longrightarrow> Some ''err'' \<in> Some ` set sev" by (simp add: sev_def)
  have l: "sev_level (Some ''err'') = 3" by code_simp
  have c: "l = 0 \<or> l = 1 \<or> l = 2 \<or> l = 3" if "l \<le> 3" for l :: nat using that by arith
  have n: "show_nat 3 = ''3''" "l \<le> 3 \<Longrightarrow> show_nat l \<noteq> ''6''" for l
    by (use c [of l] in \<open>auto simp: show_nat.simps char_of_def bit_Suc_0_iff\<close>)
  have "filter (vlog_selected (Some ''err'') None) demo_vlog_js = [[''_TRANSPORT=syslog'', ''MESSAGE=started'', ''SYSLOG_IDENTIFIER=cron'', ''PRIORITY=3'']]"
    using n by (auto simp: vlog_selected_def demo_vlog_js_def l MESSAGE_OVS_MATCH_def intro: exI [of _ 3])
  with show_vlog_lists [OF demo_vlog_readable sv refl, of None] show ?thesis by (auto simp: demo_line)
qed

text \<open>When the journal has messages for the arguments but none of them comes from \<open>ovs\<close>, \<open>show
  vlog\<close> prints its header and nothing else: the count that decides on the note counts entries,
  not lines.\<close>

theorem show_vlog_says_nothing:
  assumes "js_open env" "js_seek env" "\<forall>k. js_match env k" "\<forall>k. js_step env k" "journal_of env js"
    and "sv \<noteq> None \<longrightarrow> sv \<in> Some ` set sev" "filter (vlog_selected sv daemon) js \<noteq> []"
    and "\<forall>e\<in>set js. vlog_selected sv daemon e \<longrightarrow> (case value_of env e ''MESSAGE'' of None \<Rightarrow> True | Some t \<Rightarrow> \<not> is_ovs t)"
  shows "\<exists>s. cli_platform_show_vlog env [sv, daemon] = Inr (CMD_SUCCESS, s) \<and> printed s = vlog_header env"
proof -
  have "vlog_lines env daemon e = []" if "e \<in> set js" "vlog_selected sv daemon e" for e
    using assms(8) that by (auto simp: vlog_lines_def Let_def split: option.splits)
  then have "concat (map (vlog_lines env daemon) (filter (vlog_selected sv daemon) js)) = []" by auto
  with vlog_run_all [OF assms(1-6) refl, of daemon] assms(7) show ?thesis by auto
qed

lemma show_vlog_says_nothing_witness:
  "\<exists>s. cli_platform_show_vlog demo_vlog [None, Some ''cron''] = Inr (CMD_SUCCESS, s) \<and> printed s = vlog_header demo_vlog"
proof -
  have sel: "vlog_selected None (Some ''cron'') e \<longleftrightarrow> e = [''_TRANSPORT=syslog'', ''MESSAGE=started'', ''SYSLOG_IDENTIFIER=cron'', ''PRIORITY=3'']"
    if "e \<in> set demo_vlog_js" for e
    using that by (auto simp: vlog_selected_def demo_vlog_js_def MESSAGE_OVS_MATCH_def)
  have ne: "filter (vlog_selected None (Some ''cron'')) demo_vlog_js \<noteq> []"
    by (simp add: vlog_selected_def demo_vlog_js_def MESSAGE_OVS_MATCH_def)
  have "strtok ''|'' ''started'' = Some (''started'', [])" by (simp add: strtok_def)
  then have n: "\<forall>e\<in>set demo_vlog_js. vlog_selected None (Some ''cron'') e \<longrightarrow>
      (case value_of demo_vlog e ''MESSAGE'' of None \<Rightarrow> True | Some t \<Rightarrow> \<not> is_ovs t)"
    by (auto simp: sel value_of_def demo_vlog_data get_data_def field_of_def get_value_def is_ovs_def)
  show ?thesis by (rule show_vlog_says_nothing [OF demo_vlog_readable _ ne n]) simp
qed

end
