(* ===== verification/Registration.thy ===== *)
theory Registration
  imports Feature_Walk Vtysh
begin

text \<open>
  \<open>src/src/cli/supportability_vty.c\<close>: at start-up the shell is handed the commands. The strings
  of four of them, and their help, are put together from the events file, the show tech
  configuration, the feature mapping and the files of the running daemons.
\<close>

section \<open>Environment\<close>

text \<open>\<open>rg_alloc k\<close> says whether the \<open>k\<close>-th allocation of an install function succeeds, \<open>rg_files\<close> are
  the names in the directory of the pid files; None: it cannot be opened. \<open>rg_doc_tech\<close> and
  \<open>rg_doc_events\<close> are the help texts of the two commands as they are declared.\<close>

record reg_env =
  rg_alloc :: "nat \<Rightarrow> bool"
  rg_yaml_init :: bool
  rg_showtech :: "yevent list option"
  rg_events :: "yevent list option"
  rg_files :: "string list option"
  rg_fm :: fm_env
  rg_doc_tech :: string
  rg_doc_events :: string

abbreviation MAX_CMD_SIZE :: nat where "MAX_CMD_SIZE \<equiv> 5000"
abbreviation MAX_HELP_SIZE :: nat where "MAX_HELP_SIZE \<equiv> 256"
abbreviation MAX_FEATURE_HELP_SIZE :: nat where "MAX_FEATURE_HELP_SIZE \<equiv> 25600"
abbreviation MAX_EV_HELP_SIZE :: nat where "MAX_EV_HELP_SIZE \<equiv> 255744"
abbreviation MAX_VLOG_CMD :: nat where "MAX_VLOG_CMD \<equiv> 10000"
abbreviation MAX_FILENAME_SIZE :: nat where "MAX_FILENAME_SIZE \<equiv> 100"

text \<open>\<open>strncat(buf, s, MAX - strlen(buf) - 1)\<close>, and the \<open>strncpy\<close> of \<open>MAX - 1\<close> characters before it.\<close>

definition add_to :: "nat \<Rightarrow> string \<Rightarrow> string \<Rightarrow> string" where
  "add_to m buf s = strncat buf s (m - length buf - 1)"

definition start_with :: "nat \<Rightarrow> string \<Rightarrow> string" where
  "start_with m s = take (m - 1) s"

definition SHOW_EVENTS_CMD :: string where
  "SHOW_EVENTS_CMD = ''show events {event-id <A:1001-999999>| severity '' @ replicate 37 (CHR '' '') @
     ''(emer | alert | crit | err | warn | notice | info | debug) '' @ replicate 37 (CHR '' '') @ ''| reverse | category (''"

definition VLOG_CMD :: string where
  "VLOG_CMD = ''show vlog { severity '' @ replicate 33 (CHR '' '') @ ''(emer | err | warn | info | debug) | daemon (''"

definition line_feed :: string where "line_feed = [CHR 0x0A]"

text \<open>A command with its string and its help; the result of an install function is its return value
  and the command it installed, if any.\<close>

type_synonym installed = "int \<times> (string \<times> string) option"

section \<open>show vlog\<close>

text \<open>One name: the part of a pid file before the first dot. \<open>strtok\<close> of a name without one is NULL.\<close>

definition vlog_token :: "string \<Rightarrow> string \<times> bool \<Rightarrow> (string \<times> bool) cres" where
  "vlog_token name st = (case st of (cmd, install) \<Rightarrow>
     if strstr name ''ops'' \<noteq> None \<and> strstr name ''.pid'' \<noteq> None
     then (case strtok ''.'' (take (MAX_FILENAME_SIZE - 1) name) of
         None \<Rightarrow> Inl NullDeref
       | Some (ptr, r) \<Rightarrow> Inr (add_to MAX_VLOG_CMD (add_to MAX_VLOG_CMD cmd ptr) ''|'', True))
     else Inr (cmd, install))"

fun vlog_tokens :: "string list \<Rightarrow> string \<times> bool \<Rightarrow> (string \<times> bool) cres" where
  "vlog_tokens [] st = Inr st"
| "vlog_tokens (name # names) st = bind_res (vlog_token name st) (vlog_tokens names)"

definition install_show_vlog :: "reg_env \<Rightarrow> (int \<times> string option) cres" where
  "install_show_vlog env = (case rg_files env of
     None \<Rightarrow> Inr (1, None)
   | Some names \<Rightarrow>
       if \<not> rg_alloc env 0 \<or> names = [] then Inr (1, None)
       else bind_res (vlog_tokens names (start_with MAX_VLOG_CMD VLOG_CMD, False)) (\<lambda>(cmd, install).
         Inr (if install then (0, Some (add_to MAX_VLOG_CMD cmd '')}'')) else (1, None))))"

section \<open>diag-dump\<close>

partial_function (option) diag_tokens ::
    "addr option \<Rightarrow> fm \<Rightarrow> string \<times> string \<times> bool \<Rightarrow> (string \<times> string \<times> bool) cres option" where
  "diag_tokens p h st = (case p of
     None \<Rightarrow> Some (Inr st)
   | Some a \<Rightarrow> (case features h a of
         None \<Rightarrow> Some (Inl UseAfterFree)
       | Some n \<Rightarrow>
           (if f_diag_flag n = DISABLE then diag_tokens (f_next n) h st
            else (case f_desc n of
                None \<Rightarrow> Some (Inl NullDeref)
              | Some d \<Rightarrow> diag_tokens (f_next n) h
                  (add_to MAX_CMD_SIZE (add_to MAX_CMD_SIZE (fst st) (f_name n)) ''|'',
                   add_to MAX_FEATURE_HELP_SIZE (add_to MAX_FEATURE_HELP_SIZE (fst (snd st)) d) line_feed, True)))))"

definition diag_help :: "string list" where
  "diag_help = [''Specify the feature name'' @ line_feed,
     ''Capture basic diagnostic dump for a specified feature'' @ line_feed,
     ''Specify the filename to capture diagnostic dump'' @ line_feed]"

definition install_diag_dump :: "reg_env \<Rightarrow> fm \<Rightarrow> (installed \<times> fm) cres option" where
  "install_diag_dump env h =
     (if \<not> rg_alloc env 0 \<or> \<not> rg_alloc env 1 then Some (Inr ((1, None), h))
      else and_then (Some (get_feature_mapping (rg_fm env) h)) (\<lambda>(head, h1).
        and_then (diag_tokens head h1 (start_with MAX_CMD_SIZE ''diag-dump ('',
            start_with MAX_FEATURE_HELP_SIZE (''Display diagnostic dump'' @ line_feed), False)) (\<lambda>(cmd, help, install).
          Some (Inr ((0, if install
            then Some (add_to MAX_CMD_SIZE cmd '') basic [FILENAME]'', foldl (add_to MAX_FEATURE_HELP_SIZE) help diag_help)
            else None), h1)))))"

section \<open>show tech\<close>

record tech_st =
  tech_cmd :: string
  tech_help :: string
  tech_found :: bool
  tech_install :: bool
  tech_prev :: string
  tech_desc :: string

definition tech_token :: "string \<Rightarrow> tech_st \<Rightarrow> tech_st" where
  "tech_token key st =
     (let st1 = (if tech_found st
           then st\<lparr>tech_cmd := add_to MAX_CMD_SIZE (add_to MAX_CMD_SIZE (tech_cmd st) key) ''|'',
                   tech_help := add_to MAX_FEATURE_HELP_SIZE (add_to MAX_FEATURE_HELP_SIZE (tech_help st) (tech_desc st)) line_feed,
                   tech_found := False, tech_install := True\<rparr>
           else st);
          st2 = (if strcmp_with_nullcheck (Some key) (Some ''feature_name'') = 0
           then st1\<lparr>tech_found := True, tech_desc := start_with MAX_HELP_SIZE (tech_prev st1)\<rparr> else st1)
      in st2\<lparr>tech_prev := start_with MAX_HELP_SIZE key\<rparr>)"

function tech_loop :: "yevent list \<Rightarrow> tech_st \<Rightarrow> tech_st" where
  "tech_loop parser st = (case get_yaml_tokens parser True of
     None \<Rightarrow> st
   | Some (key, r) \<Rightarrow> tech_loop r (tech_token key st))"
  by pat_completeness auto
termination
  by (relation "measure (\<lambda>(es, st). length es)") (auto simp: get_yaml_tokens_def dest: next_scalar_shorter)

declare tech_loop.simps [simp del]

definition SHOW_TECH_FILE_STR :: string where
  "SHOW_TECH_FILE_STR = ''Capture command-output into a specified file'' @ line_feed"

definition SHOW_TECH_FILENAME_STR :: string where
  "SHOW_TECH_FILENAME_STR = ''Specify the filename to capture command-output'' @ line_feed"

definition install_show_tech :: "reg_env \<Rightarrow> installed" where
  "install_show_tech env =
     (if \<not> rg_alloc env 0 \<or> \<not> rg_alloc env 1 \<or> \<not> rg_yaml_init env then (1, None)
      else case rg_showtech env of
          None \<Rightarrow> (1, None)
        | Some es \<Rightarrow>
            (let st = tech_loop es \<lparr>tech_cmd = start_with MAX_CMD_SIZE ''show tech ('',
                   tech_help = start_with MAX_FEATURE_HELP_SIZE (rg_doc_tech env), tech_found = False, tech_install = False,
                   tech_prev = [], tech_desc = []\<rparr>
             in if \<not> tech_install st then (1, None)
                else (0, Some (add_to MAX_CMD_SIZE (tech_cmd st) '') {localfile FILENAME}'',
                  add_to MAX_FEATURE_HELP_SIZE (add_to MAX_FEATURE_HELP_SIZE (tech_help st) SHOW_TECH_FILE_STR) SHOW_TECH_FILENAME_STR))))"

section \<open>show events\<close>

record evt_st =
  evt_cmd :: string
  evt_help :: string
  evt_found :: bool
  evt_des :: bool
  evt_found_des :: bool
  evt_install :: bool

text \<open>One scalar; the first part of the result says whether the loop is left. A category is written
  in small letters over the scalar, which is then compared.\<close>

definition evt_token :: "string \<Rightarrow> evt_st \<Rightarrow> bool \<times> evt_st" where
  "evt_token key st =
     (let st1 = (if evt_found_des st
           then st\<lparr>evt_help := add_to MAX_EV_HELP_SIZE (add_to MAX_EV_HELP_SIZE (evt_help st) key) line_feed, evt_found_des := False\<rparr>
           else st);
          st2 = (if evt_des st1 then st1\<lparr>evt_found_des := True, evt_des := False\<rparr> else st1);
          key1 = (if evt_found st2 then strn_conv tolower key 0 (int (length key)) else key);
          st3 = (if evt_found st2
           then st2\<lparr>evt_cmd := add_to MAX_CMD_SIZE (add_to MAX_CMD_SIZE (evt_cmd st2) key1) ''|'',
                    evt_found := False, evt_des := True, evt_install := True\<rparr>
           else st2)
      in if strcmp_with_nullcheck (Some key1) (Some ''event_definitions'') = 0 then (True, st3)
         else (False, if strcmp_with_nullcheck (Some key1) (Some ''event_category'') = 0 then st3\<lparr>evt_found := True\<rparr> else st3))"

function evt_loop :: "yevent list \<Rightarrow> evt_st \<Rightarrow> bool \<times> evt_st" where
  "evt_loop parser st = (case get_yaml_tokens parser True of
     None \<Rightarrow> (False, st)
   | Some (key, r) \<Rightarrow> if fst (evt_token key st) then (True, snd (evt_token key st)) else evt_loop r (snd (evt_token key st)))"
  by pat_completeness auto
termination
  by (relation "measure (\<lambda>(es, st). length es)") (auto simp: get_yaml_tokens_def dest: next_scalar_shorter)

declare evt_loop.simps [simp del]

definition install_show_evnts :: "reg_env \<Rightarrow> installed" where
  "install_show_evnts env =
     (if \<not> rg_alloc env 0 \<or> \<not> rg_yaml_init env then (1, None)
      else case rg_events env of
          None \<Rightarrow> (1, None)
        | Some es \<Rightarrow>
            if \<not> rg_alloc env 1 then (1, None)
            else (case evt_loop es \<lparr>evt_cmd = start_with MAX_CMD_SIZE SHOW_EVENTS_CMD,
                   evt_help = start_with MAX_EV_HELP_SIZE (rg_doc_events env), evt_found = False, evt_des = False,
                   evt_found_des = False, evt_install = False\<rparr> of (exit, st) \<Rightarrow>
              if \<not> evt_install st then (1, None)
              else (0, if exit then Some (add_to MAX_CMD_SIZE (evt_cmd st) '')}'', evt_help st) else None)))"

section \<open>Start-up\<close>

datatype node = ENABLE_NODE | CONFIG_NODE

definition show_tech_elements :: "(node \<times> string) list" where
  "show_tech_elements = [(ENABLE_NODE, ''cli_platform_show_tech_cmd''),
     (ENABLE_NODE, ''cli_platform_show_tech_file_cmd'')]"

definition vlog_syslog_elements :: "(node \<times> string) list" where
  "vlog_syslog_elements = [(ENABLE_NODE, ''cli_platform_show_tech_list_cmd''),
     (ENABLE_NODE, ''cli_platform_show_core_dump_cmd''),
     (ENABLE_NODE, ''vtysh_diag_dump_list_cmd''),
     (ENABLE_NODE, ''cli_platform_show_vlog_config_cmd''),
     (ENABLE_NODE, ''cli_platform_show_vlog_config_list_cmd''),
     (ENABLE_NODE, ''cli_platform_show_vlog_feature_cmd''),
     (ENABLE_NODE, ''cli_platform_show_vlog_daemon_cmd''),
     (CONFIG_NODE, ''cli_config_vlog_daemon_set_cmd''),
     (CONFIG_NODE, ''cli_config_vlog_feature_set_cmd''),
     (CONFIG_NODE, ''vtysh_config_syslog_basic_cmd''),
     (CONFIG_NODE, ''vtysh_config_syslog_udp_cmd''),
     (CONFIG_NODE, ''vtysh_config_syslog_tcp_cmd''),
     (CONFIG_NODE, ''vtysh_config_syslog_svrt_cmd''),
     (CONFIG_NODE, ''vtysh_config_syslog_prot_svrt_noport_cmd''),
     (CONFIG_NODE, ''vtysh_config_syslog_udp_svrt_cmd''),
     (CONFIG_NODE, ''vtysh_config_syslog_tcp_svrt_cmd''),
     (CONFIG_NODE, ''no_vtysh_config_syslog_basic_cmd''),
     (CONFIG_NODE, ''no_vtysh_config_syslog_udp_cmd''),
     (CONFIG_NODE, ''no_vtysh_config_syslog_tcp_cmd''),
     (CONFIG_NODE, ''no_vtysh_config_syslog_svrt_cmd''),
     (CONFIG_NODE, ''no_vtysh_config_syslog_prot_svrt_noport_cmd''),
     (CONFIG_NODE, ''no_vtysh_config_syslog_udp_svrt_cmd''),
     (CONFIG_NODE, ''no_vtysh_config_syslog_tcp_svrt_cmd''),
     (CONFIG_NODE, ''vtysh_config_no_syslog_cmd'')]"

definition copy_debug_elements :: "(node \<times> string) list" where
  "copy_debug_elements = [(ENABLE_NODE, ''cli_platform_copy_core_dump_tftp_cmd''),
     (ENABLE_NODE, ''cli_platform_copy_core_dump_sftp_cmd''),
     (ENABLE_NODE, ''cli_platform_copy_core_dump_kernel_tftp_cmd''),
     (ENABLE_NODE, ''cli_platform_copy_core_dump_kernel_sftp_cmd''),
     (ENABLE_NODE, ''cli_platform_copy_core_dump_tftp_cmd_inst''),
     (ENABLE_NODE, ''cli_platform_copy_core_dump_sftp_cmd_inst''),
     (ENABLE_NODE, ''show_debugging_info_cmd''),
     (CONFIG_NODE, ''debug_ospf_packet_send_recv_detail_cmd''),
     (CONFIG_NODE, ''debug_ospf_packet_send_recv_cmd''),
     (CONFIG_NODE, ''debug_ospf_packet_all_cmd''),
     (CONFIG_NODE, ''debug_ospf_ism_sub_cmd''),
     (CONFIG_NODE, ''debug_ospf_ism_cmd''),
     (CONFIG_NODE, ''debug_ospf_nsm_sub_cmd''),
     (CONFIG_NODE, ''debug_ospf_nsm_cmd''),
     (CONFIG_NODE, ''debug_ospf_lsa_sub_cmd''),
     (CONFIG_NODE, ''debug_ospf_lsa_cmd''),
     (CONFIG_NODE, ''debug_ospf_event_cmd''),
     (CONFIG_NODE, ''debug_ospf_nssa_cmd''),
     (CONFIG_NODE, ''debug_ospf_intf_redst_cmd''),
     (CONFIG_NODE, ''no_debug_ospf_packet_send_recv_detail_cmd''),
     (CONFIG_NODE, ''no_debug_ospf_packet_send_recv_cmd''),
     (CONFIG_NODE, ''no_debug_ospf_packet_all_cmd''),
     (CONFIG_NODE, ''no_debug_ospf_ism_sub_cmd''),
     (CONFIG_NODE, ''no_debug_ospf_ism_cmd''),
     (CONFIG_NODE, ''no_debug_ospf_nsm_sub_cmd''),
     (CONFIG_NODE, ''no_debug_ospf_nsm_cmd''),
     (CONFIG_NODE, ''no_debug_ospf_lsa_sub_cmd''),
     (CONFIG_NODE, ''no_debug_ospf_lsa_cmd''),
     (CONFIG_NODE, ''no_debug_ospf_event_cmd''),
     (CONFIG_NODE, ''no_debug_ospf_nssa_cmd''),
     (CONFIG_NODE, ''no_debug_ospf_intf_redst_cmd'')]"

text \<open>The commands that are installed, in order. \<open>rg_context\<close>: the callback for the running
  configuration is accepted; otherwise the process aborts. True: the function returns.\<close>

definition elements :: "string \<Rightarrow> 'a option \<Rightarrow> (node \<times> string) list" where
  "elements name c = (case c of None \<Rightarrow> [] | Some _ \<Rightarrow> [(ENABLE_NODE, name)])"

definition cli_post_init :: "reg_env \<Rightarrow> bool \<Rightarrow> fm \<Rightarrow> ((node \<times> string) list \<times> bool) cres option" where
  "cli_post_init env rg_context h =
     (case install_show_evnts env of (r1, c1) \<Rightarrow>
      if r1 \<noteq> 0 then Some (Inr ([], True))
      else case install_show_tech env of (r2, c2) \<Rightarrow>
      let l2 = elements ''cli_platform_show_events_cmd'' c1 @ show_tech_elements in
      if r2 \<noteq> 0 then Some (Inr (l2, True))
      else and_then (install_diag_dump env h) (\<lambda>((r3, c3), h1).
        let l3 = l2 @ elements ''cli_platform_show_tech_feature_cmd'' c2 in
        if r3 \<noteq> 0 then Some (Inr (l3, True))
        else and_then (Some (install_show_vlog env)) (\<lambda>(r4, c4).
          let l4 = l3 @ elements ''vtysh_diag_dump_cmd'' c3 in
          if r4 \<noteq> 0 then Some (Inr (l4, True))
          else (let l5 = l4 @ elements ''cli_platform_show_vlog_cmd'' c4 @ vlog_syslog_elements
            in if \<not> rg_context then Some (Inr (l5, False))
               else Some (Inr (l5 @ copy_debug_elements, True))))))"

end
