(* ===== verification/Registration_Correct.thy ===== *)
theory Registration_Correct
  imports Registration Show_Tech_Spec
begin

text \<open>
  The command strings that the four install functions build from well-formed files, and what is
  left of the registration when one of them fails.
\<close>

section \<open>Bounded buffers\<close>

lemma add_to_take: "0 < m \<Longrightarrow> add_to m (take (m - 1) a) s = take (m - 1) (a @ s)"
  by (simp add: add_to_def strncat_def min_def)

lemma foldl_add_to: "0 < m \<Longrightarrow> foldl (add_to m) (take (m - 1) a) ss = take (m - 1) (a @ concat ss)"
proof (induction ss arbitrary: a)
  case (Cons s ss)
  from Cons.IH [OF Cons.prems, of "a @ s"] show ?case
    by (simp only: foldl_Cons add_to_take [OF Cons.prems] concat.simps append_assoc)
qed simp

lemma add_to_5000: "add_to 5000 (take 4999 a) s = take 4999 (a @ s)"
  using add_to_take [of 5000 a s] by (simp del: take_append)

lemma add_to_25600: "add_to 25600 (take 25599 a) s = take 25599 (a @ s)"
  using add_to_take [of 25600 a s] by (simp del: take_append)

lemma add_to_10000: "add_to 10000 (take 9999 a) s = take 9999 (a @ s)"
  using add_to_take [of 10000 a s] by (simp del: take_append)

section \<open>show tech\<close>

lemma tech_loop_fold: "tech_loop es st = foldl (\<lambda>st k. tech_token k st) st (yscalars es)"
proof (induction es st rule: tech_loop.induct)
  case (1 es st)
  show ?case
  proof (cases "next_scalar es")
    case None
    then show ?thesis by (simp add: tech_loop.simps [of es] get_yaml_tokens_def next_scalar_None)
  next
    case (Some x)
    obtain k r where x: "x = (k, r)" by (cases x)
    with Some have "get_yaml_tokens es True = Some (k, r)" by (simp add: get_yaml_tokens_def)
    with 1 [OF this] show ?thesis using next_scalar_yscalars [of es k r] Some x
      by (simp add: tech_loop.simps [of es])
  qed
qed

text \<open>Scalars other than the keyword only change \<open>prev\<close>.\<close>

lemma tech_skip:
  assumes "\<forall>k\<in>set ks. k \<noteq> ''feature_name''" "\<not> tech_found st"
  shows "foldl (\<lambda>st k. tech_token k st) st ks =
    (if ks = [] then st else st\<lparr>tech_prev := take 255 (last ks)\<rparr>)"
  using assms
proof (induction ks arbitrary: st)
  case (Cons k ks)
  then have "tech_token k st = st\<lparr>tech_prev := take 255 k\<rparr>"
    by (simp add: tech_token_def start_with_def)
  with Cons show ?case by (cases ks) simp_all
qed simp

definition tech_at :: "string \<Rightarrow> string \<Rightarrow> bool \<Rightarrow> tech_st \<Rightarrow> bool" where
  "tech_at c h i st \<longleftrightarrow> tech_cmd st = take 4999 c \<and> tech_help st = take 25599 h \<and> \<not> tech_found st \<and> tech_install st = i"

lemma tech_feature:
  assumes "\<forall>k\<in>set (pre @ d # n # post). k \<noteq> ''feature_name''" "tech_at c h i st"
  shows "tech_at (c @ n @ ''|'') (h @ take 255 d @ line_feed) True
    (foldl (\<lambda>st k. tech_token k st) st (pre @ [d, ''feature_name'', n] @ post))"
proof -
  let ?f = "foldl (\<lambda>st k. tech_token k st)"
  have nf: "\<not> tech_found st" using assms(2) by (simp add: tech_at_def)
  have "?f st (pre @ [d]) = st\<lparr>tech_prev := take 255 d\<rparr>"
    using tech_skip [of "pre @ [d]" st] assms(1) nf by auto
  then have "?f st (pre @ [d, ''feature_name'', n]) =
      tech_token n (tech_token ''feature_name'' (st\<lparr>tech_prev := take 255 d\<rparr>))" by simp
  moreover have "tech_at (c @ n @ ''|'') (h @ take 255 d @ line_feed) True
      (tech_token n (tech_token ''feature_name'' (st\<lparr>tech_prev := take 255 d\<rparr>)))"
    using assms by (simp add: tech_at_def tech_token_def start_with_def add_to_5000 add_to_25600 del: take_append)
  ultimately have at: "tech_at (c @ n @ ''|'') (h @ take 255 d @ line_feed) True (?f st (pre @ [d, ''feature_name'', n]))" by simp
  have "?f st (pre @ [d, ''feature_name'', n] @ post) = ?f (?f st (pre @ [d, ''feature_name'', n])) post" by simp
  then show ?thesis using at tech_skip [of post "?f st (pre @ [d, ''feature_name'', n])"] assms(1)
    by (auto simp: tech_at_def)
qed

text \<open>A written feature has its keyword once.\<close>

lemma plain_not_key: "plain_text v \<Longrightarrow> v \<noteq> ''feature_name''"
  by (auto simp: plain_text_def st_keystr_def)

lemma body_no_key: "wf_body x \<Longrightarrow> k \<in> set (body_scalars x) \<Longrightarrow> k \<noteq> ''feature_name''"
proof -
  assume wf: "wf_body x" and k: "k \<in> set (body_scalars x)"
  have t: "k \<noteq> ''feature_name''" if "t \<in> set (ss_tables x)" "k \<in> set (table_scalars t)" for t
  proof -
    have "wf_table t" using wf that(1) by (simp add: wf_body_def)
    then have "the (ts_name t) \<noteq> ''feature_name''" "\<forall>c\<in>set (ts_cols t). the c \<noteq> ''feature_name''"
      by (auto simp: wf_table_def dest!: bspec plain_not_key)
    then show ?thesis using that(2) by (auto simp: table_scalars_def)
  qed
  have "\<forall>v\<in>set (ss_cmds x). the v \<noteq> ''feature_name''"
    using wf by (auto simp: wf_body_def dest!: bspec plain_not_key)
  then show ?thesis using k t by (auto simp: body_scalars_def)
qed

lemma sub_no_key:
  assumes "wf_body x" "ss_info x = (Some n, Some d, a, b, False)" "plain_text n" "plain_text d" "k \<in> set (sub_scalars x)"
  shows "k \<noteq> ''feature_name''"
  using assms(5) body_no_key [OF assms(1)] assms(2) plain_not_key [OF assms(3)] plain_not_key [OF assms(4)]
  by (auto simp: sub_scalars_def split: if_splits)

lemma config_blocks:
  assumes "wf_config f"
  shows "\<exists>post. config_scalars f = [''feature'', ''feature_desc''] @ [the (cs_desc f), ''feature_name'', the (cs_name f)] @ post \<and>
    (\<forall>k\<in>set ([''feature'', ''feature_desc''] @ the (cs_desc f) # the (cs_name f) # post). k \<noteq> ''feature_name'')"
proof -
  obtain post where post: "config_scalars f = [''feature'', ''feature_desc'', the (cs_desc f), ''feature_name'', the (cs_name f)] @ post"
    "post = (case cs_subs f of [] \<Rightarrow> [] | x # xs \<Rightarrow> if ss_info x = (None, None, False, False, True) then body_scalars x
       else concat (map sub_scalars (cs_subs f)))"
    by (simp add: config_scalars_def)
  have "k \<noteq> ''feature_name''" if "k \<in> set post" for k
  proof (cases "\<exists>x. cs_subs f = [x] \<and> ss_info x = (None, None, False, False, True)")
    case True
    with that post(2) assms show ?thesis by (auto simp: wf_config_def dest: body_no_key)
  next
    case False
    with assms have s: "\<forall>x\<in>set (cs_subs f). wf_body x \<and> (\<exists>n d a b. ss_info x = (Some n, Some d, a, b, False) \<and> plain_text n \<and> plain_text d)"
      by (auto simp: wf_config_def)
    then have "post = concat (map sub_scalars (cs_subs f))" using post(2) by (cases "cs_subs f") auto
    with that s show ?thesis by (auto dest: sub_no_key)
  qed
  with post(1) assms show ?thesis by (intro exI [of _ post]) (auto simp: wf_config_def dest: plain_not_key)
qed

lemma tech_configs:
  assumes "\<forall>f\<in>set fs. wf_config f" "tech_at c h i st"
  shows "tech_at (c @ concat (map (\<lambda>f. the (cs_name f) @ ''|'') fs)) (h @ concat (map (\<lambda>f. take 255 (the (cs_desc f)) @ line_feed) fs))
    (i \<or> fs \<noteq> []) (foldl (\<lambda>st k. tech_token k st) st (concat (map config_scalars fs)))"
  using assms
proof (induction fs arbitrary: c h i st)
  case (Cons f fs)
  obtain post where p: "config_scalars f = [''feature'', ''feature_desc''] @ [the (cs_desc f), ''feature_name'', the (cs_name f)] @ post"
    "\<forall>k\<in>set ([''feature'', ''feature_desc''] @ the (cs_desc f) # the (cs_name f) # post). k \<noteq> ''feature_name''"
    using config_blocks [of f] Cons.prems(1) by auto
  from tech_feature [OF p(2) Cons.prems(2)] have
    "tech_at (c @ the (cs_name f) @ ''|'') (h @ take 255 (the (cs_desc f)) @ line_feed) True
      (foldl (\<lambda>st k. tech_token k st) st (config_scalars f))" unfolding p(1) .
  from Cons.IH [OF _ this] Cons.prems(1) show ?case by simp
qed simp

section \<open>diag-dump\<close>

lemma diag_tokens_path:
  assumes "lpath f_next (features h) p (map fst gs)" "list_all2 (feature_at h) gs fs"
    and "\<forall>f\<in>set fs. fs_flag f = ENABLE \<longrightarrow> fs_desc f \<noteq> None"
  shows "diag_tokens p h (take 4999 c, take 25599 t, i) = Some (Inr
    (take 4999 (c @ concat (map (\<lambda>f. fs_name f @ ''|'') (filter (\<lambda>f. fs_flag f = ENABLE) fs))),
     take 25599 (t @ concat (map (\<lambda>f. the (fs_desc f) @ line_feed) (filter (\<lambda>f. fs_flag f = ENABLE) fs))),
     i \<or> (\<exists>f\<in>set fs. fs_flag f = ENABLE)))"
  using assms
proof (induction gs arbitrary: p fs c t i)
  case Nil
  then show ?case by (simp add: diag_tokens.simps)
next
  case (Cons g gs)
  then obtain f fs' where fs: "fs = f # fs'" "feature_at h g f" "list_all2 (feature_at h) gs fs'"
    by (auto simp: list_all2_Cons1)
  from Cons.prems(1) obtain n where n: "p = Some (fst g)" "features h (fst g) = Some n"
    "lpath f_next (features h) (f_next n) (map fst gs)" by (auto split: option.splits)
  have at: "f_name n = fs_name f" "f_desc n = fs_desc f" "f_diag_flag n = fs_flag f"
    using fs(2) n(2) by (auto simp: feature_at_def feature_val_def)
  have d: "\<forall>f\<in>set fs'. fs_flag f = ENABLE \<longrightarrow> fs_desc f \<noteq> None" using Cons.prems(3) fs(1) by simp
  show ?case
  proof (cases "fs_flag f")
    case DISABLE
    have "diag_tokens p h (take 4999 c, take 25599 t, i) = diag_tokens (f_next n) h (take 4999 c, take 25599 t, i)"
      using n(1,2) at DISABLE by (subst diag_tokens.simps) simp
    with Cons.IH [OF n(3) fs(3) d] show ?thesis using DISABLE fs(1) by (simp del: take_append)
  next
    case ENABLE
    then obtain v where v: "fs_desc f = Some v" using Cons.prems(3) fs(1) by auto
    have "diag_tokens p h (take 4999 c, take 25599 t, i) =
        diag_tokens (f_next n) h (take 4999 (c @ fs_name f @ ''|''), take 25599 (t @ v @ line_feed), True)"
      using n(1,2) at ENABLE v by (subst diag_tokens.simps) (simp add: add_to_5000 add_to_25600 del: take_append)
    with Cons.IH [OF n(3) fs(3) d] show ?thesis using ENABLE fs(1) v by (simp del: take_append)
  qed
qed

section \<open>show vlog\<close>

definition pid_file :: "string \<Rightarrow> bool" where
  "pid_file name \<longleftrightarrow> strstr name ''ops'' \<noteq> None \<and> strstr name ''.pid'' \<noteq> None"

lemma strtok_before_dot:
  assumes "CHR ''.'' \<notin> set d" "d \<noteq> []" "length d < 99"
  shows "\<exists>r. strtok ''.'' (take 99 (d @ CHR ''.'' # t)) = Some (d, r)"
proof -
  obtain k where k: "99 - length d = Suc k" using assms(3) by (cases "99 - length d") simp_all
  have "take 99 (d @ CHR ''.'' # t) = d @ CHR ''.'' # take k t" using assms(3) k by simp
  then show ?thesis using strtok_first [of d "''.''" "CHR ''.''" "take k t"] assms(1,2) by auto
qed

lemma vlog_tokens_names:
  assumes "\<forall>name\<in>set names. pid_file name \<longrightarrow> (\<exists>t. name = d name @ CHR ''.'' # t) \<and> CHR ''.'' \<notin> set (d name) \<and> d name \<noteq> [] \<and> length (d name) < 99"
  shows "vlog_tokens names (take 9999 c, i) =
    Inr (take 9999 (c @ concat (map (\<lambda>n. d n @ ''|'') (filter pid_file names))), i \<or> (\<exists>n\<in>set names. pid_file n))"
  using assms
proof (induction names arbitrary: c i)
  case (Cons name names)
  show ?case
  proof (cases "pid_file name")
    case True
    then obtain t where t: "name = d name @ CHR ''.'' # t" "CHR ''.'' \<notin> set (d name)" "d name \<noteq> []" "length (d name) < 99"
      using Cons.prems by auto
    from strtok_before_dot [OF t(2-4), of t] t(1) obtain r where "strtok ''.'' (take 99 name) = Some (d name, r)" by auto
    then have "vlog_token name (take 9999 c, i) = Inr (take 9999 (c @ d name @ ''|''), True)"
      using True by (simp add: vlog_token_def pid_file_def add_to_10000 del: take_append)
    with Cons True show ?thesis by (simp del: take_append)
  next
    case False
    then have "vlog_token name (take 9999 c, i) = Inr (take 9999 c, i)" by (auto simp: vlog_token_def pid_file_def)
    with Cons False show ?thesis by (simp del: take_append)
  qed
qed simp

section \<open>show events\<close>

lemma add_to_events: "add_to 255744 (take 255743 a) s = take 255743 (a @ s)"
  using add_to_take [of 255744 a s] by (simp del: take_append)

definition evt_at :: "string \<Rightarrow> string \<Rightarrow> bool \<Rightarrow> evt_st \<Rightarrow> bool" where
  "evt_at c h i st \<longleftrightarrow> evt_cmd st = take 4999 c \<and> evt_help st = take 255743 h \<and> evt_install st = i \<and>
     \<not> evt_found st \<and> \<not> evt_des st \<and> \<not> evt_found_des st"

text \<open>A category of the file: its name, its description and the scalars after them.\<close>

type_synonym category_spec = "string \<times> string \<times> string list"

definition category_scalars :: "category_spec \<Rightarrow> string list" where
  "category_scalars c = (case c of (n, d, r) \<Rightarrow> [''event_category'', n, ''description'', d] @ r)"

definition evt_keys :: "string list" where
  "evt_keys = [''event_category'', ''event_definitions'']"

definition wf_category :: "category_spec \<Rightarrow> bool" where
  "wf_category c \<longleftrightarrow> (case c of (n, d, r) \<Rightarrow> map tolower n \<notin> set evt_keys \<and> (\<forall>k\<in>set (d # r). k \<notin> set evt_keys))"

lemma evt_scalar: "evt_loop (SCALAR_EVENT k # es) st =
    (if fst (evt_token k st) then (True, snd (evt_token k st)) else evt_loop es (snd (evt_token k st)))"
  by (simp add: evt_loop.simps [of "SCALAR_EVENT k # es"] get_yaml_tokens_def)

lemma evt_skip:
  assumes "\<forall>k\<in>set ks. k \<notin> set evt_keys" "evt_at c h i st"
  shows "evt_loop (map SCALAR_EVENT ks @ es) st = evt_loop es st"
  using assms(1)
proof (induction ks)
  case (Cons k ks)
  have "evt_token k st = (False, st)"
    using Cons.prems assms(2) by (auto simp: evt_token_def evt_at_def evt_keys_def)
  with Cons show ?case by (simp add: evt_scalar)
qed simp

lemma lower_all: "strn_conv tolower n 0 (int (length n)) = map tolower n"
  by (cases n) (simp_all add: strn_conv_prefix)

lemma evt_category:
  assumes "wf_category (n, d, r)" "evt_at c h i st"
  shows "\<exists>st'. evt_loop (map SCALAR_EVENT (category_scalars (n, d, r)) @ es) st = evt_loop es st' \<and>
    evt_at (c @ map tolower n @ ''|'') (h @ d @ line_feed) True st'"
proof -
  let ?s1 = "st\<lparr>evt_found := True\<rparr>"
  let ?s2 = "st\<lparr>evt_found := False, evt_cmd := take 4999 (c @ map tolower n @ ''|''), evt_des := True, evt_install := True\<rparr>"
  let ?s3 = "?s2\<lparr>evt_des := False, evt_found_des := True\<rparr>"
  let ?s4 = "?s3\<lparr>evt_help := take 255743 (h @ d @ line_feed), evt_found_des := False\<rparr>"
  note at = assms(2) [unfolded evt_at_def]
  have t1: "evt_token ''event_category'' st = (False, ?s1)" using at by (simp add: evt_token_def)
  have t2: "evt_token n ?s1 = (False, ?s2)"
    using at assms(1) by (auto simp: evt_token_def lower_all add_to_5000 wf_category_def evt_keys_def simp del: take_append)
  have t3: "evt_token ''description'' ?s2 = (False, ?s3)" using at by (simp add: evt_token_def)
  have t4: "evt_token d ?s3 = (False, ?s4)"
    using at assms(1) by (auto simp: evt_token_def add_to_events wf_category_def evt_keys_def simp del: take_append)
  have e4: "evt_at (c @ map tolower n @ ''|'') (h @ d @ line_feed) True ?s4" using at by (simp add: evt_at_def)
  have "evt_loop (map SCALAR_EVENT (category_scalars (n, d, r)) @ es) st = evt_loop (map SCALAR_EVENT r @ es) ?s4"
    unfolding category_scalars_def prod.case list.map append.simps append_Cons append_Nil evt_scalar t1 t2 t3 t4 fst_conv snd_conv if_False
    by (rule refl)
  also have "\<dots> = evt_loop es ?s4" using assms(1) by (intro evt_skip [OF _ e4]) (simp add: wf_category_def)
  finally show ?thesis using e4 by blast
qed

lemma evt_categories:
  assumes "\<forall>x\<in>set cs. wf_category x" "evt_at c h i st"
  shows "\<exists>st'. evt_loop (map SCALAR_EVENT (concat (map category_scalars cs)) @ es) st = evt_loop es st' \<and>
    evt_at (c @ concat (map (\<lambda>x. map tolower (fst x) @ ''|'') cs)) (h @ concat (map (\<lambda>x. fst (snd x) @ line_feed) cs)) (i \<or> cs \<noteq> []) st'"
  using assms
proof (induction cs arbitrary: c h i st)
  case (Cons x cs)
  obtain n d r where x: "x = (n, d, r)" by (cases x)
  from evt_category [of n d r c h i st "map SCALAR_EVENT (concat (map category_scalars cs)) @ es"] Cons.prems x obtain st1 where
    s1: "evt_loop (map SCALAR_EVENT (category_scalars x) @ map SCALAR_EVENT (concat (map category_scalars cs)) @ es) st =
      evt_loop (map SCALAR_EVENT (concat (map category_scalars cs)) @ es) st1"
    "evt_at (c @ map tolower n @ ''|'') (h @ d @ line_feed) True st1" by auto
  from Cons.IH [OF _ s1(2)] Cons.prems(1) s1(1) x show ?case by simp
qed auto

section \<open>Concrete files\<close>

definition demo_reg :: reg_env where
  "demo_reg = \<lparr>rg_alloc = \<lambda>_. True, rg_yaml_init = True,
     rg_showtech = Some (ystream (concat (map config_scalars lldp_config))),
     rg_events = Some (ystream ([''categories''] @ concat (map category_scalars [(''LLDP'', ''LLDP events'', [''category_rank'', ''1''])]) @
       [''event_definitions''])),
     rg_files = Some [''ops-lldpd.pid'', ''db.sock'', ''ops-lacpd.pid''], rg_fm = routing_env,
     rg_doc_tech = ''Show'', rg_doc_events = ''Show''\<rparr>"

definition demo_category :: category_spec where
  "demo_category = (''LLDP'', ''LLDP events'', [''category_rank'', ''1''])"

lemma reg_lower: "map tolower ''LLDP'' = ''lldp''"
  by code_simp

lemma demo_reg_file:
  "rg_events demo_reg = Some (ystream ([''categories''] @ concat (map category_scalars [demo_category]) @ [''event_definitions'']))"
  "\<forall>k\<in>set [''categories'']. k \<notin> set evt_keys" "\<forall>x\<in>set [demo_category]. wf_category x"
  "rg_showtech demo_reg = Some (ystream (concat (map config_scalars lldp_config)))" "lldp_config \<noteq> []"
  unfolding wf_category_def demo_category_def
  by (simp_all only: list.set ball_simps prod.case reg_lower) (simp_all add: demo_reg_def evt_keys_def lldp_config_def)

lemma demo_alloc: "rg_alloc demo_reg k" "rg_yaml_init demo_reg"
  by (simp_all add: demo_reg_def)

section \<open>Properties\<close>

lemma install_tech_run:
  assumes "rg_showtech env = Some (ystream (concat (map config_scalars fs)))" "\<forall>f\<in>set fs. wf_config f" "fs \<noteq> []"
    and "\<And>k. rg_alloc env k" "rg_yaml_init env"
  shows "install_show_tech env = (0, Some
    (take 4999 (''show tech ('' @ concat (map (\<lambda>f. the (cs_name f) @ ''|'') fs) @ '') {localfile FILENAME}''),
     take 25599 (rg_doc_tech env @ concat (map (\<lambda>f. take 255 (the (cs_desc f)) @ line_feed) fs) @ SHOW_TECH_FILE_STR @ SHOW_TECH_FILENAME_STR)))"
proof -
  define st0 where "st0 = \<lparr>tech_cmd = start_with MAX_CMD_SIZE ''show tech ('',
     tech_help = start_with MAX_FEATURE_HELP_SIZE (rg_doc_tech env), tech_found = False, tech_install = False,
     tech_prev = [], tech_desc = []\<rparr>"
  have "tech_at ''show tech ('' (rg_doc_tech env) False st0" by (simp add: st0_def tech_at_def start_with_def)
  from tech_configs [OF assms(2) this] assms(3)
  have at: "tech_at (''show tech ('' @ concat (map (\<lambda>f. the (cs_name f) @ ''|'') fs))
      (rg_doc_tech env @ concat (map (\<lambda>f. take 255 (the (cs_desc f)) @ line_feed) fs)) True
      (tech_loop (ystream (concat (map config_scalars fs))) st0)" by (simp add: tech_loop_fold)
  have gen: "install_show_tech env = (0, Some (take 4999 (c @ '') {localfile FILENAME}''), take 25599 (h @ SHOW_TECH_FILE_STR @ SHOW_TECH_FILENAME_STR)))"
    if "tech_at c h True (tech_loop (ystream (concat (map config_scalars fs))) st0)" for c h
    unfolding install_show_tech_def assms(1) option.case Let_def st0_def [symmetric]
    using that assms(4,5) by (simp add: tech_at_def add_to_5000 add_to_25600 del: take_append)
  show ?thesis using gen [OF at] by (simp only: append_assoc)
qed

text \<open>C37: from a well-formed configuration the command \<open>show tech\<close> is installed with the names of
  its features as its words, each followed by a bar, in the order of the file, and with their
  descriptions as help, both cut to the sizes of their buffers.\<close>

theorem install_show_tech_words:
  assumes "rg_showtech env = Some (ystream (concat (map config_scalars fs)))" "\<forall>f\<in>set fs. wf_config f" "fs \<noteq> []"
    and "\<And>k. rg_alloc env k" "rg_yaml_init env"
  shows "install_show_tech env = (0, Some
    (take 4999 (''show tech ('' @ concat (map (\<lambda>f. the (cs_name f) @ ''|'') fs) @ '') {localfile FILENAME}''),
     take 25599 (rg_doc_tech env @ concat (map (\<lambda>f. take 255 (the (cs_desc f)) @ line_feed) fs) @ SHOW_TECH_FILE_STR @ SHOW_TECH_FILENAME_STR)))"
  using assms by (rule install_tech_run)

lemma install_show_tech_words_witness:
  "install_show_tech demo_reg = (0, Some (take 4999 (''show tech ('' @ ''lldp|'' @ ''lacp|'' @ '') {localfile FILENAME}''),
     take 25599 (rg_doc_tech demo_reg @ concat (map (\<lambda>f. take 255 (the (cs_desc f)) @ line_feed) lldp_config) @
       SHOW_TECH_FILE_STR @ SHOW_TECH_FILENAME_STR)))"
proof -
  have x: "rg_showtech demo_reg = Some (ystream (concat (map config_scalars lldp_config)))" "lldp_config \<noteq> []"
    "concat (map (\<lambda>f. the (cs_name f) @ ''|'') lldp_config) = ''lldp|'' @ ''lacp|''"
    by (simp_all add: demo_reg_def lldp_config_def)
  show ?thesis using install_show_tech_words [OF x(1) lldp_config_wf x(2) demo_alloc, unfolded x(3)] by (simp only: append_assoc)
qed

lemma install_events_run:
  assumes "rg_events env = Some (ystream (pre @ concat (map category_scalars cs) @ post))"
    and "\<forall>k\<in>set pre. k \<notin> set evt_keys" "\<forall>x\<in>set cs. wf_category x" "cs \<noteq> []"
    and "post = [] \<or> hd post = ''event_definitions''" "\<And>k. rg_alloc env k" "rg_yaml_init env"
  shows "install_show_evnts env = (0, if post = [] then None else Some
    (take 4999 (SHOW_EVENTS_CMD @ concat (map (\<lambda>x. map tolower (fst x) @ ''|'') cs) @ '')}''),
     take 255743 (rg_doc_events env @ concat (map (\<lambda>x. fst (snd x) @ line_feed) cs))))"
proof -
  define st0 where "st0 = \<lparr>evt_cmd = start_with MAX_CMD_SIZE SHOW_EVENTS_CMD,
     evt_help = start_with MAX_EV_HELP_SIZE (rg_doc_events env), evt_found = False, evt_des = False,
     evt_found_des = False, evt_install = False\<rparr>"
  let ?c = "SHOW_EVENTS_CMD @ concat (map (\<lambda>x. map tolower (fst x) @ ''|'') cs)"
  let ?h = "rg_doc_events env @ concat (map (\<lambda>x. fst (snd x) @ line_feed) cs)"
  let ?tail = "map SCALAR_EVENT post @ [STREAM_END_EVENT]"
  have a0: "evt_at SHOW_EVENTS_CMD (rg_doc_events env) False st0" by (simp add: st0_def evt_at_def start_with_def)
  have "evt_loop (ystream (pre @ concat (map category_scalars cs) @ post)) st0 =
      evt_loop (map SCALAR_EVENT (concat (map category_scalars cs)) @ ?tail) st0"
    using evt_skip [OF assms(2) a0] by (simp add: ystream_def)
  moreover obtain st1 where "evt_loop (map SCALAR_EVENT (concat (map category_scalars cs)) @ ?tail) st0 = evt_loop ?tail st1"
    "evt_at ?c ?h True st1" using evt_categories [OF assms(3) a0, of ?tail] assms(4) by auto
  moreover from this(2) have "evt_loop ?tail st1 = (post \<noteq> [], st1)"
  proof (cases post)
    case Nil
    then show ?thesis by (simp add: evt_loop.simps [of "[STREAM_END_EVENT]"] get_yaml_tokens_def)
  next
    case (Cons k ks)
    moreover have "evt_token ''event_definitions'' st1 = (True, st1)"
      using \<open>evt_at ?c ?h True st1\<close> by (simp add: evt_token_def evt_at_def)
    ultimately show ?thesis using assms(5) by (simp add: evt_scalar)
  qed
  ultimately have "evt_loop (ystream (pre @ concat (map category_scalars cs) @ post)) st0 = (post \<noteq> [], st1)"
    "evt_at ?c ?h True st1" by simp_all
  moreover have "install_show_evnts env = (0, if post = [] then None else Some (take 4999 (c @ '')}''), take 255743 h))"
    if "evt_loop (ystream (pre @ concat (map category_scalars cs) @ post)) st0 = (post \<noteq> [], st1)" "evt_at c h True st1" for c h
    unfolding install_show_evnts_def assms(1) option.case st0_def [symmetric] that(1)
    using that(2) assms(6,7) by (simp add: evt_at_def add_to_5000 del: take_append)
  ultimately have "install_show_evnts env = (0, if post = [] then None else Some (take 4999 (?c @ '')}''), take 255743 ?h))" by blast
  then show ?thesis by (simp only: append_assoc)
qed

text \<open>C38: from a well-formed events file \<open>show events\<close> is installed with its categories in small
  letters as words, in the order of the file, and with their descriptions as help; without the
  line that starts the definitions nothing is installed, though the function reports success.\<close>

theorem install_show_events_words:
  assumes "rg_events env = Some (ystream (pre @ concat (map category_scalars cs) @ post))"
    and "\<forall>k\<in>set pre. k \<notin> set evt_keys" "\<forall>x\<in>set cs. wf_category x" "cs \<noteq> []"
    and "post = [] \<or> hd post = ''event_definitions''" "\<And>k. rg_alloc env k" "rg_yaml_init env"
  shows "install_show_evnts env = (0, if post = [] then None else Some
    (take 4999 (SHOW_EVENTS_CMD @ concat (map (\<lambda>x. map tolower (fst x) @ ''|'') cs) @ '')}''),
     take 255743 (rg_doc_events env @ concat (map (\<lambda>x. fst (snd x) @ line_feed) cs))))"
  using assms by (rule install_events_run)

lemma install_show_events_words_witness:
  "install_show_evnts demo_reg = (0, Some (take 4999 (SHOW_EVENTS_CMD @ ''lldp|'' @ '')}''),
     take 255743 (rg_doc_events demo_reg @ ''LLDP events'' @ line_feed)))"
proof -
  have n: "concat (map (\<lambda>x. map tolower (fst x) @ ''|'') [demo_category]) = ''lldp|''"
    using reg_lower by (simp add: demo_category_def)
  have h: "concat (map (\<lambda>x. fst (snd x) @ line_feed) [demo_category]) = ''LLDP events'' @ line_feed" by (simp add: demo_category_def)
  have p: "[demo_category] \<noteq> []" "[''event_definitions''] = [] \<or> hd [''event_definitions''] = ''event_definitions''" by simp_all
  show ?thesis using install_show_events_words [OF demo_reg_file(1-3) p demo_alloc, unfolded n h] by (simp only: list.distinct if_False)
qed

lemma diag_tokens_none:
  assumes "lpath f_next (features h) p (map fst gs)" "list_all2 (feature_at h) gs fs"
    and "\<exists>f\<in>set fs. fs_flag f = ENABLE \<and> fs_desc f = None"
  shows "diag_tokens p h st = Some (Inl NullDeref)"
  using assms
proof (induction gs arbitrary: p fs st)
  case (Cons g gs)
  then obtain f fs' where fs: "fs = f # fs'" "feature_at h g f" "list_all2 (feature_at h) gs fs'"
    by (auto simp: list_all2_Cons1)
  from Cons.prems(1) obtain n where n: "p = Some (fst g)" "features h (fst g) = Some n"
    "lpath f_next (features h) (f_next n) (map fst gs)" by (auto split: option.splits)
  have at: "f_name n = fs_name f" "f_desc n = fs_desc f" "f_diag_flag n = fs_flag f"
    using fs(2) n(2) by (auto simp: feature_at_def feature_val_def)
  show ?case
  proof (cases "fs_flag f = ENABLE \<and> fs_desc f = None")
    case True
    then show ?thesis using n(1,2) at by (subst diag_tokens.simps) simp
  next
    case False
    then have "\<exists>f\<in>set fs'. fs_flag f = ENABLE \<and> fs_desc f = None" using Cons.prems(3) fs(1) by auto
    from Cons.IH [OF n(3) fs(3) this] show ?thesis using n(1,2) at False
      by (cases "fs_flag f"; cases "fs_desc f"; subst diag_tokens.simps) simp_all
  qed
qed simp

text \<open>The mapping that the call of \<open>get_feature_mapping\<close> hands over.\<close>

definition reg_loads :: "reg_env \<Rightarrow> fm \<Rightarrow> fm \<Rightarrow> feature_spec list \<Rightarrow> bool" where
  "reg_loads env h h1 fs \<longleftrightarrow> get_feature_mapping (rg_fm env) h = Inr (feature_head h1, h1) \<and> (\<exists>gs. fm_rep h1 gs fs)"

lemma demo_reg_loads: "\<exists>h1. reg_loads demo_reg fm0 h1 [routing_feature]"
proof -
  obtain h gs where "get_feature_mapping routing_env fm0 = Inr (feature_head h, h)"
    "fm_rep h gs (snd (spec_parse (yscalars (ystream (concat (map feature_scalars [routing_feature])))) (0, [])))"
    using mapping_run [of routing_env "ystream (concat (map feature_scalars [routing_feature]))"] by (auto simp: routing_env_def)
  with spec_features [of "[routing_feature]" 0 "[]"] routing_wf show ?thesis
    by (auto simp: reg_loads_def demo_reg_def)
qed

text \<open>\<open>diag-dump\<close> is installed with the names of the features that support it as its words, in the
  order of the file, and with their descriptions as help; when no feature does, it is not
  installed and the function reports success all the same.\<close>

theorem install_diag_dump_words:
  assumes "reg_loads env h h1 fs" "\<And>k. rg_alloc env k"
    and "\<forall>f\<in>set fs. fs_flag f = ENABLE \<longrightarrow> fs_desc f \<noteq> None" "on = filter (\<lambda>f. fs_flag f = ENABLE) fs"
  shows "install_diag_dump env h = Some (Inr ((0, if on = [] then None else Some
    (take 4999 (''diag-dump ('' @ concat (map (\<lambda>f. fs_name f @ ''|'') on) @ '') basic [FILENAME]''),
     take 25599 ((''Display diagnostic dump'' @ line_feed) @ concat (map (\<lambda>f. the (fs_desc f) @ line_feed) on) @ concat diag_help))), h1))"
proof -
  obtain gs where gs: "lpath f_next (features h1) (feature_head h1) (map fst gs)" "list_all2 (feature_at h1) gs fs"
    using assms(1) by (auto simp: reg_loads_def fm_rep_def)
  have g: "get_feature_mapping (rg_fm env) h = Inr (feature_head h1, h1)" using assms(1) by (simp add: reg_loads_def)
  have e: "(\<exists>f\<in>set fs. fs_flag f = ENABLE) \<longleftrightarrow> on \<noteq> []" using assms(4) by (auto simp: filter_empty_conv)
  have st: "start_with MAX_CMD_SIZE c = take 4999 c" "start_with MAX_FEATURE_HELP_SIZE c = take 25599 c" for c
    by (simp_all add: start_with_def)
  note tok = diag_tokens_path [OF gs assms(3), of "''diag-dump (''" "''Display diagnostic dump'' @ line_feed" False, folded assms(4)]
  have f: "foldl (add_to MAX_FEATURE_HELP_SIZE) (take 25599 a) ss = take 25599 (a @ concat ss)" for a ss
    using foldl_add_to [of 25600 a ss] by (simp del: take_append)
  show ?thesis
    unfolding install_diag_dump_def g and_then_simps prod.case st tok f add_to_5000 e append_assoc
    using assms(2) by simp
qed

lemma install_diag_dump_words_witness:
  "\<exists>h1. install_diag_dump demo_reg fm0 = Some (Inr ((0, None), h1))"
proof -
  obtain h1 where "reg_loads demo_reg fm0 h1 [routing_feature]" using demo_reg_loads by blast
  from install_diag_dump_words [OF this demo_alloc(1) _ refl] show ?thesis by (simp add: routing_feature_def)
qed

text \<open>C39: when a feature that supports diag-dump has no description, the start of the shell ends in
  a NULL pointer, provided the two commands before were installed.\<close>

theorem post_init_crashes_without_description:
  assumes "reg_loads env h h1 fs" "\<And>k. rg_alloc env k" "\<exists>f\<in>set fs. fs_flag f = ENABLE \<and> fs_desc f = None"
    and "fst (install_show_evnts env) = 0" "fst (install_show_tech env) = 0"
  shows "cli_post_init env ctx h = Some (Inl NullDeref)"
proof -
  obtain gs where gs: "lpath f_next (features h1) (feature_head h1) (map fst gs)" "list_all2 (feature_at h1) gs fs"
    using assms(1) by (auto simp: reg_loads_def fm_rep_def)
  have g: "get_feature_mapping (rg_fm env) h = Inr (feature_head h1, h1)" using assms(1) by (simp add: reg_loads_def)
  have d: "install_diag_dump env h = Some (Inl NullDeref)"
    unfolding install_diag_dump_def g and_then_simps prod.case diag_tokens_none [OF gs assms(3)] using assms(2) by simp
  obtain c1 c2 where c: "install_show_evnts env = (0, c1)" "install_show_tech env = (0, c2)"
    using assms(4,5) by (metis prod.collapse)
  show ?thesis unfolding cli_post_init_def c prod.case d by simp
qed

text \<open>A mapping whose only feature has no description.\<close>

definition bare_feature :: feature_spec where
  "bare_feature = \<lparr>fs_name = ''routing'', fs_desc = None, fs_daemons = [], fs_flag = ENABLE\<rparr>"

definition bare_fm :: fm where
  "bare_fm = \<lparr>feature_head = Some 1, features = [1 \<mapsto> \<lparr>f_name = ''routing'', f_desc = None, p_daemon = None, f_diag_flag = ENABLE, f_next = None\<rparr>],
     daemons = Map.empty, brk = 2\<rparr>"

lemma bare_loads: "reg_loads demo_reg bare_fm bare_fm [bare_feature]"
proof -
  have "fm_rep bare_fm [(1, [])] [bare_feature]"
    by (simp add: fm_rep_def bare_fm_def bare_feature_def feature_at_def feature_val_def)
  then show ?thesis by (auto simp: reg_loads_def get_feature_mapping_def) (simp add: bare_fm_def)
qed

lemma post_init_crashes_without_description_witness:
  "cli_post_init demo_reg True bare_fm = Some (Inl NullDeref)"
proof -
  have "\<exists>f\<in>set [bare_feature]. fs_flag f = ENABLE \<and> fs_desc f = None" by (simp add: bare_feature_def)
  moreover have "fst (install_show_evnts demo_reg) = 0"
    using install_events_run [OF demo_reg_file(1-3) _ _ demo_alloc] by simp
  moreover have "fst (install_show_tech demo_reg) = 0"
    using install_tech_run [OF demo_reg_file(4) lldp_config_wf demo_reg_file(5) demo_alloc] by simp
  ultimately show ?thesis by (rule post_init_crashes_without_description [OF bare_loads demo_alloc(1)])
qed

text \<open>The registration stops at the first of its four files that is missing: without the events
  file no command of the package is installed at all, without the show tech configuration only
  \<open>show events\<close> and the two plain forms of \<open>show tech\<close> are.\<close>

theorem post_init_stops:
  assumes "rg_events env = None \<or> rg_showtech env = None \<and> install_show_evnts env = (0, Some c)"
  shows "cli_post_init env ctx h = Some (Inr (if rg_events env = None then []
    else [(ENABLE_NODE, ''cli_platform_show_events_cmd''), (ENABLE_NODE, ''cli_platform_show_tech_cmd''),
      (ENABLE_NODE, ''cli_platform_show_tech_file_cmd'')], True))"
proof (cases "rg_events env")
  case None
  then have "install_show_evnts env = (1, None)" by (simp add: install_show_evnts_def)
  with None show ?thesis by (simp add: cli_post_init_def)
next
  case (Some es)
  with assms have "install_show_tech env = (1, None)" "install_show_evnts env = (0, Some c)" by (simp_all add: install_show_tech_def)
  with Some show ?thesis by (simp add: cli_post_init_def elements_def show_tech_elements_def)
qed

lemma post_init_stops_witness:
  "cli_post_init (demo_reg\<lparr>rg_events := None\<rparr>) True fm0 = Some (Inr ([], True))"
  using post_init_stops [of "demo_reg\<lparr>rg_events := None\<rparr>"] by simp

text \<open>\<open>show vlog\<close> is installed with the names of the pid files of the daemons up to their first dot,
  in the order of the directory, cut to the size of its buffer; without such a file the
  installation fails.\<close>

theorem install_show_vlog_words:
  assumes "rg_files env = Some names" "rg_alloc env 0"
    and "\<forall>name\<in>set names. pid_file name \<longrightarrow> (\<exists>t. name = d name @ CHR ''.'' # t) \<and> CHR ''.'' \<notin> set (d name) \<and> d name \<noteq> [] \<and> length (d name) < 99"
    and "on = filter pid_file names"
  shows "install_show_vlog env = Inr (if on = [] then (1, None)
    else (0, Some (take 9999 (VLOG_CMD @ concat (map (\<lambda>n. d n @ ''|'') on) @ '')}''))))"
proof (cases names)
  case Nil
  then show ?thesis using assms(1,2,4) by (simp add: install_show_vlog_def)
next
  case (Cons x xs)
  then have ne: "names \<noteq> []" by simp
  have e: "(\<exists>n\<in>set names. pid_file n) \<longleftrightarrow> on \<noteq> []" using assms(4) by (auto simp: filter_empty_conv)
  have st: "start_with MAX_VLOG_CMD c = take 9999 c" for c by (simp add: start_with_def)
  show ?thesis
    unfolding install_show_vlog_def assms(1) option.case st vlog_tokens_names [OF assms(3), folded assms(4)] e
    using ne assms(2) by (simp add: add_to_10000 del: take_append)
qed

lemma install_show_vlog_words_witness:
  "install_show_vlog demo_reg = Inr (0, Some (take 9999 (VLOG_CMD @ ''ops-lldpd|'' @ ''ops-lacpd|'' @ '')}'')))"
proof -
  have p: "pid_file ''ops-lldpd.pid''" "pid_file ''ops-lacpd.pid''" "\<not> pid_file ''db.sock''" by (code_simp)+
  let ?d = "\<lambda>n. takeWhile (\<lambda>c. c \<noteq> CHR ''.'') n"
  have f: "rg_files demo_reg = Some [''ops-lldpd.pid'', ''db.sock'', ''ops-lacpd.pid'']" by (simp add: demo_reg_def)
  have w: "\<forall>name\<in>set [''ops-lldpd.pid'', ''db.sock'', ''ops-lacpd.pid'']. pid_file name \<longrightarrow>
      (\<exists>t. name = ?d name @ CHR ''.'' # t) \<and> CHR ''.'' \<notin> set (?d name) \<and> ?d name \<noteq> [] \<and> length (?d name) < 99"
    by simp
  have fl: "filter pid_file [''ops-lldpd.pid'', ''db.sock'', ''ops-lacpd.pid''] = [''ops-lldpd.pid'', ''ops-lacpd.pid'']"
    using p by simp
  have c: "concat (map (\<lambda>n. ?d n @ ''|'') [''ops-lldpd.pid'', ''ops-lacpd.pid'']) = ''ops-lldpd|'' @ ''ops-lacpd|''" by simp
  show ?thesis using install_show_vlog_words [OF f demo_alloc(1) w refl, unfolded fl c]
    by (simp only: list.distinct if_False append_assoc)
qed

end
