(* ===== verification/Ospf_Debug.thy ===== *)
theory Ospf_Debug
  imports Feature_Walk Vtysh
begin

text \<open>
  \<open>src/src/cli/quagga/ospf_debug_vty.c\<close>: \<open>debug ospfv2\<close>, \<open>no debug ospfv2\<close> and \<open>show debugging
  ospfv2\<close> pass their words on to every daemon of the feature. The file has a connection and a
  feature list of its own.
\<close>

section \<open>State and environment\<close>

record ospf_env =
  os_fm :: fm_env
  os_conn :: daemon_env
  os_transact :: "string \<Rightarrow> string \<Rightarrow> string list \<Rightarrow> int \<times> string option \<times> string option"
    \<comment> \<open>\<open>unixctl_client_transact\<close>: its return value, \<open>cmd_result\<close>, \<open>cmd_error\<close>\<close>
  os_nl :: string

text \<open>\<open>ohead\<close> and \<open>oinit\<close> are the static \<open>feature_head\<close> and \<open>initialized\<close>; \<open>osent\<close> the requests made.\<close>

record ospf_run =
  oheap :: fm
  ohead :: "addr option"
  oinit :: bool
  oout :: "string list"
  osent :: "(string \<times> string \<times> string list) list"

definition osay :: "string list \<Rightarrow> ospf_run \<Rightarrow> ospf_run" where
  "osay ts s = s\<lparr>oout := oout s @ ts\<rparr>"

definition OSPF_ERR_STR :: string where
  "OSPF_ERR_STR = ''Error in retrieving the mapping of feature names to daemon names''"

section \<open>Connecting\<close>

definition vtysh_ospf_read_pid_file :: "daemon_env \<Rightarrow> string option \<Rightarrow> int" where
  "vtysh_ospf_read_pid_file env pidfile = (case pidfile of
     None \<Rightarrow> - 1
   | Some name \<Rightarrow> (case file_text env name of
         None \<Rightarrow> - 1
       | Some text \<Rightarrow> (case fscanf_d text of (rc, pid) \<Rightarrow>
           if rc \<ge> MIN_PID_LEN \<and> rc \<le> MAX_PID_LEN \<and> pid \<ge> MIN_PID \<and> pid \<le> MAX_PID then pid else - 1)))"

definition vtysh_ospf_connect_to_target :: "daemon_env \<Rightarrow> string option \<Rightarrow> string option" where
  "vtysh_ospf_connect_to_target env target = (case target of
     None \<Rightarrow> None
   | Some t \<Rightarrow> (case ovs_rundir env of
         None \<Rightarrow> None
       | Some rundir \<Rightarrow>
           (let create = (\<lambda>socket_name. if client_create env socket_name \<noteq> 0 then None else Some socket_name)
            in if t = [] \<or> hd t \<noteq> CHR ''/'' then
                 (let pid = vtysh_ospf_read_pid_file env (Some (rundir @ ''/'' @ t @ ''.pid''))
                  in if pid < 0 then None else create (rundir @ ''/'' @ t @ ''.'' @ show_int pid @ ''.ctl''))
               else create t)))"

section \<open>One daemon\<close>

text \<open>\<open>cmd_type\<close> is the part of the array that was filled; a count beyond it hands over pointers
  without a value.\<close>

definition vtysh_set_ospf_debug ::
    "ospf_env \<Rightarrow> string \<Rightarrow> string list \<Rightarrow> nat \<Rightarrow> int \<Rightarrow> ospf_run \<Rightarrow> (cmd_ret \<times> ospf_run) cres" where
  "vtysh_set_ospf_debug env daemon cmd_type cmd_argc flag s =
     (case vtysh_ospf_connect_to_target (os_conn env) (Some daemon) of
        None \<Rightarrow> Inr (CMD_WARNING, osay [''failed to connect daemon '' @ daemon @ '' '' @ os_nl env] s)
      | Some client \<Rightarrow>
          if flag \<notin> {0, 1, 2} then Inr (CMD_WARNING, osay [''Error occured.'' @ os_nl env] s)
          else if length cmd_type < cmd_argc then Inl UseAfterFree
          else
            (let cmd = (if flag = 0 then ''ospf/debug'' else if flag = 1 then ''ospf/show-debug'' else ''ospf/no-debug'');
                 args = take cmd_argc cmd_type;
                 s1 = s\<lparr>osent := osent s @ [(client, cmd, args)]\<rparr>
             in case os_transact env client cmd args of (rc, cmd_result, cmd_error) \<Rightarrow>
               if rc \<noteq> 0 then Inr (CMD_WARNING, s1)
               else (let s2 = (case cmd_result of None \<Rightarrow> s1 | Some r \<Rightarrow> osay [r @ os_nl env] s1)
                 in Inr (if cmd_error \<noteq> None then CMD_WARNING else CMD_SUCCESS, s2))))"

partial_function (option) ospf_daemons ::
    "ospf_env \<Rightarrow> string list \<Rightarrow> nat \<Rightarrow> int \<Rightarrow> addr option \<Rightarrow> ospf_run \<Rightarrow> ospf_run cres option" where
  "ospf_daemons env cmd_type cmd_argc flag p s = (case p of
     None \<Rightarrow> Some (Inr s)
   | Some a \<Rightarrow> (case daemons (oheap s) a of
         None \<Rightarrow> Some (Inl UseAfterFree)
       | Some n \<Rightarrow> (case vtysh_set_ospf_debug env (d_name n) cmd_type cmd_argc flag s of
             Inl e \<Rightarrow> Some (Inl e)
           | Inr r \<Rightarrow> ospf_daemons env cmd_type cmd_argc flag (d_next n) (snd r))))"

section \<open>The commands\<close>

text \<open>The common part: the mapping, loaded once, the feature named by the first argument and its
  daemons. A feature that is not there is a NULL pointer that is followed.\<close>

definition ospf_feature ::
    "ospf_env \<Rightarrow> string \<Rightarrow> string list \<Rightarrow> nat \<Rightarrow> int \<Rightarrow> ospf_run \<Rightarrow> (cmd_ret \<times> ospf_run) cres option" where
  "ospf_feature env name cmd_type cmd_argc flag s =
     and_then (Some (if oinit s then Inr (ohead s, oheap s) else get_feature_mapping (os_fm env) (oheap s))) (\<lambda>(head, h).
       if head = None \<and> \<not> oinit s
       then Some (Inr (CMD_WARNING, osay [OSPF_ERR_STR @ os_nl env] (s\<lparr>oheap := h, ohead := head\<rparr>)))
       else and_then (find_feature name head h) (\<lambda>iter. case iter of
           None \<Rightarrow> Some (Inl NullDeref)
         | Some n \<Rightarrow> and_then (ospf_daemons env cmd_type cmd_argc flag (p_daemon n) (s\<lparr>oheap := h, ohead := head, oinit := True\<rparr>))
             (\<lambda>s1. Some (Inr (CMD_SUCCESS, s1)))))"

definition show_debugging_info :: "ospf_env \<Rightarrow> string list \<Rightarrow> ospf_run \<Rightarrow> (cmd_ret \<times> ospf_run) cres option" where
  "show_debugging_info env argv s =
     (if argv = [] then Some (Inl OutOfBounds)
      else ospf_feature env (hd argv) [hd argv] (length argv) 1 s)"

definition ospf_debug :: "ospf_env \<Rightarrow> string list \<Rightarrow> int \<Rightarrow> ospf_run \<Rightarrow> (cmd_ret \<times> ospf_run) cres option" where
  "ospf_debug env argv flag s =
     (if length argv < 2 \<or> length argv > 5 then Some (Inr (CMD_WARNING, s))
      else ospf_feature env (hd argv) argv (length argv) flag s)"

definition debug_ospf_packet where "debug_ospf_packet env argv = ospf_debug env argv 0"
definition no_debug_ospf_packet where "no_debug_ospf_packet env argv = ospf_debug env argv 2"
definition debug_ospf_ism where "debug_ospf_ism env argv = ospf_debug env argv 0"
definition no_debug_ospf_ism where "no_debug_ospf_ism env argv = ospf_debug env argv 2"
definition debug_ospf_nsm where "debug_ospf_nsm env argv = ospf_debug env argv 0"
definition no_debug_ospf_nsm where "no_debug_ospf_nsm env argv = ospf_debug env argv 2"
definition debug_ospf_lsa where "debug_ospf_lsa env argv = ospf_debug env argv 0"
definition no_debug_ospf_lsa where "no_debug_ospf_lsa env argv = ospf_debug env argv 2"
definition debug_ospf_event where "debug_ospf_event env argv = ospf_debug env argv 0"
definition no_debug_ospf_event where "no_debug_ospf_event env argv = ospf_debug env argv 2"
definition debug_ospf_nssa where "debug_ospf_nssa env argv = ospf_debug env argv 0"
definition no_debug_ospf_nssa where "no_debug_ospf_nssa env argv = ospf_debug env argv 2"
definition debug_ospf_intf_redst where "debug_ospf_intf_redst env argv = ospf_debug env argv 0"
definition no_debug_ospf_intf_redst where "no_debug_ospf_intf_redst env argv = ospf_debug env argv 2"

section \<open>The loop over the daemons\<close>

lemma osay_fields [simp]: "oheap (osay ts s) = oheap s" "osent (osay ts s) = osent s" "oout (osay ts s) = oout s @ ts"
  by (simp_all add: osay_def)

text \<open>What one daemon is sent and what it prints.\<close>

definition ospf_target :: "ospf_env \<Rightarrow> string \<Rightarrow> string option" where
  "ospf_target env d = vtysh_ospf_connect_to_target (os_conn env) (Some d)"

definition ospf_cmd :: "int \<Rightarrow> string" where
  "ospf_cmd flag = (if flag = 0 then ''ospf/debug'' else if flag = 1 then ''ospf/show-debug'' else ''ospf/no-debug'')"

definition ospf_says :: "ospf_env \<Rightarrow> int \<Rightarrow> string list \<Rightarrow> string \<Rightarrow> string list" where
  "ospf_says env flag argv d = (case ospf_target env d of
     None \<Rightarrow> [''failed to connect daemon '' @ d @ '' '' @ os_nl env]
   | Some c \<Rightarrow> (case os_transact env c (ospf_cmd flag) argv of (rc, r, e) \<Rightarrow>
       if rc \<noteq> 0 then [] else case r of None \<Rightarrow> [] | Some t \<Rightarrow> [t @ os_nl env]))"

definition ospf_sends :: "ospf_env \<Rightarrow> int \<Rightarrow> string list \<Rightarrow> string \<Rightarrow> (string \<times> string \<times> string list) list" where
  "ospf_sends env flag argv d = (case ospf_target env d of None \<Rightarrow> [] | Some c \<Rightarrow> [(c, ospf_cmd flag, argv)])"

lemma set_ospf_debug_run:
  assumes "flag \<in> {0, 1, 2}"
  shows "\<exists>rc. vtysh_set_ospf_debug env d argv (length argv) flag s =
    Inr (rc, s\<lparr>oout := oout s @ ospf_says env flag argv d, osent := osent s @ ospf_sends env flag argv d\<rparr>)"
proof (cases "ospf_target env d")
  case None
  then show ?thesis by (simp add: vtysh_set_ospf_debug_def ospf_target_def ospf_says_def ospf_sends_def osay_def)
next
  case (Some c)
  obtain rc r e where t: "os_transact env c (ospf_cmd flag) argv = (rc, r, e)" by (metis prod_cases3)
  show ?thesis using assms Some t
    by (cases "rc = 0"; cases r)
      (auto simp: vtysh_set_ospf_debug_def ospf_target_def ospf_says_def ospf_sends_def ospf_cmd_def osay_def Let_def)
qed

lemma ospf_daemons_path:
  assumes "flag \<in> {0, 1, 2}" "lpath d_next (daemons (oheap s)) p as" "map fst (contents daemon_val (daemons (oheap s)) as) = ds"
  shows "ospf_daemons env argv (length argv) flag p s = Some (Inr (s\<lparr>oout := oout s @ concat (map (ospf_says env flag argv) ds),
    osent := osent s @ concat (map (ospf_sends env flag argv) ds)\<rparr>))"
  using assms(2,3)
proof (induction as arbitrary: p s ds)
  case Nil
  then show ?case by (simp add: ospf_daemons.simps)
next
  case (Cons a as)
  from Cons.prems(1) obtain n where n: "p = Some a" "daemons (oheap s) a = Some n"
    "lpath d_next (daemons (oheap s)) (d_next n) as" by (auto split: option.splits)
  define ds' where "ds' = map fst (contents daemon_val (daemons (oheap s)) as)"
  have ds: "ds = d_name n # ds'" using Cons.prems(2) n(2) by (simp add: ds'_def daemon_val_def [of n] flip: Cons.prems(2))
  let ?s = "s\<lparr>oout := oout s @ ospf_says env flag argv (d_name n), osent := osent s @ ospf_sends env flag argv (d_name n)\<rparr>"
  obtain rc where "vtysh_set_ospf_debug env (d_name n) argv (length argv) flag s = Inr (rc, ?s)"
    using set_ospf_debug_run [OF assms(1)] by blast
  then have "ospf_daemons env argv (length argv) flag p s = ospf_daemons env argv (length argv) flag (d_next n) ?s"
    using n(1,2) by (subst ospf_daemons.simps) simp
  with Cons.IH [of ?s "d_next n" ds'] n(3) ds show ?case by (simp add: ds'_def)
qed

text \<open>The mapping as the command finds it: loaded before, or by this call.\<close>

definition ospf_loads :: "ospf_env \<Rightarrow> ospf_run \<Rightarrow> fm \<Rightarrow> feature_spec list \<Rightarrow> bool" where
  "ospf_loads env s h fs \<longleftrightarrow> fs \<noteq> [] \<and> (\<exists>gs. fm_rep h gs fs) \<and>
     (if oinit s then oheap s = h \<and> ohead s = feature_head h else get_feature_mapping (os_fm env) (oheap s) = Inr (feature_head h, h))"

lemma ospf_feature_run:
  assumes "flag \<in> {0, 1, 2}" "ospf_loads env s h fs"
  shows "ospf_feature env name argv (length argv) flag s = Some (case find (\<lambda>f. fs_name f = name) fs of
     None \<Rightarrow> Inl NullDeref
   | Some f \<Rightarrow> Inr (CMD_SUCCESS, s\<lparr>oheap := h, ohead := feature_head h, oinit := True,
       oout := oout s @ concat (map (ospf_says env flag argv) (map fst (fs_daemons f))),
       osent := osent s @ concat (map (ospf_sends env flag argv) (map fst (fs_daemons f)))\<rparr>))"
proof -
  obtain gs where rep: "fm_rep h gs fs" using assms(2) by (auto simp: ospf_loads_def)
  have g: "(if oinit s then Inr (ohead s, oheap s) else get_feature_mapping (os_fm env) (oheap s)) = Inr (feature_head h, h)"
    using assms(2) by (auto simp: ospf_loads_def)
  have hd: "feature_head h \<noteq> None" using fm_rep_head [OF rep] assms(2) by (simp add: ospf_loads_def)
  have path: "lpath f_next (features h) (feature_head h) (map fst gs)" "list_all2 (feature_at h) gs fs"
    using rep by (simp_all add: fm_rep_def)
  show ?thesis
  proof (cases "find (\<lambda>f. fs_name f = name) fs")
    case None
    with find_feature_path [OF path, of name] have "find_feature name (feature_head h) h = Some (Inr None)" by simp
    then show ?thesis unfolding ospf_feature_def g and_then_simps prod.case using hd None by simp
  next
    case (Some f)
    with find_feature_path [OF path, of name] obtain n as where n: "find_feature name (feature_head h) h = Some (Inr (Some n))"
      "lpath d_next (daemons h) (p_daemon n) as" "contents daemon_val (daemons h) as = fs_daemons f" by auto
    let ?s = "s\<lparr>oheap := h, ohead := feature_head h, oinit := True\<rparr>"
    have "ospf_daemons env argv (length argv) flag (p_daemon n) ?s = Some (Inr (?s\<lparr>oout := oout ?s @ concat (map (ospf_says env flag argv) (map fst (fs_daemons f))),
      osent := osent ?s @ concat (map (ospf_sends env flag argv) (map fst (fs_daemons f)))\<rparr>))"
      by (rule ospf_daemons_path [OF assms(1), where as = as]) (simp_all add: n(2,3))
    then show ?thesis unfolding ospf_feature_def g and_then_simps prod.case using hd Some n(1) by simp
  qed
qed

section \<open>A concrete system\<close>

definition demo_ospf :: ospf_env where
  "demo_ospf = \<lparr>os_fm = routing_env,
     os_conn = \<lparr>ovs_rundir = Some ''/run'', access_w = \<lambda>_. False, file_text = \<lambda>f. Some (show_nat 7 @ [CHR 0x0A]), client_create = \<lambda>_. 0\<rparr>,
     os_transact = (\<lambda>c cmd ts. (0, Some c, None)), os_nl = []\<rparr>"

definition ospf0 :: ospf_run where
  "ospf0 = \<lparr>oheap = fm0, ohead = None, oinit = False, oout = [], osent = []\<rparr>"

lemma demo_ospf_loads: "\<exists>h. ospf_loads demo_ospf ospf0 h [routing_feature]"
proof -
  obtain h gs where "get_feature_mapping routing_env fm0 = Inr (feature_head h, h)"
    "fm_rep h gs (snd (spec_parse (yscalars (ystream (concat (map feature_scalars [routing_feature])))) (0, [])))"
    using mapping_run [of routing_env "ystream (concat (map feature_scalars [routing_feature]))"] by (auto simp: routing_env_def)
  with spec_features [of "[routing_feature]" 0 "[]"] routing_wf show ?thesis
    by (auto simp: ospf_loads_def demo_ospf_def ospf0_def)
qed

section \<open>Properties\<close>

text \<open>C40: \<open>debug ospfv2\<close> and \<open>no debug ospfv2\<close> send their words, with the command that belongs to the
  form used, once to every daemon of the feature that can be reached, in the order of the file,
  print what each answers or that it cannot be reached, and report success whatever happened.\<close>

theorem ospf_debug_sends:
  assumes "ospf_loads env s h fs" "find (\<lambda>f. fs_name f = hd argv) fs = Some f" "2 \<le> length argv" "length argv \<le> 5" "flag \<in> {0, 2}"
  shows "ospf_debug env argv flag s = Some (Inr (CMD_SUCCESS, s\<lparr>oheap := h, ohead := feature_head h, oinit := True,
     oout := oout s @ concat (map (ospf_says env flag argv) (map fst (fs_daemons f))),
     osent := osent s @ concat (map (ospf_sends env flag argv) (map fst (fs_daemons f)))\<rparr>))"
proof -
  have "flag \<in> {0, 1, 2}" using assms(5) by auto
  from ospf_feature_run [OF this assms(1), of "hd argv" argv] show ?thesis using assms(2-4) by (simp add: ospf_debug_def)
qed

lemma ospf_debug_sends_witness:
  "\<exists>s. ospf_debug demo_ospf [''routing'', ''event''] 2 ospf0 = Some (Inr (CMD_SUCCESS, s)) \<and>
    osent s = concat (map (ospf_sends demo_ospf 2 [''routing'', ''event'']) [''ops-ospfd'', ''ops-bgpd''])"
proof -
  obtain h where h: "ospf_loads demo_ospf ospf0 h [routing_feature]" using demo_ospf_loads by blast
  have f: "find (\<lambda>f. fs_name f = hd [''routing'', ''event'']) [routing_feature] = Some routing_feature" by (simp add: routing_feature_def)
  from ospf_debug_sends [OF h f, of 2] show ?thesis by (simp add: ospf0_def routing_feature_def)
qed

text \<open>When the feature mapping has no feature of the name that the commands look for, all of them
  follow a NULL pointer and the shell dies.\<close>

theorem ospf_unknown_feature_crashes:
  assumes "ospf_loads env s h fs" "hd argv \<notin> fs_name ` set fs"
  shows "(2 \<le> length argv \<and> length argv \<le> 5 \<longrightarrow> debug_ospf_packet env argv s = Some (Inl NullDeref) \<and>
      no_debug_ospf_packet env argv s = Some (Inl NullDeref)) \<and>
    (length argv = 1 \<longrightarrow> show_debugging_info env argv s = Some (Inl NullDeref))"
proof -
  have f: "find (\<lambda>f. fs_name f = hd argv) fs = None" using assms(2) by (simp add: find_None_iff image_iff) metis
  note r = ospf_feature_run [OF _ assms(1), of _ "hd argv"]
  have "show_debugging_info env argv s = Some (Inl NullDeref)" if "length argv = 1"
    using r [of 1 argv] f that by (cases argv) (simp_all add: show_debugging_info_def)
  then show ?thesis
    using r [of 0 argv] r [of 2 argv] f by (simp add: debug_ospf_packet_def no_debug_ospf_packet_def ospf_debug_def)
qed

lemma ospf_unknown_feature_crashes_witness:
  "debug_ospf_packet demo_ospf [''ospfv2'', ''all''] ospf0 = Some (Inl NullDeref)"
proof -
  obtain h where h: "ospf_loads demo_ospf ospf0 h [routing_feature]" using demo_ospf_loads by blast
  have f: "hd [''ospfv2'', ''all''] \<notin> fs_name ` set [routing_feature]" by (simp add: routing_feature_def)
  from ospf_unknown_feature_crashes [OF h f] show ?thesis by simp
qed

text \<open>The connection that this file has of its own is the one of the utility functions: it reads
  the same number from a pid file, and for a name that is no path it reaches the same socket
  whenever the socket without a number cannot be written.\<close>

theorem ospf_connect_is_connect_to_daemon:
  shows "vtysh_ospf_read_pid_file env pidfile = read_pid_file env pidfile \<and>
    ((\<forall>t rundir. target = Some t \<and> ovs_rundir env = Some rundir \<longrightarrow>
        (t = [] \<or> hd t \<noteq> CHR ''/'') \<and> \<not> access_w env (rundir @ ''/'' @ t @ ''.ctl'')) \<longrightarrow>
      vtysh_ospf_connect_to_target env target = connect_to_daemon env target)"
proof -
  have p: "vtysh_ospf_read_pid_file env f = read_pid_file env f" for f
    by (auto simp: vtysh_ospf_read_pid_file_def read_pid_file_def split: option.splits prod.splits)
  then show ?thesis
    by (auto simp: vtysh_ospf_connect_to_target_def connect_to_daemon_def Let_def split: option.splits)
qed

lemma ospf_connect_is_connect_to_daemon_witness:
  "vtysh_ospf_connect_to_target (os_conn demo_ospf) (Some ''ops-ospfd'') = connect_to_daemon (os_conn demo_ospf) (Some ''ops-ospfd'')"
  using ospf_connect_is_connect_to_daemon [of "os_conn demo_ospf" None "Some ''ops-ospfd''"] by (simp add: demo_ospf_def)

end
