(* ===== verification/Spec2Isabelle.thy ===== *)
theory Spec2Isabelle
  imports Event_Log Feature_Mapping Syslog_Context Show_Tech_Correct Show_Tech_Thread Show_Tech_Cmd
    Show_Tech_Print Diag_Dump_Outcomes Diag_Handler Copy_Core_Dump_Correct Logged_Events Show_Vlog_Correct Registration_Correct Ospf_Debug
begin

text \<open>
  A model of \<open>ops-supportability\<close>, the support tools of the OpenSwitch network operating
  system: the event log library, the utility functions, the feature mapping, the show tech
  configuration, and the commands of the vtysh: show tech, diag-dump, the core dump list and
  its copy, show events, show vlog and vlog, remote syslog, the debug commands of OSPF, and the
  registration of all of them.

  \<^bold>\<open>Parts of the program and theories\<close>

  \<^item> \<open>Prelude\<close>: faults and results of C code (\<open>cres\<close>: a value or the fault that the code
    runs into), \<open>and_then\<close> for code that may also not return (an option around a \<open>cres\<close>),
    array access with its bounds, the locale \<open>table_lookup\<close> of a scan through a constant table.
  \<^item> \<open>CLib\<close>, \<open>Regex\<close>, \<open>Yaml\<close>, \<open>Vtysh\<close>: what the code uses of the C library (\<open>strtok\<close>,
    \<open>strncat\<close>, \<open>atoi\<close>, \<open>snprintf\<close>), of POSIX regular expressions, the event stream of
    libyaml, and the arguments and results of a vtysh command.
  \<^item> \<open>Supportability_Utils\<close> (\<open>src/src/supportability_utils.c\<close>): \<open>strcmp_with_nullcheck\<close>,
    \<open>trim_white_space\<close>, \<open>validate_cli_args\<close>, the control socket of a daemon by its pid file.
    The system calls are an environment record.
  \<^item> \<open>Event_Table\<close> and \<open>Event_Log\<close> (\<open>src/src/eventlog/eventlog.c\<close>): the state \<open>evlog\<close> is the
    static event table, the category table and its index. \<open>event_log_init\<close> reads the YAML
    tokens of the events file; \<open>key_value_string\<close> and \<open>log_event\<close> build the journal entry,
    which is the value that \<open>log_event\<close> returns.
  \<^item> \<open>Linked_Store\<close>: stores of nodes by address and paths through their next pointers, the
    locale \<open>linked_list\<close> with one interpretation per node type of the code.
  \<^item> \<open>Feature_Mapping\<close> (\<open>src/src/featuremapping/feature_mapping.c\<close>): the lists of features
    and daemons on the heap and the YAML event loop that builds them.
  \<^item> \<open>Show_Tech_Config\<close> (\<open>src/src/showtech/showtech.c\<close>): the five node types on the heap,
    the add and set functions, the event loop, \<open>free_feature_data\<close>. \<open>Show_Tech_Heap\<close> says which
    tree a heap represents and how each operation changes it, \<open>Show_Tech_Parse\<close> relates the
    event loop to a parser on values, \<open>Show_Tech_Spec\<close> states the properties.
    \<open>Show_Tech_Print\<close> has the two functions that print the tree.
  \<^item> \<open>Show_Tech_Vty\<close> (\<open>src/src/cli/show_tech_vty.c\<close>): the show tech command on that heap.
    \<open>Show_Tech_Run\<close> describes its loops as runs over the command nodes in order,
    \<open>Show_Tech_Correct\<close> states the properties. \<open>Show_Tech_Thread\<close> models how one command is
    executed by a thread of its own: step relations of the main thread, the command's thread
    and the signal handlers over one state with the two mutexes and the condition variable.
    \<open>Show_Tech_Cmd\<close> is the command itself, with bashcat.
  \<^item> \<open>Syslog_Vty\<close> (\<open>src/src/cli/syslog_vty.c\<close>) and \<open>Syslog_Context\<close>
    (\<open>src/src/cli/vtysh_ovsdb_syslog_context.c\<close>): the logging commands and the running
    configuration. The database is the parameter \<open>idl\<close>, a record of the operations that the
    code calls, with their documented laws \<open>idl_ok\<close>.
  \<^item> \<open>Feature_Walk\<close>: the search for a feature by name, which several commands share, as a walk
    over the heap and as a search in the list of the file.
  \<^item> \<open>Diag_Dump\<close> (\<open>src/src/cli/diag_dump_vty.c\<close>): diag-dump and its list over the feature
    mapping. \<open>Diag_Dump_Run\<close> describes the loops as functions on lists, \<open>Diag_Dump_Correct\<close>
    states the properties. \<open>Diag_Dump_Thread\<close> models the two threads behind one daemon's dump
    and the signal handlers, output by output, and shows that the sequential model allows every
    end they come to; \<open>Diag_Dump_Outcomes\<close> that they come to every end it allows. \<open>Diag_Handler\<close> (\<open>src/include/diag_dump.h\<close>) is the handler that a daemon
    registers, and connects it with the command.
  \<^item> \<open>Captures\<close>: \<open>regexec\<close> with the offsets of its groups, and \<open>glob\<close> patterns. \<open>Core_Dump\<close>
    (\<open>src/src/cli/core_dump.c\<close> and \<open>src/src/cli/show_core_dump_vty.c\<close>): the record of a core, the
    arrays of which are kept as arrays, the patterns and the list. \<open>Core_Dump_Spec\<close> says what is
    read from a name as functions on strings, \<open>Core_Dump_Correct\<close> states the properties.
    \<open>Copy_Core_Dump\<close> (\<open>src/src/cli/copy_core_dump_vty.c\<close>) and \<open>Copy_Core_Dump_Correct\<close>: the
    checks on the arguments and the runs of the copy script.
  \<^item> \<open>Journal\<close>: entries, matches and fields of the systemd journal, which is a parameter with its
    documented laws \<open>journal_of\<close>. \<open>Show_Events\<close> (\<open>src/src/cli/show_events_vty.c\<close>) with
    \<open>Show_Events_Correct\<close>, and \<open>Logged_Events\<close>, which leads from \<open>log_event\<close> through the journal to
    the line that \<open>show events\<close> prints.
  \<^item> \<open>Show_Vlog\<close> (\<open>src/src/cli/show_vlog_vty.c\<close>) with \<open>Show_Vlog_Correct\<close>: the levels of the
    daemons, asked for and set over their sockets, and the messages in the journal. The static
    variables \<open>feature_head\<close>, \<open>initialized\<close> and \<open>flag\<close> are fields of the state.
  \<^item> \<open>Ospf_Debug\<close> (\<open>src/src/cli/quagga/ospf_debug_vty.c\<close>): the debug commands, which pass their
    words on to the daemons of a feature.
  \<^item> \<open>Registration\<close> (\<open>src/src/cli/supportability_vty.c\<close>) with \<open>Registration_Correct\<close>: the command
    strings that are built at start-up, and the order in which the commands are installed.

  \<^bold>\<open>How the parts work together\<close>

  The utilities serve everything. A daemon calls \<open>event_log_init\<close> for its category and then
  \<open>log_event\<close>; the property below follows one event from the file to the journal, and
  \<open>Logged_Events\<close> from there to the console. The show tech command asks \<open>get_showtech_config\<close> for
  the tree and runs it. diag-dump, show vlog, vlog and the OSPF commands ask \<open>get_feature_mapping\<close>
  for the features and talk to their daemons. The syslog commands write the table that the
  running configuration prints. The registration reads the same three files for the words of
  its commands.

  \<^bold>\<open>What the lemmas show\<close>

  Invariants: the event library's state and the table of syslog servers. Refinement: the
  feature mapping and the show tech heap against parsers on values, the logging commands
  against an update of a map from hosts to settings. Equivalence: following the pointers of the
  mapping against loops over the list in the file, and the interleavings of the threads of a
  dump against the function that the command calls. Round trips: a file written from a value
  loads as that value, the running configuration fed back gives the same servers, the name of
  a core gives the data it was made from. Functional behaviour: what each command prints, sends
  and executes, as a function of the files, the journal and the answers of the daemons. Safety: no
  operation touches freed memory or leaves an array, except in the cases that are stated as
  properties of their own, because the code does. Behaviour at the end of the input: the loops
  that do not return are \<open>None\<close>, with theorems that say when. Interleavings: invariants of the
  reachable states of the two threads of a show tech command, and the states in which they
  block each other.

  \<^bold>\<open>Bounds and fuel\<close>

  No fuel is used. Loops over heap lists and over input are structural recursions or
  \<open>partial_function (option)\<close>, for which the theorems show that they return. Sizes are the
  ones of the source: 500 events, 99 categories, 128 and 256 byte buffers, four syslog
  servers, 160 byte file names. Lengths that the code computes as \<open>unsigned int\<close> are words.

  \<^bold>\<open>Not modelled\<close>

  Memory that is not reached through the modelled pointers, logging with VLOG, the text of a
  page pager, the python daemon, and the contents of the data files under \<open>conf\<close>. In \<open>Show_Tech_Vty\<close> and \<open>Diag_Dump\<close> the end of the thread for
  one command or one daemon is an observation of the environment, which \<open>Show_Tech_Thread\<close> and
  \<open>Diag_Dump_Thread\<close> explain; what the threads print is part of the second only. There a signal
  handler runs apart from both threads, and the order in which two speakers share the console
  is kept, but the refinement reads off what each of them said. The vtysh, unixctl, the journal, local time, extended attributes and the
  range parser of the vtysh are parameters; where a property relies on what they do, their
  documented behaviour is a hypothesis of it. A field of the journal stands for its bytes up to
  the first NUL, because the code reads it as a string.
\<close>

section \<open>From the events file to the journal\<close>

text \<open>C3: the event log library from end to end: on the initial state, \<open>event_log_init\<close> for a
  category of a well-formed events file and then \<open>log_event\<close> for one of that category's events,
  with a pair for each key of its template, send to the journal the event's template with
  every key replaced by its value, under the event's severity, number and category.\<close>

theorem event_file_to_journal:
  assumes loading: "env_ok env" "yaml_file env = Some ts" "events_file pre ds ts"
      "\<forall>d\<in>set ds. wf_def c d" "c \<notin> evt_keywords" "length (wanted c ds) < 499"
    and event: "wanted c ds = ds1 @ d # ds2"
      "\<forall>d'\<in>set ds1. ed_name d' \<noteq> ed_name d \<and> ed_template d' \<noteq> EVENT_NAME_DELIMITER_STR"
      "event_description (event_of d) = render t" "wf_template t" "num_of_keys (event_of d) = int (length kvs)"
      "severity (event_of d) \<in> set log_sev"
    and call: "fits (le_pad lenv) kvs t" "le_asprintf lenv" "le_asprintf_msg lenv"
  shows "\<exists>s buf' fields. event_log_init env (Some c) evlog0 = Some (Inr (1, s)) \<and>
    fields = event_fields (event_of d) (render (fill_all kvs t)) (take 255 (pairs_text kvs)) \<and>
    log_event lenv (Some (ed_name d)) (map EV_KV kvs) s buf = Some (Inr (le_journal lenv fields, buf', Some fields))"
proof -
  have names: "event_name (event_of x) = ed_name x" "event_description (event_of x) = ed_template x" for x
    by (simp_all add: event_of_def)
  obtain s where s: "event_log_init env (Some c) evlog0 = Some (Inr (1, s))" "evlog_inv s"
    "log_events s = map event_of ds1 @ event_of d # map event_of ds2"
    using init_loads [of evlog0 env c ts pre ds] loading event(1) by auto
  have nth: "log_events s ! length ds1 = event_of d" by (simp add: s(3) nth_append)
  have "\<forall>j<length ds1. event_name (log_events s ! j) \<noteq> event_name (event_of d) \<and>
      event_description (log_events s ! j) \<noteq> EVENT_NAME_DELIMITER_STR"
    using event(2) by (auto simp: s(3) nth_append names)
  moreover have "length ds1 < length (log_events s)" "length ds1 \<noteq> 499"
    using loading(6) event(1) s(3) by auto
  ultimately obtain buf' fields where "fields = event_fields (event_of d) (render (fill_all kvs t)) (take 255 (pairs_text kvs))"
    "log_event lenv (Some (event_name (event_of d))) (map EV_KV kvs) s buf = Some (Inr (le_journal lenv fields, buf', Some fields))"
    using log_event_sends [OF s(2), of "length ds1" "event_of d" t kvs lenv buf] nth event(3-6) call by auto
  with s(1) names show ?thesis by auto
qed

theorem event_file_to_journal_witness:
  "\<exists>s buf' fields. event_log_init (file_env [lldp_def, lacp_def]) (Some ''LAG'') evlog0 = Some (Inr (1, s)) \<and>
    fields = event_fields (event_of lacp_def) (render (fill_all [(''lag_id'', ''7'')] lag_template))
      (take 255 (pairs_text [(''lag_id'', ''7'')])) \<and>
    log_event lag_env (Some (ed_name lacp_def)) (map EV_KV [(''lag_id'', ''7'')]) s [] =
      Some (Inr (le_journal lag_env fields, buf', Some fields))"
  by (rule event_file_to_journal [OF file_env_ok(1) file_env_file lldp_file _ _ _ _ _ lag_event(1,2) lag_keys
      lag_event(3) lag_fits, where ?ds1.0 = "[]" and ?ds2.0 = "[]"])
    (auto simp: wf_def_def lldp_def_def lacp_def_def evt_keywords_def strtok_cut_def)

end
